(* ===== verification/Prelude.thy ===== *)
theory Prelude
  imports Main "HOL-Library.Word" "HOL-Library.Monad_Syntax"
begin

text \<open>
  Shared vocabulary of the development: the machine integers of the Rust sources with the
  checked, saturating and wrapping operators the code calls, byte strings, the fixed-width
  integer codecs (\<open>to_le_bytes\<close>, \<open>to_be_bytes\<close> and their inverses), slice helpers
  (\<open>chunks_exact\<close>, \<open>position\<close>, \<open>rposition\<close>), and the facts about them that
  the component theories share.  An unsigned integer of the source is a word of its width.
  A \<open>usize\<close> that counts or indexes a collection is a \<open>nat\<close>; where the source
  checks \<open>usize\<close> arithmetic for overflow, the check is written against \<open>usize_bound\<close>
  (the sources are built for 64-bit targets).
\<close>

unbundle bit_operations_syntax

section \<open>Types\<close>

type_synonym u8 = "8 word"
type_synonym u16 = "16 word"
type_synonym u32 = "32 word"
type_synonym u64 = "64 word"
type_synonym usize = nat
type_synonym bytes = "u8 list"

named_theorems rust_int \<open>meaning of the checked and saturating integer operators\<close>
named_theorems codec \<open>byte codecs and their round trips\<close>

section \<open>Rust integer operators\<close>

definition checked_add :: "'a::len word \<Rightarrow> 'a word \<Rightarrow> 'a word option" where
  "checked_add a b = (if unat a + unat b < 2 ^ LENGTH('a) then Some (a + b) else None)"

definition checked_sub :: "'a::len word \<Rightarrow> 'a word \<Rightarrow> 'a word option" where
  "checked_sub a b = (if b \<le> a then Some (a - b) else None)"

definition checked_mul :: "'a::len word \<Rightarrow> 'a word \<Rightarrow> 'a word option" where
  "checked_mul a b = (if unat a * unat b < 2 ^ LENGTH('a) then Some (a * b) else None)"

definition saturating_add :: "'a::len word \<Rightarrow> 'a word \<Rightarrow> 'a word" where
  "saturating_add a b = (if unat a + unat b < 2 ^ LENGTH('a) then a + b else - 1)"

definition saturating_sub :: "'a::len word \<Rightarrow> 'a word \<Rightarrow> 'a word" where
  "saturating_sub a b = (if b \<le> a then a - b else 0)"

definition saturating_mul :: "'a::len word \<Rightarrow> 'a word \<Rightarrow> 'a word" where
  "saturating_mul a b = (if unat a * unat b < 2 ^ LENGTH('a) then a * b else - 1)"

definition usize_bound :: nat where
  "usize_bound = 2 ^ 64"

definition usize_checked_add :: "usize \<Rightarrow> usize \<Rightarrow> usize option" where
  "usize_checked_add a b = (if a + b < usize_bound then Some (a + b) else None)"

definition usize_checked_mul :: "usize \<Rightarrow> usize \<Rightarrow> usize option" where
  "usize_checked_mul a b = (if a * b < usize_bound then Some (a * b) else None)"

definition usize_checked_sub :: "usize \<Rightarrow> usize \<Rightarrow> usize option" where
  "usize_checked_sub a b = (if b \<le> a then Some (a - b) else None)"

text \<open>
  A Rust call that returns a \<open>Result\<close> and can also panic (a failed assertion, an index out
  of range): the three ways it can end, and sequencing.
\<close>

datatype ('e, 'a) outcome = Ok 'a | Err 'e | Panic

fun and_then :: "('e, 'a) outcome \<Rightarrow> ('a \<Rightarrow> ('e, 'b) outcome) \<Rightarrow> ('e, 'b) outcome" where
  "and_then (Ok x) f = f x"
| "and_then (Err e) f = Err e"
| "and_then Panic f = Panic"

section \<open>Byte codecs\<close>

fun le_bytes :: "nat \<Rightarrow> 'a::len word \<Rightarrow> bytes" where
  "le_bytes 0 w = []"
| "le_bytes (Suc n) w = ucast w # le_bytes n (drop_bit 8 w)"

fun of_le_bytes :: "bytes \<Rightarrow> 'a::len word" where
  "of_le_bytes [] = 0"
| "of_le_bytes (b # bs) = ucast b OR push_bit 8 (of_le_bytes bs)"

definition to_le_bytes :: "u64 \<Rightarrow> bytes" where
  "to_le_bytes w = le_bytes 8 w"

definition to_be_bytes :: "u64 \<Rightarrow> bytes" where
  "to_be_bytes w = rev (le_bytes 8 w)"

definition from_le_bytes :: "bytes \<Rightarrow> u64" where
  "from_le_bytes bs = of_le_bytes bs"

definition from_be_bytes :: "bytes \<Rightarrow> u64" where
  "from_be_bytes bs = of_le_bytes (rev bs)"

section \<open>Slices\<close>

fun position :: "('a \<Rightarrow> bool) \<Rightarrow> 'a list \<Rightarrow> nat option" where
  "position P [] = None"
| "position P (x # xs) = (if P x then Some 0 else map_option Suc (position P xs))"

definition rposition :: "('a \<Rightarrow> bool) \<Rightarrow> 'a list \<Rightarrow> nat option" where
  "rposition P xs = map_option (\<lambda>i. length xs - 1 - i) (position P (rev xs))"

text \<open>\<open>chunks_exact(n)\<close>: the whole chunks only; a remainder is dropped.\<close>

function chunks_exact :: "nat \<Rightarrow> 'a list \<Rightarrow> 'a list list" where
  "chunks_exact n xs =
     (if n = 0 \<or> length xs < n then [] else take n xs # chunks_exact n (drop n xs))"
  by pat_completeness auto
termination
  by (relation "measure (\<lambda>(n, xs). length xs)") auto

declare chunks_exact.simps [simp del]

text \<open>\<open>chunks(n)\<close>: the last chunk may be shorter.\<close>

function chunks :: "nat \<Rightarrow> 'a list \<Rightarrow> 'a list list" where
  "chunks n xs = (if n = 0 \<or> xs = [] then [] else take n xs # chunks n (drop n xs))"
  by pat_completeness auto
termination
  by (relation "measure (\<lambda>(n, xs). length xs)") auto

declare chunks.simps [simp del]

definition resize :: "nat \<Rightarrow> 'a \<Rightarrow> 'a list \<Rightarrow> 'a list" where
  "resize n x xs = take n xs @ replicate (n - length xs) x"

section \<open>Facts about outcomes and the integer operators\<close>

lemma and_then_Ok: "and_then m f = Ok y \<longleftrightarrow> (\<exists>x. m = Ok x \<and> f x = Ok y)"
  by (cases m) auto

lemma checked_add_Some [rust_int]:
  "checked_add a b = Some (c :: 'a::len word) \<longleftrightarrow>
     unat a + unat b < 2 ^ LENGTH('a) \<and> unat c = unat a + unat b"
proof -
  have "unat (a + b) = unat a + unat b" if "unat a + unat b < 2 ^ LENGTH('a)"
    using that by (simp add: unat_add_lem [symmetric])
  then show ?thesis
    by (auto simp: checked_add_def intro: word_unat_eq_iff [THEN iffD2])
qed

lemma checked_add_None [rust_int]:
  "checked_add a b = (None :: 'a::len word option) \<longleftrightarrow> 2 ^ LENGTH('a) \<le> unat a + unat b"
  by (auto simp: checked_add_def)

lemma checked_sub_Some [rust_int]:
  "checked_sub a b = Some (c :: 'a::len word) \<longleftrightarrow> unat b \<le> unat a \<and> unat c = unat a - unat b"
  by (auto simp: checked_sub_def word_le_nat_alt unat_sub word_unat_eq_iff)

lemma checked_sub_None [rust_int]:
  "checked_sub a b = (None :: 'a::len word option) \<longleftrightarrow> unat a < unat b"
  by (auto simp: checked_sub_def word_le_nat_alt)

lemma checked_mul_Some [rust_int]:
  "checked_mul a b = Some (c :: 'a::len word) \<longleftrightarrow>
     unat a * unat b < 2 ^ LENGTH('a) \<and> unat c = unat a * unat b"
proof -
  have "unat (a * b) = unat a * unat b" if "unat a * unat b < 2 ^ LENGTH('a)"
    using that by (simp add: unat_mult_lem [symmetric])
  then show ?thesis
    by (auto simp: checked_mul_def intro: word_unat_eq_iff [THEN iffD2])
qed

lemma checked_mul_None [rust_int]:
  "checked_mul a b = (None :: 'a::len word option) \<longleftrightarrow> 2 ^ LENGTH('a) \<le> unat a * unat b"
  by (auto simp: checked_mul_def)

lemma unat_max_word: "unat (- 1 :: 'a::len word) = 2 ^ LENGTH('a) - 1"
  by (simp add: unsigned_minus_1_eq_mask mask_eq_exp_minus_1)

lemma unat_saturating_add [rust_int]:
  "unat (saturating_add a b :: 'a::len word) = min (unat a + unat b) (2 ^ LENGTH('a) - 1)"
  by (auto simp: saturating_add_def unat_add_lem [symmetric] unat_max_word min_def)

lemma unat_saturating_sub [rust_int]:
  "unat (saturating_sub a b :: 'a::len word) = unat a - unat b"
  by (auto simp: saturating_sub_def word_le_nat_alt unat_sub)

lemma unat_saturating_mul [rust_int]:
  "unat (saturating_mul a b :: 'a::len word) = min (unat a * unat b) (2 ^ LENGTH('a) - 1)"
proof (cases "unat a * unat b < 2 ^ LENGTH('a)")
  case True
  then have "unat (a * b) = unat a * unat b"
    by (simp add: unat_mult_lem [symmetric])
  with True show ?thesis by (simp add: saturating_mul_def)
next
  case False
  then have "min (unat a * unat b) (2 ^ LENGTH('a) - 1) = 2 ^ LENGTH('a) - 1"
    by (intro min_absorb2) linarith
  with False show ?thesis by (simp add: saturating_mul_def unat_max_word)
qed

lemma u64_bound [simp]: "unat (w :: u64) < 18446744073709551616"
  using unsigned_less [of w, where 'a = nat] by simp

lemma u64_le_max [simp]: "unat (w :: u64) \<le> 18446744073709551615"
  using u64_bound [of w] by linarith

lemma u8_bound [simp]: "unat (w :: u8) < 256"
  using unsigned_less [of w, where 'a = nat] by simp

section \<open>Facts about the codecs\<close>

lemma length_le_bytes [simp]: "length (le_bytes n w) = n"
  by (induction n arbitrary: w) auto

lemma bit_of_le_bytes:
  "bit (of_le_bytes bs :: 'a::len word) k \<longleftrightarrow>
     k < LENGTH('a) \<and> k div 8 < length bs \<and> bit (bs ! (k div 8)) (k mod 8)"
proof (induction bs arbitrary: k)
  case Nil
  then show ?case by simp
next
  case (Cons b bs)
  show ?case
  proof (cases "k < 8")
    case True
    then show ?thesis
      by (auto simp: bit_or_iff bit_push_bit_iff bit_ucast_iff dest: bit_imp_le_length)
  next
    case False
    then have "k div 8 = Suc ((k - 8) div 8)" and "k mod 8 = (k - 8) mod 8"
      by (simp_all add: le_div_geq le_mod_geq)
    moreover have "\<not> bit b k"
      using False bit_imp_le_length [of b k] by auto
    ultimately show ?thesis
      using False Cons.IH [of "k - 8"]
      by (auto simp: bit_or_iff bit_push_bit_iff bit_ucast_iff)
  qed
qed

lemma le_bytes_nth: "i < n \<Longrightarrow> le_bytes n w ! i = ucast (drop_bit (8 * i) w)"
proof (induction n arbitrary: i w)
  case 0
  then show ?case by simp
next
  case (Suc n)
  then show ?case by (cases i) (simp_all add: drop_bit_drop_bit add.commute)
qed

lemma of_le_bytes_le_bytes [codec]:
  assumes "LENGTH('a) \<le> 8 * n"
  shows "of_le_bytes (le_bytes n (w :: 'a::len word)) = w"
proof (rule bit_word_eqI)
  fix k assume k: "k < LENGTH('a)"
  with assms have "k div 8 < n" by linarith
  moreover have "8 * (k div 8) + k mod 8 = k" by simp
  ultimately show "bit (of_le_bytes (le_bytes n w) :: 'a word) k \<longleftrightarrow> bit w k"
    using k by (simp add: bit_of_le_bytes le_bytes_nth bit_ucast_iff bit_drop_bit_eq)
qed

lemma le_bytes_of_le_bytes [codec]:
  assumes "8 * length bs \<le> LENGTH('a)"
  shows "le_bytes (length bs) (of_le_bytes bs :: 'a::len word) = bs"
proof (rule nth_equalityI)
  show "length (le_bytes (length bs) (of_le_bytes bs :: 'a word)) = length bs" by simp
next
  fix i assume "i < length (le_bytes (length bs) (of_le_bytes bs :: 'a word))"
  then have i: "i < length bs" by simp
  have "bit (le_bytes (length bs) (of_le_bytes bs :: 'a word) ! i) k \<longleftrightarrow> bit (bs ! i) k"
    if k: "k < 8" for k
  proof -
    have "8 * i + k < LENGTH('a)" using i k assms by linarith
    then show ?thesis
      using i k by (simp add: le_bytes_nth bit_ucast_iff bit_drop_bit_eq bit_of_le_bytes)
  qed
  then show "le_bytes (length bs) (of_le_bytes bs :: 'a word) ! i = bs ! i"
    by (intro bit_word_eqI) simp
qed

lemma length_to_bytes [simp]: "length (to_le_bytes w) = 8" "length (to_be_bytes w) = 8"
  by (simp_all add: to_le_bytes_def to_be_bytes_def)

lemma from_le_bytes_to_le_bytes [codec, simp]: "from_le_bytes (to_le_bytes w) = w"
  by (simp add: from_le_bytes_def to_le_bytes_def of_le_bytes_le_bytes)

lemma from_be_bytes_to_be_bytes [codec, simp]: "from_be_bytes (to_be_bytes w) = w"
  by (simp add: from_be_bytes_def to_be_bytes_def of_le_bytes_le_bytes)

lemma to_le_bytes_from_le_bytes [codec]: "length bs = 8 \<Longrightarrow> to_le_bytes (from_le_bytes bs) = bs"
  using le_bytes_of_le_bytes [of bs, where 'a = 64]
  by (simp add: from_le_bytes_def to_le_bytes_def)

lemma to_be_bytes_from_be_bytes [codec]: "length bs = 8 \<Longrightarrow> to_be_bytes (from_be_bytes bs) = bs"
  using le_bytes_of_le_bytes [of "rev bs", where 'a = 64]
  by (simp add: from_be_bytes_def to_be_bytes_def)

lemma to_be_bytes_inject [simp]: "to_be_bytes a = to_be_bytes b \<longleftrightarrow> a = b"
  by (metis from_be_bytes_to_be_bytes)

lemma to_le_bytes_inject [simp]: "to_le_bytes a = to_le_bytes b \<longleftrightarrow> a = b"
  by (metis from_le_bytes_to_le_bytes)

section \<open>Facts about slices\<close>

lemma position_None: "position P xs = None \<longleftrightarrow> (\<forall>x \<in> set xs. \<not> P x)"
  by (induction xs) auto

lemma position_Some:
  "position P xs = Some i \<longleftrightarrow> i < length xs \<and> P (xs ! i) \<and> (\<forall>j < i. \<not> P (xs ! j))"
proof (induction xs arbitrary: i)
  case Nil
  then show ?case by simp
next
  case (Cons x xs)
  show ?case
  proof (cases i)
    case 0
    then show ?thesis by auto
  next
    case (Suc k)
    then show ?thesis using Cons.IH [of k] by (auto simp: less_Suc_eq_0_disj)
  qed
qed

lemma rposition_None: "rposition P xs = None \<longleftrightarrow> (\<forall>x \<in> set xs. \<not> P x)"
  by (simp add: rposition_def position_None)

lemma rposition_SomeD:
  assumes "rposition P xs = Some i"
  shows "i < length xs" "P (xs ! i)" "\<forall>j. i < j \<longrightarrow> j < length xs \<longrightarrow> \<not> P (xs ! j)"
proof -
  obtain k where k: "position P (rev xs) = Some k" and i: "i = length xs - 1 - k"
    using assms by (auto simp: rposition_def)
  then have k': "k < length xs" and P: "P (rev xs ! k)" and min: "\<forall>j < k. \<not> P (rev xs ! j)"
    by (auto simp: position_Some)
  show "i < length xs" using k' i by linarith
  show "P (xs ! i)" using P k' i by (simp add: rev_nth)
  show "\<forall>j. i < j \<longrightarrow> j < length xs \<longrightarrow> \<not> P (xs ! j)"
  proof (intro allI impI)
    fix j assume j: "i < j" "j < length xs"
    then have "length xs - 1 - j < k" using i k' by linarith
    with min have "\<not> P (rev xs ! (length xs - 1 - j))" by blast
    with j show "\<not> P (xs ! j)" by (simp add: rev_nth)
  qed
qed

lemma chunks_exact_Nil [simp]: "chunks_exact n [] = []"
  by (cases n) (simp_all add: chunks_exact.simps)

lemma chunks_exact_append:
  "length x = n \<Longrightarrow> 0 < n \<Longrightarrow> chunks_exact n (x @ xs) = x # chunks_exact n xs"
  by (simp add: chunks_exact.simps [of n "x @ xs"])

lemma chunks_exact_concat:
  "(\<forall>x \<in> set xss. length x = n) \<Longrightarrow> 0 < n \<Longrightarrow> chunks_exact n (concat xss) = xss"
  by (induction xss) (auto simp: chunks_exact_append)

lemma length_chunks_exact: "0 < n \<Longrightarrow> length (chunks_exact n xs) = length xs div n"
proof (induction n xs rule: chunks_exact.induct)
  case (1 n xs)
  then show ?case
    by (cases "length xs < n") (simp_all add: chunks_exact.simps [of n xs] le_div_geq)
qed

lemma chunks_exact_lengths: "\<forall>x \<in> set (chunks_exact n xs). length x = n"
proof (induction n xs rule: chunks_exact.induct)
  case (1 n xs)
  then show ?case by (cases "n = 0 \<or> length xs < n") (auto simp: chunks_exact.simps [of n xs])
qed

lemma concat_chunks_exact:
  "0 < n \<Longrightarrow> n dvd length xs \<Longrightarrow> concat (chunks_exact n xs) = xs"
proof (induction n xs rule: chunks_exact.induct)
  case (1 n xs)
  show ?case
  proof (cases "length xs < n")
    case True
    with "1.prems" have "xs = []" by (auto dest: dvd_imp_le)
    then show ?thesis by simp
  next
    case False
    moreover from this "1.prems" have "n dvd length (drop n xs)"
      by (simp add: dvd_minus_self)
    ultimately show ?thesis
      using "1.IH" "1.prems" by (simp add: chunks_exact.simps [of n xs])
  qed
qed

lemma chunks_Nil [simp]: "chunks n [] = []"
  by (simp add: chunks.simps)

lemma length_resize [simp]: "length (resize n x xs) = n"
  by (simp add: resize_def)

end
