(* ===== verification/GF256.thy ===== *)
theory GF256
  imports Prelude
begin

text \<open>
  The arithmetic of \<open>src/erasure_coding.rs\<close> in the field with 256 elements: the shift-and-xor
  multiplication loop \<open>gf_mul\<close>, powers, and division by exponentiation.  The loops are
  translated as they are written; the byte operations are then shown to be a field (addition is
  XOR), so that the linear algebra over coding matrices can use the library's \<open>field\<close> class
  through the type \<open>gf256\<close> of bytes read as field elements.
\<close>

section \<open>Operations of the source\<close>

text \<open>One doubling of the loop body: \<open>left <<= 1\<close>, reduced when the high bit was set.\<close>

definition gf_double :: "u8 \<Rightarrow> u8" where
  "gf_double left =
     (let high = left AND 0x80; left' = push_bit 1 left
      in if high \<noteq> 0 then left' XOR 0x1d else left')"

fun gf_mul_loop :: "nat \<Rightarrow> u8 \<Rightarrow> u8 \<Rightarrow> u8 \<Rightarrow> u8" where
  "gf_mul_loop 0 left right result = result"
| "gf_mul_loop (Suc n) left right result =
     gf_mul_loop n (gf_double left) (drop_bit 1 right)
       (if right AND 1 \<noteq> 0 then result XOR left else result)"

definition gf_mul :: "u8 \<Rightarrow> u8 \<Rightarrow> u8" where
  "gf_mul left right = gf_mul_loop 8 left right 0"

fun gf_pow_loop :: "nat \<Rightarrow> u8 \<Rightarrow> u8 \<Rightarrow> u8" where
  "gf_pow_loop 0 value result = result"
| "gf_pow_loop (Suc n) value result = gf_pow_loop n value (gf_mul result value)"

definition gf_pow :: "u8 \<Rightarrow> nat \<Rightarrow> u8" where
  "gf_pow value exponent = gf_pow_loop exponent value 1"

function gf_inv_loop :: "nat \<Rightarrow> u8 \<Rightarrow> u8 \<Rightarrow> u8" where
  "gf_inv_loop exponent base acc =
     (if exponent = 0 then acc
      else gf_inv_loop (exponent div 2) (gf_mul base base)
             (if odd exponent then gf_mul acc base else acc))"
  by pat_completeness auto
termination
  by (relation "measure fst") auto

declare gf_inv_loop.simps [simp del]

text \<open>The source asserts that the denominator is not zero; the assertion is \<open>None\<close>.\<close>

definition gf_div :: "u8 \<Rightarrow> u8 \<Rightarrow> u8 option" where
  "gf_div numerator denominator =
     (if denominator = 0 then None
      else if numerator = 0 then Some 0
      else Some (gf_mul numerator (gf_inv_loop 254 denominator 1)))"

definition multiplication_table :: "u8 list list" where
  "multiplication_table =
     map (\<lambda>left. map (\<lambda>right. gf_mul (word_of_nat left) (word_of_nat right)) [0..<256]) [0..<256]"

section \<open>Multiplication is bilinear\<close>

lemma and_one_xor:
  "(a XOR b) AND 1 \<noteq> (0 :: u8) \<longleftrightarrow> (a AND 1 \<noteq> 0) \<noteq> (b AND 1 \<noteq> 0)"
  by (simp add: and_one_eq even_xor_iff flip: odd_iff_mod_2_eq_one)

lemma and_bit_cases: "r AND 2 ^ j = (if bit r j then 2 ^ j else (0 :: u8))"
  by (rule bit_word_eqI) (auto simp: bit_and_iff bit_exp_iff)

lemma high_bit: "(a AND 0x80 \<noteq> (0 :: u8)) \<longleftrightarrow> bit a 7"
  using and_bit_cases [of a 7] by simp

lemma gf_double_alt: "gf_double a = push_bit 1 a XOR (if bit a 7 then 0x1d else 0)"
  by (simp add: gf_double_def high_bit Let_def)

lemma gf_double_xor: "gf_double (a XOR b) = gf_double a XOR gf_double b"
  by (simp add: gf_double_alt push_bit_xor bit_xor_iff xor.assoc xor.left_commute xor.commute)

lemma gf_double_0 [simp]: "gf_double 0 = 0"
  by (simp add: gf_double_alt)

lemma gf_mul_loop_acc: "gf_mul_loop n l r (a XOR b) = a XOR gf_mul_loop n l r b"
  by (induction n arbitrary: l r a b) (simp_all add: xor.assoc)

lemma gf_mul_loop_acc0: "gf_mul_loop n l r a = a XOR gf_mul_loop n l r 0"
  using gf_mul_loop_acc [of n l r a 0] by simp

lemma gf_mul_loop_Suc0:
  "gf_mul_loop (Suc n) l r 0 =
     (if r AND 1 \<noteq> 0 then l else 0) XOR gf_mul_loop n (gf_double l) (drop_bit 1 r) 0"
  using gf_mul_loop_acc0 [of n "gf_double l" "drop_bit 1 r" l] by simp

lemma gf_mul_loop_right_zero [simp]: "gf_mul_loop n l 0 0 = 0"
  by (induction n arbitrary: l) simp_all

lemma gf_mul_loop_left_zero [simp]: "gf_mul_loop n 0 r 0 = 0"
  by (induction n arbitrary: r) simp_all

lemma gf_mul_loop_xor_right:
  "gf_mul_loop n l (r XOR s) 0 = gf_mul_loop n l r 0 XOR gf_mul_loop n l s 0"
proof (induction n arbitrary: l r s)
  case 0
  then show ?case by simp
next
  case (Suc n)
  show ?case
    unfolding gf_mul_loop_Suc0 Suc.IH drop_bit_xor and_one_xor
    by (auto simp: xor.assoc xor.left_commute xor.commute)
qed

lemma gf_mul_loop_xor_left:
  "gf_mul_loop n (l XOR m) r 0 = gf_mul_loop n l r 0 XOR gf_mul_loop n m r 0"
proof (induction n arbitrary: l m r)
  case 0
  then show ?case by simp
next
  case (Suc n)
  show ?case
    unfolding gf_mul_loop_Suc0 gf_double_xor Suc.IH
    by (auto simp: xor.assoc xor.left_commute xor.commute)
qed

lemma gf_mul_loop_double: "gf_mul_loop n (gf_double l) r 0 = gf_double (gf_mul_loop n l r 0)"
proof (induction n arbitrary: l r)
  case 0
  then show ?case by simp
next
  case (Suc n)
  show ?case
    unfolding gf_mul_loop_Suc0 gf_double_xor Suc.IH by auto
qed

lemma gf_mul_loop_basis:
  "j < n \<Longrightarrow> j < 8 \<Longrightarrow> gf_mul_loop n l (2 ^ j) 0 = (gf_double ^^ j) l"
proof (induction n arbitrary: j l)
  case 0
  then show ?case by simp
next
  case (Suc n)
  show ?case
  proof (cases j)
    case 0
    then show ?thesis unfolding gf_mul_loop_Suc0 by simp
  next
    case (Suc i)
    have "(2 :: u8) ^ Suc i AND 1 = 0"
      using and_bit_cases [of "2 ^ Suc i" 0] by (simp add: bit_exp_iff del: power_Suc)
    moreover have "drop_bit 1 ((2 :: u8) ^ Suc i) = 2 ^ i"
      using Suc.prems(2) Suc
      by (intro bit_word_eqI) (auto simp: bit_drop_bit_eq bit_exp_iff simp del: power_Suc)
    ultimately show ?thesis
      using Suc.IH [of i "gf_double l"] Suc Suc.prems
      unfolding gf_mul_loop_Suc0 by (simp add: funpow_swap1)
  qed
qed

lemma double_basis: "j < 8 \<Longrightarrow> (gf_double ^^ j) 1 = 2 ^ j"
proof (induction j)
  case 0
  then show ?case by simp
next
  case (Suc j)
  then have "\<not> bit ((2 :: u8) ^ j) 7" by (simp add: bit_exp_iff)
  with Suc show ?case by (simp add: gf_double_alt)
qed

section \<open>Additive functions are determined on the bits\<close>

lemma and_xor_distrib: "r AND (a XOR b) = (r AND a) XOR (r AND b :: u8)"
  by (rule bit_word_eqI) (auto simp: bit_and_iff bit_xor_iff)

lemma u8_bits:
  "(r :: u8) = (r AND 1) XOR (r AND 2) XOR (r AND 4) XOR (r AND 8) XOR
     (r AND 16) XOR (r AND 32) XOR (r AND 64) XOR (r AND 128)"
proof -
  have "r AND 1 XOR (r AND 2) XOR (r AND 4) XOR (r AND 8) XOR
          (r AND 16) XOR (r AND 32) XOR (r AND 64) XOR (r AND 128) =
        r AND (1 XOR 2 XOR 4 XOR 8 XOR 16 XOR 32 XOR 64 XOR 128)"
    by (simp only: and_xor_distrib)
  also have "(1 XOR 2 XOR 4 XOR 8 XOR 16 XOR 32 XOR 64 XOR 128 :: u8) = - 1" by simp
  finally show ?thesis by simp
qed

lemma additive_eqI:
  fixes f g :: "u8 \<Rightarrow> u8"
  assumes f: "\<And>a b. f (a XOR b) = f a XOR f b"
    and g: "\<And>a b. g (a XOR b) = g a XOR g b"
    and basis: "\<And>j. j < 8 \<Longrightarrow> f (2 ^ j) = g (2 ^ j)"
  shows "f r = g r"
proof -
  have f0: "f 0 = 0" using f [of 0 0] by simp
  have g0: "g 0 = 0" using g [of 0 0] by simp
  have bit: "f (r AND 2 ^ j) = g (r AND 2 ^ j)" if "j < 8" for j
    using basis [OF that] by (simp add: and_bit_cases f0 g0)
  have "f (r AND 1) = g (r AND 1)" "f (r AND 2) = g (r AND 2)" "f (r AND 4) = g (r AND 4)"
    "f (r AND 8) = g (r AND 8)" "f (r AND 16) = g (r AND 16)" "f (r AND 32) = g (r AND 32)"
    "f (r AND 64) = g (r AND 64)" "f (r AND 128) = g (r AND 128)"
    using bit [of 0] bit [of 1] bit [of 2] bit [of 3] bit [of 4] bit [of 5] bit [of 6] bit [of 7]
    by simp_all
  then show ?thesis by (subst (1 2) u8_bits) (simp only: f g)
qed

section \<open>The field laws\<close>

lemma gf_mul_xor_right: "gf_mul a (b XOR c) = gf_mul a b XOR gf_mul a c"
  by (simp add: gf_mul_def gf_mul_loop_xor_right)

lemma gf_mul_xor_left: "gf_mul (a XOR b) c = gf_mul a c XOR gf_mul b c"
  by (simp add: gf_mul_def gf_mul_loop_xor_left)

lemma gf_mul_0 [simp]: "gf_mul a 0 = 0" "gf_mul 0 a = 0"
  by (simp_all add: gf_mul_def)

lemma gf_mul_basis: "j < 8 \<Longrightarrow> gf_mul a (2 ^ j) = (gf_double ^^ j) a"
  by (simp add: gf_mul_def gf_mul_loop_basis)

lemma gf_mul_1 [simp]: "gf_mul a 1 = a"
  using gf_mul_basis [of 0 a] by simp

lemma gf_mul_commute: "gf_mul a b = gf_mul b a"
proof (rule additive_eqI [of "\<lambda>a. gf_mul a b" "\<lambda>a. gf_mul b a"])
  fix i :: nat assume i: "i < 8"
  show "gf_mul (2 ^ i) b = gf_mul b (2 ^ i)"
  proof (rule additive_eqI [of "\<lambda>b. gf_mul (2 ^ i) b" "\<lambda>b. gf_mul b (2 ^ i)"])
    fix j :: nat assume j: "j < 8"
    have "(gf_double ^^ j) ((gf_double ^^ i) 1) = (gf_double ^^ i) ((gf_double ^^ j) 1)"
      by (simp only: add.commute flip: funpow_add comp_apply [of "gf_double ^^ _" "gf_double ^^ _"])
    with i j show "gf_mul (2 ^ i) (2 ^ j) = gf_mul (2 ^ j) (2 ^ i)"
      by (simp add: gf_mul_basis double_basis)
  qed (simp_all add: gf_mul_xor_left gf_mul_xor_right)
qed (simp_all add: gf_mul_xor_left gf_mul_xor_right)

lemma gf_mul_double: "gf_mul a (gf_double b) = gf_double (gf_mul a b)"
  using gf_mul_commute [of a] by (simp add: gf_mul_def gf_mul_loop_double)

lemma gf_mul_loop_assoc: "gf_mul a (gf_mul_loop n b c 0) = gf_mul_loop n (gf_mul a b) c 0"
proof (induction n arbitrary: b c)
  case 0
  then show ?case by simp
next
  case (Suc n)
  show ?case
    unfolding gf_mul_loop_Suc0 gf_mul_xor_right Suc.IH gf_mul_double by simp
qed

lemma gf_mul_assoc: "gf_mul (gf_mul a b) c = gf_mul a (gf_mul b c)"
  by (simp add: gf_mul_def [of b c] gf_mul_def [of "gf_mul a b" c] gf_mul_loop_assoc)

text \<open>
  Multiplication on integers below 256, for evaluation, and the table of inverses; that every
  nonzero byte has an inverse is checked entry by entry.
\<close>

definition int_double :: "int \<Rightarrow> int" where
  "int_double x = (if x < 128 then 2 * x else (2 * x - 256) XOR 29)"

fun int_mul_loop :: "nat \<Rightarrow> int \<Rightarrow> int \<Rightarrow> int \<Rightarrow> int" where
  "int_mul_loop 0 l r a = a"
| "int_mul_loop (Suc n) l r a =
     int_mul_loop n (int_double l) (r div 2) (if odd r then a XOR l else a)"

definition inverse_table :: "int list" where
  "inverse_table = [
     1, 142, 244, 71, 167, 122, 186, 173, 157, 221, 152, 61, 170, 93, 150, 216, 114, 192, 88,
     224, 62, 76, 102, 144, 222, 85, 128, 160, 131, 75, 42, 108, 237, 57, 81, 96, 86, 44, 138,
     112, 208, 31, 74, 38, 139, 51, 110, 72, 137, 111, 46, 164, 195, 64, 94, 80, 34, 207, 169,
     171, 12, 21, 225, 54, 95, 248, 213, 146, 78, 166, 4, 48, 136, 43, 30, 22, 103, 69, 147,
     56, 35, 104, 140, 129, 26, 37, 97, 19, 193, 203, 99, 151, 14, 55, 65, 36, 87, 202, 91,
     185, 196, 23, 77, 82, 141, 239, 179, 32, 236, 47, 50, 40, 209, 17, 217, 233, 251, 218,
     121, 219, 119, 6, 187, 132, 205, 254, 252, 27, 84, 161, 29, 124, 204, 228, 176, 73, 49,
     39, 45, 83, 105, 2, 245, 24, 223, 68, 79, 155, 188, 15, 92, 11, 220, 189, 148, 172, 9,
     199, 162, 28, 130, 159, 198, 52, 194, 70, 5, 206, 59, 13, 60, 156, 8, 190, 183, 135, 229,
     238, 107, 235, 242, 191, 175, 197, 100, 7, 123, 149, 154, 174, 182, 18, 89, 165, 53, 101,
     184, 163, 158, 210, 247, 98, 90, 133, 125, 168, 58, 41, 113, 200, 246, 249, 67, 215, 214,
     16, 115, 118, 120, 153, 10, 25, 145, 20, 63, 230, 240, 134, 177, 226, 241, 250, 116, 243,
     180, 109, 33, 178, 106, 227, 231, 181, 234, 3, 143, 211, 201, 66, 212, 232, 117, 127, 255,
     126, 253]"

lemma inverse_table_ok:
  "list_all (\<lambda>(i, j). int_mul_loop 8 i j 0 = 1) (zip [1..255] inverse_table)"
  by code_simp

lemma length_inverse_table: "length inverse_table = 255"
  by (simp add: inverse_table_def)

lemma int_double_bounds: "0 \<le> x \<Longrightarrow> x < 256 \<Longrightarrow> 0 \<le> int_double x \<and> int_double x < 256"
proof -
  assume x: "0 \<le> x" "x < 256"
  have "(2 * x - 256) XOR 29 < 2 ^ 8" if "128 \<le> x"
    using that x by (intro XOR_upper) auto
  with x show ?thesis by (auto simp: int_double_def)
qed

lemma bit7_int: "0 \<le> x \<Longrightarrow> x < 256 \<Longrightarrow> bit (word_of_int x :: u8) 7 \<longleftrightarrow> 128 \<le> x"
proof -
  assume x: "0 \<le> x" "x < 256"
  have "bit x 7 \<longleftrightarrow> odd (x div 128)" by (simp add: bit_iff_odd)
  also have "\<dots> \<longleftrightarrow> 128 \<le> x" using x by presburger
  finally show ?thesis by (simp add: bit_word_of_int_iff)
qed

lemma word_of_int_xor: "word_of_int (a XOR b) = (word_of_int a XOR word_of_int b :: u8)"
  by (rule bit_word_eqI) (simp add: bit_xor_iff bit_word_of_int_iff)

lemma gf_double_word_of_int:
  assumes "0 \<le> x" "x < 256"
  shows "gf_double (word_of_int x) = word_of_int (int_double x)"
proof -
  have p: "push_bit 1 (word_of_int x :: u8) = word_of_int (2 * x)" by (simp add: push_bit_eq_mult)
  show ?thesis
  proof (cases "x < 128")
    case True
    then show ?thesis using assms by (simp add: gf_double_alt p bit7_int int_double_def)
  next
    case False
    have "(word_of_int (2 * x) :: u8) = word_of_int (2 * x - 256)"
      by (simp add: word_of_int_eq_iff take_bit_eq_mod mod_diff_eq [symmetric])
    moreover have "word_of_int ((2 * x - 256) XOR 29) = (word_of_int (2 * x - 256) XOR 29 :: u8)"
      using word_of_int_xor [of "2 * x - 256" 29] by (simp only: of_int_numeral)
    moreover have "int_double x = (2 * x - 256) XOR 29" using False by (simp add: int_double_def)
    moreover have "bit (word_of_int x :: u8) 7" using False assms by (simp add: bit7_int)
    ultimately show ?thesis by (simp only: gf_double_alt p if_True)
  qed
qed

lemma gf_mul_loop_word_of_int:
  "0 \<le> l \<Longrightarrow> l < 256 \<Longrightarrow> 0 \<le> r \<Longrightarrow> r < 256 \<Longrightarrow>
     gf_mul_loop n (word_of_int l) (word_of_int r) (word_of_int a) =
     word_of_int (int_mul_loop n l r a)"
proof (induction n arbitrary: l r a)
  case 0
  then show ?case by simp
next
  case (Suc n)
  have d: "drop_bit (Suc 0) (word_of_int r :: u8) = word_of_int (r div 2)"
    using Suc.prems
    by (simp add: drop_bit_eq_div word_uint_eq_iff uint_div uint_word_of_int)
  have o: "word_of_int r AND (1 :: u8) \<noteq> 0 \<longleftrightarrow> odd r"
  proof -
    have "bit (word_of_int r :: u8) 0 \<longleftrightarrow> odd r"
      by (subst bit_word_of_int_iff) (simp add: bit_0)
    with and_bit_cases [of "word_of_int r" 0] show ?thesis
      by (simp only: power_0) simp
  qed
  have x: "(word_of_int a :: u8) XOR word_of_int l = word_of_int (a XOR l)"
    by (simp add: word_of_int_xor)
  have "0 \<le> int_double l" "int_double l < 256" "0 \<le> r div 2" "r div 2 < 256"
    using int_double_bounds Suc.prems by auto
  from Suc.IH [OF this] show ?case
    using Suc.prems by (simp add: gf_double_word_of_int d o x)
qed

lemma gf_mul_inverse_exists:
  assumes "a \<noteq> 0"
  shows "\<exists>b. gf_mul a b = 1"
proof -
  define i where "i = unat a"
  have i: "1 \<le> i" "i < 256" using assms by (auto simp: i_def Suc_le_eq unat_gt_0)
  define p where "p = zip [1..255 :: int] inverse_table"
  have len: "length p = 255" by (simp add: p_def length_inverse_table)
  have nth: "fst (p ! (i - 1)) = int i"
    using i by (simp add: p_def length_inverse_table of_nat_diff)
  have "p ! (i - 1) \<in> set p" using i len by (intro nth_mem) simp
  then have "case p ! (i - 1) of (j, k) \<Rightarrow> int_mul_loop 8 j k 0 = 1"
    using inverse_table_ok unfolding p_def [symmetric] list_all_iff by (rule bspec [rotated])
  with nth have one: "int_mul_loop 8 (int i) (snd (p ! (i - 1))) 0 = 1"
    by (simp add: case_prod_beta)
  have "snd (p ! (i - 1)) \<in> set inverse_table"
    using i by (simp add: p_def length_inverse_table)
  moreover have "\<forall>j \<in> set inverse_table. 0 \<le> j \<and> j < 256" by (simp add: inverse_table_def)
  ultimately have "gf_mul (word_of_int (int i)) (word_of_int (snd (p ! (i - 1)))) = 1"
    using gf_mul_loop_word_of_int [of "int i" "snd (p ! (i - 1))" 8 0] i one
    by (auto simp: gf_mul_def)
  moreover have "word_of_int (int i) = a" by (simp add: i_def)
  ultimately show ?thesis by auto
qed

section \<open>Bytes as field elements\<close>

typedef gf256 = "UNIV :: u8 set" morphisms gf_byte gf
  by simp

setup_lifting type_definition_gf256

instantiation gf256 :: comm_ring_1
begin

lift_definition zero_gf256 :: gf256 is "0 :: u8" .
lift_definition one_gf256 :: gf256 is "1 :: u8" .
lift_definition plus_gf256 :: "gf256 \<Rightarrow> gf256 \<Rightarrow> gf256" is "(XOR) :: u8 \<Rightarrow> u8 \<Rightarrow> u8" .
lift_definition minus_gf256 :: "gf256 \<Rightarrow> gf256 \<Rightarrow> gf256" is "(XOR) :: u8 \<Rightarrow> u8 \<Rightarrow> u8" .
lift_definition uminus_gf256 :: "gf256 \<Rightarrow> gf256" is "\<lambda>a :: u8. a" .
lift_definition times_gf256 :: "gf256 \<Rightarrow> gf256 \<Rightarrow> gf256" is gf_mul .

instance
proof
  fix a b c :: gf256
  show "a * b * c = a * (b * c)" by transfer (rule gf_mul_assoc)
  show "a * b = b * a" by transfer (rule gf_mul_commute)
  show "(a + b) * c = a * c + b * c" by transfer (rule gf_mul_xor_left)
  show "1 * a = a" by transfer (simp add: gf_mul_commute [of 1])
  show "a + b + c = a + (b + c)" by transfer (rule xor.assoc)
  show "a + b = b + a" by transfer (rule xor.commute)
  show "0 + a = a" by transfer simp
  show "- a + a = 0" by transfer simp
  show "a - b = a + - b" by transfer simp
  show "(0 :: gf256) \<noteq> 1" by transfer simp
qed

end

lemma gf_add_self [simp]: "(a :: gf256) + a = 0"
  by transfer simp

lemma gf_two_eq_0: "(2 :: gf256) = 0"
  by (simp only: one_add_one [symmetric] gf_add_self)

lemma gf_square_add: "((a :: gf256) + b) ^ 2 = a ^ 2 + b ^ 2"
  by (simp add: power2_eq_square algebra_simps gf_two_eq_0)

lemma gf_two_power: "j < 8 \<Longrightarrow> gf (2 ^ j) = gf 2 ^ j"
proof (induction j)
  case 0
  then show ?case by (simp add: one_gf256_def)
next
  case (Suc j)
  have "gf_mul (2 ^ j) 2 = gf_double (2 ^ j)" using gf_mul_basis [of 1 "2 ^ j"] by simp
  also have "\<dots> = 2 ^ Suc j"
    using double_basis [of "Suc j"] double_basis [of j] Suc.prems by simp
  finally have "gf (2 ^ j) * gf 2 = gf (2 ^ Suc j)" by (simp add: times_gf256.abs_eq)
  with Suc show ?case by (simp add: mult.commute)
qed

lemma gf_square_word_of_int:
  "0 \<le> x \<Longrightarrow> x < 256 \<Longrightarrow> gf (word_of_int x) ^ 2 = gf (word_of_int (int_mul_loop 8 x x 0))"
  using gf_mul_loop_word_of_int [of x x 8 0]
  by (simp add: power2_eq_square times_gf256.abs_eq gf_mul_def)

lemma squares_ok:
  "int_mul_loop 8 2 2 0 = 4 \<and>
   int_mul_loop 8 4 4 0 = 16 \<and>
   int_mul_loop 8 16 16 0 = 29 \<and>
   int_mul_loop 8 29 29 0 = 76 \<and>
   int_mul_loop 8 76 76 0 = 157 \<and>
   int_mul_loop 8 157 157 0 = 95 \<and>
   int_mul_loop 8 95 95 0 = 133 \<and>
   int_mul_loop 8 133 133 0 = 2"
  by code_simp

lemma gf_two_256: "gf 2 ^ 256 = gf 2"
proof -
  have sq: "gf (word_of_int x) ^ 2 = gf (word_of_int y)"
    if "int_mul_loop 8 x x 0 = y" "0 \<le> x" "x < 256" for x y
    using gf_square_word_of_int [of x] that by simp
  have 1: "gf (word_of_int 2) ^ 2 = gf (word_of_int 4)" by (rule sq) (use squares_ok in blast, simp_all)
  have 2: "gf (word_of_int 4) ^ 2 = gf (word_of_int 16)" by (rule sq) (use squares_ok in blast, simp_all)
  have 3: "gf (word_of_int 16) ^ 2 = gf (word_of_int 29)" by (rule sq) (use squares_ok in blast, simp_all)
  have 4: "gf (word_of_int 29) ^ 2 = gf (word_of_int 76)" by (rule sq) (use squares_ok in blast, simp_all)
  have 5: "gf (word_of_int 76) ^ 2 = gf (word_of_int 157)" by (rule sq) (use squares_ok in blast, simp_all)
  have 6: "gf (word_of_int 157) ^ 2 = gf (word_of_int 95)" by (rule sq) (use squares_ok in blast, simp_all)
  have 7: "gf (word_of_int 95) ^ 2 = gf (word_of_int 133)" by (rule sq) (use squares_ok in blast, simp_all)
  have 8: "gf (word_of_int 133) ^ 2 = gf (word_of_int 2)" by (rule sq) (use squares_ok in blast, simp_all)
  have "gf (word_of_int 2) ^ 256 = ((((((((gf (word_of_int 2))\<^sup>2)\<^sup>2)\<^sup>2)\<^sup>2)\<^sup>2)\<^sup>2)\<^sup>2)\<^sup>2"
    by (simp flip: power_mult)
  also have "\<dots> = gf (word_of_int 2)" by (simp only: 1 2 3 4 5 6 7 8)
  finally show ?thesis by simp
qed

lemma gf_frobenius_add: "((a :: gf256) + b) ^ 256 = a ^ 256 + b ^ 256"
proof -
  have e: "x ^ 256 = (((((((x\<^sup>2)\<^sup>2)\<^sup>2)\<^sup>2)\<^sup>2)\<^sup>2)\<^sup>2)\<^sup>2" for x :: gf256 by (simp flip: power_mult)
  show ?thesis by (simp only: e gf_square_add)
qed

lemma gf_power_256: "(a :: gf256) ^ 256 = a"
proof -
  have "gf_byte (gf r ^ 256) = r" for r
  proof (rule additive_eqI [of "\<lambda>r. gf_byte (gf r ^ 256)" "\<lambda>r. r"])
    fix x y :: u8
    have "gf (x XOR y) = gf x + gf y" by (simp add: plus_gf256.abs_eq)
    then show "gf_byte (gf (x XOR y) ^ 256) = gf_byte (gf x ^ 256) XOR gf_byte (gf y ^ 256)"
      by (simp only: gf_frobenius_add plus_gf256.rep_eq)
  next
    fix j :: nat assume "j < 8"
    then have "gf (2 ^ j) ^ 256 = (gf 2 ^ 256) ^ j"
      by (simp add: gf_two_power mult.commute flip: power_mult)
    with \<open>j < 8\<close> show "gf_byte (gf (2 ^ j) ^ 256) = 2 ^ j"
      by (simp add: gf_two_256 gf_inverse flip: gf_two_power)
  qed simp
  from this [of "gf_byte a"] show ?thesis by (simp add: gf_byte_inverse gf_byte_inject flip: gf_byte_inject)
qed

lemma gf256_inverse_ex: "(a :: gf256) \<noteq> 0 \<Longrightarrow> \<exists>b. a * b = 1"
  by transfer (rule gf_mul_inverse_exists)

lemma gf_power_255: "(a :: gf256) \<noteq> 0 \<Longrightarrow> a ^ 255 = 1"
proof -
  assume "a \<noteq> 0"
  then obtain b where b: "a * b = 1" using gf256_inverse_ex by blast
  have "a ^ 256 = a ^ 255 * a" using power_Suc2 [of a 255] by simp
  then have "a ^ 255 * (a * b) = a * b" by (simp add: gf_power_256 flip: mult.assoc)
  with b show ?thesis by simp
qed

instantiation gf256 :: field
begin

definition inverse_gf256 :: "gf256 \<Rightarrow> gf256" where
  "inverse_gf256 a = (if a = 0 then 0 else a ^ 254)"

definition divide_gf256 :: "gf256 \<Rightarrow> gf256 \<Rightarrow> gf256" where
  "divide_gf256 a b = a * inverse b"

instance
proof
  fix a b :: gf256
  show "a div b = a * inverse b" by (simp add: divide_gf256_def)
  show "inverse (0 :: gf256) = 0" by (simp add: inverse_gf256_def)
  assume "a \<noteq> 0"
  then have "a ^ 254 * a = 1"
    using gf_power_255 [of a] power_Suc2 [of a 254] by simp
  with \<open>a \<noteq> 0\<close> show "inverse a * a = 1" by (simp add: inverse_gf256_def)
qed

end

section \<open>The source's operations as field operations\<close>

named_theorems gf_ops \<open>byte operations read in the field\<close>

lemma gf_mul_gf [gf_ops]: "gf (gf_mul a b) = gf a * gf b"
  by (simp add: times_gf256.abs_eq)

lemma gf_xor [gf_ops]: "gf (a XOR b) = gf a + gf b"
  by (simp add: plus_gf256.abs_eq)

lemma gf_0 [gf_ops, simp]: "gf 0 = 0"
  by (simp add: zero_gf256_def)

lemma gf_1 [gf_ops, simp]: "gf 1 = 1"
  by (simp add: one_gf256_def)

lemma gf_eq [simp]: "gf a = gf b \<longleftrightarrow> a = b"
  by (simp add: gf_inject)

lemma gf_eq_0 [simp]: "gf a = 0 \<longleftrightarrow> a = 0"
  using gf_eq [of a 0] by (simp del: gf_eq)

lemma gf_pow_loop_gf: "gf (gf_pow_loop n v r) = gf r * gf v ^ n"
  by (induction n arbitrary: r) (simp_all add: gf_ops mult.assoc)

lemma gf_pow_gf [gf_ops]: "gf (gf_pow v n) = gf v ^ n"
  by (simp add: gf_pow_def gf_pow_loop_gf)

lemma gf_inv_loop_gf: "gf (gf_inv_loop e b r) = gf r * gf b ^ e"
proof (induction e b r rule: gf_inv_loop.induct)
  case (1 e b r)
  show ?case
  proof (cases "e = 0")
    case True
    then show ?thesis by (simp add: gf_inv_loop.simps)
  next
    case False
    have e: "gf b ^ e = (gf b * gf b) ^ (e div 2) * (if odd e then gf b else 1)"
      by (cases "even e") (auto elim!: evenE oddE simp: power_mult power2_eq_square)
    from False "1.IH" show ?thesis
      by (simp add: gf_inv_loop.simps [of e b r] gf_ops e ac_simps)
  qed
qed

text \<open>Division as the source computes it, by exponentiation to 254, is the field's division.\<close>

lemma gf_div_gf: "d \<noteq> 0 \<Longrightarrow> \<exists>q. gf_div n d = Some q \<and> gf q = gf n / gf d"
  by (auto simp: gf_div_def gf_ops gf_inv_loop_gf divide_gf256_def inverse_gf256_def)

end
