(* ===== verification/CodingMatrix.thy ===== *)
theory CodingMatrix
  imports GF256
begin

text \<open>
  The linear algebra of \<open>src/erasure_coding.rs\<close>: Gauss-Jordan elimination over byte matrices,
  inversion, multiplication, the systematic Vandermonde coding matrix, and the rows that decode
  from a selection of shards.  A matrix is the list of its rows.  The elimination is the source's:
  a forward pass that normalises one pivot at a time (exchanging rows when the pivot is zero) and
  a backward pass that clears the entries above the diagonal.  Soundness says that a successful
  elimination leaves the identity in front and preserves the solutions of the system; completeness
  says that it succeeds whenever the square part has a trivial kernel, which the distinct
  evaluation points of the Vandermonde matrix guarantee for every selection of rows.
\<close>

type_synonym matrix = "u8 list list"

datatype ReedSolomonError = InvalidShardCount | InvalidShardSize | TooFewShards | SingularMatrix

section \<open>Elimination as the source writes it\<close>

definition row_scale :: "u8 \<Rightarrow> u8 list \<Rightarrow> u8 list" where
  "row_scale scale row = map (\<lambda>value. gf_mul value scale) row"

definition row_add :: "u8 \<Rightarrow> u8 list \<Rightarrow> u8 list \<Rightarrow> u8 list" where
  "row_add scale target source =
     map2 (\<lambda>t s. t XOR gf_mul scale s) target source @ drop (length source) target"

definition swap_rows :: "nat \<Rightarrow> nat \<Rightarrow> matrix \<Rightarrow> matrix" where
  "swap_rows i j work = work[i := work ! j, j := work ! i]"

definition eliminate_row :: "nat \<Rightarrow> nat \<Rightarrow> matrix \<Rightarrow> matrix" where
  "eliminate_row diagonal row work =
     (let scale = work ! row ! diagonal
      in if scale = 0 then work
         else work[row := row_add scale (work ! row) (work ! diagonal)])"

fun eliminate_rows :: "nat list \<Rightarrow> nat \<Rightarrow> matrix \<Rightarrow> matrix" where
  "eliminate_rows [] diagonal work = work"
| "eliminate_rows (row # rows) diagonal work =
     eliminate_rows rows diagonal (eliminate_row diagonal row work)"

definition find_pivot :: "nat \<Rightarrow> nat \<Rightarrow> matrix \<Rightarrow> (ReedSolomonError, matrix) outcome" where
  "find_pivot sz diagonal work =
     (if work ! diagonal ! diagonal = 0 then
        (case find (\<lambda>row. work ! row ! diagonal \<noteq> 0) [diagonal + 1..<sz] of
           None \<Rightarrow> Err SingularMatrix
         | Some replacement \<Rightarrow> Ok (swap_rows diagonal replacement work))
      else Ok work)"

definition normalise_pivot :: "nat \<Rightarrow> matrix \<Rightarrow> (ReedSolomonError, matrix) outcome" where
  "normalise_pivot diagonal work =
     (let pivot = work ! diagonal ! diagonal
      in if pivot \<noteq> 1 then
           (case gf_div 1 pivot of
              None \<Rightarrow> Panic
            | Some scale \<Rightarrow> Ok (work[diagonal := row_scale scale (work ! diagonal)]))
         else Ok work)"

definition forward_step :: "nat \<Rightarrow> nat \<Rightarrow> matrix \<Rightarrow> (ReedSolomonError, matrix) outcome" where
  "forward_step sz diagonal work =
     and_then (find_pivot sz diagonal work) (\<lambda>work1.
     and_then (normalise_pivot diagonal work1) (\<lambda>work2.
     Ok (eliminate_rows [diagonal + 1..<sz] diagonal work2)))"

fun forward :: "nat list \<Rightarrow> nat \<Rightarrow> matrix \<Rightarrow> (ReedSolomonError, matrix) outcome" where
  "forward [] sz work = Ok work"
| "forward (diagonal # ds) sz work =
     and_then (forward_step sz diagonal work) (forward ds sz)"

fun backward :: "nat list \<Rightarrow> matrix \<Rightarrow> matrix" where
  "backward [] work = work"
| "backward (diagonal # ds) work = backward ds (eliminate_rows [0..<diagonal] diagonal work)"

definition gauss_jordan :: "matrix \<Rightarrow> nat \<Rightarrow> (ReedSolomonError, matrix) outcome" where
  "gauss_jordan work sz =
     (if sz = 0 \<or> length work \<noteq> sz then Err SingularMatrix
      else let width = length (work ! 0)
           in if width < sz \<or> (\<exists>row \<in> set work. length row \<noteq> width) then Err SingularMatrix
              else and_then (forward [0..<sz] sz work) (\<lambda>work'.
                   Ok (backward [0..<sz] work')))"

section \<open>Inversion, multiplication and the coding matrix\<close>

definition invert :: "matrix \<Rightarrow> (ReedSolomonError, matrix) outcome" where
  "invert matrix0 =
     (let sz = length matrix0
      in if sz = 0 \<or> (\<exists>row \<in> set matrix0. length row \<noteq> sz) then Err SingularMatrix
         else case usize_checked_mul sz 2 of
                None \<Rightarrow> Err InvalidShardCount
              | Some width \<Rightarrow>
                  let work = map (\<lambda>(row_index, row). (resize width 0 row)[sz + row_index := 1])
                               (enumerate 0 matrix0)
                  in and_then (gauss_jordan work sz) (\<lambda>work'. Ok (map (drop sz) work')))"

definition matrix_multiply :: "matrix \<Rightarrow> matrix \<Rightarrow> (ReedSolomonError, matrix) outcome" where
  "matrix_multiply left right =
     (if right = [] then Panic
      else let columns = length (right ! 0); inner = length right
           in Ok (map (\<lambda>row. map (\<lambda>column.
                foldl (\<lambda>value index. value XOR gf_mul (left ! row ! index) (right ! index ! column))
                  0 [0..<inner]) [0..<columns]) [0..<length left]))"

definition vandermonde :: "nat \<Rightarrow> nat \<Rightarrow> matrix" where
  "vandermonde data_count total_count =
     map (\<lambda>row_index. map (\<lambda>column_index. gf_pow (word_of_nat row_index) column_index)
       [0..<data_count]) [0..<total_count]"

definition coding_matrix :: "nat \<Rightarrow> nat \<Rightarrow> (ReedSolomonError, matrix) outcome" where
  "coding_matrix data_count total_count =
     (if data_count = 0 \<or> total_count < data_count \<or> 256 < total_count
      then Err InvalidShardCount
      else let v = vandermonde data_count total_count
           in and_then (invert (take data_count v)) (\<lambda>top_inverse. matrix_multiply v top_inverse))"

text \<open>
  The augmented system of \<open>inverse_rows_for_selected\<close>: the selected coding rows as columns,
  then one unit column per requested row.
\<close>

definition decode_system :: "matrix \<Rightarrow> nat list \<Rightarrow> nat list \<Rightarrow> matrix" where
  "decode_system coding selected requested_rows =
     (let sz = length selected
      in map (\<lambda>original_row.
           map (\<lambda>coding_row. coding ! coding_row ! original_row) selected @
           map (\<lambda>requested_row. if requested_row = original_row then 1 else 0) requested_rows)
         [0..<sz])"

definition inverse_rows_for_selected ::
  "matrix \<Rightarrow> nat list \<Rightarrow> nat list \<Rightarrow> (ReedSolomonError, matrix) outcome" where
  "inverse_rows_for_selected coding selected requested_rows =
     (let sz = length selected
      in if sz = 0 \<or> (\<exists>row \<in> set requested_rows. sz \<le> row) \<or>
            (\<exists>row \<in> set selected. length coding \<le> row \<or> length (coding ! row) \<noteq> sz)
         then Err SingularMatrix
         else if requested_rows = [] then Ok []
         else case usize_checked_add sz (length requested_rows) of
                None \<Rightarrow> Err InvalidShardCount
              | Some width \<Rightarrow>
                  and_then (gauss_jordan (decode_system coding selected requested_rows) sz)
                    (\<lambda>work. Ok (map (\<lambda>target_column.
                       map (\<lambda>selected_row. work ! selected_row ! (sz + target_column)) [0..<sz])
                       [0..<length requested_rows])))"

section \<open>Shapes and entries\<close>

definition wf_mat :: "nat \<Rightarrow> nat \<Rightarrow> matrix \<Rightarrow> bool" where
  "wf_mat n w M \<longleftrightarrow> length M = n \<and> (\<forall>row \<in> set M. length row = w)"

definition entry :: "matrix \<Rightarrow> nat \<Rightarrow> nat \<Rightarrow> gf256" where
  "entry M i j = gf (M ! i ! j)"

text \<open>The linear forms of the rows, applied to a vector of field elements.\<close>

definition row_form :: "nat \<Rightarrow> matrix \<Rightarrow> (nat \<Rightarrow> gf256) \<Rightarrow> nat \<Rightarrow> gf256" where
  "row_form w M z i = (\<Sum>j<w. entry M i j * z j)"

definition nulls :: "nat \<Rightarrow> nat \<Rightarrow> matrix \<Rightarrow> (nat \<Rightarrow> gf256) \<Rightarrow> bool" where
  "nulls n w M z \<longleftrightarrow> (\<forall>i<n. row_form w M z i = 0)"

definition row_equiv :: "nat \<Rightarrow> nat \<Rightarrow> matrix \<Rightarrow> matrix \<Rightarrow> bool" where
  "row_equiv n w M M' \<longleftrightarrow> wf_mat n w M' \<and> (\<forall>z. nulls n w M z \<longleftrightarrow> nulls n w M' z)"

text \<open>Columns below \<open>d\<close> are unit upper triangular.\<close>

definition unit_upper :: "nat \<Rightarrow> nat \<Rightarrow> matrix \<Rightarrow> bool" where
  "unit_upper n d M \<longleftrightarrow>
     (\<forall>c<d. entry M c c = 1 \<and> (\<forall>i<n. c < i \<longrightarrow> entry M i c = 0))"

definition trivial_kernel :: "nat \<Rightarrow> nat \<Rightarrow> matrix \<Rightarrow> bool" where
  "trivial_kernel n w M \<longleftrightarrow>
     (\<forall>z. (\<forall>j\<ge>n. z j = 0) \<longrightarrow> nulls n w M z \<longrightarrow> (\<forall>j. z j = 0))"

lemma gf_neg: "- a = (a :: gf256)"
  by (rule minus_unique) simp

lemma wf_mat_row: "wf_mat n w M \<Longrightarrow> i < n \<Longrightarrow> length (M ! i) = w"
  by (auto simp: wf_mat_def)

lemma wf_mat_update: "wf_mat n w M \<Longrightarrow> length row = w \<Longrightarrow> wf_mat n w (M[i := row])"
  unfolding wf_mat_def by (auto dest!: set_update_subset_insert [THEN subsetD])

lemma entry_update:
  "wf_mat n w M \<Longrightarrow> k < n \<Longrightarrow>
     entry (M[k := row]) i j = (if i = k then gf (row ! j) else entry M i j)"
  by (auto simp: entry_def wf_mat_def)

lemma length_row_add: "length target = length source \<Longrightarrow> length (row_add s target source) = length target"
  by (simp add: row_add_def)

lemma length_row_scale [simp]: "length (row_scale s row) = length row"
  by (simp add: row_scale_def)

lemma nth_row_add:
  "length target = length source \<Longrightarrow> j < length target \<Longrightarrow>
     gf (row_add s target source ! j) = gf (target ! j) + gf s * gf (source ! j)"
  by (simp add: row_add_def nth_append gf_ops)

lemma nth_row_scale: "j < length row \<Longrightarrow> gf (row_scale s row ! j) = gf s * gf (row ! j)"
  by (simp add: row_scale_def gf_ops mult.commute)

lemma row_form_cong:
  "(\<And>j. j < w \<Longrightarrow> entry M i j = entry M' i' j) \<Longrightarrow> row_form w M z i = row_form w M' z i'"
  by (simp add: row_form_def)

lemma row_equiv_refl: "wf_mat n w M \<Longrightarrow> row_equiv n w M M"
  by (simp add: row_equiv_def)

lemma row_equiv_trans: "row_equiv n w A B \<Longrightarrow> row_equiv n w B C \<Longrightarrow> row_equiv n w A C"
  by (simp add: row_equiv_def)

section \<open>Row operations preserve the solutions\<close>

lemma swap_rows_wf:
  "wf_mat n w M \<Longrightarrow> i < n \<Longrightarrow> j < n \<Longrightarrow> wf_mat n w (swap_rows i j M)"
  by (simp add: swap_rows_def wf_mat_update wf_mat_row)

lemma swap_rows_entry:
  assumes "wf_mat n w M" "i < n" "j < n"
  shows "entry (swap_rows i j M) r c =
     (if r = j then entry M i c else if r = i then entry M j c else entry M r c)"
proof -
  have "wf_mat n w (M[i := M ! j])" using assms by (simp add: wf_mat_update wf_mat_row)
  with assms show ?thesis
    by (simp add: swap_rows_def entry_update) (simp add: entry_def)
qed

lemma swap_rows_equiv:
  assumes "wf_mat n w M" "i < n" "j < n"
  shows "row_equiv n w M (swap_rows i j M)"
proof -
  have form: "row_form w (swap_rows i j M) z r =
      (if r = j then row_form w M z i else if r = i then row_form w M z j else row_form w M z r)"
    for z r
    by (simp add: row_form_def swap_rows_entry [OF assms])
  have "nulls n w M z" if "nulls n w (swap_rows i j M) z" for z
    unfolding nulls_def
  proof (intro allI impI)
    fix k assume "k < n"
    then have "row_form w (swap_rows i j M) z (if k = i then j else if k = j then i else k) = 0"
      using that assms by (simp add: nulls_def)
    then show "row_form w M z k = 0" by (auto simp: form split: if_splits)
  qed
  moreover have "nulls n w (swap_rows i j M) z" if "nulls n w M z" for z
    using that assms(2,3) unfolding nulls_def form by simp
  ultimately have "nulls n w M z \<longleftrightarrow> nulls n w (swap_rows i j M) z" for z by blast
  with swap_rows_wf [OF assms] show ?thesis by (simp only: row_equiv_def) blast
qed

lemma scale_entry:
  assumes "wf_mat n w M" "d < n" "c < w"
  shows "entry (M[d := row_scale s (M ! d)]) r c =
     (if r = d then gf s * entry M d c else entry M r c)"
  using assms by (simp add: entry_update wf_mat_row nth_row_scale) (simp add: entry_def)

lemma scale_equiv:
  assumes "wf_mat n w M" "d < n" "s \<noteq> 0"
  shows "row_equiv n w M (M[d := row_scale s (M ! d)])"
proof -
  have "row_form w (M[d := row_scale s (M ! d)]) z r =
      (if r = d then gf s * row_form w M z d else row_form w M z r)" for z r
    by (simp add: row_form_def scale_entry [OF assms(1,2)] sum_distrib_left mult.assoc)
  with assms show ?thesis
    by (auto simp: row_equiv_def nulls_def wf_mat_update wf_mat_row split: if_splits)
qed

lemma eliminate_row_wf:
  assumes "wf_mat n w M" "d < n" "r < n"
  shows "wf_mat n w (eliminate_row d r M)"
  using assms
  by (simp add: eliminate_row_def Let_def wf_mat_update wf_mat_row length_row_add)

lemma eliminate_row_entry:
  assumes "wf_mat n w M" "d < n" "r < n" "c < w"
  shows "entry (eliminate_row d r M) i c =
     (if i = r then entry M r c + entry M r d * entry M d c else entry M i c)"
proof (cases "M ! r ! d = 0")
  case True
  then show ?thesis by (simp add: eliminate_row_def entry_def)
next
  case False
  have "gf (row_add (M ! r ! d) (M ! r) (M ! d) ! c) = entry M r c + entry M r d * entry M d c"
    using assms by (simp add: nth_row_add wf_mat_row entry_def)
  with False assms show ?thesis
    by (simp add: eliminate_row_def Let_def entry_update)
qed

lemma eliminate_row_equiv:
  assumes "wf_mat n w M" "d < n" "r < n" "r \<noteq> d"
  shows "row_equiv n w M (eliminate_row d r M)"
proof -
  have form: "row_form w (eliminate_row d r M) z i =
      (if i = r then row_form w M z r + entry M r d * row_form w M z d else row_form w M z i)"
    for z i
    using eliminate_row_entry [OF assms(1-3)]
    by (simp add: row_form_def sum_distrib_left sum.distrib algebra_simps)
  have "nulls n w (eliminate_row d r M) z \<longleftrightarrow> nulls n w M z" for z
  proof
    assume l: "nulls n w (eliminate_row d r M) z"
    then have "row_form w (eliminate_row d r M) z d = 0" using assms by (simp add: nulls_def)
    then have "row_form w M z d = 0" using assms by (simp add: form)
    with l assms show "nulls n w M z" by (auto simp: nulls_def form split: if_splits)
  next
    assume "nulls n w M z"
    with assms show "nulls n w (eliminate_row d r M) z" by (simp add: nulls_def form)
  qed
  with assms show ?thesis by (simp add: row_equiv_def eliminate_row_wf)
qed

text \<open>A whole elimination pass with one source row.\<close>

lemma eliminate_rows_equiv:
  "wf_mat n w M \<Longrightarrow> d < n \<Longrightarrow> \<forall>r \<in> set rs. r < n \<and> r \<noteq> d \<Longrightarrow>
     row_equiv n w M (eliminate_rows rs d M)"
proof (induction rs arbitrary: M)
  case Nil
  then show ?case by (simp add: row_equiv_refl)
next
  case (Cons r rs)
  then have "row_equiv n w M (eliminate_row d r M)" by (simp add: eliminate_row_equiv)
  moreover from this Cons have
    "row_equiv n w (eliminate_row d r M) (eliminate_rows rs d (eliminate_row d r M))"
    by (simp add: row_equiv_def)
  ultimately show ?case by (simp add: row_equiv_trans [of n w M])
qed

lemma eliminate_rows_entry:
  assumes "wf_mat n w M" "d < n" "d < w" "c < w" "distinct rs" "\<forall>r \<in> set rs. r < n \<and> r \<noteq> d"
  shows "entry (eliminate_rows rs d M) i c =
     (if i \<in> set rs then entry M i c + entry M i d * entry M d c else entry M i c)"
  using assms
proof (induction rs arbitrary: M)
  case Nil
  then show ?case by simp
next
  case (Cons r rs)
  have "wf_mat n w (eliminate_row d r M)" using Cons.prems by (simp add: eliminate_row_wf)
  note IH = Cons.IH [OF this Cons.prems(2-4)]
  note e = eliminate_row_entry [OF Cons.prems(1,2), of r]
  have "entry (eliminate_rows (r # rs) d M) i c =
      (if i \<in> set rs then entry (eliminate_row d r M) i c +
         entry (eliminate_row d r M) i d * entry (eliminate_row d r M) d c
       else entry (eliminate_row d r M) i c)"
    using IH Cons.prems by simp
  also have "\<dots> = (if i \<in> set (r # rs) then entry M i c + entry M i d * entry M d c else entry M i c)"
    using e [of c] e [of d] Cons.prems by auto
  finally show ?case .
qed

section \<open>Soundness of the elimination\<close>

lemma find_pivot_Ok:
  assumes "find_pivot n d M = Ok M'" "wf_mat n w M" "d < n" "n \<le> w" "unit_upper n d M"
  shows "row_equiv n w M M' \<and> unit_upper n d M' \<and> M' ! d ! d \<noteq> 0"
proof (cases "M ! d ! d = 0")
  case False
  with assms show ?thesis by (simp add: find_pivot_def row_equiv_refl)
next
  case True
  with assms(1) obtain r where r: "find (\<lambda>row. M ! row ! d \<noteq> 0) [d + 1..<n] = Some r"
    and M': "M' = swap_rows d r M"
    by (auto simp: find_pivot_def split: option.splits)
  then have rn: "d < r" "r < n" and nz: "M ! r ! d \<noteq> 0"
    by (auto simp: find_Some_iff)
  have "unit_upper n d M'"
    using assms rn unfolding unit_upper_def M' by (auto simp: swap_rows_entry [where n = n and w = w])
  moreover have "entry M' d d = entry M r d"
    using assms rn unfolding M' by (simp add: swap_rows_entry [where n = n and w = w])
  with nz have "M' ! d ! d \<noteq> 0" by (simp add: entry_def)
  ultimately show ?thesis using assms rn M' by (simp add: swap_rows_equiv)
qed

lemma normalise_pivot_Ok:
  assumes "wf_mat n w M" "d < n" "n \<le> w" "unit_upper n d M" "M ! d ! d \<noteq> 0"
  shows "\<exists>M'. normalise_pivot d M = Ok M' \<and> row_equiv n w M M' \<and> unit_upper n d M' \<and>
    entry M' d d = 1"
proof (cases "M ! d ! d = 1")
  case True
  with assms show ?thesis by (simp add: normalise_pivot_def row_equiv_refl entry_def)
next
  case False
  from gf_div_gf [OF assms(5), of 1] obtain s
    where s: "gf_div 1 (M ! d ! d) = Some s" and gs: "gf s = 1 / gf (M ! d ! d)"
    by auto
  define M' where "M' = M[d := row_scale s (M ! d)]"
  from gs assms(5) have "gf s \<noteq> 0" by simp
  then have s0: "s \<noteq> 0" by auto
  have e: "entry M' r c = (if r = d then gf s * entry M d c else entry M r c)" if "c < w" for r c
    using scale_entry [OF assms(1,2) that] by (simp add: M'_def)
  have "unit_upper n d M'" using assms e by (auto simp: unit_upper_def)
  moreover have "entry M' d d = 1" using e [of d d] assms gs by (simp add: entry_def)
  moreover have "row_equiv n w M M'" using assms s0 by (simp add: M'_def scale_equiv)
  ultimately show ?thesis using False s by (auto simp: normalise_pivot_def M'_def)
qed

lemma eliminate_below:
  assumes "wf_mat n w M" "d < n" "n \<le> w" "unit_upper n d M" "entry M d d = 1"
  shows "unit_upper n (Suc d) (eliminate_rows [d + 1..<n] d M)"
proof -
  have e: "entry (eliminate_rows [d + 1..<n] d M) i c =
     (if d < i \<and> i < n then entry M i c + entry M i d * entry M d c else entry M i c)"
    if "c < w" for i c
    using eliminate_rows_entry [OF assms(1,2) _ that, of "[d + 1..<n]" i] assms by auto
  show ?thesis
    unfolding unit_upper_def
  proof (intro allI impI conjI)
    fix c assume c: "c < Suc d"
    then have cw: "c < w" using assms by simp
    show "entry (eliminate_rows [d + 1..<n] d M) c c = 1"
      using assms c e [OF cw] by (auto simp: unit_upper_def less_Suc_eq)
    fix i assume "i < n" "c < i"
    then show "entry (eliminate_rows [d + 1..<n] d M) i c = 0"
      using assms c e [OF cw] by (auto simp: unit_upper_def less_Suc_eq)
  qed
qed

lemma forward_step_Ok:
  assumes "forward_step n d M = Ok M'" "wf_mat n w M" "d < n" "n \<le> w" "unit_upper n d M"
  shows "row_equiv n w M M' \<and> unit_upper n (Suc d) M'"
proof -
  from assms(1) obtain M1 M2 where
    1: "find_pivot n d M = Ok M1" and 2: "normalise_pivot d M1 = Ok M2"
    and M': "M' = eliminate_rows [d + 1..<n] d M2"
    by (auto simp: forward_step_def and_then_Ok)
  note p = find_pivot_Ok [OF 1 assms(2-5)]
  then have wf1: "wf_mat n w M1" by (simp add: row_equiv_def)
  from normalise_pivot_Ok [OF wf1 assms(3,4)] p 2
  have q: "row_equiv n w M1 M2" "unit_upper n d M2" "entry M2 d d = 1" by auto
  then have wf2: "wf_mat n w M2" by (simp add: row_equiv_def)
  have "row_equiv n w M2 M'"
    using eliminate_rows_equiv [OF wf2 assms(3)] by (simp add: M')
  with p q have "row_equiv n w M M'" by (blast intro: row_equiv_trans)
  with eliminate_below [OF wf2 assms(3,4) q(2,3)] show ?thesis by (simp add: M')
qed

lemma forward_Ok:
  "forward [d..<n] n M = Ok M' \<Longrightarrow> wf_mat n w M \<Longrightarrow> n \<le> w \<Longrightarrow> unit_upper n d M \<Longrightarrow> d \<le> n \<Longrightarrow>
     row_equiv n w M M' \<and> unit_upper n n M'"
proof (induction "n - d" arbitrary: d M)
  case 0
  then show ?case by (simp add: row_equiv_refl)
next
  case (Suc k)
  then have d: "d < n" by simp
  then have "[d..<n] = d # [Suc d..<n]" by (simp add: upt_conv_Cons)
  with Suc.prems(1) obtain M1 where
    1: "forward_step n d M = Ok M1" and 2: "forward [Suc d..<n] n M1 = Ok M'"
    by (auto simp: and_then_Ok)
  note s = forward_step_Ok [OF 1 Suc.prems(2) d Suc.prems(3,4)]
  have "row_equiv n w M1 M' \<and> unit_upper n n M'"
    using Suc.hyps(1) [of "Suc d" M1] Suc.hyps(2) 2 s Suc.prems d by (simp add: row_equiv_def)
  with s show ?case by (blast intro: row_equiv_trans)
qed

text \<open>The backward pass clears what lies above the diagonal, column by column.\<close>

definition cleared_above :: "nat \<Rightarrow> matrix \<Rightarrow> bool" where
  "cleared_above d M \<longleftrightarrow> (\<forall>c<d. \<forall>i<c. entry M i c = 0)"

lemma backward_step:
  assumes "wf_mat n w M" "d < n" "n \<le> w" "unit_upper n n M" "cleared_above d M"
  shows "row_equiv n w M (eliminate_rows [0..<d] d M) \<and>
    unit_upper n n (eliminate_rows [0..<d] d M) \<and> cleared_above (Suc d) (eliminate_rows [0..<d] d M)"
proof -
  have e: "entry (eliminate_rows [0..<d] d M) i c =
     (if i < d then entry M i c + entry M i d * entry M d c else entry M i c)"
    if "c < w" for i c
    using eliminate_rows_entry [OF assms(1,2) _ that, of "[0..<d]" i] assms by auto
  have low: "entry M d c = 0" if "c < d" for c
    using assms that by (simp add: unit_upper_def)
  have "row_equiv n w M (eliminate_rows [0..<d] d M)"
    using eliminate_rows_equiv [OF assms(1,2)] assms(2) by simp
  moreover have "unit_upper n n (eliminate_rows [0..<d] d M)"
    unfolding unit_upper_def
  proof (intro allI impI conjI)
    fix c assume c: "c < n"
    then have cw: "c < w" using assms by simp
    show "entry (eliminate_rows [0..<d] d M) c c = 1"
      using assms c e [OF cw] low by (auto simp: unit_upper_def)
    fix i assume i: "i < n" "c < i"
    then have "entry M i c = 0" using assms c by (simp add: unit_upper_def)
    with i show "entry (eliminate_rows [0..<d] d M) i c = 0"
      using e [OF cw, of i] low by auto
  qed
  moreover have "cleared_above (Suc d) (eliminate_rows [0..<d] d M)"
    unfolding cleared_above_def
  proof (intro allI impI)
    fix c i assume ci: "c < Suc d" "i < c"
    then have cw: "c < w" using assms by simp
    have "entry M d d = 1" using assms by (simp add: unit_upper_def)
    with ci assms e [OF cw, of i] low show "entry (eliminate_rows [0..<d] d M) i c = 0"
      by (cases "c = d") (auto simp: cleared_above_def)
  qed
  ultimately show ?thesis by blast
qed

lemma backward_spec:
  "wf_mat n w M \<Longrightarrow> n \<le> w \<Longrightarrow> unit_upper n n M \<Longrightarrow> cleared_above d M \<Longrightarrow> d \<le> n \<Longrightarrow>
     row_equiv n w M (backward [d..<n] M) \<and> unit_upper n n (backward [d..<n] M) \<and>
     cleared_above n (backward [d..<n] M)"
proof (induction "n - d" arbitrary: d M)
  case 0
  then show ?case by (simp add: row_equiv_refl)
next
  case (Suc k)
  then have d: "d < n" by simp
  then have u: "[d..<n] = d # [Suc d..<n]" by (simp add: upt_conv_Cons)
  note s = backward_step [OF Suc.prems(1) d Suc.prems(2-4)]
  with Suc.hyps(1) [of "Suc d" "eliminate_rows [0..<d] d M"] Suc.hyps(2) Suc.prems d
  show ?case unfolding u by (auto simp: row_equiv_def)
qed

lemma gauss_jordan_sound:
  assumes "gauss_jordan M n = Ok M'" "wf_mat n w M"
  shows "row_equiv n w M M'" "n \<le> w"
    and "\<And>i j. i < n \<Longrightarrow> j < n \<Longrightarrow> entry M' i j = (if i = j then 1 else 0)"
proof -
  from assms(1) have n: "0 < n" by (auto simp: gauss_jordan_def split: if_splits)
  with assms(2) have w: "length (M ! 0) = w" by (simp add: wf_mat_row)
  from assms w show nw: "n \<le> w" by (auto simp: gauss_jordan_def Let_def split: if_splits)
  from assms(1) obtain M1 where 1: "forward [0..<n] n M = Ok M1" and M': "M' = backward [0..<n] M1"
    by (auto simp: gauss_jordan_def Let_def and_then_Ok split: if_splits)
  have f: "row_equiv n w M M1 \<and> unit_upper n n M1"
    using forward_Ok [OF 1 assms(2) nw] by (simp add: unit_upper_def)
  with backward_spec [of n w M1 0] nw
  have b: "row_equiv n w M1 M' \<and> unit_upper n n M' \<and> cleared_above n M'"
    by (simp add: M' row_equiv_def cleared_above_def)
  from f b show "row_equiv n w M M'" by (blast intro: row_equiv_trans)
  fix i j assume "i < n" "j < n"
  with b show "entry M' i j = (if i = j then 1 else 0)"
    by (cases i j rule: linorder_cases) (auto simp: unit_upper_def cleared_above_def)
qed

section \<open>Completeness of the elimination\<close>

lemma row_form_upd:
  assumes "k < w"
  shows "row_form w M (z(k := z k + v)) i = row_form w M z i + entry M i k * v"
proof -
  have "row_form w M (z(k := z k + v)) i =
      (\<Sum>j<w. entry M i j * z j + (if j = k then entry M i k * v else 0))"
    unfolding row_form_def by (rule sum.cong) (auto simp: algebra_simps)
  with assms show ?thesis by (simp add: sum.distrib row_form_def)
qed

text \<open>Back substitution in the unit upper triangular part, last row first.\<close>

lemma back_substitution:
  assumes "unit_upper n d M" "d < n" "n \<le> w" "k \<le> d"
  shows "\<exists>z. z d = 1 \<and> (\<forall>j>d. z j = 0) \<and> (\<forall>i. d - k \<le> i \<and> i < d \<longrightarrow> row_form w M z i = 0)"
  using assms(4)
proof (induction k)
  case 0
  show ?case by (intro exI [of _ "\<lambda>j. if j = d then 1 else 0"]) auto
next
  case (Suc k)
  then obtain z where z: "z d = 1" "\<forall>j>d. z j = 0"
    "\<forall>i. d - k \<le> i \<and> i < d \<longrightarrow> row_form w M z i = 0" by auto
  define r where "r = d - Suc k"
  with Suc.prems have r: "r < d" "r < w" "d - k = Suc r" using assms by auto
  let ?z = "z(r := z r + row_form w M z r)"
  have "row_form w M ?z i = 0" if i: "r \<le> i" "i < d" for i
  proof -
    have "row_form w M ?z i = row_form w M z i + entry M i r * row_form w M z r"
      using r(2) by (rule row_form_upd)
    moreover have "entry M i r = (if i = r then 1 else 0)"
      using assms i r by (auto simp: unit_upper_def)
    moreover have "row_form w M z i = 0" if "i \<noteq> r" using z(3) i r that by simp
    ultimately show ?thesis by (cases "i = r") simp_all
  qed
  moreover have "?z d = 1" "\<forall>j>d. ?z j = 0" using z r by simp_all
  ultimately show ?case unfolding r_def [symmetric] by blast
qed

lemma forward_step_complete:
  assumes "wf_mat n w M" "d < n" "n \<le> w" "unit_upper n d M" "trivial_kernel n w M"
  shows "\<exists>M'. forward_step n d M = Ok M'"
proof -
  have "\<exists>r. d \<le> r \<and> r < n \<and> M ! r ! d \<noteq> 0"
  proof (rule ccontr)
    assume no: "\<not> (\<exists>r. d \<le> r \<and> r < n \<and> M ! r ! d \<noteq> 0)"
    from back_substitution [OF assms(4,2,3), of d]
    obtain z where z: "z d = 1" "\<forall>j>d. z j = 0" "\<forall>i<d. row_form w M z i = 0" by auto
    have "row_form w M z i = 0" if i: "d \<le> i" "i < n" for i
    proof -
      have "entry M i j * z j = 0" for j
        using i no z(2) assms(4) by (cases j d rule: linorder_cases) (auto simp: unit_upper_def entry_def)
      then show ?thesis by (simp only: row_form_def sum.neutral_const)
    qed
    with z(3) have "nulls n w M z" unfolding nulls_def by (meson not_le_imp_less)
    moreover have "\<forall>j\<ge>n. z j = 0" using z(2) assms(2) by auto
    ultimately have "z d = 0" using assms(5) by (simp add: trivial_kernel_def)
    with z(1) show False by simp
  qed
  then obtain r where r: "d \<le> r" "r < n" "M ! r ! d \<noteq> 0" by blast
  have "\<exists>M1. find_pivot n d M = Ok M1"
  proof (cases "M ! d ! d = 0")
    case True
    with r have "find (\<lambda>row. M ! row ! d \<noteq> 0) [d + 1..<n] \<noteq> None"
      by (auto simp: find_None_iff Suc_le_eq intro: bexI [of _ r] dest: le_neq_implies_less)
    with True show ?thesis by (auto simp: find_pivot_def)
  qed (simp add: find_pivot_def)
  then obtain M1 where 1: "find_pivot n d M = Ok M1" by blast
  from find_pivot_Ok [OF this assms(1-4)]
  have "wf_mat n w M1" "unit_upper n d M1" "M1 ! d ! d \<noteq> 0" by (auto simp: row_equiv_def)
  from normalise_pivot_Ok [OF this(1) assms(2,3) this(2,3)] 1 show ?thesis
    by (auto simp: forward_step_def)
qed

lemma forward_complete:
  "wf_mat n w M \<Longrightarrow> n \<le> w \<Longrightarrow> unit_upper n d M \<Longrightarrow> d \<le> n \<Longrightarrow> trivial_kernel n w M \<Longrightarrow>
     \<exists>M'. forward [d..<n] n M = Ok M'"
proof (induction "n - d" arbitrary: d M)
  case 0
  then show ?case by simp
next
  case (Suc k)
  then have d: "d < n" by simp
  then have u: "[d..<n] = d # [Suc d..<n]" by (simp add: upt_conv_Cons)
  from forward_step_complete [OF Suc.prems(1) d Suc.prems(2,3,5)]
  obtain M1 where 1: "forward_step n d M = Ok M1" by blast
  note s = forward_step_Ok [OF 1 Suc.prems(1) d Suc.prems(2,3)]
  then have "trivial_kernel n w M1" using Suc.prems(5) by (simp add: trivial_kernel_def row_equiv_def)
  with Suc.hyps(1) [of "Suc d" M1] Suc.hyps(2) s Suc.prems d 1 show ?case
    unfolding u by (simp add: row_equiv_def)
qed

lemma gauss_jordan_complete:
  assumes "wf_mat n w M" "0 < n" "n \<le> w" "trivial_kernel n w M"
  shows "\<exists>M'. gauss_jordan M n = Ok M'"
proof -
  obtain M1 where "forward [0..<n] n M = Ok M1"
    using forward_complete [OF assms(1,3), of 0] assms(4) by (auto simp: unit_upper_def)
  moreover have "length M = n" "length (M ! 0) = w" "\<forall>row\<in>set M. length row = w"
    using assms by (auto simp: wf_mat_def)
  ultimately show ?thesis using assms(2,3) by (simp add: gauss_jordan_def Let_def)
qed

text \<open>Each augmented column of the result solves the system for that column.\<close>

lemma gauss_jordan_solves:
  assumes "gauss_jordan M n = Ok M'" "wf_mat n (n + m) M" "t < m" "i < n"
  shows "(\<Sum>j<n. entry M i j * entry M' j (n + t)) = entry M i (n + t)"
proof -
  note g = gauss_jordan_sound [OF assms(1,2)]
  define z where "z = (\<lambda>j. if j < n then entry M' j (n + t) else if j = n + t then 1 else 0)"
  have split: "row_form (n + m) A z i = (\<Sum>j<n. entry A i j * entry M' j (n + t)) + entry A i (n + t)"
    for A i
  proof -
    have "row_form (n + m) A z i = (\<Sum>j<n. entry A i j * z j) + (\<Sum>j<m. entry A i (n + j) * z (n + j))"
      unfolding row_form_def
      using sum.atLeastLessThan_concat [of 0 n "n + m" "\<lambda>j. entry A i j * z j"]
        sum.shift_bounds_nat_ivl [of "\<lambda>j. entry A i j * z j" 0 n m]
      by (simp add: atLeast0LessThan add.commute)
    also have "(\<Sum>j<m. entry A i (n + j) * z (n + j)) = (\<Sum>j<m. if j = t then entry A i (n + t) else 0)"
      by (rule sum.cong) (auto simp: z_def)
    finally show ?thesis using assms(3) by (simp add: z_def)
  qed
  have "(\<Sum>j<n. entry M' k j * entry M' j (n + t)) = entry M' k (n + t)" if "k < n" for k
  proof -
    have "(\<Sum>j<n. entry M' k j * entry M' j (n + t)) =
        (\<Sum>j<n. if k = j then entry M' k (n + t) else 0)"
      using g(3) [OF that] by (intro sum.cong) auto
    with that show ?thesis by simp
  qed
  then have "nulls n (n + m) M' z" by (simp add: nulls_def split)
  with g(1) have "nulls n (n + m) M z" by (simp add: row_equiv_def)
  then have "row_form (n + m) M z i = 0" using assms(4) by (simp add: nulls_def)
  then have "(\<Sum>j<n. entry M i j * entry M' j (n + t)) = - entry M i (n + t)"
    by (simp add: split eq_neg_iff_add_eq_0)
  then show ?thesis by (simp add: gf_neg)
qed

section \<open>Inverses\<close>

lemma sum_unit:
  "t < n \<Longrightarrow> (\<Sum>j<(n :: nat). f j * (if j = t then 1 else 0)) = (f t :: gf256)"
  by (subst sum.remove [of _ t]) (auto intro!: sum.neutral)

lemma trivial_kernelI:
  assumes "n \<le> w"
    and "\<And>z. (\<And>i. i < n \<Longrightarrow> (\<Sum>j<n. entry M i j * z j) = 0) \<Longrightarrow> \<forall>j<n. z j = 0"
  shows "trivial_kernel n w M"
  unfolding trivial_kernel_def
proof (intro allI impI)
  fix z j assume z0: "\<forall>j\<ge>n. z j = 0" and nl: "nulls n w M z"
  have "row_form w M z i = (\<Sum>j<n. entry M i j * z j)" for i
    unfolding row_form_def using assms(1) z0 by (intro sum.mono_neutral_right) auto
  then have "\<And>i. i < n \<Longrightarrow> (\<Sum>j<n. entry M i j * z j) = 0"
    using nl by (simp add: nulls_def)
  from assms(2) [OF this] z0 show "z j = 0" by (cases "j < n") auto
qed

text \<open>The augmented matrix \<open>invert\<close> builds: the matrix, then the identity.\<close>

definition augmented :: "matrix \<Rightarrow> matrix" where
  "augmented M = map (\<lambda>(row_index, row). (resize (2 * length M) 0 row)[length M + row_index := 1])
     (enumerate 0 M)"

lemma augmented_wf: "wf_mat n (n + n) (augmented M)" if "wf_mat n n M"
  using that by (auto simp: wf_mat_def augmented_def mult_2 enumerate_eq_zip)

lemma augmented_entry:
  assumes "wf_mat n n M" "i < n" "j < n + n"
  shows "entry (augmented M) i j = (if j < n then entry M i j else if j = n + i then 1 else 0)"
proof -
  have "augmented M ! i = (resize (2 * n) 0 (M ! i))[n + i := 1]"
    using assms by (simp add: augmented_def nth_enumerate_eq wf_mat_def)
  moreover have "length (M ! i) = n" using assms by (simp add: wf_mat_row)
  ultimately show ?thesis
    using assms by (auto simp: entry_def nth_list_update resize_def nth_append)
qed

lemma invert_alt:
  assumes "wf_mat n n M" "0 < n" "2 * n < usize_bound"
  shows "invert M = and_then (gauss_jordan (augmented M) n) (\<lambda>work'. Ok (map (drop n) work'))"
  using assms by (auto simp: invert_def wf_mat_def augmented_def usize_checked_mul_def Let_def mult.commute)

lemma invert_right:
  assumes "invert M = Ok W" "wf_mat n n M" "0 < n" "2 * n < usize_bound"
  shows "wf_mat n n W" "\<And>i t. i < n \<Longrightarrow> t < n \<Longrightarrow>
    (\<Sum>j<n. entry M i j * entry W j t) = (if i = t then 1 else 0)"
proof -
  from assms obtain M' where g: "gauss_jordan (augmented M) n = Ok M'" and W: "W = map (drop n) M'"
    by (auto simp: invert_alt and_then_Ok)
  have wf': "wf_mat n (n + n) M'"
    using gauss_jordan_sound(1) [OF g augmented_wf [OF assms(2)]] by (simp add: row_equiv_def)
  then show "wf_mat n n W" by (auto simp: W wf_mat_def)
  fix i t assume it: "i < n" "t < n"
  have "entry W j t = entry M' j (n + t)" if "j < n" for j
    using that wf' by (simp add: W entry_def wf_mat_def)
  then show "(\<Sum>j<n. entry M i j * entry W j t) = (if i = t then 1 else 0)"
    using gauss_jordan_solves [OF g augmented_wf [OF assms(2)] it(2,1)] it
    by (simp add: augmented_entry [OF assms(2)]) 
qed

lemma invert_complete:
  assumes "wf_mat n n M" "0 < n" "2 * n < usize_bound"
    and "\<And>z. (\<And>i. i < n \<Longrightarrow> (\<Sum>j<n. entry M i j * z j) = 0) \<Longrightarrow> \<forall>j<n. z j = 0"
  shows "\<exists>W. invert M = Ok W"
proof -
  have "trivial_kernel n (n + n) (augmented M)"
    using assms(4) by (intro trivial_kernelI) (simp_all add: augmented_entry [OF assms(1)])
  from gauss_jordan_complete [OF augmented_wf [OF assms(1)] assms(2) _ this]
  show ?thesis using assms(1-3) by (auto simp: invert_alt)
qed

text \<open>
  A matrix of field elements as bytes, so that a square array with a trivial kernel has a right
  inverse, and hence so does its transpose a left one.
\<close>

definition of_fun :: "nat \<Rightarrow> (nat \<Rightarrow> nat \<Rightarrow> gf256) \<Rightarrow> matrix" where
  "of_fun n A = map (\<lambda>i. map (\<lambda>j. gf_byte (A i j)) [0..<n]) [0..<n]"

lemma gf_gf_byte [simp]: "gf (gf_byte a) = a"
  by (simp add: gf_byte_inverse)

lemma right_inverse_exists:
  assumes "0 < n" "2 * n < usize_bound"
    and "\<And>z. (\<And>i. i < n \<Longrightarrow> (\<Sum>j<n. A i j * z j) = 0) \<Longrightarrow> \<forall>j<n. z j = 0"
  shows "\<exists>W. \<forall>i<n. \<forall>t<n. (\<Sum>j<n. A i j * W j t) = (if i = t then 1 else (0 :: gf256))"
proof -
  have wf: "wf_mat n n (of_fun n A)" by (auto simp: of_fun_def wf_mat_def)
  have e: "entry (of_fun n A) i j = A i j" if "i < n" "j < n" for i j
    using that by (simp add: of_fun_def entry_def)
  have "\<exists>W. invert (of_fun n A) = Ok W"
    using wf assms(1,2) by (rule invert_complete) (rule assms(3), simp add: e)
  then obtain W where "invert (of_fun n A) = Ok W" by blast
  from invert_right(2) [OF this wf assms(1,2)] e show ?thesis
    by (intro exI [of _ "entry W"]) simp
qed

text \<open>In a square array, no left kernel means no right kernel.\<close>

lemma left_kernel_right_kernel:
  assumes "0 < n" "2 * n < usize_bound"
    and left: "\<And>z. (\<And>j. j < n \<Longrightarrow> (\<Sum>i<n. A i j * z i) = 0) \<Longrightarrow> \<forall>i<n. z i = 0"
    and right: "\<And>i. i < n \<Longrightarrow> (\<Sum>j<n. A i j * z j) = (0 :: gf256)"
  shows "\<forall>j<n. z j = 0"
proof -
  have "\<exists>W. \<forall>i<n. \<forall>t<n. (\<Sum>j<n. A j i * W j t) = (if i = t then 1 else 0)"
    using assms(1,2) by (rule right_inverse_exists [where A = "\<lambda>i j. A j i"]) (rule left, simp)
  then obtain W where W: "\<And>i t. i < n \<Longrightarrow> t < n \<Longrightarrow> (\<Sum>j<n. A j i * W j t) = (if i = t then 1 else 0)"
    by blast
  show ?thesis
  proof (intro allI impI)
    fix t assume t: "t < n"
    have "0 = (\<Sum>i<n. (\<Sum>j<n. A i j * z j) * W i t)" using right by simp
    also have "\<dots> = (\<Sum>j<n. z j * (\<Sum>i<n. A i j * W i t))"
      unfolding sum_distrib_left sum_distrib_right by (subst sum.swap) (simp add: algebra_simps)
    also have "\<dots> = (\<Sum>j<n. z j * (if j = t then 1 else 0))" using W t by simp
    also have "\<dots> = z t" using t by (rule sum_unit)
    finally show "z t = 0" by simp
  qed
qed

text \<open>A right inverse of a square array with a trivial kernel is a left inverse.\<close>

lemma right_inverse_left_inverse:
  assumes ker: "\<And>z. (\<And>i. i < n \<Longrightarrow> (\<Sum>j<n. A i j * z j) = 0) \<Longrightarrow> \<forall>j<n. z j = 0"
    and right: "\<And>i t. i < n \<Longrightarrow> t < n \<Longrightarrow> (\<Sum>j<n. A i j * W j t) = (if i = t then 1 else (0 :: gf256))"
    and "l < (n :: nat)" "m < n"
  shows "(\<Sum>i<n. W l i * A i m) = (if l = m then 1 else 0)"
proof -
  define z where "z j = (\<Sum>i<n. W j i * A i m) - (if j = m then 1 else 0)" for j
  have "(\<Sum>j<n. A i j * z j) = 0" if "i < n" for i
  proof -
    have "(\<Sum>j<n. A i j * (\<Sum>k<n. W j k * A k m)) = (\<Sum>k<n. A k m * (\<Sum>j<n. A i j * W j k))"
      unfolding sum_distrib_left by (subst sum.swap) (simp add: algebra_simps)
    also have "\<dots> = (\<Sum>k<n. A k m * (if k = i then 1 else 0))"
      using right [OF that] by (intro sum.cong) auto
    also have "\<dots> = A i m" using that by (rule sum_unit)
    finally show ?thesis
      using assms(4) by (simp add: z_def right_diff_distrib sum_subtractf sum_unit)
  qed
  from ker [OF this] assms(3) show ?thesis by (simp add: z_def)
qed

section \<open>Vandermonde rows with distinct points\<close>

lemma product_coefficients:
  "finite A \<Longrightarrow> \<exists>c. \<forall>x. (\<Prod>m\<in>A. x - p m) = (\<Sum>l\<le>card A. c l * x ^ l :: gf256)"
proof (induction A rule: finite_induct)
  case empty
  show ?case by (rule exI [of _ "\<lambda>_. 1"]) simp
next
  case (insert a A)
  then obtain c where c: "\<And>x. (\<Prod>m\<in>A. x - p m) = (\<Sum>l\<le>card A. c l * x ^ l)" by blast
  define c' where "c' l = (if l = 0 then 0 else c (l - 1)) - (if l \<le> card A then p a * c l else 0)" for l
  have "(\<Prod>m\<in>insert a A. x - p m) = (\<Sum>l\<le>card (insert a A). c' l * x ^ l)" for x
  proof -
    have "(\<Sum>l\<le>Suc (card A). (if l = 0 then 0 else c (l - 1)) * x ^ l) = x * (\<Sum>l\<le>card A. c l * x ^ l)"
      by (simp add: sum.atMost_Suc_shift sum_distrib_left algebra_simps del: sum.atMost_Suc)
    moreover have "(\<Sum>l\<le>Suc (card A). (if l \<le> card A then p a * c l else 0) * x ^ l) =
        p a * (\<Sum>l\<le>card A. c l * x ^ l)"
      by (simp add: sum_distrib_left algebra_simps)
    ultimately have "(\<Sum>l\<le>Suc (card A). c' l * x ^ l) = (x - p a) * (\<Sum>l\<le>card A. c l * x ^ l)"
      by (simp only: c'_def left_diff_distrib sum_subtractf)
    with insert c show ?thesis by simp
  qed
  then show ?case by blast
qed

lemma vandermonde_left_kernel:
  assumes inj: "inj_on p {..<n}"
    and z: "\<And>l. l < n \<Longrightarrow> (\<Sum>j<n. p j ^ l * z j) = (0 :: gf256)"
  shows "\<forall>j<n. z j = 0"
proof (intro allI impI)
  fix t assume t: "t < n"
  let ?A = "{..<n} - {t}"
  have card: "card ?A < n" using t by simp
  obtain c where c: "\<And>x. (\<Prod>m\<in>?A. x - p m) = (\<Sum>l\<le>card ?A. c l * x ^ l)"
    using product_coefficients [of ?A p] by auto
  have "0 = (\<Sum>l\<le>card ?A. c l * (\<Sum>j<n. p j ^ l * z j))"
    using z card by (intro sum.neutral [symmetric]) auto
  also have "\<dots> = (\<Sum>j<n. (\<Sum>l\<le>card ?A. c l * p j ^ l) * z j)"
    unfolding sum_distrib_left sum_distrib_right by (subst sum.swap) (simp add: algebra_simps)
  also have "\<dots> = (\<Sum>j<n. (\<Prod>m\<in>?A. p j - p m) * z j)" by (simp only: c)
  also have "\<dots> = (\<Prod>m\<in>?A. p t - p m) * z t"
  proof (subst sum.remove [of _ t])
    have "(\<Prod>m\<in>?A. p j - p m) = 0" if "j \<in> ?A" for j
      using that by (intro prod_zero) auto
    then show "(\<Prod>m\<in>?A. p t - p m) * z t + (\<Sum>j\<in>?A. (\<Prod>m\<in>?A. p j - p m) * z j) =
        (\<Prod>m\<in>?A. p t - p m) * z t" by (simp del: prod_zero_iff)
  qed (use t in auto)
  finally have "(\<Prod>m\<in>?A. p t - p m) * z t = 0" by simp
  moreover have "(\<Prod>m\<in>?A. p t - p m) \<noteq> 0"
    using inj t by (auto simp: inj_on_def)
  ultimately show "z t = 0" by simp
qed

section \<open>The coding matrix\<close>

lemma point_inj: "inj_on (\<lambda>r. gf (word_of_nat r)) {..<256}"
proof (rule inj_onI)
  fix a b :: nat assume "a \<in> {..<256}" "b \<in> {..<256}" "gf (word_of_nat a) = gf (word_of_nat b)"
  then show "a = b" by (auto simp: word_of_nat_eq_iff take_bit_eq_mod)
qed

lemma vandermonde_wf: "wf_mat tot k (vandermonde k tot)"
  by (auto simp: wf_mat_def vandermonde_def)

lemma vandermonde_entry:
  "r < tot \<Longrightarrow> c < k \<Longrightarrow> entry (vandermonde k tot) r c = gf (word_of_nat r) ^ c"
  by (simp add: vandermonde_def entry_def gf_ops)

lemma foldl_xor_sum:
  "gf (foldl (\<lambda>value index. value XOR f index) a [0..<n]) = gf a + (\<Sum>i<n. gf (f i))"
  by (induction n) (simp_all add: gf_ops add.assoc)

lemma matrix_multiply_spec:
  assumes "wf_mat n m A" "wf_mat m k B" "0 < m"
  shows "\<exists>C. matrix_multiply A B = Ok C \<and> wf_mat n k C \<and>
    (\<forall>i<n. \<forall>c<k. entry C i c = (\<Sum>j<m. entry A i j * entry B j c))"
proof -
  from assms have "B \<noteq> []" "length (B ! 0) = k" "length B = m" "length A = n"
    by (auto simp: wf_mat_def)
  then show ?thesis
    by (auto simp: matrix_multiply_def Let_def wf_mat_def entry_def foldl_xor_sum gf_ops)
qed

text \<open>The selected Vandermonde rows, in any order, are independent.\<close>

lemma vandermonde_selected:
  assumes "distinct sel" "\<forall>r \<in> set sel. r < tot" "tot \<le> 256" "length sel = k"
    and "\<And>l. l < k \<Longrightarrow> (\<Sum>j<k. entry (vandermonde k tot) (sel ! j) l * z j) = 0"
  shows "\<forall>j<k. z j = 0"
proof (rule vandermonde_left_kernel)
  show "inj_on (\<lambda>j. gf (word_of_nat (sel ! j))) {..<k}"
  proof (rule inj_onI)
    fix a b assume ab: "a \<in> {..<k}" "b \<in> {..<k}" "gf (word_of_nat (sel ! a)) = gf (word_of_nat (sel ! b))"
    then have "sel ! a \<in> set sel" "sel ! b \<in> set sel" using assms(4) by auto
    then have "sel ! a < 256" "sel ! b < 256" using assms(2,3) by fastforce+
    with ab(3) have "sel ! a = sel ! b" using inj_onD [OF point_inj] by simp
    with ab assms(1,4) show "a = b" by (simp add: nth_eq_iff_index_eq)
  qed
  fix l assume "l < k"
  with assms(5) [of l] assms(2,4) show "(\<Sum>j<k. gf (word_of_nat (sel ! j)) ^ l * z j) = 0"
    by (simp add: vandermonde_entry)
qed

lemma coding_matrix_spec:
  assumes "0 < k" "k \<le> tot" "tot \<le> 256"
  obtains C W where "coding_matrix k tot = Ok C" "wf_mat tot k C" "wf_mat k k W"
    "\<And>i c. i < tot \<Longrightarrow> c < k \<Longrightarrow> entry C i c = (\<Sum>j<k. entry (vandermonde k tot) i j * entry W j c)"
    "\<And>i c. i < k \<Longrightarrow> c < k \<Longrightarrow>
       (\<Sum>j<k. entry (vandermonde k tot) i j * entry W j c) = (if i = c then 1 else 0)"
    "\<And>l m. l < k \<Longrightarrow> m < k \<Longrightarrow>
       (\<Sum>i<k. entry W l i * entry (vandermonde k tot) i m) = (if l = m then 1 else 0)"
proof -
  let ?V = "vandermonde k tot"
  let ?T = "take k ?V"
  have wfT: "wf_mat k k ?T"
    using assms by (auto simp: wf_mat_def vandermonde_def dest!: in_set_takeD)
  have T: "entry ?T i j = entry ?V i j" if "i < k" for i j using that by (simp add: entry_def)
  have small: "2 * k < usize_bound" using assms by (simp add: usize_bound_def)
  have left: "\<forall>i<k. z i = 0" if "\<And>l. l < k \<Longrightarrow> (\<Sum>i<k. entry ?V i l * z i) = 0" for z
    using assms that by (intro vandermonde_selected [of "[0..<k]" tot]) auto
  have right: "\<forall>j<k. z j = 0" if "\<And>i. i < k \<Longrightarrow> (\<Sum>j<k. entry ?V i j * z j) = 0" for z
    using assms(1) small left that by (rule left_kernel_right_kernel)
  have "\<forall>j<k. z j = 0" if "\<And>i. i < k \<Longrightarrow> (\<Sum>j<k. entry ?T i j * z j) = 0" for z
    by (rule right) (use that T in simp)
  from invert_complete [OF wfT assms(1) small this] have "\<exists>W. invert ?T = Ok W" .
  then obtain W where W: "invert ?T = Ok W" by blast
  note inv = invert_right [OF W wfT assms(1) small]
  have TW: "(\<Sum>j<k. entry ?V i j * entry W j c) = (if i = c then 1 else 0)" if "i < k" "c < k" for i c
    using inv(2) [OF that] that by (simp add: T)
  from matrix_multiply_spec [OF vandermonde_wf inv(1) assms(1), of tot]
  obtain C where C: "matrix_multiply ?V W = Ok C \<and> wf_mat tot k C \<and>
      (\<forall>i<tot. \<forall>c<k. entry C i c = (\<Sum>j<k. entry ?V i j * entry W j c))"
    by (rule exE)
  moreover from C W assms have "coding_matrix k tot = Ok C" by (simp add: coding_matrix_def Let_def)
  moreover have "(\<Sum>i<k. entry W l i * entry ?V i m) = (if l = m then 1 else 0)"
    if "l < k" "m < k" for l m
    using right TW that by (rule right_inverse_left_inverse)
  ultimately show ?thesis by (intro that [of C W] inv(1) TW) simp_all
qed

text \<open>Any \<open>k\<close> distinct rows of the coding matrix determine the data.\<close>

lemma coding_selected_independent:
  assumes "0 < k" "k \<le> tot" "tot \<le> 256" "coding_matrix k tot = Ok C"
    and "distinct sel" "\<forall>r \<in> set sel. r < tot" "length sel = k"
    and ker: "\<And>i. i < k \<Longrightarrow> (\<Sum>j<k. entry C (sel ! j) i * z j) = 0"
  shows "\<forall>j<k. z j = 0"
proof -
  let ?V = "vandermonde k tot"
  obtain W where C: "\<And>i c. i < tot \<Longrightarrow> c < k \<Longrightarrow> entry C i c = (\<Sum>j<k. entry ?V i j * entry W j c)"
    and WT: "\<And>l m. l < k \<Longrightarrow> m < k \<Longrightarrow> (\<Sum>i<k. entry W l i * entry ?V i m) = (if l = m then 1 else 0)"
    using coding_matrix_spec [OF assms(1-3)] assms(4) by (metis outcome.inject(1))
  have sel: "sel ! j < tot" if "j < k" for j using assms(6,7) that by simp
  define y where "y l = (\<Sum>j<k. entry ?V (sel ! j) l * z j)" for l
  have yW: "(\<Sum>l<k. y l * entry W l i) = 0" if "i < k" for i
  proof -
    have "(\<Sum>l<k. y l * entry W l i) = (\<Sum>j<k. (\<Sum>l<k. entry ?V (sel ! j) l * entry W l i) * z j)"
      unfolding y_def sum_distrib_right by (subst sum.swap) (simp add: algebra_simps)
    also have "\<dots> = (\<Sum>j<k. entry C (sel ! j) i * z j)" using C sel that by simp
    finally show ?thesis using ker [OF that] by simp
  qed
  have "y m = 0" if m: "m < k" for m
  proof -
    have "0 = (\<Sum>i<k. (\<Sum>l<k. y l * entry W l i) * entry ?V i m)" using yW by simp
    also have "\<dots> = (\<Sum>l<k. y l * (\<Sum>i<k. entry W l i * entry ?V i m))"
      unfolding sum_distrib_right sum_distrib_left by (subst sum.swap) (simp add: algebra_simps)
    also have "\<dots> = (\<Sum>l<k. y l * (if l = m then 1 else 0))" using WT m by simp
    also have "\<dots> = y m" using m by (rule sum_unit)
    finally show ?thesis by simp
  qed
  with assms(3,5-7) show ?thesis
    by (intro vandermonde_selected [of sel tot]) (auto simp: y_def)
qed

lemma decode_system_wf:
  "wf_mat (length sel) (length sel + length req) (decode_system C sel req)"
  by (auto simp: decode_system_def wf_mat_def Let_def)

lemma decode_system_entry:
  "i < length sel \<Longrightarrow> j < length sel \<Longrightarrow> entry (decode_system C sel req) i j = entry C (sel ! j) i"
  "i < length sel \<Longrightarrow> t < length req \<Longrightarrow>
     entry (decode_system C sel req) i (length sel + t) = (if req ! t = i then 1 else 0)"
  by (auto simp: decode_system_def entry_def Let_def nth_append)

lemma inverse_rows_for_selected_spec:
  assumes "0 < k" "k \<le> tot" "tot \<le> 256" "coding_matrix k tot = Ok C"
    and "distinct sel" "\<forall>r \<in> set sel. r < tot" "length sel = k"
    and "\<forall>r \<in> set req. r < k" "k + length req < usize_bound"
  shows "\<exists>R. inverse_rows_for_selected C sel req = Ok R \<and> wf_mat (length req) k R \<and>
    (\<forall>t<length req. \<forall>i<k. (\<Sum>j<k. entry C (sel ! j) i * entry R t j) = (if req ! t = i then 1 else 0))"
proof (cases "req = []")
  case True
  moreover have "wf_mat tot k C" using coding_matrix_spec [OF assms(1-3)] assms(4)
    by (metis outcome.inject(1))
  ultimately show ?thesis using assms
    by (auto simp: inverse_rows_for_selected_def Let_def wf_mat_def)
next
  case False
  have wfC: "wf_mat tot k C" using coding_matrix_spec [OF assms(1-3)] assms(4)
    by (metis outcome.inject(1))
  let ?S = "decode_system C sel req"
  have wfS: "wf_mat k (k + length req) ?S" using decode_system_wf assms(7) by blast
  have "trivial_kernel k (k + length req) ?S"
    by (rule trivial_kernelI, simp, rule coding_selected_independent [OF assms(1-7)])
      (simp add: decode_system_entry assms(7))
  from gauss_jordan_complete [OF wfS assms(1) _ this] obtain M'
    where M': "gauss_jordan ?S k = Ok M'" by auto
  define R where "R = map (\<lambda>t. map (\<lambda>j. M' ! j ! (k + t)) [0..<k]) [0..<length req]"
  have "inverse_rows_for_selected C sel req = Ok R"
    using assms wfC False M'
    by (auto simp: inverse_rows_for_selected_def Let_def usize_checked_add_def R_def wf_mat_def)
  moreover have "entry R t j = entry M' j (k + t)" if "t < length req" "j < k" for t j
    using that by (simp add: R_def entry_def)
  moreover have "wf_mat (length req) k R" by (auto simp: R_def wf_mat_def)
  moreover have "entry ?S i j = entry C (sel ! j) i" if "i < k" "j < k" for i j
    using decode_system_entry(1) assms(7) that by simp
  moreover have "entry ?S i (k + t) = (if req ! t = i then 1 else 0)" if "t < length req" "i < k" for t i
    using decode_system_entry(2) [of i sel t req C] assms(7) that by simp
  ultimately show ?thesis using gauss_jordan_solves [OF M' wfS] by simp
qed

end
