(* ===== verification/Memo.thy ===== *)
theory Memo
  imports Prelude
begin

text \<open>
  The contract of a memoised computation: a store that may forget entries but never invents one,
  and a fetch that consults it before computing.  The client lemma is that the store is invisible:
  a fetch returns what the computation returns, and a store that only holds computed values keeps
  only computed values.  The coding-matrix cache of \<open>erasure_coding.rs\<close> provides it.
\<close>

locale memo =
  fixes compute :: "'k \<Rightarrow> ('e, 'v) outcome"
    and lookup :: "'k \<Rightarrow> 'c \<Rightarrow> 'v option \<times> 'c"
    and store :: "'k \<Rightarrow> 'v \<Rightarrow> 'c \<Rightarrow> 'c"
    and contents :: "'c \<Rightarrow> ('k \<times> 'v) set"
    and fetch :: "'k \<Rightarrow> 'c \<Rightarrow> ('e, 'v) outcome \<times> 'c"
  assumes lookup_found: "lookup k c = (Some v, c') \<Longrightarrow> (k, v) \<in> contents c"
    and lookup_contents: "lookup k c = (r, c') \<Longrightarrow> contents c' \<subseteq> contents c"
    and store_contents: "contents (store k v c) \<subseteq> insert (k, v) (contents c)"
    and fetch_unfold: "fetch k c =
      (case lookup k c of
         (Some v, c') \<Rightarrow> (Ok v, c')
       | (None, c') \<Rightarrow>
           (case compute k of
              Ok v \<Rightarrow> (Ok v, store k v c')
            | Err e \<Rightarrow> (Err e, c')
            | Panic \<Rightarrow> (Panic, c')))"
begin

definition coherent :: "'c \<Rightarrow> bool" where
  "coherent c \<longleftrightarrow> (\<forall>(k, v) \<in> contents c. compute k = Ok v)"

lemma coherent_mono: "coherent c \<Longrightarrow> contents c' \<subseteq> contents c \<Longrightarrow> coherent c'"
  by (auto simp: coherent_def)

lemma fetch_transparent:
  assumes "coherent c"
  shows "fst (fetch k c) = compute k" and "coherent (snd (fetch k c))"
proof -
  obtain r c' where l: "lookup k c = (r, c')" by (cases "lookup k c")
  have c': "coherent c'" using lookup_contents [OF l] coherent_mono [OF assms] by blast
  have hit: "compute k = Ok v" if "r = Some v" for v
    using lookup_found [of k c v c'] l that assms by (auto simp: coherent_def)
  have miss: "coherent (store k v c')" if "compute k = Ok v" for v
    using store_contents [of k v c'] c' that by (auto simp: coherent_def)
  show "fst (fetch k c) = compute k"
    using hit by (auto simp: fetch_unfold l split: option.splits outcome.splits)
  show "coherent (snd (fetch k c))"
    using c' miss by (auto simp: fetch_unfold l split: option.splits outcome.splits)
qed

end

end
