(* ===== verification/ReedSolomon.thy ===== *)
theory ReedSolomon
  imports CodingMatrix Memo
begin

text \<open>
  Reed-Solomon reconstruction of \<open>src/erasure_coding.rs\<close>: the table-driven combination of
  shards, the 64-entry least-recently-used cache of coding matrices, and
  \<open>reconstruct_data_indices\<close> with its error branches.  The main result is that any
  \<open>data_count\<close> surviving shards of a codeword give back every requested missing data shard,
  byte for byte, whatever the cache holds.
\<close>

section \<open>Combining shards\<close>

definition xor_into :: "(u8 \<Rightarrow> u8) \<Rightarrow> bytes \<Rightarrow> bytes \<Rightarrow> bytes" where
  "xor_into f output input =
     map2 (\<lambda>out value. out XOR f value) output input @ drop (length input) output"

definition code_row_step :: "bytes \<Rightarrow> u8 \<times> bytes \<Rightarrow> bytes" where
  "code_row_step output = (\<lambda>(coefficient, input).
     if coefficient = 0 then output
     else if coefficient = 1 then xor_into (\<lambda>value. value) output input
     else let products = multiplication_table ! unat coefficient
          in xor_into (\<lambda>value. products ! unat value) output input)"

definition code_row_slices :: "u8 list \<Rightarrow> bytes list \<Rightarrow> nat \<Rightarrow> bytes" where
  "code_row_slices coefficients inputs shard_size =
     foldl code_row_step (replicate shard_size 0) (zip coefficients inputs)"

section \<open>The coding matrix cache\<close>

type_synonym matrix_key = "nat \<times> nat"

record CodingMatrixCache =
  cache_entries :: "(matrix_key \<times> matrix) list"

definition CODING_MATRIX_CACHE_ENTRIES :: nat where
  "CODING_MATRIX_CACHE_ENTRIES = 64"

definition cache_get :: "matrix_key \<Rightarrow> CodingMatrixCache \<Rightarrow> matrix option \<times> CodingMatrixCache" where
  "cache_get key cache =
     (case position (\<lambda>(candidate, _). candidate = key) (cache_entries cache) of
        None \<Rightarrow> (None, cache)
      | Some index \<Rightarrow>
          (let e = cache_entries cache ! index;
               rest = take index (cache_entries cache) @ drop (Suc index) (cache_entries cache)
           in (Some (snd e), cache\<lparr>cache_entries := rest @ [e]\<rparr>)))"

definition cache_insert :: "matrix_key \<Rightarrow> matrix \<Rightarrow> CodingMatrixCache \<Rightarrow> CodingMatrixCache" where
  "cache_insert key mat cache =
     (let kept = (if length (cache_entries cache) = CODING_MATRIX_CACHE_ENTRIES
                  then tl (cache_entries cache) else cache_entries cache)
      in cache\<lparr>cache_entries := kept @ [(key, mat)]\<rparr>)"

definition cached_coding_matrix ::
  "matrix_key \<Rightarrow> CodingMatrixCache \<Rightarrow> (ReedSolomonError, matrix) outcome \<times> CodingMatrixCache" where
  "cached_coding_matrix key cache =
     (case cache_get key cache of
        (Some mat, cache') \<Rightarrow> (Ok mat, cache')
      | (None, cache') \<Rightarrow>
          (case coding_matrix (fst key) (snd key) of
             Ok mat \<Rightarrow> (Ok mat, cache_insert key mat cache')
           | Err e \<Rightarrow> (Err e, cache')
           | Panic \<Rightarrow> (Panic, cache')))"

section \<open>Reconstruction\<close>

fun requested_mask :: "nat list \<Rightarrow> bool list \<Rightarrow> (ReedSolomonError, bool list) outcome" where
  "requested_mask [] wanted = Ok wanted"
| "requested_mask (index # rest) wanted =
     (if index < length wanted then requested_mask rest (wanted[index := True])
      else Err InvalidShardCount)"

fun first_shard_len :: "bytes option list \<Rightarrow> nat option" where
  "first_shard_len [] = None"
| "first_shard_len (None # rest) = first_shard_len rest"
| "first_shard_len (Some shard # rest) = Some (length shard)"

definition survivors :: "bytes option list \<Rightarrow> nat list" where
  "survivors shards = filter (\<lambda>index. shards ! index \<noteq> None) [0..<length shards]"

fun place :: "(nat \<times> bytes) list \<Rightarrow> bytes option list \<Rightarrow> bytes option list" where
  "place [] shards = shards"
| "place ((data_index, shard) # rest) shards = place rest (shards[data_index := Some shard])"

definition reconstruct_data_indices ::
  "bytes option list \<Rightarrow> nat \<Rightarrow> nat list \<Rightarrow> CodingMatrixCache \<Rightarrow>
   (ReedSolomonError, bytes option list) outcome \<times> CodingMatrixCache" where
  "reconstruct_data_indices shards data_count requested_indices cache =
     (if data_count = 0 \<or> length shards \<le> data_count \<or> 256 < length shards
      then (Err InvalidShardCount, cache)
      else case requested_mask requested_indices (replicate data_count False) of
        Err e \<Rightarrow> (Err e, cache)
      | Panic \<Rightarrow> (Panic, cache)
      | Ok wanted \<Rightarrow>
        (case first_shard_len shards of
           None \<Rightarrow> (Err TooFewShards, cache)
         | Some shard_size \<Rightarrow>
           if shard_size = 0 \<or> (\<exists>shard \<in> set shards. shard \<noteq> None \<and> length (the shard) \<noteq> shard_size)
           then (Err InvalidShardSize, cache)
           else let selected = take data_count (survivors shards) in
           if length selected < data_count then (Err TooFewShards, cache)
           else let missing_indices =
                  filter (\<lambda>data_index. shards ! data_index = None \<and> wanted ! data_index) [0..<data_count]
           in if missing_indices = [] then (Ok shards, cache)
           else let (m, cache') = cached_coding_matrix (data_count, length shards) cache
           in (and_then m (\<lambda>mat.
                 let selected_shards = map (\<lambda>index. the (shards ! index)) selected
                 in and_then (inverse_rows_for_selected mat selected missing_indices) (\<lambda>decode_rows.
                    let recovered = map (\<lambda>decode_row.
                          code_row_slices decode_row selected_shards shard_size) decode_rows
                    in Ok (place (zip missing_indices recovered) shards))), cache')))"

section \<open>Facts about combining shards\<close>

lemma table_entry: "multiplication_table ! unat c ! unat v = gf_mul c v"
  by (simp add: multiplication_table_def)

lemma length_code_row_step:
  "length input = length output \<Longrightarrow> length (code_row_step output (c, input)) = length output"
  by (simp add: code_row_step_def xor_into_def Let_def)

lemma code_row_step_nth:
  "length input = length output \<Longrightarrow> b < length output \<Longrightarrow>
     gf (code_row_step output (c, input) ! b) = gf (output ! b) + gf c * gf (input ! b)"
  by (auto simp: code_row_step_def xor_into_def Let_def nth_append table_entry gf_ops)

lemma foldl_code_row_step:
  "\<forall>p \<in> set ps. length (snd p) = length output \<Longrightarrow>
     length (foldl code_row_step output ps) = length output \<and>
     (\<forall>b<length output. gf (foldl code_row_step output ps ! b) =
        gf (output ! b) + (\<Sum>j<length ps. gf (fst (ps ! j)) * gf (snd (ps ! j) ! b)))"
proof (induction ps rule: rev_induct)
  case Nil
  then show ?case by simp
next
  case (snoc p ps)
  obtain c input where p: "p = (c, input)" by (cases p)
  let ?o = "foldl code_row_step output ps"
  from snoc have IH: "length ?o = length output"
    "\<forall>b<length output. gf (?o ! b) =
        gf (output ! b) + (\<Sum>j<length ps. gf (fst (ps ! j)) * gf (snd (ps ! j) ! b))"
    and input: "length input = length output" by (auto simp: p)
  then show ?case
    by (simp add: p length_code_row_step code_row_step_nth nth_append add.assoc)
qed

lemma code_row_slices_spec:
  assumes "\<forall>input \<in> set inputs. length input = sz" "length coefficients = length inputs"
  shows "length (code_row_slices coefficients inputs sz) = sz"
    and "b < sz \<Longrightarrow> gf (code_row_slices coefficients inputs sz ! b) =
      (\<Sum>j<length inputs. gf (coefficients ! j) * gf (inputs ! j ! b))"
proof -
  have "\<forall>p \<in> set (zip coefficients inputs). length (snd p) = length (replicate sz (0 :: u8))"
    using assms by (auto dest: set_zip_rightD)
  note f = foldl_code_row_step [OF this]
  then show "length (code_row_slices coefficients inputs sz) = sz"
    by (simp add: code_row_slices_def)
  assume "b < sz"
  with f assms(2) show "gf (code_row_slices coefficients inputs sz ! b) =
      (\<Sum>j<length inputs. gf (coefficients ! j) * gf (inputs ! j ! b))"
    by (simp add: code_row_slices_def)
qed

section \<open>The cache is transparent and bounded\<close>

definition cache_wf :: "CodingMatrixCache \<Rightarrow> bool" where
  "cache_wf cache \<longleftrightarrow>
     length (cache_entries cache) \<le> CODING_MATRIX_CACHE_ENTRIES \<and>
     distinct (map fst (cache_entries cache)) \<and>
     (\<forall>(key, mat) \<in> set (cache_entries cache). coding_matrix (fst key) (snd key) = Ok mat)"

lemma remove_nth_split: "i < length xs \<Longrightarrow> xs = take i xs @ xs ! i # drop (Suc i) xs"
  by (simp add: id_take_nth_drop)

lemma cache_get_hit:
  assumes "cache_get key cache = (Some mat, cache')"
  obtains index where "index < length (cache_entries cache)" "cache_entries cache ! index = (key, mat)"
    "cache_entries cache' = take index (cache_entries cache) @ drop (Suc index) (cache_entries cache) @ [(key, mat)]"
proof -
  from assms obtain index where i: "position (\<lambda>(candidate, _). candidate = key) (cache_entries cache) = Some index"
    and m: "mat = snd (cache_entries cache ! index)"
    and c: "cache_entries cache' =
      take index (cache_entries cache) @ drop (Suc index) (cache_entries cache) @ [cache_entries cache ! index]"
    by (auto simp: cache_get_def Let_def split: option.splits)
  then have "cache_entries cache ! index = (key, mat)" "index < length (cache_entries cache)"
    by (auto simp: position_Some split: prod.splits)
  with c that show ?thesis by simp
qed

lemma cache_get_miss:
  "cache_get key cache = (None, cache') \<Longrightarrow> cache' = cache \<and> key \<notin> fst ` set (cache_entries cache)"
  by (force simp: cache_get_def Let_def position_None split: option.splits)

lemma cache_get_set:
  assumes "cache_get key cache = (r, cache')"
  shows "set (cache_entries cache') = set (cache_entries cache)"
proof (cases r)
  case None
  with assms cache_get_miss [of key cache cache'] show ?thesis by simp
next
  case (Some mat)
  with assms obtain index where i: "index < length (cache_entries cache)"
    "cache_entries cache ! index = (key, mat)"
    "cache_entries cache' = take index (cache_entries cache) @ drop (Suc index) (cache_entries cache) @ [(key, mat)]"
    by (auto elim: cache_get_hit)
  have "set (cache_entries cache) =
      set (take index (cache_entries cache)) \<union> {(key, mat)} \<union> set (drop (Suc index) (cache_entries cache))"
    using arg_cong [OF remove_nth_split [OF i(1)], of set] i(2) by simp
  with i(3) show ?thesis by auto
qed

lemma set_tl_subset: "set (tl xs) \<subseteq> set xs"
  by (cases xs) auto

lemma cache_insert_set:
  "set (cache_entries (cache_insert key mat cache)) \<subseteq> insert (key, mat) (set (cache_entries cache))"
  using set_tl_subset [of "cache_entries cache"] by (auto simp: cache_insert_def Let_def)

interpretation matrices: memo "\<lambda>key. coding_matrix (fst key) (snd key)" cache_get cache_insert
  "\<lambda>cache. set (cache_entries cache)" cached_coding_matrix
proof unfold_locales
  fix k c v c' assume "cache_get k c = (Some v, c')"
  then show "(k, v) \<in> set (cache_entries c)"
    by (rule cache_get_hit) (metis nth_mem)
next
  fix k c r c' assume "cache_get k c = (r, c')"
  then show "set (cache_entries c') \<subseteq> set (cache_entries c)" by (simp add: cache_get_set)
next
  fix k v c
  show "set (cache_entries (cache_insert k v c)) \<subseteq> insert (k, v) (set (cache_entries c))"
    by (rule cache_insert_set)
qed (simp add: cached_coding_matrix_def)

lemma cache_wf_coherent: "cache_wf cache \<Longrightarrow> matrices.coherent cache"
  by (simp add: cache_wf_def matrices.coherent_def)

lemma cached_coding_matrix_result:
  "cache_wf cache \<Longrightarrow> fst (cached_coding_matrix key cache) = coding_matrix (fst key) (snd key)"
  by (simp add: matrices.fetch_transparent(1) cache_wf_coherent)

lemma cache_get_shape:
  assumes "cache_get key cache = (r, cache')" "cache_wf cache"
  shows "length (cache_entries cache') = length (cache_entries cache) \<and>
    distinct (map fst (cache_entries cache'))"
proof (cases r)
  case None
  with assms cache_get_miss [of key cache cache'] show ?thesis by (simp add: cache_wf_def)
next
  case (Some mat)
  with assms(1) obtain index where i: "index < length (cache_entries cache)"
    "cache_entries cache ! index = (key, mat)"
    "cache_entries cache' = take index (cache_entries cache) @ drop (Suc index) (cache_entries cache) @ [(key, mat)]"
    by (auto elim: cache_get_hit)
  have "distinct (map fst (take index (cache_entries cache) @ (key, mat) # drop (Suc index) (cache_entries cache)))"
    using assms(2) remove_nth_split [OF i(1)] i(2) by (simp add: cache_wf_def)
  with i show ?thesis by auto
qed

lemma cached_coding_matrix_wf:
  assumes "cache_wf cache"
  shows "cache_wf (snd (cached_coding_matrix key cache))"
proof -
  obtain r cache' where g: "cache_get key cache = (r, cache')" by (cases "cache_get key cache")
  note shape = cache_get_shape [OF g assms]
  have coh: "matrices.coherent (snd (cached_coding_matrix key cache))"
    using matrices.fetch_transparent(2) cache_wf_coherent [OF assms] .
  have miss: "length (cache_entries (cache_insert key mat cache)) \<le> CODING_MATRIX_CACHE_ENTRIES \<and>
      distinct (map fst (cache_entries (cache_insert key mat cache)))"
    if "r = None" for mat
  proof -
    let ?ks = "map fst (cache_entries cache)"
    have "key \<notin> set ?ks" using that g cache_get_miss [of key cache cache'] by simp
    then have "distinct (?ks @ [key])" "distinct (tl ?ks @ [key])"
      using assms set_tl_subset [of ?ks] by (auto simp: cache_wf_def distinct_tl)
    then show ?thesis using assms
      by (auto simp: cache_wf_def cache_insert_def Let_def CODING_MATRIX_CACHE_ENTRIES_def map_tl [symmetric]
          image_iff)
  qed
  have "length (cache_entries (snd (cached_coding_matrix key cache))) \<le> CODING_MATRIX_CACHE_ENTRIES \<and>
      distinct (map fst (cache_entries (snd (cached_coding_matrix key cache))))"
    using shape assms miss cache_get_miss [of key cache cache'] g
    by (auto simp: cached_coding_matrix_def cache_wf_def split: option.splits outcome.splits)
  with coh show ?thesis by (simp add: cache_wf_def matrices.coherent_def)
qed

section \<open>Reconstruction\<close>

text \<open>
  The codeword of some data shards under a coding matrix, and a received word: some of its shards
  are missing, the others are intact.
\<close>

definition codeword :: "matrix \<Rightarrow> bytes list \<Rightarrow> nat \<Rightarrow> bytes list" where
  "codeword C data shard_size = map (\<lambda>row. code_row_slices row data shard_size) C"

definition received :: "bytes list \<Rightarrow> bytes option list \<Rightarrow> bool" where
  "received full shards \<longleftrightarrow>
     list_all2 (\<lambda>shard expected. shard = None \<or> shard = Some expected) shards full"

lemma requested_mask_spec:
  "requested_mask req wanted =
     (if \<forall>i \<in> set req. i < length wanted
      then Ok (map (\<lambda>i. wanted ! i \<or> i \<in> set req) [0..<length wanted])
      else Err InvalidShardCount)"
proof (induction req arbitrary: wanted)
  case Nil
  then show ?case by (simp add: map_nth)
next
  case (Cons i req)
  then show ?case by (auto simp: nth_list_update)
qed

lemma requested_mask_fresh:
  "requested_mask req (replicate k False) =
     (if \<forall>i \<in> set req. i < k then Ok (map (\<lambda>i. i \<in> set req) [0..<k]) else Err InvalidShardCount)"
  by (auto simp: requested_mask_spec)

lemma first_shard_len_None: "first_shard_len shards = None \<longleftrightarrow> survivors shards = []"
proof -
  have "first_shard_len shards = None \<longleftrightarrow> (\<forall>shard \<in> set shards. shard = None)"
    by (induction shards rule: first_shard_len.induct) auto
  then show ?thesis by (auto simp: survivors_def filter_empty_conv in_set_conv_nth Ball_def)
qed

lemma first_shard_len_SomeD:
  "first_shard_len shards = Some n \<Longrightarrow> \<exists>shard. Some shard \<in> set shards \<and> length shard = n"
  by (induction shards rule: first_shard_len.induct) auto

lemma length_place [simp]: "length (place ps shards) = length shards"
  by (induction ps shards rule: place.induct) simp_all

lemma place_map:
  "\<forall>i \<in> set idxs. i < length shards \<Longrightarrow>
     (\<forall>r<length shards. place (zip idxs (map f idxs)) shards ! r =
        (if r \<in> set idxs then Some (f r) else shards ! r))"
proof (induction idxs arbitrary: shards)
  case Nil
  then show ?case by simp
next
  case (Cons i idxs)
  from Cons.IH [of "shards[i := Some (f i)]"] Cons.prems show ?case by (auto simp: nth_list_update)
qed

lemma survivors_props:
  "distinct (survivors shards)" "r \<in> set (survivors shards) \<longleftrightarrow> r < length shards \<and> shards ! r \<noteq> None"
  by (auto simp: survivors_def)

lemma codeword_shape:
  assumes "wf_mat tot k C" "length data = k" "\<forall>d \<in> set data. length d = sz"
  shows "length (codeword C data sz) = tot" "\<forall>s \<in> set (codeword C data sz). length s = sz"
    and "r < tot \<Longrightarrow> b < sz \<Longrightarrow> gf (codeword C data sz ! r ! b) = (\<Sum>i<k. entry C r i * gf (data ! i ! b))"
  using assms
  by (auto simp: codeword_def wf_mat_def code_row_slices_spec entry_def)

text \<open>One decoding row, applied to the selected shards, gives the data shard it was solved for.\<close>

lemma decode_row_recovers:
  assumes "wf_mat tot k C" "length data = k" "\<forall>d \<in> set data. length d = sz"
    and "length sel = k" "\<forall>r \<in> set sel. r < tot" "length row = k" "q < k"
    and row: "\<And>i. i < k \<Longrightarrow> (\<Sum>j<k. entry C (sel ! j) i * gf (row ! j)) = (if q = i then 1 else 0)"
  shows "code_row_slices row (map (\<lambda>r. codeword C data sz ! r) sel) sz = data ! q"
proof (rule nth_equalityI)
  let ?in = "map (\<lambda>r. codeword C data sz ! r) sel"
  note cw = codeword_shape [OF assms(1-3)]
  have inputs: "\<forall>input \<in> set ?in. length input = sz" "length row = length ?in"
    using assms(4-6) cw by auto
  note spec = code_row_slices_spec [OF inputs]
  from spec(1) assms(2,3,7) show l: "length (code_row_slices row ?in sz) = length (data ! q)" by simp
  fix b assume "b < length (code_row_slices row ?in sz)"
  with spec(1) have b: "b < sz" by simp
  have "gf (code_row_slices row ?in sz ! b) = (\<Sum>j<k. gf (row ! j) * gf (codeword C data sz ! (sel ! j) ! b))"
    using spec(2) [OF b] assms(4) by simp
  also have "\<dots> = (\<Sum>j<k. gf (row ! j) * (\<Sum>i<k. entry C (sel ! j) i * gf (data ! i ! b)))"
    using cw(3) b assms(4,5) by simp
  also have "\<dots> = (\<Sum>i<k. gf (data ! i ! b) * (\<Sum>j<k. entry C (sel ! j) i * gf (row ! j)))"
    unfolding sum_distrib_left by (subst sum.swap) (simp add: algebra_simps)
  also have "\<dots> = (\<Sum>i<k. gf (data ! i ! b) * (if i = q then 1 else 0))"
    using row by (intro sum.cong) auto
  also have "\<dots> = gf (data ! q ! b)" using assms(7) by (rule sum_unit)
  finally show "code_row_slices row ?in sz ! b = data ! q ! b" by simp
qed

text \<open>The branches in front of the decoding.\<close>

definition sizes_agree :: "bytes option list \<Rightarrow> bool" where
  "sizes_agree shards \<longleftrightarrow>
     (\<forall>s t. Some s \<in> set shards \<longrightarrow> Some t \<in> set shards \<longrightarrow> s \<noteq> [] \<and> length s = length t)"

lemma sizes_agree_iff:
  assumes "first_shard_len shards = Some n"
  shows "(n = 0 \<or> (\<exists>shard \<in> set shards. shard \<noteq> None \<and> length (the shard) \<noteq> n)) \<longleftrightarrow> \<not> sizes_agree shards"
proof -
  obtain s where s: "Some s \<in> set shards" "length s = n" using first_shard_len_SomeD [OF assms] by blast
  have "\<not> sizes_agree shards" if "n = 0 \<or> (\<exists>shard \<in> set shards. shard \<noteq> None \<and> length (the shard) \<noteq> n)"
  proof
    assume agree: "sizes_agree shards"
    have len: "length t = n" "t \<noteq> []" if "Some t \<in> set shards" for t
      using agree s that unfolding sizes_agree_def by metis+
    from that show False using len s by (auto simp: in_set_conv_nth)
  qed
  moreover have "sizes_agree shards" if n: "n \<noteq> 0" "\<forall>shard \<in> set shards. shard \<noteq> None \<longrightarrow> length (the shard) = n"
  proof -
    have "length t = n" if "Some t \<in> set shards" for t using n(2) that by fastforce
    with n(1) show ?thesis by (auto simp: sizes_agree_def)
  qed
  ultimately show ?thesis by blast
qed

lemma reconstruct_accepts:
  assumes "0 < k" "k < length shards" "length shards \<le> 256" "\<forall>i \<in> set req. i < k"
    and "sizes_agree shards" "k \<le> length (survivors shards)" "first_shard_len shards = Some sz"
  shows "reconstruct_data_indices shards k req cache =
    (let missing = filter (\<lambda>i. shards ! i = None \<and> i \<in> set req) [0..<k];
         selected = take k (survivors shards);
         (m, cache') = cached_coding_matrix (k, length shards) cache
     in if missing = [] then (Ok shards, cache)
        else (and_then m (\<lambda>mat. and_then (inverse_rows_for_selected mat selected missing) (\<lambda>rows.
               Ok (place (zip missing (map (\<lambda>row.
                 code_row_slices row (map (\<lambda>r. the (shards ! r)) selected) sz) rows)) shards))), cache'))"
proof -
  let ?missing = "filter (\<lambda>i. shards ! i = None \<and> i \<in> set req) [0..<k]"
  let ?wanted = "map (\<lambda>i. i \<in> set req) [0..<k]"
  have mask: "requested_mask req (replicate k False) = Ok ?wanted"
    using assms(4) by (simp add: requested_mask_fresh)
  have miss: "filter (\<lambda>i. shards ! i = None \<and> ?wanted ! i) [0..<k] = ?missing"
    by (rule filter_cong) auto
  have a: "\<not> (k = 0 \<or> length shards \<le> k \<or> 256 < length shards)" using assms by simp
  have b: "\<not> (sz = 0 \<or> (\<exists>shard \<in> set shards. shard \<noteq> None \<and> length (the shard) \<noteq> sz))"
    using sizes_agree_iff [OF assms(7)] assms(5) by simp
  have c: "\<not> length (take k (survivors shards)) < k" using assms by simp
  show ?thesis
    unfolding reconstruct_data_indices_def Let_def mask outcome.case assms(7) option.case miss
      if_not_P [OF a] if_not_P [OF b] if_not_P [OF c]
    by (simp split: prod.splits)
qed

lemma received_nth:
  assumes "received full shards"
  shows "length shards = length full" "r < length shards \<Longrightarrow> shards ! r \<noteq> None \<Longrightarrow> shards ! r = Some (full ! r)"
  using assms by (auto simp: received_def list_all2_conv_all_nth)


lemma reconstruct_Ok:
  assumes "0 < k" "k < length shards" "length shards \<le> 256" "\<forall>i \<in> set req. i < k"
    and "sizes_agree shards" "k \<le> length (survivors shards)" "cache_wf cache"
  shows "\<exists>out. fst (reconstruct_data_indices shards k req cache) = Ok out \<and> length out = length shards"
proof -
  obtain sz where sz: "first_shard_len shards = Some sz"
    using first_shard_len_None [of shards] assms(1,6) by (cases "first_shard_len shards") auto
  let ?missing = "filter (\<lambda>i. shards ! i = None \<and> i \<in> set req) [0..<k]"
  let ?sel = "take k (survivors shards)"
  have kt: "k \<le> length shards" using assms(2) by simp
  obtain C where C: "coding_matrix k (length shards) = Ok C"
    using assms(1) kt assms(3) by (rule coding_matrix_spec)
  have sel: "distinct ?sel" "\<forall>r \<in> set ?sel. r < length shards" "length ?sel = k"
    using survivors_props [where shards = shards] assms(6) by (auto dest!: in_set_takeD)
  have "\<forall>r \<in> set ?missing. r < k" by auto
  moreover have "length ?missing \<le> k" using length_filter_le [of _ "[0..<k]"] by (metis length_upt diff_zero)
  then have "k + length ?missing < usize_bound"
    using assms(2,3) by (simp add: usize_bound_def)
  ultimately obtain R where "inverse_rows_for_selected C ?sel ?missing = Ok R"
    using inverse_rows_for_selected_spec [OF assms(1) kt assms(3) C sel] by blast
  with C show ?thesis
    using cached_coding_matrix_result [OF assms(7), of "(k, length shards)"]
    unfolding reconstruct_accepts [OF assms(1-6) sz] Let_def
    by (auto split: prod.splits)
qed

lemma reconstruct_cache_wf:
  assumes "cache_wf cache"
  shows "cache_wf (snd (reconstruct_data_indices shards k req cache))"
  using assms cached_coding_matrix_wf [OF assms, of "(k, length shards)"]
  by (auto simp: reconstruct_data_indices_def Let_def split: outcome.splits option.splits prod.splits)

lemma reconstruct_shards:
  assumes "0 < k" "k < length shards" "length shards \<le> 256" "\<forall>i \<in> set req. i < k"
    and "coding_matrix k (length shards) = Ok C"
    and "length data = k" "\<forall>d \<in> set data. length d = sz" "0 < sz"
    and "received (codeword C data sz) shards" "k \<le> length (survivors shards)" "cache_wf cache"
  shows "\<exists>out. fst (reconstruct_data_indices shards k req cache) = Ok out \<and> length out = length shards \<and>
    (\<forall>r<length shards. out ! r = (if r \<in> set req \<and> shards ! r = None then Some (data ! r) else shards ! r))"
proof -
  let ?missing = "filter (\<lambda>i. shards ! i = None \<and> i \<in> set req) [0..<k]"
  let ?sel = "take k (survivors shards)"
  have kt: "k \<le> length shards" using assms(2) by simp
  have wfC: "wf_mat (length shards) k C"
    using coding_matrix_spec [OF assms(1) kt assms(3)] assms(5) by (metis outcome.inject(1))
  note cw = codeword_shape [OF wfC assms(6,7)]
  have intact: "shards ! r = Some (codeword C data sz ! r)" if "r < length shards" "shards ! r \<noteq> None" for r
    using received_nth [OF assms(9)] that by blast
  have len: "length s = sz" if "Some s \<in> set shards" for s
  proof -
    from that obtain r where "r < length shards" "shards ! r = Some s" by (auto simp: in_set_conv_nth)
    with intact [of r] cw show ?thesis by auto
  qed
  then have agree: "sizes_agree shards" using assms(8) unfolding sizes_agree_def by fastforce
  have first: "first_shard_len shards = Some sz"
    using first_shard_len_None [of shards] first_shard_len_SomeD [of shards] assms(1,10) len
    by (cases "first_shard_len shards") auto
  have sel: "distinct ?sel" "\<forall>r \<in> set ?sel. r < length shards" "length ?sel = k"
    using survivors_props [where shards = shards] assms(10) by (auto dest!: in_set_takeD)
  have the: "map (\<lambda>r. the (shards ! r)) ?sel = map (\<lambda>r. codeword C data sz ! r) ?sel"
  proof (rule map_cong [OF refl])
    fix r assume "r \<in> set ?sel"
    then have "r < length shards" "shards ! r \<noteq> None"
      using survivors_props(2) [where shards = shards] by (auto dest!: in_set_takeD)
    from intact [OF this] show "the (shards ! r) = codeword C data sz ! r" by simp
  qed
  have mk: "\<forall>r \<in> set ?missing. r < k" by auto
  have "length ?missing \<le> k" using length_filter_le [of _ "[0..<k]"] by (metis length_upt diff_zero)
  then have "k + length ?missing < usize_bound" using assms(2,3) by (simp add: usize_bound_def)
  from inverse_rows_for_selected_spec [OF assms(1) kt assms(3,5) sel mk this]
  obtain R where R: "inverse_rows_for_selected C ?sel ?missing = Ok R"
    and wfR: "wf_mat (length ?missing) k R"
    and sol: "\<forall>t<length ?missing. \<forall>i<k. (\<Sum>j<k. entry C (?sel ! j) i * entry R t j) = (if ?missing ! t = i then 1 else 0)"
    by blast
  have "code_row_slices (R ! t) (map (\<lambda>r. codeword C data sz ! r) ?sel) sz = data ! (?missing ! t)"
    if t: "t < length ?missing" for t
  proof (rule decode_row_recovers [OF wfC assms(6,7) sel(3,2)])
    show "length (R ! t) = k" using wfR t by (simp add: wf_mat_row)
    show "?missing ! t < k" using mk t nth_mem by blast
  qed (use sol t in \<open>simp add: entry_def\<close>)
  then have rec: "map (\<lambda>row. code_row_slices row (map (\<lambda>r. codeword C data sz ! r) ?sel) sz) R =
      map ((!) data) ?missing"
    using wfR by (intro nth_equalityI) (simp_all add: wf_mat_def)
  note acc = reconstruct_accepts [OF assms(1-4) agree assms(10) first]
  have fst: "fst (reconstruct_data_indices shards k req cache) =
      Ok (if ?missing = [] then shards else place (zip ?missing (map ((!) data) ?missing)) shards)"
    using cached_coding_matrix_result [OF assms(11), of "(k, length shards)"] assms(5) R
    unfolding acc Let_def the by (auto simp: rec split: prod.splits)
  have "\<forall>i \<in> set ?missing. i < length shards" using assms(2) by auto
  note pl = place_map [OF this, of "(!) data"]
  have "r \<in> set ?missing \<longleftrightarrow> r \<in> set req \<and> shards ! r = None" for r using assms(4) by auto
  then have pl': "place (zip ?missing (map ((!) data) ?missing)) shards ! r =
      (if r \<in> set req \<and> shards ! r = None then Some (data ! r) else shards ! r)"
    if "r < length shards" for r
    using pl that by simp
  have "place (zip ?missing (map ((!) data) ?missing)) shards = shards" if "?missing = []"
    unfolding that by simp
  with fst have "fst (reconstruct_data_indices shards k req cache) =
      Ok (place (zip ?missing (map ((!) data) ?missing)) shards)" by presburger
  with pl' length_place show ?thesis by blast
qed

lemma systematic:
  assumes "0 < k" "k \<le> tot" "tot \<le> 256" "coding_matrix k tot = Ok C"
    and "length data = k" "\<forall>d \<in> set data. length d = sz" "r < k"
  shows "codeword C data sz ! r = data ! r"
proof -
  obtain W where wf: "wf_mat tot k C"
    and C: "\<And>i c. i < tot \<Longrightarrow> c < k \<Longrightarrow> entry C i c = (\<Sum>j<k. entry (vandermonde k tot) i j * entry W j c)"
    and VW: "\<And>i c. i < k \<Longrightarrow> c < k \<Longrightarrow>
       (\<Sum>j<k. entry (vandermonde k tot) i j * entry W j c) = (if i = c then 1 else 0)"
  proof (rule coding_matrix_spec [OF assms(1-3)])
    fix C' W assume "coding_matrix k tot = Ok C'"
    with assms(4) have "C' = C" by simp
    moreover assume "wf_mat tot k C'"
      "\<And>i c. i < tot \<Longrightarrow> c < k \<Longrightarrow> entry C' i c = (\<Sum>j<k. entry (vandermonde k tot) i j * entry W j c)"
      "\<And>i c. i < k \<Longrightarrow> c < k \<Longrightarrow>
         (\<Sum>j<k. entry (vandermonde k tot) i j * entry W j c) = (if i = c then 1 else 0)"
    ultimately show thesis using that by simp
  qed
  note cw = codeword_shape [OF wf assms(5,6)]
  show ?thesis
  proof (rule nth_equalityI)
    show "length (codeword C data sz ! r) = length (data ! r)"
      using cw(1,2) assms(2,5-7) by simp
    fix b assume "b < length (codeword C data sz ! r)"
    with cw(1,2) assms(2,7) have b: "b < sz" by simp
    have "gf (codeword C data sz ! r ! b) = (\<Sum>i<k. gf (data ! i ! b) * (if i = r then 1 else 0))"
      using cw(3) [of r b] b assms(2,7) C [of r] VW [of r] by (auto intro!: sum.cong)
    also have "\<dots> = gf (data ! r ! b)" using assms(7) by (rule sum_unit)
    finally show "codeword C data sz ! r ! b = data ! r ! b" by simp
  qed
qed

lemma coding_matrix_1_2: "coding_matrix 1 2 = Ok [[1], [1]]"
proof -
  have v: "vandermonde 1 2 = [[1], [1]]"
    by (simp add: vandermonde_def gf_pow_def numeral_2_eq_2)
  have "invert [[1]] = Ok [[1]]"
    by (simp add: invert_def usize_checked_mul_def usize_bound_def resize_def gauss_jordan_def
        forward_step_def find_pivot_def normalise_pivot_def upt_rec)
  then show ?thesis
    unfolding coding_matrix_def v Let_def by (simp add: matrix_multiply_def Let_def)
qed

section \<open>Properties\<close>

text \<open>
  C1.  Reconstruction is exact: take any data shards of one non-zero size, encode them with the
  coding matrix of the group, lose any shards so long as at least \<open>data_count\<close> of the (at
  most 256) shards survive, and ask for any data indices.  The call succeeds whatever the matrix
  cache holds, every requested shard is afterwards the original data shard, and every shard that
  was not both requested and missing is untouched.
\<close>

theorem reconstruct_recovers:
  assumes "0 < k" "k < length shards" "length shards \<le> 256"
    and "coding_matrix k (length shards) = Ok C"
    and "length data = k" "\<forall>d \<in> set data. length d = sz" "0 < sz"
    and "received (codeword C data sz) shards" "k \<le> length (survivors shards)"
    and "\<forall>i \<in> set req. i < k" "cache_wf cache"
  shows "\<exists>out. fst (reconstruct_data_indices shards k req cache) = Ok out \<and>
    length out = length shards \<and>
    (\<forall>r \<in> set req. out ! r = Some (data ! r)) \<and>
    (\<forall>r<length shards. r \<notin> set req \<or> shards ! r \<noteq> None \<longrightarrow> out ! r = shards ! r)"
proof -
  have kt: "k \<le> length shards" using assms(2) by simp
  obtain out where out: "fst (reconstruct_data_indices shards k req cache) = Ok out" "length out = length shards"
    "\<And>r. r < length shards \<Longrightarrow>
       out ! r = (if r \<in> set req \<and> shards ! r = None then Some (data ! r) else shards ! r)"
    using reconstruct_shards [OF assms(1-3,10,4-9,11)] by blast
  have "shards ! r = Some (data ! r)" if "r < k" "shards ! r \<noteq> None" for r
    using received_nth(2) [OF assms(8), of r] systematic [OF assms(1) kt assms(3-6)] assms(2) that by simp
  with out assms(2,10) show ?thesis by (auto split: if_splits)
qed

theorem reconstruct_recovers_witness:
  "\<exists>out. fst (reconstruct_data_indices [None, Some [7, 9]] 1 [0] \<lparr>cache_entries = []\<rparr>) = Ok out \<and>
     out ! 0 = Some [7, 9]"
proof -
  have C: "coding_matrix 1 (length [None, Some [7, 9 :: u8]]) = Ok [[1], [1]]"
    using coding_matrix_1_2 by (simp add: numeral_2_eq_2)
  have cw: "codeword [[1], [1]] [[7, 9]] 2 = [[7, 9], [7, 9]]"
    by (simp add: codeword_def code_row_slices_def code_row_step_def xor_into_def numeral_2_eq_2)
  show ?thesis
    using reconstruct_recovers [OF _ _ _ C, of "[[7, 9]]" 2 "[0]" "\<lparr>cache_entries = []\<rparr>"]
    by (simp add: cw received_def survivors_def cache_wf_def CODING_MATRIX_CACHE_ENTRIES_def upt_rec) blast
qed

text \<open>
  C24.  Every branch of reconstruction, on any shards: the checks are made in this order and each
  failure has its own error; when all hold the call succeeds.  In particular a well-formed cache
  never makes it fail, it never panics, and \<open>SingularMatrix\<close> is unreachable.
\<close>

theorem reconstruct_outcome:
  assumes "cache_wf cache"
  shows "if k = 0 \<or> length shards \<le> k \<or> 256 < length shards \<or> (\<exists>i \<in> set req. \<not> i < k)
      then fst (reconstruct_data_indices shards k req cache) = Err InvalidShardCount
     else if survivors shards = []
      then fst (reconstruct_data_indices shards k req cache) = Err TooFewShards
     else if \<not> sizes_agree shards
      then fst (reconstruct_data_indices shards k req cache) = Err InvalidShardSize
     else if length (survivors shards) < k
      then fst (reconstruct_data_indices shards k req cache) = Err TooFewShards
     else \<exists>out. fst (reconstruct_data_indices shards k req cache) = Ok out \<and> length out = length shards"
proof (cases "k = 0 \<or> length shards \<le> k \<or> 256 < length shards \<or> (\<exists>i \<in> set req. \<not> i < k)")
  case True
  then show ?thesis by (auto simp: reconstruct_data_indices_def requested_mask_fresh)
next
  case False
  then have pre: "0 < k" "k < length shards" "length shards \<le> 256" "\<forall>i \<in> set req. i < k" by auto
  show ?thesis
  proof (cases "first_shard_len shards")
    case None
    with pre False first_shard_len_None [of shards] show ?thesis
      by (simp add: reconstruct_data_indices_def requested_mask_fresh)
  next
    case (Some n)
    with first_shard_len_None [of shards] have "survivors shards \<noteq> []" by simp
    then show ?thesis
      using Some pre False sizes_agree_iff [OF Some] reconstruct_Ok [OF pre _ _ assms]
      by (simp add: reconstruct_data_indices_def requested_mask_fresh Let_def)
  qed
qed

theorem reconstruct_outcome_witness:
  "fst (reconstruct_data_indices [None, Some [1], Some [1, 2]] 2 [0] \<lparr>cache_entries = []\<rparr>) =
     Err InvalidShardSize"
proof -
  have wf: "cache_wf \<lparr>cache_entries = []\<rparr>"
    by (simp add: cache_wf_def CODING_MATRIX_CACHE_ENTRIES_def)
  have "\<not> sizes_agree [None, Some [1], Some [1, 2 :: u8]]"
    unfolding sizes_agree_def by force
  then show ?thesis
    using reconstruct_outcome [OF wf, of 2 "[None, Some [1], Some [1, 2]]" "[0]"]
    by (simp add: survivors_def upt_rec)
qed

text \<open>
  The matrix cache is transparent and bounded: from a well-formed cache a lookup returns
  exactly what building the matrix returns, and leaves a well-formed cache, with at most 64
  entries, one per key, each the matrix of its key.
\<close>

theorem cached_coding_matrix_transparent:
  assumes "cache_wf cache"
  shows "fst (cached_coding_matrix key cache) = coding_matrix (fst key) (snd key) \<and>
    cache_wf (snd (cached_coding_matrix key cache)) \<and>
    cache_wf (snd (reconstruct_data_indices shards k req cache))"
  using assms by (simp add: cached_coding_matrix_result cached_coding_matrix_wf reconstruct_cache_wf)

theorem cached_coding_matrix_transparent_witness:
  "fst (cached_coding_matrix (1, 2) \<lparr>cache_entries = [((1, 2), [[1], [1]])]\<rparr>) = Ok [[1], [1]]"
proof -
  have "cache_wf \<lparr>cache_entries = [((1, 2), [[1], [1]])]\<rparr>"
    using coding_matrix_1_2 by (simp add: cache_wf_def CODING_MATRIX_CACHE_ENTRIES_def)
  from cached_coding_matrix_transparent [OF this] coding_matrix_1_2 show ?thesis by simp
qed

end
