(* ===== verification/RetrievalConventions.thy ===== *)
theory RetrievalConventions
  imports Prelude "HOL-Library.Multiset"
begin

text \<open>
  The shared state of concurrent retrievals, \<open>src/retrieval_conventions.rs\<close>: generations and
  cancel tokens, the monotone hedge demand, the rolling parity admission arithmetic, the
  admission group whose finite attempt budget is claimed by a compare-and-exchange loop, and the
  singleflight registry.  The claim loop is also given as an interleaving of atomic steps of any
  number of threads, with spurious failures, because the budget must hold under every schedule.
\<close>

section \<open>Generations, cancel tokens and hedge demand\<close>

definition next_nonzero_generation :: "u64 \<Rightarrow> u64" where
  "next_nonzero_generation current = (let n = current + 1 in if n = 0 then 1 else n)"

record RetrieveCancelToken =
  stream_key :: string
  generation :: u64

definition token_is_current :: "u64 \<Rightarrow> RetrieveCancelToken \<Rightarrow> bool" where
  "token_is_current latest token \<longleftrightarrow> latest = generation token"

definition retrieve_cancel_token_current :: "u64 \<Rightarrow> RetrieveCancelToken option \<Rightarrow> bool" where
  "retrieve_cancel_token_current latest cancel =
     (case cancel of None \<Rightarrow> True | Some token \<Rightarrow> token_is_current latest token)"

datatype RetrieveHedgeDemand = DistinctShardManaged | Ordinary

fun demand_u8 :: "RetrieveHedgeDemand \<Rightarrow> u8" where
  "demand_u8 DistinctShardManaged = 0"
| "demand_u8 Ordinary = 1"

text \<open>The shared demand is the atomic byte; \<open>promote\<close> also says whether it notifies.\<close>

definition hedge_new :: "RetrieveHedgeDemand \<Rightarrow> u8" where
  "hedge_new demand = demand_u8 demand"

definition hedge_current :: "u8 \<Rightarrow> RetrieveHedgeDemand" where
  "hedge_current demand = (if demand = 0 then DistinctShardManaged else Ordinary)"

definition hedge_promote :: "RetrieveHedgeDemand \<Rightarrow> u8 \<Rightarrow> u8 \<times> bool" where
  "hedge_promote demand d = (max d (demand_u8 demand), d < demand_u8 demand)"

definition retrieve_attempt_start_allowed :: "RetrieveHedgeDemand \<Rightarrow> nat \<Rightarrow> bool \<Rightarrow> bool" where
  "retrieve_attempt_start_allowed demand in_flight ordinary_hedge_due \<longleftrightarrow>
     in_flight = 0 \<or> (demand = Ordinary \<and> ordinary_hedge_due)"

section \<open>Rolling parity admission\<close>

definition rolling_full_group_static_candidate :: "nat \<Rightarrow> nat \<Rightarrow> nat \<Rightarrow> bool" where
  "rolling_full_group_static_candidate requested_count data_count parity_count \<longleftrightarrow>
     0 < data_count \<and> requested_count = data_count \<and> 0 < parity_count"

definition rolling_full_group_eligible :: "nat \<Rightarrow> nat \<Rightarrow> nat \<Rightarrow> nat \<Rightarrow> nat \<Rightarrow> bool" where
  "rolling_full_group_eligible requested_count data_count parity_count decoded_only_count unresolved_count \<longleftrightarrow>
     rolling_full_group_static_candidate requested_count data_count parity_count \<and>
     0 < unresolved_count \<and> decoded_only_count < parity_count"

definition rolling_parity_admission_count :: "u64 \<Rightarrow> u64 \<Rightarrow> bool \<Rightarrow> nat \<Rightarrow> nat \<Rightarrow> nat \<Rightarrow> nat" where
  "rolling_parity_admission_count elapsed_ms gate_ms terminal active_width rolling_active remaining_parity =
     (if terminal \<or> elapsed_ms < gate_ms then 0
      else min (min (active_width - rolling_active) remaining_parity) 1)"

definition rolling_next_parity_index :: "nat \<Rightarrow> bool list \<Rightarrow> nat option" where
  "rolling_next_parity_index data_count dispatched_shards =
     find (\<lambda>index. \<not> dispatched_shards ! index) [data_count..<length dispatched_shards]"

section \<open>Admission groups\<close>

record RetrieveAdmission =
  admission_open :: bool
  returned_cac :: bool
  attempt_limit :: "nat option"
  attempts_remaining :: "nat option"
  timed_out_attempts :: "nat option"
  confirmed_empty_attempts :: "nat option"

definition with_attempts_remaining :: "nat option \<Rightarrow> RetrieveAdmission" where
  "with_attempts_remaining attempts =
     \<lparr>admission_open = (attempts \<noteq> Some 0), returned_cac = False, attempt_limit = attempts,
      attempts_remaining = attempts, timed_out_attempts = map_option (\<lambda>_. 0) attempts,
      confirmed_empty_attempts = map_option (\<lambda>_. 0) attempts\<rparr>"

definition admission_new :: RetrieveAdmission where
  "admission_new = with_attempts_remaining None"

definition new_with_attempt_limit :: "nat \<Rightarrow> RetrieveAdmission" where
  "new_with_attempt_limit max_attempts = with_attempts_remaining (Some max_attempts)"

definition record_returned_cac :: "RetrieveAdmission \<Rightarrow> RetrieveAdmission" where
  "record_returned_cac a = a\<lparr>returned_cac := True\<rparr>"

definition admission_close :: "RetrieveAdmission \<Rightarrow> RetrieveAdmission" where
  "admission_close a = a\<lparr>admission_open := False\<rparr>"

definition physical_attempt_available :: "RetrieveAdmission \<Rightarrow> bool" where
  "physical_attempt_available a = (case attempts_remaining a of None \<Rightarrow> True | Some r \<Rightarrow> r \<noteq> 0)"

definition claimed_physical_attempts :: "RetrieveAdmission \<Rightarrow> nat option" where
  "claimed_physical_attempts a =
     (case (attempt_limit a, attempts_remaining a) of
        (Some limit, Some remaining) \<Rightarrow> Some (limit - remaining)
      | _ \<Rightarrow> None)"

text \<open>The event counters are \<open>usize\<close> and wrap.\<close>

definition record_physical_attempt_timeout :: "RetrieveAdmission \<Rightarrow> RetrieveAdmission" where
  "record_physical_attempt_timeout a =
     a\<lparr>timed_out_attempts := map_option (\<lambda>n. (n + 1) mod usize_bound) (timed_out_attempts a)\<rparr>"

definition record_confirmed_empty_physical_attempt :: "RetrieveAdmission \<Rightarrow> RetrieveAdmission" where
  "record_confirmed_empty_physical_attempt a =
     a\<lparr>confirmed_empty_attempts := map_option (\<lambda>n. (n + 1) mod usize_bound) (confirmed_empty_attempts a)\<rparr>"

text \<open>The claim as one caller runs it undisturbed.\<close>

definition try_claim_physical_attempt :: "RetrieveAdmission \<Rightarrow> bool \<times> RetrieveAdmission" where
  "try_claim_physical_attempt a =
     (case attempts_remaining a of
        None \<Rightarrow> (True, a)
      | Some remaining \<Rightarrow>
          if \<not> admission_open a then (False, a)
          else if remaining = 0 then (False, a)
          else let a' = a\<lparr>attempts_remaining := Some (remaining - 1)\<rparr>
               in (True, if remaining = 1 then admission_close a' else a'))"

definition retrieve_admission_current :: "bool \<Rightarrow> RetrieveAdmission option \<Rightarrow> bool" where
  "retrieve_admission_current stream_generation_current admission \<longleftrightarrow>
     stream_generation_current \<and> (case admission of None \<Rightarrow> True | Some a \<Rightarrow> admission_open a)"

text \<open>
  A permit acquisition: the admission before, which of the two futures finished first, and the
  admission at that moment.
\<close>

datatype permit_race = PermitFirst | ClosedFirst

definition acquire_retrieve_permit ::
  "RetrieveAdmission option \<Rightarrow> permit_race \<Rightarrow> RetrieveAdmission option \<Rightarrow> bool" where
  "acquire_retrieve_permit before race after \<longleftrightarrow>
     retrieve_admission_current True before \<and>
     (case race of PermitFirst \<Rightarrow> retrieve_admission_current True after | ClosedFirst \<Rightarrow> False)"

section \<open>The claim loop, step by step\<close>

text \<open>
  Where a thread is in \<open>try_claim_physical_attempt\<close>: before the open check, past it, holding a
  loaded value, past a successful exchange that must still close, or returned.
\<close>

datatype claim_pc = Start | Checked | Loaded nat | MustClose | Returned bool

record claims =
  group :: RetrieveAdmission
  threads :: "claim_pc list"

inductive claim_step :: "claims \<Rightarrow> claims \<Rightarrow> bool" where
  spawn: "claim_step s (s\<lparr>threads := threads s @ [Start]\<rparr>)"
| unlimited: "i < length (threads s) \<Longrightarrow> threads s ! i = Start \<Longrightarrow> attempts_remaining (group s) = None \<Longrightarrow>
    claim_step s (s\<lparr>threads := (threads s)[i := Returned True]\<rparr>)"
| closed: "i < length (threads s) \<Longrightarrow> threads s ! i = Start \<Longrightarrow> attempts_remaining (group s) \<noteq> None \<Longrightarrow>
    \<not> admission_open (group s) \<Longrightarrow> claim_step s (s\<lparr>threads := (threads s)[i := Returned False]\<rparr>)"
| checked: "i < length (threads s) \<Longrightarrow> threads s ! i = Start \<Longrightarrow> attempts_remaining (group s) \<noteq> None \<Longrightarrow>
    admission_open (group s) \<Longrightarrow> claim_step s (s\<lparr>threads := (threads s)[i := Checked]\<rparr>)"
| load: "i < length (threads s) \<Longrightarrow> threads s ! i = Checked \<Longrightarrow> attempts_remaining (group s) = Some r \<Longrightarrow>
    claim_step s (s\<lparr>threads := (threads s)[i := Loaded r]\<rparr>)"
| exhausted: "i < length (threads s) \<Longrightarrow> threads s ! i = Loaded 0 \<Longrightarrow>
    claim_step s (s\<lparr>threads := (threads s)[i := Returned False]\<rparr>)"
| exchange: "i < length (threads s) \<Longrightarrow> threads s ! i = Loaded r \<Longrightarrow> 0 < r \<Longrightarrow>
    attempts_remaining (group s) = Some r \<Longrightarrow>
    claim_step s (s\<lparr>group := (group s)\<lparr>attempts_remaining := Some (r - 1)\<rparr>,
                    threads := (threads s)[i := if r = 1 then MustClose else Returned True]\<rparr>)"
| retry: "i < length (threads s) \<Longrightarrow> threads s ! i = Loaded r \<Longrightarrow> 0 < r \<Longrightarrow>
    attempts_remaining (group s) = Some r' \<Longrightarrow>
    claim_step s (s\<lparr>threads := (threads s)[i := Loaded r']\<rparr>)"
| finish: "i < length (threads s) \<Longrightarrow> threads s ! i = MustClose \<Longrightarrow>
    claim_step s (s\<lparr>group := admission_close (group s), threads := (threads s)[i := Returned True]\<rparr>)"
| close: "claim_step s (s\<lparr>group := admission_close (group s)\<rparr>)"
| note_cac: "claim_step s (s\<lparr>group := record_returned_cac (group s)\<rparr>)"
| note_timeout: "claim_step s (s\<lparr>group := record_physical_attempt_timeout (group s)\<rparr>)"
| note_empty: "claim_step s (s\<lparr>group := record_confirmed_empty_physical_attempt (group s)\<rparr>)"

inductive claims_reach :: "RetrieveAdmission \<Rightarrow> claims \<Rightarrow> bool" for a where
  init: "claims_reach a \<lparr>group = a, threads = []\<rparr>"
| step: "claims_reach a s \<Longrightarrow> claim_step s s' \<Longrightarrow> claims_reach a s'"

fun granted :: "claim_pc \<Rightarrow> bool" where
  "granted MustClose = True"
| "granted (Returned ok) = ok"
| "granted _ = False"

section \<open>Singleflight registry\<close>

record ('w, 'a) SingleflightEntry =
  entry_flight_id :: u64
  entry_shared :: 'a
  entry_waiters :: "(u64 \<times> 'w) list"

record ('k, 'w, 'a) SingleflightRegistry =
  next_flight_id :: u64
  next_waiter_id :: u64
  flights :: "'k \<rightharpoonup> ('w, 'a) SingleflightEntry"

record ('k, 'a) SingleflightRegistration =
  reg_key :: 'k
  reg_flight_id :: u64
  reg_waiter_id :: u64
  reg_shared :: 'a
  leader :: bool

definition registry_default :: "('k, 'w, 'a) SingleflightRegistry" where
  "registry_default = \<lparr>next_flight_id = 0, next_waiter_id = 0, flights = Map.empty\<rparr>"

definition register ::
  "'k \<Rightarrow> 'w \<Rightarrow> 'a \<Rightarrow> ('k, 'w, 'a) SingleflightRegistry \<Rightarrow>
   ('k, 'a) SingleflightRegistration \<times> ('k, 'w, 'a) SingleflightRegistry" where
  "register key waiter make_shared reg =
     (let waiter_id = next_nonzero_generation (next_waiter_id reg);
          reg1 = reg\<lparr>next_waiter_id := waiter_id\<rparr>
      in case flights reg1 key of
           Some flight \<Rightarrow>
             (\<lparr>reg_key = key, reg_flight_id = entry_flight_id flight, reg_waiter_id = waiter_id,
               reg_shared = entry_shared flight, leader = False\<rparr>,
              reg1\<lparr>flights := (flights reg1)(key \<mapsto>
                flight\<lparr>entry_waiters := entry_waiters flight @ [(waiter_id, waiter)]\<rparr>)\<rparr>)
         | None \<Rightarrow>
             let flight_id = next_nonzero_generation (next_flight_id reg1)
             in (\<lparr>reg_key = key, reg_flight_id = flight_id, reg_waiter_id = waiter_id,
                  reg_shared = make_shared, leader = True\<rparr>,
                 reg1\<lparr>next_flight_id := flight_id, flights := (flights reg1)(key \<mapsto>
                   \<lparr>entry_flight_id = flight_id, entry_shared = make_shared,
                    entry_waiters = [(waiter_id, waiter)]\<rparr>)\<rparr>))"

definition swap_remove :: "nat \<Rightarrow> 'b list \<Rightarrow> 'b list" where
  "swap_remove pos xs = butlast (xs[pos := last xs])"

definition remove_waiter ::
  "'k \<Rightarrow> u64 \<Rightarrow> u64 \<Rightarrow> ('k, 'w, 'a) SingleflightRegistry \<Rightarrow> 'a option \<times> ('k, 'w, 'a) SingleflightRegistry" where
  "remove_waiter key flight_id waiter_id reg =
     (case flights reg key of
        None \<Rightarrow> (None, reg)
      | Some flight \<Rightarrow>
          if entry_flight_id flight \<noteq> flight_id then (None, reg)
          else case position (\<lambda>(w, _). w = waiter_id) (entry_waiters flight) of
                 None \<Rightarrow> (None, reg)
               | Some pos \<Rightarrow>
                   let waiters = swap_remove pos (entry_waiters flight);
                       reg' = reg\<lparr>flights := (flights reg)(key \<mapsto> flight\<lparr>entry_waiters := waiters\<rparr>)\<rparr>
                   in if waiters \<noteq> [] then (None, reg') else (Some (entry_shared flight), reg'))"

definition flight_take ::
  "'k \<Rightarrow> u64 \<Rightarrow> ('k, 'w, 'a) SingleflightRegistry \<Rightarrow> ('a \<times> 'w list) option \<times> ('k, 'w, 'a) SingleflightRegistry" where
  "flight_take key flight_id reg =
     (case flights reg key of
        None \<Rightarrow> (None, reg)
      | Some flight \<Rightarrow>
          if entry_flight_id flight \<noteq> flight_id then (None, reg)
          else (Some (entry_shared flight, map snd (entry_waiters flight)),
                reg\<lparr>flights := (flights reg)(key := None)\<rparr>))"

section \<open>Facts about the claim loop\<close>

inductive_cases claim_stepE [consumes 1]: "claim_step s s'"

lemma length_filter_update:
  "i < length xs \<Longrightarrow>
     length (filter P (xs[i := y])) + (if P (xs ! i) then 1 else 0) =
     length (filter P xs) + (if P y then 1 else (0 :: nat))"
proof (induction xs arbitrary: i)
  case Nil
  then show ?case by simp
next
  case (Cons x xs)
  then show ?case by (cases i) auto
qed

lemma mem_update:
  "i < length xs \<Longrightarrow> xs ! i \<noteq> v \<Longrightarrow> v \<in> set (xs[i := y]) \<longleftrightarrow> y = v \<or> v \<in> set xs"
proof (induction xs arbitrary: i)
  case Nil
  then show ?case by simp
next
  case (Cons x xs)
  then show ?case by (cases i) auto
qed

text \<open>What holds in every schedule: the budget is accounted for, and an empty one gets closed.\<close>

definition claims_inv :: "nat \<Rightarrow> claims \<Rightarrow> bool" where
  "claims_inv limit s \<longleftrightarrow>
     attempt_limit (group s) = Some limit \<and>
     (\<exists>r. attempts_remaining (group s) = Some r \<and> length (filter granted (threads s)) + r = limit \<and>
          (r = 0 \<longrightarrow> MustClose \<in> set (threads s) \<or> \<not> admission_open (group s)))"

lemmas admission_ops = admission_close_def record_returned_cac_def record_physical_attempt_timeout_def
  record_confirmed_empty_physical_attempt_def

lemma claims_inv_thread:
  assumes "claims_inv limit s" "i < length (threads s)" "threads s ! i \<noteq> MustClose"
    and "granted pc = granted (threads s ! i)" "pc \<noteq> MustClose"
  shows "claims_inv limit (s\<lparr>threads := (threads s)[i := pc]\<rparr>)"
  using assms(1) length_filter_update [OF assms(2), of granted pc] assms(4)
    mem_update [OF assms(2,3), of pc] assms(5)
  by (auto simp: claims_inv_def split: if_splits)

lemma claims_inv_step:
  assumes "claim_step s s'" "claims_inv limit s"
  shows "claims_inv limit s'"
  using assms(1)
proof cases
  case spawn
  then show ?thesis using assms(2) by (auto simp: claims_inv_def)
next
  case (unlimited i)
  then show ?thesis using assms(2) by (auto simp: claims_inv_def)
next
  case (closed i)
  then show ?thesis using claims_inv_thread [OF assms(2), of i "Returned False"] by simp
next
  case (checked i)
  then show ?thesis using claims_inv_thread [OF assms(2), of i Checked] by simp
next
  case (load i r)
  then show ?thesis using claims_inv_thread [OF assms(2), of i "Loaded r"] by simp
next
  case (exhausted i)
  then show ?thesis using claims_inv_thread [OF assms(2), of i "Returned False"] by simp
next
  case (exchange i r)
  let ?pc = "if r = 1 then MustClose else Returned True"
  have "length (filter granted ((threads s)[i := ?pc])) = Suc (length (filter granted (threads s)))"
    using length_filter_update [of i "threads s" granted ?pc] exchange by simp
  moreover have "MustClose \<in> set ((threads s)[i := ?pc])" if "r = 1"
    using that exchange set_update_memI [of i "threads s"] by simp
  ultimately show ?thesis using assms(2) exchange by (auto simp: claims_inv_def)
next
  case (retry i r r')
  then show ?thesis using claims_inv_thread [OF assms(2), of i "Loaded r'"] by simp
next
  case (finish i)
  then show ?thesis
    using assms(2) length_filter_update [of i "threads s" granted "Returned True"]
    by (auto simp: claims_inv_def admission_ops)
qed (use assms(2) in \<open>auto simp: claims_inv_def admission_ops\<close>)

lemma claims_reach_inv:
  "claims_reach (new_with_attempt_limit limit) s \<Longrightarrow> claims_inv limit s"
proof (induction rule: claims_reach.induct)
  case init
  then show ?case
    by (simp add: claims_inv_def new_with_attempt_limit_def with_attempts_remaining_def)
next
  case (step s s')
  then show ?case by (blast intro: claims_inv_step)
qed

section \<open>Facts about the registry\<close>

text \<open>
  Histories of a registry, with the flights that have a leader and were not yet taken.
\<close>

inductive flight_run :: "('k, 'w, 'a) SingleflightRegistry \<Rightarrow> ('k \<times> u64) set \<Rightarrow> bool" where
  start: "flight_run registry_default {}"
| registered: "flight_run reg L \<Longrightarrow> register k w a reg = (r, reg') \<Longrightarrow>
    flight_run reg' (if leader r then insert (k, reg_flight_id r) L else L)"
| removed: "flight_run reg L \<Longrightarrow> remove_waiter k f w' reg = (x, reg') \<Longrightarrow> flight_run reg' L"
| taken: "flight_run reg L \<Longrightarrow> flight_take k f reg = (y, reg') \<Longrightarrow>
    flight_run reg' (if y \<noteq> None then L - {(k, f)} else L)"

definition flight_ids :: "('k, 'w, 'a) SingleflightRegistry \<Rightarrow> ('k \<times> u64) set" where
  "flight_ids reg = {(k, f). \<exists>e. flights reg k = Some e \<and> entry_flight_id e = f}"

lemma flight_ids_register:
  assumes "register k w a reg = (r, reg')"
  shows "flight_ids reg' = (if leader r then insert (k, reg_flight_id r) (flight_ids reg) else flight_ids reg)"
    and "leader r \<longleftrightarrow> flights reg k = None"
    and "reg_key r = k"
    and "flights reg k = Some e \<Longrightarrow> reg_flight_id r = entry_flight_id e \<and> reg_shared r = entry_shared e"
  using assms by (auto simp: register_def flight_ids_def Let_def split: option.splits if_splits)

lemma flight_ids_remove:
  "remove_waiter k f w' reg = (x, reg') \<Longrightarrow> flight_ids reg' = flight_ids reg"
  by (auto simp: remove_waiter_def flight_ids_def Let_def split: option.splits if_splits)

lemma flight_ids_take:
  "flight_take k f reg = (y, reg') \<Longrightarrow>
     flight_ids reg' = (if y \<noteq> None then flight_ids reg - {(k, f)} else flight_ids reg) \<and>
     (y \<noteq> None \<longleftrightarrow> (k, f) \<in> flight_ids reg)"
  by (auto simp: flight_take_def flight_ids_def split: option.splits if_splits)

lemma flight_run_ids: "flight_run reg L \<Longrightarrow> L = flight_ids reg"
proof (induction rule: flight_run.induct)
  case start
  then show ?case by (simp add: flight_ids_def registry_default_def)
next
  case (registered reg L k w a r reg')
  then show ?case using flight_ids_register(1) by metis
next
  case (removed reg L k f w' x reg')
  then show ?case using flight_ids_remove by metis
next
  case (taken reg L k f y reg')
  then show ?case using flight_ids_take by metis
qed

lemma mset_swap_remove: "i < length xs \<Longrightarrow> mset (swap_remove i xs) = mset xs - {#xs ! i#}"
proof -
  assume i: "i < length xs"
  then have ne: "xs[i := last xs] \<noteq> []" by auto
  have lst: "last (xs[i := last xs]) = last xs"
    using i ne by (simp add: last_conv_nth nth_list_update)
  have "add_mset (last xs) (mset (butlast (xs[i := last xs]))) = mset (xs[i := last xs])"
    using arg_cong [OF append_butlast_last_id [OF ne], of mset] lst by simp
  also have "\<dots> = add_mset (last xs) (mset xs - {#xs ! i#})" using i by (rule mset_update)
  finally show ?thesis by (simp add: swap_remove_def)
qed

section \<open>Properties\<close>

text \<open>
  C7.  A finite attempt budget is exact under every interleaving of any number of claiming
  threads, with spurious exchange failures and closes at any time: the claims granted so far and
  the attempts remaining add up to the limit (so no more than the limit is ever granted and the
  reported number of claimed attempts is the number granted), and when the budget is used up the
  group is closed as soon as the last granted claim has finished.
\<close>

theorem claim_budget_exact:
  assumes "claims_reach (new_with_attempt_limit limit) s"
  shows "(\<exists>r. attempts_remaining (group s) = Some r \<and> length (filter granted (threads s)) + r = limit \<and>
      (r = 0 \<and> MustClose \<notin> set (threads s) \<longrightarrow> \<not> admission_open (group s))) \<and>
    claimed_physical_attempts (group s) = Some (length (filter granted (threads s)))"
  using claims_reach_inv [OF assms] by (auto simp: claims_inv_def claimed_physical_attempts_def)

theorem claim_budget_exact_witness:
  "\<exists>s. claims_reach (new_with_attempt_limit 1) s \<and> threads s = [Loaded 1] \<and>
     length (filter granted (threads s)) + 1 = 1"
proof -
  let ?a = "new_with_attempt_limit 1"
  have "claims_reach ?a \<lparr>group = ?a, threads = [Start]\<rparr>"
    using claims_reach.step [OF claims_reach.init claim_step.spawn, of ?a] by simp
  then have "claims_reach ?a \<lparr>group = ?a, threads = [Checked]\<rparr>"
    using claims_reach.step claim_step.checked [of 0 "\<lparr>group = ?a, threads = [Start]\<rparr>"]
    by (fastforce simp: new_with_attempt_limit_def with_attempts_remaining_def)
  then have r: "claims_reach ?a \<lparr>group = ?a, threads = [Loaded 1]\<rparr>"
    using claims_reach.step claim_step.load [of 0 "\<lparr>group = ?a, threads = [Checked]\<rparr>" 1]
    by (fastforce simp: new_with_attempt_limit_def with_attempts_remaining_def)
  from claim_budget_exact [OF r] r show ?thesis
    by (intro exI [of _ "\<lparr>group = ?a, threads = [Loaded 1]\<rparr>"])
      (simp add: new_with_attempt_limit_def with_attempts_remaining_def)
qed



text \<open>
  Singleflight has one producer per key: in every history the flights that have a leader
  and were not taken are exactly the registered ones; registering for a key with a live flight
  joins it, with its id and shared state, and registering for any other key leads a new one; a
  producer can detach only its own flight, and a stale producer changes nothing.
\<close>

theorem singleflight_one_leader:
  assumes "flight_run reg L"
  shows "(\<forall>k f f'. (k, f) \<in> L \<and> (k, f') \<in> L \<longrightarrow> f = f') \<and>
    (\<forall>k w a. let (r, _) = register k w a reg in
       leader r = (\<forall>f. (k, f) \<notin> L) \<and> (\<forall>f. (k, f) \<in> L \<longrightarrow> reg_flight_id r = f)) \<and>
    (\<forall>k f. (fst (flight_take k f reg) \<noteq> None) = ((k, f) \<in> L) \<and>
       ((k, f) \<notin> L \<longrightarrow> snd (flight_take k f reg) = reg))"
proof -
  have L: "L = flight_ids reg" using flight_run_ids [OF assms] .
  have reg: "leader r = (\<forall>f. (k, f) \<notin> L) \<and> (\<forall>f. (k, f) \<in> L \<longrightarrow> reg_flight_id r = f)"
    if "register k w a reg = (r, reg')" for k w a r reg'
    using flight_ids_register(2,4) [OF that] unfolding L flight_ids_def by (cases "flights reg k") auto
  have take: "(fst (flight_take k f reg) \<noteq> None) = ((k, f) \<in> L)" for k f
    using flight_ids_take [of k f reg] unfolding L by (cases "flight_take k f reg") auto
  have stale: "snd (flight_take k f reg) = reg" if "(k, f) \<notin> L" for k f
    using that unfolding L flight_ids_def flight_take_def by (auto split: option.splits)
  have one: "f = f'" if "(k, f) \<in> L" "(k, f') \<in> L" for k f f'
    using that unfolding L flight_ids_def by auto
  from reg take stale one show ?thesis by (auto split: prod.splits)
qed

theorem singleflight_one_leader_witness:
  "leader (fst (register ''a'' () () (registry_default :: (string, unit, unit) SingleflightRegistry)))"
  using singleflight_one_leader [OF flight_run.start, THEN conjunct2, THEN conjunct1, rule_format,
      where k = "''a''" and w = "()" and a = "()"]
  by (simp add: case_prod_beta)

text \<open>
  Removing a waiter takes out exactly that waiter: with the flight's own id and a present
  waiter, the other waiters stay (as a multiset, the order may change), and the shared state is
  handed back exactly when nobody waits any more; the flight itself stays registered.  Any other
  call changes nothing.
\<close>

theorem remove_waiter_exact:
  "(\<forall>e p. flights reg k = Some e \<and> entry_flight_id e = f \<and>
       position (\<lambda>(i, _). i = w) (entry_waiters e) = Some p \<longrightarrow>
      (\<exists>waiters. remove_waiter k f w reg =
         (if waiters = [] then Some (entry_shared e) else None,
          reg\<lparr>flights := (flights reg)(k \<mapsto> e\<lparr>entry_waiters := waiters\<rparr>)\<rparr>) \<and>
         fst (entry_waiters e ! p) = w \<and> add_mset (entry_waiters e ! p) (mset waiters) = mset (entry_waiters e))) \<and>
   ((\<nexists>e p. flights reg k = Some e \<and> entry_flight_id e = f \<and>
       position (\<lambda>(i, _). i = w) (entry_waiters e) = Some p) \<longrightarrow>
      remove_waiter k f w reg = (None, reg))"
proof (intro conjI allI impI)
  fix e p
  assume e: "flights reg k = Some e \<and> entry_flight_id e = f \<and>
    position (\<lambda>(i, _). i = w) (entry_waiters e) = Some p"
  then have p: "p < length (entry_waiters e)" "fst (entry_waiters e ! p) = w"
    by (auto simp: position_Some split: prod.splits)
  have "add_mset (entry_waiters e ! p) (mset (swap_remove p (entry_waiters e))) = mset (entry_waiters e)"
    using p(1) by (simp add: mset_swap_remove)
  with e p(2) show "\<exists>waiters. remove_waiter k f w reg =
      (if waiters = [] then Some (entry_shared e) else None,
       reg\<lparr>flights := (flights reg)(k \<mapsto> e\<lparr>entry_waiters := waiters\<rparr>)\<rparr>) \<and>
      fst (entry_waiters e ! p) = w \<and> add_mset (entry_waiters e ! p) (mset waiters) = mset (entry_waiters e)"
    by (intro exI [of _ "swap_remove p (entry_waiters e)"]) (simp add: remove_waiter_def Let_def)
next
  assume "\<nexists>e p. flights reg k = Some e \<and> entry_flight_id e = f \<and>
    position (\<lambda>(i, _). i = w) (entry_waiters e) = Some p"
  then show "remove_waiter k f w reg = (None, reg)"
    by (auto simp: remove_waiter_def split: option.splits)
qed

theorem remove_waiter_exact_witness:
  "remove_waiter ''a'' 1 5 (registry_default :: (string, unit, unit) SingleflightRegistry) = (None, registry_default)"
  using remove_waiter_exact [of registry_default "''a''" 1 5] by (simp add: registry_default_def)

text \<open>
  The hedge demand only rises: after any sequence of promotions it is ordinary exactly when
  it began ordinary or some promotion asked for ordinary, and at most one promotion notifies.
\<close>

theorem hedge_demand_monotone:
  "let final = fold (\<lambda>p (d, n). let (d', hit) = hedge_promote p d in (d', n + (if hit then 1 else 0))) ps
                 (hedge_new demand, 0 :: nat)
   in (hedge_current (fst final) = Ordinary \<longleftrightarrow> demand = Ordinary \<or> Ordinary \<in> set ps) \<and> snd final \<le> 1"
proof -
  let ?f = "\<lambda>p (d, n). let (d', hit) = hedge_promote p d in (d', n + (if hit then 1 else (0 :: nat)))"
  have "fst (fold ?f ps (d, n)) = (if d = 1 \<or> Ordinary \<in> set ps then 1 else 0) \<and>
      snd (fold ?f ps (d, n)) \<le> n + (if d = 1 then 0 else 1)"
    if "d = 0 \<or> d = 1" for d n
    using that
  proof (induction ps arbitrary: d n)
    case Nil
    then show ?case by auto
  next
    case (Cons p ps)
    from Cons.IH [of 0 n] Cons.IH [of 1 n] Cons.IH [of 1 "n + 1"] Cons.prems show ?case
      by (cases p) (auto simp: hedge_promote_def)
  qed
  from this [of "hedge_new demand" 0] show ?thesis
    by (cases demand) (auto simp: hedge_new_def hedge_current_def Let_def)
qed

end
