(* ===== verification/ErasureLayout.thy ===== *)
theory ErasureLayout
  imports Prelude
begin

text \<open>
  The layout side of \<open>src/erasure_coding.rs\<close>: redundancy levels with Bee's shard and parity
  tables, the span prefix that carries the level, the number and capacity of the references an
  intermediate chunk holds, the split of its payload into data and parity references, and the
  mining of dispersed replica identifiers.
\<close>

section \<open>Redundancy levels\<close>

datatype RedundancyLevel = Level_None | Medium | Strong | Insane | Paranoid

fun from_u8 :: "u8 \<Rightarrow> RedundancyLevel option" where
  "from_u8 v =
     (if v = 0 then Some Level_None else if v = 1 then Some Medium else if v = 2 then Some Strong
      else if v = 3 then Some Insane else if v = 4 then Some Paranoid else None)"

fun as_u8 :: "RedundancyLevel \<Rightarrow> u8" where
  "as_u8 Level_None = 0"
| "as_u8 Medium = 1"
| "as_u8 Strong = 2"
| "as_u8 Insane = 3"
| "as_u8 Paranoid = 4"

definition MEDIUM_SHARDS :: "nat list" where
  "MEDIUM_SHARDS = [95, 69, 47, 29, 15, 6, 2, 1]"
definition MEDIUM_PARITIES :: "nat list" where
  "MEDIUM_PARITIES = [9, 8, 7, 6, 5, 4, 3, 2]"
definition ENC_MEDIUM_SHARDS :: "nat list" where
  "ENC_MEDIUM_SHARDS = [47, 34, 23, 14, 7, 3, 1]"
definition ENC_MEDIUM_PARITIES :: "nat list" where
  "ENC_MEDIUM_PARITIES = [9, 8, 7, 6, 5, 4, 3]"
definition STRONG_SHARDS :: "nat list" where
  "STRONG_SHARDS = [105, 96, 87, 78, 70, 62, 54, 47, 40, 33, 27, 21, 16, 11, 7, 4, 2, 1]"
definition STRONG_PARITIES :: "nat list" where
  "STRONG_PARITIES = [21, 20, 19, 18, 17, 16, 15, 14, 13, 12, 11, 10, 9, 8, 7, 6, 5, 4]"
definition ENC_STRONG_SHARDS :: "nat list" where
  "ENC_STRONG_SHARDS = [52, 48, 43, 39, 35, 31, 27, 23, 20, 16, 13, 10, 8, 5, 3, 2, 1]"
definition ENC_STRONG_PARITIES :: "nat list" where
  "ENC_STRONG_PARITIES = [21, 20, 19, 18, 17, 16, 15, 14, 13, 12, 11, 10, 9, 8, 7, 6, 5]"
definition INSANE_SHARDS :: "nat list" where
  "INSANE_SHARDS = [93, 88, 83, 78, 74, 69, 64, 60, 55, 51, 46, 42, 38, 34, 30, 27, 23, 20, 17, 14,
     11, 9, 6, 4, 3, 2, 1]"
definition INSANE_PARITIES :: "nat list" where
  "INSANE_PARITIES = [31, 30, 29, 28, 27, 26, 25, 24, 23, 22, 21, 20, 19, 18, 17, 16, 15, 14, 13, 12,
     11, 10, 9, 8, 7, 6, 5]"
definition ENC_INSANE_SHARDS :: "nat list" where
  "ENC_INSANE_SHARDS = [46, 44, 41, 39, 37, 34, 32, 30, 27, 25, 23, 21, 19, 17, 15, 13, 11, 10, 8, 7,
     5, 4, 3, 2, 1]"
definition ENC_INSANE_PARITIES :: "nat list" where
  "ENC_INSANE_PARITIES = [31, 30, 29, 28, 27, 26, 25, 24, 23, 22, 21, 20, 19, 18, 17, 16, 15, 14, 13,
     12, 11, 10, 9, 8, 6]"
definition PARANOID_SHARDS :: "nat list" where
  "PARANOID_SHARDS = [37, 36, 35, 34, 33, 32, 31, 30, 29, 28, 27, 26, 25, 24, 23, 22, 21, 20, 19, 18,
     17, 16, 15, 14, 13, 12, 11, 10, 9, 8, 7, 6, 5, 4, 3, 2, 1]"
definition PARANOID_PARITIES :: "nat list" where
  "PARANOID_PARITIES = [89, 87, 86, 84, 83, 81, 80, 78, 76, 75, 73, 71, 70, 68, 66, 65, 63, 61, 59,
     58, 56, 54, 52, 50, 48, 47, 45, 43, 40, 38, 36, 34, 31, 29, 26, 23, 19]"
definition ENC_PARANOID_SHARDS :: "nat list" where
  "ENC_PARANOID_SHARDS = [18, 17, 16, 15, 14, 13, 12, 11, 10, 9, 8, 7, 6, 5, 4, 3, 2, 1]"
definition ENC_PARANOID_PARITIES :: "nat list" where
  "ENC_PARANOID_PARITIES = [87, 84, 81, 78, 75, 71, 68, 65, 61, 58, 54, 50, 47, 43, 38, 34, 29, 23]"

lemmas erasure_tables =
  MEDIUM_SHARDS_def MEDIUM_PARITIES_def ENC_MEDIUM_SHARDS_def ENC_MEDIUM_PARITIES_def
  STRONG_SHARDS_def STRONG_PARITIES_def ENC_STRONG_SHARDS_def ENC_STRONG_PARITIES_def
  INSANE_SHARDS_def INSANE_PARITIES_def ENC_INSANE_SHARDS_def ENC_INSANE_PARITIES_def
  PARANOID_SHARDS_def PARANOID_PARITIES_def ENC_PARANOID_SHARDS_def ENC_PARANOID_PARITIES_def

fun erasure_table :: "RedundancyLevel \<Rightarrow> bool \<Rightarrow> nat list \<times> nat list" where
  "erasure_table Level_None _ = ([], [])"
| "erasure_table Medium False = (MEDIUM_SHARDS, MEDIUM_PARITIES)"
| "erasure_table Medium True = (ENC_MEDIUM_SHARDS, ENC_MEDIUM_PARITIES)"
| "erasure_table Strong False = (STRONG_SHARDS, STRONG_PARITIES)"
| "erasure_table Strong True = (ENC_STRONG_SHARDS, ENC_STRONG_PARITIES)"
| "erasure_table Insane False = (INSANE_SHARDS, INSANE_PARITIES)"
| "erasure_table Insane True = (ENC_INSANE_SHARDS, ENC_INSANE_PARITIES)"
| "erasure_table Paranoid False = (PARANOID_SHARDS, PARANOID_PARITIES)"
| "erasure_table Paranoid True = (ENC_PARANOID_SHARDS, ENC_PARANOID_PARITIES)"

fun find_parities :: "nat \<Rightarrow> (nat \<times> nat) list \<Rightarrow> nat option" where
  "find_parities shards [] = None"
| "find_parities shards ((threshold, parities) # rest) =
     (if threshold \<le> shards then Some parities else find_parities shards rest)"

definition parities :: "RedundancyLevel \<Rightarrow> nat \<Rightarrow> bool \<Rightarrow> nat" where
  "parities level shards encrypted =
     (if level = Level_None \<or> shards = 0 then 0
      else let (shard_thresholds, parity_counts) = erasure_table level encrypted
           in case find_parities shards (zip shard_thresholds parity_counts) of
                Some p \<Rightarrow> p | None \<Rightarrow> 0)"

definition max_shards :: "RedundancyLevel \<Rightarrow> bool \<Rightarrow> nat" where
  "max_shards level encrypted =
     (if encrypted then (128 - parities level 64 True) div 2 else 128 - parities level 128 False)"

fun replica_count :: "RedundancyLevel \<Rightarrow> nat" where
  "replica_count level = [0, 2, 4, 8, 16] ! unat (as_u8 level)"

section \<open>Spans and reference layouts\<close>

definition SPAN_SIZE :: nat where "SPAN_SIZE = 8"
definition CHUNK_SIZE :: nat where "CHUNK_SIZE = 4096"
definition HASH_SIZE :: nat where "HASH_SIZE = 32"
definition ENCRYPTED_REFERENCE_SIZE :: nat where "ENCRYPTED_REFERENCE_SIZE = 64"

lemmas sizes = SPAN_SIZE_def CHUNK_SIZE_def HASH_SIZE_def ENCRYPTED_REFERENCE_SIZE_def

definition decode_span :: "bytes \<Rightarrow> (RedundancyLevel \<times> u64) option" where
  "decode_span span =
     (if length span < SPAN_SIZE then None
      else let decoded = take SPAN_SIZE span; top = decoded ! (SPAN_SIZE - 1)
           in if 0x80 < top then
                (case from_u8 (top AND 0x7f) of
                   None \<Rightarrow> None
                 | Some level \<Rightarrow> Some (level, from_le_bytes (decoded[SPAN_SIZE - 1 := 0])))
              else Some (Level_None, from_le_bytes decoded))"

record ReferenceLayout =
  data_shards :: nat
  parity_shards :: nat
  child_capacity :: u64

text \<open>
  The branch loop stops when the branch covers the span and fails when the multiplication
  overflows; it is written without a fuel bound, and \<open>None\<close> would mean that it does not
  return.  The inner option is the source's.
\<close>

partial_function (option) branch_loop :: "u64 \<Rightarrow> u64 \<Rightarrow> u64 \<Rightarrow> nat \<Rightarrow> nat option option" where
  "branch_loop branching span branch_size branch_level =
     (if branch_size < span then
        (case checked_mul branch_size branching of
           None \<Rightarrow> Some None
         | Some size' \<Rightarrow> branch_loop branching span size' (branch_level + 1))
      else Some (Some branch_level))"

declare branch_loop.simps [code]

fun reference_size_loop :: "nat \<Rightarrow> u64 \<Rightarrow> u64 \<Rightarrow> u64 option" where
  "reference_size_loop 0 branching reference_size = Some reference_size"
| "reference_size_loop (Suc n) branching reference_size =
     (case checked_mul reference_size branching of
        None \<Rightarrow> None
      | Some size' \<Rightarrow> reference_size_loop n branching size')"

definition reference_layout ::
  "u64 \<Rightarrow> RedundancyLevel \<Rightarrow> bool \<Rightarrow> ReferenceLayout option option" where
  "reference_layout span level encrypted =
     (if unat span \<le> CHUNK_SIZE then Some None
      else if max_shards level encrypted = 0 then Some None
      else let branching = word_of_nat (max_shards level encrypted)
           in do {
             loop \<leftarrow> branch_loop branching span (word_of_nat CHUNK_SIZE) 1;
             Some (do {
               branch_level \<leftarrow> loop;
               reference_size \<leftarrow>
                 reference_size_loop (branch_level - 1 - 1) branching (word_of_nat CHUNK_SIZE);
               rounded \<leftarrow> checked_add span (reference_size - 1);
               let data = unat (rounded div reference_size);
               Some \<lparr>data_shards = data, parity_shards = parities level data encrypted,
                     child_capacity = reference_size\<rparr>
             })
           })"

definition reference_count :: "u64 \<Rightarrow> RedundancyLevel \<Rightarrow> bool \<Rightarrow> (nat \<times> nat) option option" where
  "reference_count span level encrypted =
     map_option (map_option (\<lambda>layout. (data_shards layout, parity_shards layout)))
       (reference_layout span level encrypted)"

definition data_reference_size :: "bool \<Rightarrow> nat" where
  "data_reference_size encrypted = (if encrypted then ENCRYPTED_REFERENCE_SIZE else HASH_SIZE)"

definition payload_len :: "nat \<Rightarrow> nat \<Rightarrow> bool \<Rightarrow> nat option" where
  "payload_len data parity encrypted = do {
     data_bytes \<leftarrow> usize_checked_mul data (data_reference_size encrypted);
     parity_bytes \<leftarrow> usize_checked_mul parity HASH_SIZE;
     usize_checked_add data_bytes parity_bytes
   }"

definition encoded_reference_payload_len ::
  "u64 \<Rightarrow> RedundancyLevel \<Rightarrow> bool \<Rightarrow> nat option option" where
  "encoded_reference_payload_len span level encrypted = do {
     count \<leftarrow> reference_count span level encrypted;
     Some (do {
       (data, parity) \<leftarrow> count;
       payload_len data parity encrypted
     })
   }"

definition split_references ::
  "bytes \<Rightarrow> u64 \<Rightarrow> RedundancyLevel \<Rightarrow> bool \<Rightarrow> (bytes list \<times> bytes list) option option" where
  "split_references payload span level encrypted = do {
     count \<leftarrow> reference_count span level encrypted;
     Some (do {
       (data_count, parity_count) \<leftarrow> count;
       data_bytes \<leftarrow> usize_checked_mul data_count (data_reference_size encrypted);
       parity_bytes \<leftarrow> usize_checked_mul parity_count HASH_SIZE;
       expected \<leftarrow> usize_checked_add data_bytes parity_bytes;
       if length payload \<noteq> expected then None
       else Some (chunks_exact (data_reference_size encrypted) (take data_bytes payload),
                  chunks_exact HASH_SIZE (drop data_bytes payload))
     })
   }"

section \<open>Dispersed replicas\<close>

record Replica =
  replica_id :: bytes
  replica_address :: bytes

record replica_state =
  queue :: "Replica option list"
  existing_neighborhoods :: "bool list"
  rsizes :: "nat list"

definition replica_start :: replica_state where
  "replica_start = \<lparr>queue = replicate 16 None, existing_neighborhoods = replicate 30 False,
     rsizes = [0, 2, 4, 8, 16]\<rparr>"

text \<open>
  \<open>add_replica\<close>, by the depth of the level.  An array access out of range is a panic,
  \<open>None\<close>.
\<close>

fun add_replica :: "Replica \<Rightarrow> nat \<Rightarrow> replica_state \<Rightarrow> ((nat \<times> nat) \<times> replica_state) option" where
  "add_replica candidate 0 st = Some ((0, 0), st)"
| "add_replica candidate (Suc d) st =
     (let depth = Suc d;
          neighborhood = [0, 2, 6, 14] ! d + unat (drop_bit (8 - depth) (replica_address candidate ! 0))
      in if \<not> neighborhood < length (existing_neighborhoods st) then None
         else if existing_neighborhoods st ! neighborhood then Some ((0, 0), st)
         else case add_replica candidate d
                (st\<lparr>existing_neighborhoods := (existing_neighborhoods st)[neighborhood := True]\<rparr>) of
                None \<Rightarrow> None
              | Some ((covered, offset), st') \<Rightarrow>
                  if covered = 0 then
                    let off = rsizes st' ! d in
                    if \<not> off < length (queue st') then None
                    else Some (([0, 2, 4, 8, 16] ! depth, off),
                               st'\<lparr>rsizes := (rsizes st')[d := off + 1],
                                  queue := (queue st')[off := Some candidate]\<rparr>)
                  else Some ((covered, offset), st'))"

text \<open>The inner loop: the filled slots from \<open>emitted\<close> on, up to the first empty one.\<close>

fun filled_prefix :: "'a option list \<Rightarrow> 'a list" where
  "filled_prefix (Some x # rest) = x # filled_prefix rest"
| "filled_prefix _ = []"

fun replica_loop ::
  "(bytes \<Rightarrow> bytes) \<Rightarrow> bytes \<Rightarrow> RedundancyLevel \<Rightarrow> nat list \<Rightarrow> nat \<Rightarrow> Replica list \<Rightarrow> replica_state \<Rightarrow>
   Replica list option" where
  "replica_loop address_for_id root level [] emitted output st = Some output"
| "replica_loop address_for_id root level (candidate_index # rest) emitted output st =
     (if replica_count level \<le> emitted then Some output
      else let ident = root[0 := word_of_nat candidate_index];
               candidate = \<lparr>replica_id = ident, replica_address = address_for_id ident\<rparr>
           in case add_replica candidate (unat (as_u8 level)) st of
                None \<Rightarrow> None
              | Some ((depth, _), st') \<Rightarrow>
                  if depth = 0 then replica_loop address_for_id root level rest emitted output st'
                  else let found = filled_prefix (drop emitted (queue st'))
                       in replica_loop address_for_id root level rest (emitted + length found)
                            (output @ found) st')"

text \<open>The outer option is a panic, the inner one the source's result.\<close>

definition replicas ::
  "bytes \<Rightarrow> RedundancyLevel \<Rightarrow> (bytes \<Rightarrow> bytes) \<Rightarrow> Replica list option option" where
  "replicas root_address level address_for_id =
     (if length root_address \<noteq> HASH_SIZE then Some None
      else if replica_count level = 0 then Some (Some [])
      else map_option Some
             (replica_loop address_for_id root_address level [0..<255] 0 [] replica_start))"

section \<open>Facts about the levels\<close>

lemma find_parities_mem: "find_parities n table = Some p \<Longrightarrow> \<exists>t. (t, p) \<in> set table \<and> t \<le> n"
  by (induction table rule: find_parities.induct) (auto split: if_splits)

definition table_max :: "RedundancyLevel \<Rightarrow> bool \<Rightarrow> nat" where
  "table_max level encrypted = (case snd (erasure_table level encrypted) of [] \<Rightarrow> 0 | p # _ \<Rightarrow> p)"

lemma table_sorted: "\<forall>p \<in> set (snd (erasure_table level encrypted)). p \<le> table_max level encrypted"
  by (cases level; cases encrypted) (simp_all add: table_max_def erasure_tables)

lemma parities_le_table_max: "parities level n encrypted \<le> table_max level encrypted"
proof (cases "find_parities n (zip (fst (erasure_table level encrypted)) (snd (erasure_table level encrypted)))")
  case None
  then show ?thesis by (simp add: parities_def case_prod_beta Let_def)
next
  case (Some p)
  then obtain t where "(t, p) \<in> set (zip (fst (erasure_table level encrypted)) (snd (erasure_table level encrypted)))"
    using find_parities_mem by blast
  then have "p \<le> table_max level encrypted"
    using table_sorted [of level encrypted] by (auto dest: set_zip_rightD)
  with Some show ?thesis by (simp add: parities_def case_prod_beta Let_def)
qed

lemma max_shards_value:
  "max_shards level encrypted =
     (case level of
        Level_None \<Rightarrow> if encrypted then 64 else 128
      | Medium \<Rightarrow> if encrypted then 59 else 119
      | Strong \<Rightarrow> if encrypted then 53 else 107
      | Insane \<Rightarrow> if encrypted then 48 else 97
      | Paranoid \<Rightarrow> if encrypted then 20 else 39)"
  by (cases level; cases encrypted) (simp_all add: max_shards_def parities_def erasure_tables)

lemma max_shards_table:
  "max_shards level encrypted * (if encrypted then 2 else 1) + table_max level encrypted \<le> 128"
  by (cases level; cases encrypted) (simp_all add: max_shards_value table_max_def erasure_tables)

lemma max_shards_bounds: "20 \<le> max_shards level encrypted" "max_shards level encrypted \<le> 128"
  by (cases level; cases encrypted; simp add: max_shards_value)+

lemma payload_fits:
  assumes "n \<le> max_shards level encrypted"
  shows "n * data_reference_size encrypted + parities level n encrypted * HASH_SIZE \<le> CHUNK_SIZE"
  using assms max_shards_table [of level encrypted] parities_le_table_max [of level n encrypted]
  by (cases encrypted) (simp_all add: data_reference_size_def sizes)

text \<open>A power of the branching factor between \<open>2 ^ 57\<close> and \<open>2 ^ 64\<close>, in chunks.\<close>

definition tall :: "RedundancyLevel \<Rightarrow> bool \<Rightarrow> nat" where
  "tall level encrypted =
     (case level of Level_None \<Rightarrow> (if encrypted then 8 else 7) | Medium \<Rightarrow> (if encrypted then 8 else 7)
      | Strong \<Rightarrow> (if encrypted then 8 else 7) | Insane \<Rightarrow> (if encrypted then 9 else 7)
      | Paranoid \<Rightarrow> (if encrypted then 11 else 9))"

lemma tall_bounds:
  "2 ^ 57 \<le> 4096 * max_shards level encrypted ^ tall level encrypted"
  "4096 * max_shards level encrypted ^ tall level encrypted < 2 ^ 64"
  by (cases level; cases encrypted; simp add: max_shards_value tall_def)+

section \<open>Facts about the layout loops\<close>

lemma branch_loop_spec:
  assumes "2 \<le> unat branching" "1 \<le> unat size0"
  shows "\<exists>h. unat span \<le> unat size0 * unat branching ^ h \<and>
    (\<forall>j<h. unat size0 * unat branching ^ j < unat span) \<and>
    branch_loop branching span size0 lvl =
      Some (if unat size0 * unat branching ^ h < 2 ^ 64 then Some (lvl + h) else None)"
  using assms(2)
proof (induction "unat span - unat size0" arbitrary: size0 lvl rule: less_induct)
  case less
  show ?case
  proof (cases "size0 < span")
    case False
    then have "unat span \<le> unat size0" by (simp add: word_less_nat_alt)
    with False show ?thesis
      by (intro exI [of _ 0]) (simp add: branch_loop.simps)
  next
    case True
    then have lt: "unat size0 < unat span" by (simp add: word_less_nat_alt)
    show ?thesis
    proof (cases "checked_mul size0 branching")
      case None
      then have over: "2 ^ 64 \<le> unat size0 * unat branching" by (simp add: checked_mul_None)
      then have "unat span \<le> unat size0 * unat branching"
        using u64_bound [of span] by (simp del: u64_bound u64_le_max)
      with True None lt over show ?thesis
        by (intro exI [of _ 1]) (simp add: branch_loop.simps [of branching span size0])
    next
      case (Some sz)
      then have sz: "unat sz = unat size0 * unat branching" by (simp add: checked_mul_Some)
      have grow: "unat size0 < unat sz" using assms(1) less.prems sz by simp
      then have "unat span - unat sz < unat span - unat size0" "1 \<le> unat sz" using lt by linarith+
      from less.hyps [OF this, of "lvl + 1"] obtain h where
        h: "unat span \<le> unat sz * unat branching ^ h" "\<forall>j<h. unat sz * unat branching ^ j < unat span"
        "branch_loop branching span sz (lvl + 1) =
           Some (if unat sz * unat branching ^ h < 2 ^ 64 then Some (lvl + 1 + h) else None)" by blast
      have "unat size0 * unat branching ^ j < unat span" if "j < Suc h" for j
        using h(2) lt that by (cases j) (simp_all add: sz mult.assoc)
      with h True Some show ?thesis
        by (intro exI [of _ "Suc h"])
          (simp add: branch_loop.simps [of branching span size0] sz mult.assoc)
    qed
  qed
qed

lemma reference_size_loop_spec:
  "unat size0 * unat branching ^ n < 2 ^ 64 \<Longrightarrow> 1 \<le> unat branching \<Longrightarrow>
     \<exists>r. reference_size_loop n branching size0 = Some r \<and> unat r = unat size0 * unat branching ^ n"
proof (induction n arbitrary: size0)
  case 0
  then show ?case by simp
next
  case (Suc n)
  have "unat size0 * unat branching * 1 \<le> unat size0 * unat branching * unat branching ^ n"
    using Suc.prems(2) by (intro mult_le_mono2) simp
  then have "unat size0 * unat branching \<le> unat size0 * unat branching ^ Suc n"
    by (simp add: mult.assoc)
  with Suc.prems(1) have "unat size0 * unat branching < 2 ^ 64" by linarith
  then obtain sz where sz: "checked_mul size0 branching = Some sz" "unat sz = unat size0 * unat branching"
    by (cases "checked_mul size0 branching") (auto simp: checked_mul_None checked_mul_Some)
  with Suc.IH [of sz] Suc.prems show ?case by (simp add: mult.assoc)
qed

lemma ceil_div:
  assumes "0 < (c :: nat)" "c < n" "n \<le> c * b"
  shows "2 \<le> (n + (c - 1)) div c" "(n + (c - 1)) div c \<le> b"
    "n \<le> c * ((n + (c - 1)) div c)" "c * ((n + (c - 1)) div c - 1) < n"
proof -
  let ?q = "(n + (c - 1)) div c"
  have q: "c * ?q \<le> n + (c - 1)" "n + (c - 1) < c * ?q + c"
    using assms(1) by (simp add: mult.commute)
      (metis assms(1) add.commute dividend_less_times_div)
  then show n: "n \<le> c * ?q" using assms(1) by linarith
  then have "c * 1 < c * ?q" using assms(2) by linarith
  then have "1 < ?q" by (simp only: mult_less_cancel1)
  then show "2 \<le> ?q" by linarith
  have "c * ?q < c * b + c" using q(1) assms by linarith
  then have "c * ?q < c * (b + 1)" by (simp only: distrib_left mult_1_right)
  then have "?q < b + 1" by (simp only: mult_less_cancel1)
  then show "?q \<le> b" by linarith
  have "c * (?q - 1) = c * ?q - c" by (simp add: right_diff_distrib')
  with q(1) assms(1,2) show "c * (?q - 1) < n" by linarith
qed

lemma reference_layout_spec:
  assumes "CHUNK_SIZE < unat span" "unat span < 2 ^ 57"
  shows "\<exists>layout h. reference_layout span level encrypted = Some (Some layout) \<and>
    unat (child_capacity layout) = CHUNK_SIZE * max_shards level encrypted ^ h \<and>
    unat (child_capacity layout) < unat span \<and>
    unat span \<le> unat (child_capacity layout) * max_shards level encrypted \<and>
    data_shards layout = (unat span + (unat (child_capacity layout) - 1)) div unat (child_capacity layout) \<and>
    parity_shards layout = parities level (data_shards layout) encrypted"
proof -
  define b where "b = max_shards level encrypted"
  define bw :: u64 where "bw = word_of_nat b"
  note bb = max_shards_bounds [of level encrypted, folded b_def]
  then have ub: "unat bw = b" by (simp add: bw_def unat_of_nat)
  have c0: "unat (word_of_nat CHUNK_SIZE :: u64) = 4096" by (simp add: sizes)
  from branch_loop_spec [of bw "word_of_nat CHUNK_SIZE" span 1] ub bb c0 obtain h where
    h: "unat span \<le> 4096 * b ^ h" "\<forall>j<h. 4096 * b ^ j < unat span"
    "branch_loop bw span (word_of_nat CHUNK_SIZE) 1 = Some (if 4096 * b ^ h < 2 ^ 64 then Some (1 + h) else None)"
    by auto
  have "h \<le> tall level encrypted"
    using h(2) tall_bounds(1) [of level encrypted, folded b_def] assms(2)
    by (meson not_le_imp_less order.strict_trans order.asym order.strict_trans2)
  then have "b ^ h \<le> b ^ tall level encrypted" using bb by (intro power_increasing) auto
  then have fit: "4096 * b ^ h < 2 ^ 64" using tall_bounds(2) [of level encrypted, folded b_def] by linarith
  have "h \<noteq> 0" using h(1) assms(1) by (cases h) (auto simp: sizes)
  then obtain g where g: "h = Suc g" by (cases h) auto
  have cap: "4096 * b ^ g < unat span" using h(2) g by simp
  then have "4096 * b ^ g < 2 ^ 64" using u64_bound [of span] by (simp del: u64_bound)
  then obtain r where r: "reference_size_loop g bw (word_of_nat CHUNK_SIZE) = Some r" "unat r = 4096 * b ^ g"
    using reference_size_loop_spec [of "word_of_nat CHUNK_SIZE" bw g] c0 ub bb by auto
  have r0: "0 < unat r" using r(2) bb by simp
  then have "unat (r - 1) = unat r - 1" by (simp add: unat_minus_one word_gt_0_no unat_gt_0)
  with r cap assms(2) obtain q where q: "checked_add span (r - 1) = Some q" "unat q = unat span + (unat r - 1)"
    by (cases "checked_add span (r - 1)") (auto simp: checked_add_Some checked_add_None)
  have "unat (q div r) = (unat span + (unat r - 1)) div unat r" by (simp add: unat_div q)
  with h(3) fit g r(1) q(1) bb assms(1)
  have "reference_layout span level encrypted = Some (Some
      \<lparr>data_shards = (unat span + (unat r - 1)) div unat r,
       parity_shards = parities level ((unat span + (unat r - 1)) div unat r) encrypted,
       child_capacity = r\<rparr>)"
    by (simp add: reference_layout_def b_def [symmetric] bw_def [symmetric] Let_def sizes)
  then show ?thesis
    using r(2) cap h(1) g by (intro exI conjI) (auto simp: sizes b_def mult.assoc mult.commute)
qed

section \<open>Facts about spans and reference lists\<close>

lemma from_u8_as_u8 [simp]: "from_u8 (as_u8 level) = Some level"
  by (cases level) simp_all

lemma as_u8_bounds: "level \<noteq> Level_None \<Longrightarrow> 1 \<le> unat (as_u8 level) \<and> unat (as_u8 level) \<le> 4"
  by (cases level) simp_all

lemma level_byte:
  assumes "level \<noteq> Level_None"
  shows "0x80 < 0x80 OR as_u8 level" "(0x80 OR as_u8 level) AND 0x7f = as_u8 level"
  using assms by (cases level; simp)+

lemma high_level_refused:
  assumes "0x84 < (hi :: u8)"
  shows "from_u8 (hi AND 0x7f) = None"
proof -
  have "unat (hi AND 0x7f) = unat hi mod 128"
  proof -
    have "hi AND 0x7f = take_bit 7 hi" by (simp add: take_bit_eq_mask mask_eq_exp_minus_1)
    then show ?thesis by (simp add: unsigned_take_bit_eq) (simp add: take_bit_eq_mod)
  qed
  moreover have "0x84 < unat hi" "unat hi < 256" using assms by (simp_all add: word_less_nat_alt)
  ultimately have "unat (hi AND 0x7f) = unat hi - 128" by (simp add: le_mod_geq)
  with \<open>0x84 < unat hi\<close> have "4 < unat (hi AND 0x7f)" by linarith
  then show ?thesis by (auto split: if_splits)
qed

lemma le_bytes_top:
  assumes "unat v < 2 ^ 56"
  shows "to_le_bytes v ! 7 = 0"
proof (rule bit_eqI)
  fix k assume "possible_bit TYPE(8 word) k"
  have "\<not> bit v (56 + k)"
  proof -
    have "(2 :: nat) ^ 56 \<le> 2 ^ (56 + k)" by (rule power_increasing) auto
    with assms have "unat v div 2 ^ (56 + k) = 0" by (intro div_less) linarith
    then have "\<not> bit (unat v) (56 + k)" by (simp add: bit_iff_odd)
    then show ?thesis by (simp add: bit_unsigned_iff)
  qed
  then show "bit (to_le_bytes v ! 7) k \<longleftrightarrow> bit (0 :: u8) k"
    by (simp add: to_le_bytes_def le_bytes_nth bit_ucast_iff bit_drop_bit_eq del: le_bytes.simps)
qed

lemma length_concat_const: "\<forall>x \<in> set xs. length x = m \<Longrightarrow> length (concat xs) = length xs * m"
  by (induction xs) auto

lemma chunks_exact_take_drop:
  assumes "\<forall>x \<in> set xs. length x = m" "\<forall>y \<in> set ys. length y = n" "0 < m" "0 < n"
    and "k = length xs * m"
  shows "chunks_exact m (take k (concat xs @ concat ys)) = xs \<and>
    chunks_exact n (drop k (concat xs @ concat ys)) = ys"
proof -
  have "length (concat xs) = k"
    using assms(1,5) by (simp add: length_concat_const)
  with assms show ?thesis by (simp add: chunks_exact_concat)
qed

lemma payload_len_Some:
  "payload_len data parity encrypted = Some n \<longleftrightarrow>
     n = data * data_reference_size encrypted + parity * HASH_SIZE \<and> n < usize_bound"
proof -
  have "data * data_reference_size encrypted \<le> n" "parity * HASH_SIZE \<le> n"
    if "n = data * data_reference_size encrypted + parity * HASH_SIZE" using that by simp_all
  then show ?thesis
    by (auto simp: payload_len_def usize_checked_mul_def usize_checked_add_def)
qed

lemma split_references_alt:
  assumes "reference_count span level encrypted = Some (Some (d, p))"
  shows "split_references payload span level encrypted = Some
    (if payload_len d p encrypted = Some (length payload)
     then Some (chunks_exact (data_reference_size encrypted) (take (d * data_reference_size encrypted) payload),
                chunks_exact HASH_SIZE (drop (d * data_reference_size encrypted) payload))
     else None)"
  by (auto simp: split_references_def assms payload_len_def usize_checked_mul_def usize_checked_add_def)

section \<open>Facts about the replica mining\<close>

text \<open>The neighbourhoods of depth \<open>d\<close> that are taken, by their prefix.\<close>

definition nb :: "nat \<Rightarrow> replica_state \<Rightarrow> nat set" where
  "nb d st = (if d = 0 then {} else {i. i < 2 ^ d \<and> existing_neighborhoods st ! (2 ^ d - 2 + i)})"

definition slots_before :: "nat \<Rightarrow> nat" where
  "slots_before d = (if d = 1 then 0 else 2 ^ (d - 1))"

text \<open>
  Per depth, the next free slot counts the neighbourhoods whose parent was already taken, and the
  taken neighbourhoods of the depth above are exactly their parents.
\<close>

definition replica_inv :: "nat \<Rightarrow> replica_state \<Rightarrow> bool" where
  "replica_inv d st \<longleftrightarrow>
     length (queue st) = 16 \<and> length (existing_neighborhoods st) = 30 \<and> length (rsizes st) = 5 \<and>
     (\<forall>e. 1 \<le> e \<and> e \<le> d \<longrightarrow> rsizes st ! (e - 1) + card (nb (e - 1) st) = slots_before e + card (nb e st)) \<and>
     (\<forall>e. 2 \<le> e \<and> e \<le> d \<longrightarrow> nb (e - 1) st = (\<lambda>i. i div 2) ` nb e st)"

lemma finite_nb [simp]: "finite (nb d st)"
  by (simp add: nb_def)

lemma card_nb: "card (nb d st) \<le> 2 ^ d"
proof -
  have "nb d st \<subseteq> {..<2 ^ d}" by (auto simp: nb_def split: if_splits)
  then have "card (nb d st) \<le> card {..<(2 :: nat) ^ d}" by (intro card_mono) auto
  then show ?thesis by simp
qed

lemma card_children: "card (A :: nat set) \<le> 2 * card ((\<lambda>i. i div 2) ` A)" if "finite A"
proof -
  let ?P = "(\<lambda>i. i div 2) ` A"
  have "A \<subseteq> (\<lambda>i. 2 * i) ` ?P \<union> (\<lambda>i. 2 * i + 1) ` ?P"
  proof
    fix x assume "x \<in> A"
    then have "x div 2 \<in> ?P" by blast
    moreover have "x = 2 * (x div 2) \<or> x = 2 * (x div 2) + 1" by linarith
    ultimately show "x \<in> (\<lambda>i. 2 * i) ` ?P \<union> (\<lambda>i. 2 * i + 1) ` ?P" by blast
  qed
  then have "card A \<le> card ((\<lambda>i. 2 * i) ` ?P \<union> (\<lambda>i. 2 * i + 1) ` ?P)"
    using that by (intro card_mono) auto
  also have "\<dots> \<le> card ((\<lambda>i. 2 * i) ` ?P) + card ((\<lambda>i. 2 * i + 1) ` ?P)" by (rule card_Un_le)
  also have "\<dots> \<le> card ?P + card ?P" using that by (intro add_mono card_image_le) auto
  finally show ?thesis by simp
qed

lemma depth_cases: "d < (4 :: nat) \<Longrightarrow> d = 0 \<or> d = 1 \<or> d = 2 \<or> d = 3"
  by arith

lemma base_index: "d < 4 \<Longrightarrow> [0, 2, 6, 14] ! d = (2 :: nat) ^ Suc d - 2"
  by (auto dest: depth_cases)

lemma count_index: "d < 4 \<Longrightarrow> [0, 2, 4, 8, 16] ! Suc d = (2 :: nat) ^ Suc d"
  by (auto dest: depth_cases)

text \<open>The index ranges of the depths do not overlap.\<close>

lemma depth_ranges:
  assumes "d \<le> 4" "e \<le> 4" "1 \<le> d" "1 \<le> e" "i < 2 ^ d" "j < 2 ^ e" "2 ^ d - 2 + i = (2 :: nat) ^ e - 2 + j"
  shows "d = e"
proof -
  have "False" if "x \<le> 4" "1 \<le> y" "y < x" "j' < 2 ^ y" "2 ^ x - 2 + i' = (2 :: nat) ^ y - 2 + j'" for x y i' j' :: nat
  proof -
    have "(2 :: nat) ^ Suc y \<le> 2 ^ x" using that by (intro power_increasing) auto
    moreover have "(2 :: nat) \<le> 2 ^ y" using that power_increasing [of 1 y "2 :: nat"] by simp
    ultimately show False using that by simp
  qed
  from this [of d e j i] this [of e d i j] assms show ?thesis
    by (metis nat_neq_iff)
qed

lemma nb_mark:
  assumes "1 \<le> d" "d \<le> 4" "a < 2 ^ d" "length (existing_neighborhoods st) = 30" "1 \<le> e" "e \<le> 4"
  shows "nb e (st\<lparr>existing_neighborhoods := (existing_neighborhoods st)[2 ^ d - 2 + a := True]\<rparr>) =
    (if e = d then insert a (nb e st) else nb e st)"
proof -
  have "(2 :: nat) ^ d \<le> 2 ^ 4" using assms(2) by (intro power_increasing) auto
  then have "2 ^ d - 2 + a < 30" using assms(3) by simp
  then show ?thesis
    using assms depth_ranges [of e d _ a] by (auto simp: nb_def nth_list_update)
qed

lemma shifted: "unat (drop_bit n (w :: u8)) = unat w div 2 ^ n"
  by (simp add: unsigned_drop_bit_eq take_bit_nat_eq_self) (simp add: drop_bit_eq_div)

lemma prefix_lt: "d \<le> 8 \<Longrightarrow> unat (w :: u8) div 2 ^ (8 - d) < 2 ^ d"
  using u8_bound [of w] by (simp add: less_mult_imp_div_less power_add [symmetric])

lemma prefix_parent: "d < 8 \<Longrightarrow> (n :: nat) div 2 ^ (8 - Suc d) div 2 = n div 2 ^ (8 - d)"
  by (simp add: div_mult2_eq [symmetric] Suc_diff_Suc [symmetric] mult.commute)

lemma nb_cong:
  "existing_neighborhoods st' = existing_neighborhoods st \<Longrightarrow> nb d st' = nb d st"
  by (simp add: nb_def)

lemma replica_inv_mark:
  assumes "replica_inv d st" "d < 4" "a < 2 ^ Suc d"
  shows "replica_inv d (st\<lparr>existing_neighborhoods := (existing_neighborhoods st)[2 ^ Suc d - 2 + a := True]\<rparr>)"
proof -
  let ?st = "st\<lparr>existing_neighborhoods := (existing_neighborhoods st)[2 ^ Suc d - 2 + a := True]\<rparr>"
  have l: "length (existing_neighborhoods st) = 30" using assms(1) by (simp add: replica_inv_def)
  have same: "nb e ?st = nb e st" if "e \<le> d" for e
    using nb_mark [of "Suc d" a st e] assms(2,3) l that by (cases "e = 0") (auto simp: nb_def)
  have "nb e ?st = nb e st \<and> nb (e - 1) ?st = nb (e - 1) st" if "e \<le> d" for e
    using same that by simp
  with assms(1) show ?thesis unfolding replica_inv_def by simp
qed

text \<open>Everything \<open>add_replica\<close> does to the state, by depth.\<close>

definition replica_step :: "nat \<Rightarrow> Replica \<Rightarrow> replica_state \<Rightarrow> nat \<Rightarrow> replica_state \<Rightarrow> bool" where
  "replica_step d cand st covered st' \<longleftrightarrow>
     (let a = unat (replica_address cand ! 0) div 2 ^ (8 - d)
      in replica_inv d st' \<and> nb d st' = (if d = 0 then {} else insert a (nb d st)) \<and>
         (covered = 0 \<longleftrightarrow> d = 0 \<or> a \<in> nb d st) \<and>
         (\<forall>e. d < e \<and> e \<le> 4 \<longrightarrow> nb e st' = nb e st) \<and>
         (\<forall>e\<ge>d. rsizes st' ! e = rsizes st ! e) \<and>
         (\<forall>i\<ge>2 ^ d. queue st' ! i = queue st ! i) \<and>
         (\<forall>i. queue st' ! i = queue st ! i \<or> queue st' ! i = Some cand))"

text \<open>One level up: the neighbourhood is new, and the slot it takes is within the level.\<close>

lemma replica_deeper:
  assumes inv: "replica_inv (Suc d) st" and d: "d < 4" and a: "a \<notin> nb (Suc d) st"
    and a_def: "a = unat (replica_address cand ! 0) div 2 ^ (8 - Suc d)"
    and nb1: "\<And>e. e \<le> 4 \<Longrightarrow> nb e st1 = (if e = Suc d then insert a (nb e st) else nb e st)"
    and frame: "rsizes st1 = rsizes st" "queue st1 = queue st"
    and step: "replica_step d cand st1 covered st'"
  shows "if covered = 0
    then rsizes st' ! d < length (queue st') \<and>
      replica_step (Suc d) cand st (2 ^ Suc d)
        (st'\<lparr>rsizes := (rsizes st')[d := rsizes st' ! d + 1], queue := (queue st')[rsizes st' ! d := Some cand]\<rparr>)
    else replica_step (Suc d) cand st covered st'"
proof -
  have parent: "a div 2 = unat (replica_address cand ! 0) div 2 ^ (8 - d)"
    unfolding a_def using d by (intro prefix_parent) simp
  note st = step [unfolded replica_step_def Let_def parent [symmetric] frame]
  have inv': "replica_inv d st'" using st by (elim conjE)
  have sizes': "\<forall>e\<ge>d. rsizes st' ! e = rsizes st ! e" using st by (elim conjE)
  have q': "\<forall>i\<ge>2 ^ d. queue st' ! i = queue st ! i" using st by (elim conjE)
  have qc: "\<forall>i. queue st' ! i = queue st ! i \<or> queue st' ! i = Some cand" using st by (elim conjE)
  have nbd: "nb d st' = (if d = 0 then {} else insert (a div 2) (nb d st))"
    using st nb1 [of d] d by (elim conjE) simp
  have cov: "covered = 0 \<longleftrightarrow> d = 0 \<or> a div 2 \<in> nb d st"
    using st nb1 [of d] d by (elim conjE) simp
  have above: "nb e st' = (if e = Suc d then insert a (nb e st) else nb e st)" if "d < e" "e \<le> 4" for e
    using st nb1 [OF that(2)] that by (elim conjE) metis
  have nbS: "nb (Suc d) st' = insert a (nb (Suc d) st)" using above [of "Suc d"] d by simp
  have old: "rsizes st ! d + card (nb d st) = slots_before (Suc d) + card (nb (Suc d) st)"
  proof -
    have "\<forall>e. 1 \<le> e \<and> e \<le> Suc d \<longrightarrow>
        rsizes st ! (e - 1) + card (nb (e - 1) st) = slots_before e + card (nb e st)"
      using inv unfolding replica_inv_def by (elim conjE)
    from spec [OF this, of "Suc d"] show ?thesis by simp
  qed
  have par_old: "nb d st = (\<lambda>i. i div 2) ` nb (Suc d) st" if "0 < d"
  proof -
    have "\<forall>e. 2 \<le> e \<and> e \<le> Suc d \<longrightarrow> nb (e - 1) st = (\<lambda>i. i div 2) ` nb e st"
      using inv unfolding replica_inv_def by (elim conjE)
    from spec [OF this, of "Suc d"] that show ?thesis by simp
  qed
  have par_new: "nb d st' = (\<lambda>i. i div 2) ` nb (Suc d) st'" if "0 < d"
    using par_old that by (simp add: nbd nbS)
  have grown: "card (nb (Suc d) st') = card (nb (Suc d) st) + 1" using a by (simp add: nbS)
  have inv_up: "replica_inv (Suc d) st''"
    if "existing_neighborhoods st'' = existing_neighborhoods st'" "length (queue st'') = length (queue st')"
      "length (rsizes st'') = length (rsizes st')" "\<And>e. e < d \<Longrightarrow> rsizes st'' ! e = rsizes st' ! e"
      "rsizes st'' ! d + card (nb d st') = slots_before (Suc d) + card (nb (Suc d) st')" for st''
  proof -
    have "rsizes st'' ! (e - 1) + card (nb (e - 1) st'') = slots_before e + card (nb e st'')"
      if "1 \<le> e" "e \<le> Suc d" for e
      using that \<open>rsizes st'' ! d + _ = _\<close> inv' nb_cong [OF \<open>existing_neighborhoods st'' = _\<close>]
        \<open>\<And>e. e < d \<Longrightarrow> _\<close> [of "e - 1"]
      by (cases "e = Suc d") (auto simp: replica_inv_def)
    moreover have "nb (e - 1) st'' = (\<lambda>i. i div 2) ` nb e st''" if "2 \<le> e" "e \<le> Suc d" for e
      using that inv' par_new nb_cong [OF \<open>existing_neighborhoods st'' = _\<close>]
      by (cases "e = Suc d") (auto simp: replica_inv_def)
    ultimately show ?thesis using that inv' by (simp add: replica_inv_def)
  qed
  show ?thesis
  proof (cases "covered = 0")
    case False
    then have "card (nb d st') = card (nb d st) + 1" using cov nbd by simp
    then have "replica_inv (Suc d) st'" using inv_up [of st'] old grown sizes' by simp
    then show ?thesis
      using False above nbS a sizes' q' qc
      unfolding replica_step_def Let_def a_def [symmetric] by simp
  next
    case True
    then have same: "card (nb d st') = card (nb d st)" using cov nbd by (auto simp: insert_absorb nb_def)
    let ?off = "rsizes st' ! d"
    have off: "?off + 1 + card (nb d st') = slots_before (Suc d) + card (nb (Suc d) st')"
      using old same grown sizes' by simp
    have bound: "?off < 2 ^ Suc d"
    proof (cases "d = 0")
      case True
      then show ?thesis using off card_nb [of "Suc d" st'] by (simp add: slots_before_def nb_def)
    next
      case False
      then have "card (nb (Suc d) st') \<le> 2 * card (nb d st')"
        using card_children [of "nb (Suc d) st'"] par_new by simp
      with off False card_nb [of d st'] show ?thesis by (simp add: slots_before_def)
    qed
    moreover have "(2 :: nat) ^ Suc d \<le> 2 ^ 4" using d by (intro power_increasing) auto
    ultimately have off16: "?off < length (queue st')" using inv' by (simp add: replica_inv_def)
    let ?st = "st'\<lparr>rsizes := (rsizes st')[d := ?off + 1], queue := (queue st')[?off := Some cand]\<rparr>"
    have "length (rsizes st') = 5" using inv' by (simp add: replica_inv_def)
    then have "replica_inv (Suc d) ?st" using inv_up [of ?st] off d by simp
    then show ?thesis
      using True off16 bound above nbS a sizes' q' qc nb_cong [of ?st st']
      unfolding replica_step_def Let_def a_def [symmetric] by (simp add: nth_list_update)
  qed
qed

lemma add_replica_spec:
  "d \<le> 4 \<Longrightarrow> replica_inv d st \<Longrightarrow>
     \<exists>covered off st'. add_replica cand d st = Some ((covered, off), st') \<and> replica_step d cand st covered st'"
proof (induction d arbitrary: st)
  case 0
  then show ?case by (simp add: replica_step_def nb_def)
next
  case (Suc d)
  let ?a = "unat (replica_address cand ! 0) div 2 ^ (8 - Suc d)"
  let ?n = "2 ^ Suc d - 2 + ?a"
  let ?st1 = "st\<lparr>existing_neighborhoods := (existing_neighborhoods st)[?n := True]\<rparr>"
  have d: "d < 4" using Suc.prems(1) by simp
  have len: "length (existing_neighborhoods st) = 30" using Suc.prems(2) by (simp add: replica_inv_def)
  have a: "?a < 2 ^ Suc d" using d by (intro prefix_lt) simp
  have "(2 :: nat) ^ Suc d \<le> 2 ^ 4" using d by (intro power_increasing) auto
  with a have n: "?n < 30" by simp
  have idx: "[0, 2, 6, 14] ! d + unat (drop_bit (8 - Suc d) (replica_address cand ! 0)) = ?n"
    using d by (simp add: base_index shifted del: power_Suc)
  have taken: "existing_neighborhoods st ! ?n \<longleftrightarrow> ?a \<in> nb (Suc d) st" using a by (simp add: nb_def)
  have inv_d: "replica_inv d st" using Suc.prems(2) by (auto simp: replica_inv_def)
  show ?case
  proof (cases "?a \<in> nb (Suc d) st")
    case True
    then have "add_replica cand (Suc d) st = Some ((0, 0), st)"
      using taken n len unfolding add_replica.simps Let_def idx by (simp del: power_Suc)
    moreover have "replica_step (Suc d) cand st 0 st"
      using True Suc.prems(2) by (auto simp: replica_step_def Let_def)
    ultimately show ?thesis by blast
  next
    case False
    from Suc.IH [OF _ replica_inv_mark [OF inv_d d a]] d obtain covered off st' where
      r: "add_replica cand d ?st1 = Some ((covered, off), st')" and step: "replica_step d cand ?st1 covered st'"
      by auto
    have unfold: "add_replica cand (Suc d) st =
        (if covered = 0 then
           let off = rsizes st' ! d in
           if \<not> off < length (queue st') then None
           else Some ((2 ^ Suc d, off), st'\<lparr>rsizes := (rsizes st')[d := off + 1], queue := (queue st')[off := Some cand]\<rparr>)
         else Some ((covered, off), st'))"
      using False taken n len r count_index [OF d]
      unfolding add_replica.simps Let_def idx by (simp del: power_Suc)
    have "nb e ?st1 = (if e = Suc d then insert ?a (nb e st) else nb e st)" if "e \<le> 4" for e
      using nb_mark [of "Suc d" ?a st e] d a len that by (cases "e = 0") (auto simp: nb_def)
    from replica_deeper [OF Suc.prems(2) d False refl this _ _ step]
    show ?thesis unfolding unfold Let_def by (cases "covered = 0") (simp_all del: power_Suc)
  qed
qed

text \<open>From the initial state every call succeeds and fills only slots below the level's count.\<close>

lemma replica_start_inv: "replica_inv d replica_start \<and> d \<le> 4" if "d \<le> 4"
proof -
  have nb0: "nb e replica_start = {}" if "e \<le> 4" for e
  proof -
    have "(2 :: nat) ^ e \<le> 2 ^ 4" using that by (intro power_increasing) auto
    then show ?thesis by (auto simp: nb_def replica_start_def)
  qed
  have "rsizes replica_start ! (e - 1) = slots_before e" if "1 \<le> e" "e \<le> 4" for e
  proof -
    have "e = 1 \<or> e = 2 \<or> e = 3 \<or> e = 4" using that by arith
    then show ?thesis by (auto simp: replica_start_def slots_before_def)
  qed
  moreover have "length (queue replica_start) = 16" "length (existing_neighborhoods replica_start) = 30"
    "length (rsizes replica_start) = 5" by (simp_all add: replica_start_def)
  moreover have "rsizes replica_start ! (e - 1) + card (nb (e - 1) replica_start) =
      slots_before e + card (nb e replica_start)" if "1 \<le> e \<and> e \<le> d" for e
  proof -
    have "e - 1 \<le> 4" "e \<le> 4" "1 \<le> e" using that \<open>d \<le> 4\<close> by linarith+
    then show ?thesis using nb0 calculation(1) [of e] by simp
  qed
  moreover have "nb (e - 1) replica_start = (\<lambda>i. i div 2) ` nb e replica_start" if "2 \<le> e \<and> e \<le> d" for e
  proof -
    have "e - 1 \<le> 4" "e \<le> 4" using that \<open>d \<le> 4\<close> by linarith+
    then show ?thesis using nb0 by simp
  qed
  ultimately show ?thesis using that unfolding replica_inv_def by blast
qed

lemma filled_prefix_spec:
  "length (filled_prefix xs) \<le> length xs"
  "x \<in> set (filled_prefix xs) \<Longrightarrow> Some x \<in> set xs"
  "(\<forall>i. n \<le> i \<and> i < length xs \<longrightarrow> xs ! i = None) \<Longrightarrow> length (filled_prefix xs) \<le> n"
proof -
  show "length (filled_prefix xs) \<le> length xs" by (induction xs rule: filled_prefix.induct) auto
  show "x \<in> set (filled_prefix xs) \<Longrightarrow> Some x \<in> set xs" by (induction xs rule: filled_prefix.induct) auto
  show "(\<forall>i. n \<le> i \<and> i < length xs \<longrightarrow> xs ! i = None) \<Longrightarrow> length (filled_prefix xs) \<le> n"
  proof (induction xs arbitrary: n rule: filled_prefix.induct)
    case (1 x rest)
    show ?case
    proof (cases n)
      case 0
      with "1.prems" have "(Some x # rest) ! 0 = None" by blast
      then show ?thesis by simp
    next
      case (Suc m)
      have "\<forall>i. m \<le> i \<and> i < length rest \<longrightarrow> rest ! i = None"
        using "1.prems" Suc by (metis Suc_le_mono Suc_less_eq length_Cons nth_Cons_Suc)
      with "1.IH" [of m] Suc show ?thesis by simp
    qed
  qed simp_all
qed

lemma replica_count_power: "level \<noteq> Level_None \<Longrightarrow> replica_count level = 2 ^ unat (as_u8 level)"
  by (cases level) simp_all

text \<open>The state of the mining loop: what is queued was made from the root, within the level.\<close>

definition mined :: "(bytes \<Rightarrow> bytes) \<Rightarrow> bytes \<Rightarrow> nat \<Rightarrow> replica_state \<Rightarrow> bool" where
  "mined address_for_id root d st \<longleftrightarrow>
     replica_inv d st \<and> (\<forall>i. 2 ^ d \<le> i \<and> i < 16 \<longrightarrow> queue st ! i = None) \<and>
     (\<forall>r. Some r \<in> set (queue st) \<longrightarrow>
        (\<exists>b. replica_id r = root[0 := b]) \<and> replica_address r = address_for_id (replica_id r))"

lemma mined_step:
  assumes "mined address_for_id root d st" "d \<le> 4" "replica_step d cand st covered st'"
    and "\<exists>b. replica_id cand = root[0 := b]" "replica_address cand = address_for_id (replica_id cand)"
  shows "mined address_for_id root d st'"
proof -
  from assms(3) have inv: "replica_inv d st'" and hi: "\<And>i. 2 ^ d \<le> i \<Longrightarrow> queue st' ! i = queue st ! i"
    and q: "\<And>i. queue st' ! i = queue st ! i \<or> queue st' ! i = Some cand"
    unfolding replica_step_def Let_def by blast+
  have len: "length (queue st') = 16" "length (queue st) = 16"
    using inv assms(1) by (simp_all add: replica_inv_def mined_def)
  have "Some r \<in> set (queue st) \<or> r = cand" if r: "Some r \<in> set (queue st')" for r
  proof -
    from r obtain i where i: "i < 16" "queue st' ! i = Some r" using len by (auto simp: in_set_conv_nth)
    with q [of i] len show ?thesis by (metis nth_mem option.inject)
  qed
  with assms inv hi show ?thesis unfolding mined_def by metis
qed

lemma replica_loop_spec:
  assumes "level \<noteq> Level_None"
  shows "mined address_for_id root (unat (as_u8 level)) st \<Longrightarrow> length acc = emitted \<Longrightarrow>
    emitted \<le> replica_count level \<Longrightarrow> \<forall>r \<in> set acc. P r \<Longrightarrow>
    (\<And>r b. replica_id r = root[0 := b] \<Longrightarrow> replica_address r = address_for_id (replica_id r) \<Longrightarrow> P r) \<Longrightarrow>
    \<exists>out. replica_loop address_for_id root level idx emitted acc st = Some out \<and>
      length out \<le> replica_count level \<and> (\<forall>r \<in> set out. P r)"
proof (induction idx arbitrary: emitted acc st)
  case Nil
  then show ?case by simp
next
  case (Cons b idx)
  define d where "d = unat (as_u8 level)"
  have d4: "d \<le> 4" using as_u8_bounds [OF assms] by (simp add: d_def)
  have target: "replica_count level = 2 ^ d" using replica_count_power [OF assms] by (simp add: d_def)
  let ?id = "root[0 := word_of_nat b]"
  let ?cand = "\<lparr>replica_id = ?id, replica_address = address_for_id ?id\<rparr>"
  have m: "mined address_for_id root d st" using Cons.prems(1) by (simp add: d_def)
  then have "replica_inv d st" by (simp add: mined_def)
  from add_replica_spec [OF d4 this, of ?cand] obtain covered off st' where
    r: "add_replica ?cand d st = Some ((covered, off), st')" and step: "replica_step d ?cand st covered st'"
    by blast
  have m': "mined address_for_id root d st'" using mined_step [OF m d4 step] by auto
  let ?found = "filled_prefix (drop emitted (queue st'))"
  have q16: "length (queue st') = 16" using m' by (simp add: mined_def replica_inv_def)
  have "drop emitted (queue st') ! i = None" if "2 ^ d - emitted \<le> i" "i < length (drop emitted (queue st'))" for i
  proof -
    have "2 ^ d \<le> emitted + i" "emitted + i < 16" using that q16 by simp_all
    then show ?thesis using m' q16 unfolding mined_def by simp
  qed
  then have "length ?found \<le> 2 ^ d - emitted" by (intro filled_prefix_spec(3)) blast
  then have e: "emitted + length ?found \<le> replica_count level" using Cons.prems(3) target by simp
  have "P r" if "r \<in> set ?found" for r
  proof -
    have "Some r \<in> set (queue st')" using filled_prefix_spec(2) [OF that] by (rule in_set_dropD)
    then show ?thesis using m' Cons.prems(5) unfolding mined_def by metis
  qed
  then have out: "\<forall>r \<in> set (acc @ ?found). P r" using Cons.prems(4) by auto
  show ?case
    using Cons.prems Cons.IH [OF m' [unfolded d_def] Cons.prems(2-4)]
      Cons.IH [OF m' [unfolded d_def] _ e out] r
    by (auto simp: Let_def d_def)
qed

section \<open>Properties\<close>



text \<open>
  Splitting inverts the concatenation of references and accepts nothing else: when the
  layout of the span has \<open>d\<close> data and \<open>p\<close> parity references, a payload splits into
  \<open>(data, parity)\<close> exactly when it is the concatenation of \<open>d\<close> references of the data size
  and \<open>p\<close> of the hash size; a payload of any other length is refused.
\<close>

theorem split_references_iff:
  assumes "reference_count span level encrypted = Some (Some (d, p))"
    and "d * data_reference_size encrypted + p * HASH_SIZE < usize_bound"
  shows "split_references payload span level encrypted = Some (Some (data, parity)) \<longleftrightarrow>
    payload = concat data @ concat parity \<and> length data = d \<and> length parity = p \<and>
    (\<forall>x \<in> set data. length x = data_reference_size encrypted) \<and> (\<forall>x \<in> set parity. length x = HASH_SIZE)"
    (is "?L \<longleftrightarrow> ?R")
proof
  let ?m = "data_reference_size encrypted"
  have pos: "0 < ?m" "0 < HASH_SIZE" by (simp_all add: data_reference_size_def sizes)
  assume ?L
  then have len: "length payload = d * ?m + p * HASH_SIZE"
    and data: "data = chunks_exact ?m (take (d * ?m) payload)"
    and parity: "parity = chunks_exact HASH_SIZE (drop (d * ?m) payload)"
    using assms by (auto simp: split_references_alt payload_len_Some split: if_splits)
  have "concat data = take (d * ?m) payload" "concat parity = drop (d * ?m) payload"
    using pos len unfolding data parity by (simp_all add: concat_chunks_exact)
  moreover have "length data = d" "length parity = p"
    using pos len unfolding data parity by (simp_all add: length_chunks_exact)
  ultimately show ?R using chunks_exact_lengths unfolding data parity by auto
next
  assume R: ?R
  then have "length (concat data) = d * data_reference_size encrypted"
    "length (concat parity) = p * HASH_SIZE"
    using length_concat_const [of data "data_reference_size encrypted"]
      length_concat_const [of parity HASH_SIZE] by auto
  with R assms chunks_exact_take_drop [of data "data_reference_size encrypted" parity HASH_SIZE]
  show ?L
    by (auto simp: split_references_alt payload_len_Some data_reference_size_def sizes)
qed

theorem split_references_iff_witness:
  "reference_count 5000 Level_None False = Some (Some (2, 0)) \<and>
   split_references (replicate 32 1 @ replicate 32 2) 5000 Level_None False =
     Some (Some ([replicate 32 1, replicate 32 2], []))"
proof -
  have c: "reference_count 5000 Level_None False = Some (Some (2, 0))"
    by (simp add: reference_count_def reference_layout_def sizes max_shards_value parities_def
        branch_loop.simps checked_mul_def checked_add_def)
  then show ?thesis
    using split_references_iff [OF c, of "replicate 32 1 @ replicate 32 2" "[replicate 32 1, replicate 32 2]" "[]"]
    by (simp add: data_reference_size_def sizes usize_bound_def)
qed

text \<open>
  The span prefix round-trips: a plain span below \<open>2 ^ 56\<close> decodes to itself with no
  redundancy, and with the level or-ed into its top byte it decodes to that level and the same
  span; bytes after the first eight are ignored, a top byte above \<open>0x84\<close> and a prefix shorter
  than eight bytes are refused.
\<close>

theorem decode_span_roundtrip:
  assumes "unat v < 2 ^ 56"
  shows "decode_span (to_le_bytes v @ rest) = Some (Level_None, v) \<and>
    (level \<noteq> Level_None \<longrightarrow>
       decode_span ((to_le_bytes v)[7 := 0x80 OR as_u8 level] @ rest) = Some (level, v)) \<and>
    (0x84 < hi \<longrightarrow> decode_span ((to_le_bytes v)[7 := hi] @ rest) = None) \<and>
    (length short < 8 \<longrightarrow> decode_span short = None)"
proof (intro conjI impI)
  note zero = le_bytes_top [OF assms]
  have same: "(to_le_bytes v)[7 := 0] = to_le_bytes v" using zero by (metis list_update_id)
  show "decode_span (to_le_bytes v @ rest) = Some (Level_None, v)"
    by (simp add: decode_span_def sizes zero nth_append)
  show "decode_span ((to_le_bytes v)[7 := 0x80 OR as_u8 level] @ rest) = Some (level, v)"
    if "level \<noteq> Level_None"
    using level_byte [OF that] same
    by (simp add: decode_span_def sizes nth_append del: from_u8.simps)
  show "decode_span ((to_le_bytes v)[7 := hi] @ rest) = None" if top84: "0x84 < hi"
  proof -
    have "0x80 < hi" using top84 by (simp add: word_less_nat_alt)
    moreover have "from_u8 (hi AND 0x7f) = None" using top84 by (rule high_level_refused)
    ultimately show ?thesis
      by (simp add: decode_span_def sizes nth_append del: from_u8.simps)
  qed
  show "decode_span short = None" if "length short < 8" using that by (simp add: decode_span_def sizes)
qed

theorem decode_span_roundtrip_witness:
  "decode_span ((to_le_bytes 5000)[7 := 0x80 OR as_u8 Strong] @ [1]) = Some (Strong, 5000)"
  using decode_span_roundtrip [of 5000 "[1]" Strong] by simp

lemma replicas_mined:
  assumes "length root = HASH_SIZE"
  obtains out where "replicas root level address_for_id = Some (Some out)" "length out \<le> replica_count level"
    "\<forall>r \<in> set out. (\<exists>b. replica_id r = root[0 := b]) \<and> replica_address r = address_for_id (replica_id r)"
proof (cases "level = Level_None")
  case True
  then show thesis using assms that [of "[]"] by (simp add: replicas_def)
next
  case False
  have "mined address_for_id root (unat (as_u8 level)) replica_start"
    using replica_start_inv [of "unat (as_u8 level)"] as_u8_bounds [OF False]
    by (auto simp: mined_def replica_start_def)
  from replica_loop_spec [OF False this, where idx = "[0..<255]" and acc = "[]" and emitted = 0
      and P = "\<lambda>r. (\<exists>b. replica_id r = root[0 := b]) \<and> replica_address r = address_for_id (replica_id r)"]
  obtain out where out: "replica_loop address_for_id root level [0..<255] 0 [] replica_start = Some out"
    "length out \<le> replica_count level"
    "\<forall>r \<in> set out. (\<exists>b. replica_id r = root[0 := b]) \<and> replica_address r = address_for_id (replica_id r)"
    by auto
  moreover have "replica_count level \<noteq> 0" using False by (cases level) simp_all
  ultimately show thesis using assms by (intro that [OF _ out(2,3)]) (simp add: replicas_def del: replica_count.simps)
qed

text \<open>
  Replica mining is total and bounded: for every 32-byte root, level and address function no
  array access is out of range, at most the level's number of replicas is returned, and each one
  is the root with its first byte replaced, at the address of that identifier.  A root of any
  other length is refused.
\<close>

theorem replicas_total:
  "(length root \<noteq> HASH_SIZE \<longrightarrow> replicas root level address_for_id = Some None) \<and>
   (length root = HASH_SIZE \<longrightarrow>
      (\<exists>out. replicas root level address_for_id = Some (Some out) \<and> length out \<le> replica_count level \<and>
         (\<forall>r \<in> set out. (\<exists>b. replica_id r = root[0 := b]) \<and> replica_address r = address_for_id (replica_id r))))"
  using replicas_mined [of root level address_for_id] by (metis replicas_def)

theorem replicas_total_witness:
  "\<exists>out. replicas (replicate 32 7) Medium (\<lambda>ident. ident) = Some (Some out) \<and> length out \<le> 2"
  using replicas_total [of "replicate 32 7" Medium "\<lambda>ident. ident"] by (auto simp: sizes)

end
