(* ===== verification/Conventions.thy ===== *)
theory Conventions
  imports ErasureLayout
begin

text \<open>
  The hashing and addressing conventions of \<open>src/conventions.rs\<close>: proximity order, the
  binary Merkle tree root that skips the empty part of a chunk, content and single-owner chunk
  validity, handshake sign data, signature recovery, and the keys and addresses derived by
  hashing.  The Keccak function and the ECDSA operations come from other crates and are
  parameters; what is assumed of Keccak is only that a digest has 32 bytes.
\<close>

section \<open>Proximity\<close>

definition MAX_PO :: u8 where "MAX_PO = 31"

fun leading_zeros_from :: "nat \<Rightarrow> u8 \<Rightarrow> nat" where
  "leading_zeros_from 0 w = 0"
| "leading_zeros_from (Suc n) w = (if bit w n then 0 else Suc (leading_zeros_from n w))"

definition leading_zeros :: "u8 \<Rightarrow> nat" where
  "leading_zeros w = leading_zeros_from 8 w"

fun proximity_scan :: "nat \<Rightarrow> (u8 \<times> u8) list \<Rightarrow> nat option" where
  "proximity_scan index [] = None"
| "proximity_scan index ((left, right) # rest) =
     (let difference = left XOR right
      in if difference \<noteq> 0 then Some (index * 8 + leading_zeros difference)
         else proximity_scan (Suc index) rest)"

definition get_proximity :: "bytes \<Rightarrow> bytes \<Rightarrow> u8" where
  "get_proximity one other =
     (let compared_bytes = min (min (unat (MAX_PO div 4 + 1)) (length one)) (length other)
      in if compared_bytes = 0 then 0
         else case proximity_scan 0 (take compared_bytes (zip one other)) of
                Some po \<Rightarrow> word_of_nat po
              | None \<Rightarrow> MAX_PO)"

section \<open>The binary Merkle tree\<close>

definition SECTION_SIZE :: nat where "SECTION_SIZE = 32"
definition SECTION2_SIZE :: nat where "SECTION2_SIZE = 2 * SECTION_SIZE"
definition BMT_LEAF_COUNT :: nat where "BMT_LEAF_COUNT = CHUNK_SIZE div SECTION2_SIZE"
definition BMT_LEVEL_COUNT :: nat where "BMT_LEVEL_COUNT = 7"

lemmas bmt_sizes = SECTION2_SIZE_def SECTION_SIZE_def BMT_LEAF_COUNT_def BMT_LEVEL_COUNT_def sizes

fun zero_bmt_node :: "(bytes \<Rightarrow> bytes) \<Rightarrow> nat \<Rightarrow> bytes" where
  "zero_bmt_node keccak 0 = keccak (replicate SECTION2_SIZE 0)"
| "zero_bmt_node keccak (Suc level) =
     keccak (zero_bmt_node keccak level @ zero_bmt_node keccak level)"

definition zero_bmt_nodes :: "(bytes \<Rightarrow> bytes) \<Rightarrow> bytes list" where
  "zero_bmt_nodes keccak = map (zero_bmt_node keccak) [0..<BMT_LEVEL_COUNT]"

definition effective_len :: "bytes \<Rightarrow> nat" where
  "effective_len content = (case rposition (\<lambda>v. v \<noteq> 0) content of None \<Rightarrow> 0 | Some index \<Rightarrow> index + 1)"

text \<open>The leaf loop writes the full blocks, then the zero-padded last one.\<close>

fun write_leaves :: "(bytes \<Rightarrow> bytes) \<Rightarrow> nat \<Rightarrow> bytes list \<Rightarrow> bytes list \<Rightarrow> bytes list" where
  "write_leaves keccak index [] nodes = nodes"
| "write_leaves keccak index (s # rest) nodes =
     write_leaves keccak (Suc index) rest (nodes[index := keccak s])"

definition bmt_leaves :: "(bytes \<Rightarrow> bytes) \<Rightarrow> bytes \<Rightarrow> nat \<Rightarrow> bytes list" where
  "bmt_leaves keccak content eff =
     (let full_blocks = eff div SECTION2_SIZE;
          nodes = write_leaves keccak 0
                    (chunks_exact SECTION2_SIZE (take (full_blocks * SECTION2_SIZE) content))
                    (replicate BMT_LEAF_COUNT (replicate SECTION_SIZE 0))
      in if eff mod SECTION2_SIZE \<noteq> 0 then
           let start = full_blocks * SECTION2_SIZE;
               tail = take (eff - start) (drop start content);
               block = tail @ drop (length tail) (replicate SECTION2_SIZE 0)
           in nodes[full_blocks := keccak block]
         else nodes)"

definition div_ceil :: "nat \<Rightarrow> nat \<Rightarrow> nat" where
  "div_ceil a b = (a + b - 1) div b"

text \<open>One level, in place: node \<open>index\<close> becomes the hash of the pair it covers.\<close>

fun hash_pairs :: "(bytes \<Rightarrow> bytes) \<Rightarrow> nat list \<Rightarrow> bytes list \<Rightarrow> bytes list" where
  "hash_pairs keccak [] nodes = nodes"
| "hash_pairs keccak (index # rest) nodes =
     hash_pairs keccak rest
       (nodes[index := keccak (take SECTION2_SIZE (drop (index * SECTION2_SIZE) (concat nodes)))])"

fun bmt_levels :: "(bytes \<Rightarrow> bytes) \<Rightarrow> bytes list \<Rightarrow> nat \<Rightarrow> bytes list \<Rightarrow> bytes list" where
  "bmt_levels keccak [] occupied nodes = nodes"
| "bmt_levels keccak (zero # zeros) occupied nodes =
     (let nodes1 = (if occupied mod 2 \<noteq> 0 then nodes[occupied := zero] else nodes);
          occupied1 = div_ceil occupied 2
      in bmt_levels keccak zeros occupied1 (hash_pairs keccak [0..<occupied1] nodes1))"

definition bmt_root :: "(bytes \<Rightarrow> bytes) \<Rightarrow> bytes \<Rightarrow> bytes option" where
  "bmt_root keccak content =
     (if CHUNK_SIZE < length content then None
      else let eff = effective_len content
           in if eff = 0 then Some (zero_bmt_nodes keccak ! (BMT_LEVEL_COUNT - 1))
              else Some (bmt_levels keccak (take (BMT_LEVEL_COUNT - 1) (zero_bmt_nodes keccak))
                           (div_ceil eff SECTION2_SIZE) (bmt_leaves keccak content eff) ! 0))"

section \<open>Chunk validity\<close>

definition content_address_array :: "(bytes \<Rightarrow> bytes) \<Rightarrow> bytes \<Rightarrow> bytes option" where
  "content_address_array keccak chunk_content =
     (if \<not> (SPAN_SIZE \<le> length chunk_content \<and> length chunk_content \<le> SPAN_SIZE + CHUNK_SIZE) then None
      else let span = take SPAN_SIZE chunk_content; content = drop SPAN_SIZE chunk_content
           in case bmt_root keccak content of
                None \<Rightarrow> None
              | Some root \<Rightarrow> Some (keccak (span @ root)))"

definition valid_cac :: "(bytes \<Rightarrow> bytes) \<Rightarrow> bytes \<Rightarrow> bytes \<Rightarrow> bool" where
  "valid_cac keccak chunk_content address =
     (case content_address_array keccak chunk_content of None \<Rightarrow> False | Some expected \<Rightarrow> address = expected)"

datatype ChunkShape = Cac | Soc

definition chunk_structurally_usable :: "bytes \<Rightarrow> bool" where
  "chunk_structurally_usable chunk_content \<longleftrightarrow>
     SPAN_SIZE \<le> length chunk_content \<and> length chunk_content \<le> SPAN_SIZE + CHUNK_SIZE"

text \<open>
  Signature recovery: the parity byte is interpreted here; parsing the signature (with its
  low-s normalisation, \<open>Some\<close> when it changed the signature) and recovering the key are the
  curve library's.
\<close>

record 'sig ecdsa =
  parse_signature :: "bytes \<Rightarrow> 'sig option"
  normalize_s :: "'sig \<Rightarrow> 'sig option"
  recover_from_prehash :: "bytes \<Rightarrow> 'sig \<Rightarrow> bool \<Rightarrow> bytes option"
  eip191_hash_message :: "bytes \<Rightarrow> bytes"
  public_key_address :: "bytes \<Rightarrow> bytes"

definition signature_parity :: "u8 \<Rightarrow> bool option" where
  "signature_parity v =
     (if v = 0 \<or> v = 1 then Some (v = 1)
      else if v = 27 \<or> v = 28 \<or> 35 \<le> v then Some (v mod 2 = 0)
      else None)"

definition recover_address :: "'sig ecdsa \<Rightarrow> bytes \<Rightarrow> bytes \<Rightarrow> bytes option" where
  "recover_address curve signature message =
     (if length signature \<noteq> 65 then None
      else do {
        parity \<leftarrow> signature_parity (signature ! 64);
        sig \<leftarrow> parse_signature curve (take 64 signature);
        let (sig', parity') =
          (case normalize_s curve sig of Some normalized \<Rightarrow> (normalized, \<not> parity) | None \<Rightarrow> (sig, parity));
        key \<leftarrow> recover_from_prehash curve (eip191_hash_message curve message) sig' parity';
        Some (public_key_address curve key)
      })"

definition valid_soc :: "(bytes \<Rightarrow> bytes) \<Rightarrow> 'sig ecdsa \<Rightarrow> bytes \<Rightarrow> bytes \<Rightarrow> bool" where
  "valid_soc keccak curve chunk_content address =
     (if length chunk_content < 97 + SPAN_SIZE then False
      else let soc_address = take 32 chunk_content;
               soc_signature = take 65 (drop 32 chunk_content)
           in case content_address_array keccak (drop 97 chunk_content) of
                None \<Rightarrow> False
              | Some wrapped_address \<Rightarrow>
                  let to_sign = keccak (soc_address @ wrapped_address)
                  in case recover_address curve soc_signature to_sign of
                       None \<Rightarrow> False
                     | Some owner \<Rightarrow> address = keccak (soc_address @ owner))"

section \<open>Handshake sign data and derived keys\<close>

definition EMPTY_CHEQUEBOOK_ADDRESS :: bytes where
  "EMPTY_CHEQUEBOOK_ADDRESS = replicate 20 0"

definition handshake_prefix :: bytes where
  "handshake_prefix = map (\<lambda>c. word_of_nat (of_char c)) ''bee-handshake-''"

definition generate_sign_data :: "bytes \<Rightarrow> bytes \<Rightarrow> u64 \<Rightarrow> bytes \<Rightarrow> u64 \<Rightarrow> bytes \<Rightarrow> bytes" where
  "generate_sign_data underlay overlay network_id nonce timestamp chequebook_address =
     handshake_prefix @ underlay @ overlay @ to_be_bytes network_id @ nonce @ to_be_bytes timestamp @
     (if chequebook_address = [] then EMPTY_CHEQUEBOOK_ADDRESS else chequebook_address)"

definition parse_address ::
  "'sig ecdsa \<Rightarrow> bytes \<Rightarrow> bytes \<Rightarrow> bytes \<Rightarrow> bytes \<Rightarrow> u64 \<Rightarrow> u64 \<Rightarrow> bytes \<Rightarrow> bytes" where
  "parse_address curve underlay overlay signature nonce timestamp network_id chequebook_address =
     (let sign_data = generate_sign_data underlay overlay network_id nonce timestamp chequebook_address
      in case recover_address curve signature sign_data of Some a \<Rightarrow> a | None \<Rightarrow> replicate 20 0)"

text \<open>\<open>copy_from_slice\<close> panics, \<open>None\<close>, when the key does not have the hash size.\<close>

definition encryption_segment_key :: "(bytes \<Rightarrow> bytes) \<Rightarrow> bytes \<Rightarrow> u32 \<Rightarrow> bytes option" where
  "encryption_segment_key keccak key counter =
     (if length key \<noteq> HASH_SIZE then None
      else Some (keccak (keccak (key @ le_bytes 4 counter))))"

definition BEE_REPLICA_OWNER :: bytes where
  "BEE_REPLICA_OWNER =
     [0xdc, 0x5b, 0x20, 0x84, 0x7f, 0x43, 0xd6, 0x79, 0x28, 0xf4, 0x9c, 0xd4, 0xf8, 0x5d, 0x69, 0x6b,
      0x5a, 0x76, 0x17, 0xb5]"

definition bee_replica_address :: "(bytes \<Rightarrow> bytes) \<Rightarrow> bytes \<Rightarrow> bytes" where
  "bee_replica_address keccak ident = keccak (ident @ BEE_REPLICA_OWNER)"

section \<open>The sparse tree is the full tree\<close>

text \<open>
  The reference: the full binary tree over the content padded with zeros.  Leaf \<open>i\<close> hashes the
  \<open>i\<close>-th pair of segments, an inner node the concatenation of its children.
\<close>

fun bmt_node :: "(bytes \<Rightarrow> bytes) \<Rightarrow> bytes \<Rightarrow> nat \<Rightarrow> nat \<Rightarrow> bytes" where
  "bmt_node keccak content 0 i = keccak (resize SECTION2_SIZE 0 (take SECTION2_SIZE (drop (SECTION2_SIZE * i) content)))"
| "bmt_node keccak content (Suc level) i =
     keccak (bmt_node keccak content level (2 * i) @ bmt_node keccak content level (2 * i + 1))"

lemma effective_len_spec:
  "effective_len content \<le> length content"
  "effective_len content \<le> i \<Longrightarrow> i < length content \<Longrightarrow> content ! i = 0"
proof -
  show "effective_len content \<le> length content"
    by (auto simp: effective_len_def split: option.splits dest: rposition_SomeD(1))
  assume "effective_len content \<le> i" "i < length content"
  then show "content ! i = 0"
    using rposition_SomeD(3) [of "\<lambda>v. v \<noteq> 0" content]
    by (auto simp: effective_len_def rposition_None split: option.splits)
qed

lemma padded_nth:
  "j < n \<Longrightarrow> resize n 0 (take n (drop s content)) ! j = (if s + j < length content then content ! (s + j) else 0)"
  by (auto simp: resize_def nth_append)

lemma padded_zero:
  assumes "effective_len content \<le> s"
  shows "resize n 0 (take n (drop s content)) = replicate n 0"
  using assms effective_len_spec(2) [of content]
  by (intro nth_equalityI) (auto simp: padded_nth)

lemma write_leaves_nth:
  "length (write_leaves keccak idx ss nodes) = length nodes \<and>
   (\<forall>j<length nodes. write_leaves keccak idx ss nodes ! j =
      (if idx \<le> j \<and> j < idx + length ss then keccak (ss ! (j - idx)) else nodes ! j))"
proof (induction keccak idx ss nodes rule: write_leaves.induct)
  case (1 keccak idx nodes)
  then show ?case by auto
next
  case (2 keccak idx s rest nodes)
  then show ?case by (auto simp: nth_list_update nth_Cons' Suc_diff_le)
qed

lemma chunks_exact_nth:
  "0 < n \<Longrightarrow> i < length xs div n \<Longrightarrow> chunks_exact n xs ! i = take n (drop (i * n) xs)"
proof (induction n xs arbitrary: i rule: chunks_exact.induct)
  case (1 n xs)
  then have "\<not> length xs < n" by auto
  with 1 show ?case
    by (cases i) (auto simp: chunks_exact.simps [of n xs] le_div_geq add.commute)
qed

lemma div_ceil_split:
  assumes "0 < b"
  shows "div_ceil a b = (if a mod b = 0 then a div b else Suc (a div b))"
proof (cases "a mod b = 0")
  case True
  have "a + b - 1 = (b - 1) + (a div b) * b" using True assms div_mult_mod_eq [of a b] by linarith
  then have "(a + b - 1) div b = (b - 1) div b + a div b" using assms by (metis div_mult_self1 add.commute nless_le)
  with True assms show ?thesis by (simp add: div_ceil_def)
next
  case False
  have "a + b - 1 = (a mod b - 1) + Suc (a div b) * b" using False div_mult_mod_eq [of a b] by simp
  then have "(a + b - 1) div b = (a mod b - 1) div b + Suc (a div b)"
    using assms by (metis div_mult_self1 add.commute nless_le)
  moreover have "a mod b - 1 < b" using assms mod_less_divisor [of b a] by linarith
  ultimately show ?thesis using False by (simp add: div_ceil_def)
qed

text \<open>The leaves the loop writes are those of the full tree; beyond them every leaf is zero.\<close>

lemma bmt_leaves_spec:
  assumes "length content \<le> CHUNK_SIZE" "\<And>x. length (keccak x) = 32"
  defines "eff \<equiv> effective_len content"
  shows "length (bmt_leaves keccak content eff) = 64"
    and "\<forall>n \<in> set (bmt_leaves keccak content eff). length n = 32"
    and "\<And>i. i < div_ceil eff SECTION2_SIZE \<Longrightarrow> bmt_leaves keccak content eff ! i = bmt_node keccak content 0 i"
    and "\<And>i. div_ceil eff SECTION2_SIZE \<le> i \<Longrightarrow> bmt_node keccak content 0 i = zero_bmt_node keccak 0"
proof -
  note e = effective_len_spec [of content, folded eff_def]
  let ?full = "eff div 64"
  let ?ss = "chunks_exact 64 (take (?full * 64) content)"
  let ?nodes = "write_leaves keccak 0 ?ss (replicate 64 (replicate 32 0))"
  have le: "?full * 64 \<le> length content" using e(1) by (metis div_times_less_eq_dividend le_trans)
  have lss: "length ?ss = ?full" using le by (simp add: length_chunks_exact min_def)
  have n: "length ?nodes = 64" "\<And>j. j < 64 \<Longrightarrow> ?nodes ! j = (if j < ?full then keccak (?ss ! j) else replicate 32 0)"
    using write_leaves_nth [of keccak 0 ?ss "replicate 64 (replicate 32 0)"] lss by auto
  let ?start = "?full * 64"
  let ?tail = "take (eff - ?start) (drop ?start content)"
  have L: "bmt_leaves keccak content eff =
      (if eff mod 64 \<noteq> 0 then ?nodes[?full := keccak (?tail @ drop (length ?tail) (replicate 64 0))] else ?nodes)"
    by (simp add: bmt_leaves_def Let_def bmt_sizes)
  show len: "length (bmt_leaves keccak content eff) = 64" using n(1) by (simp add: L)
  have ceil: "div_ceil eff 64 = (if eff mod 64 = 0 then ?full else Suc ?full)"
    by (rule div_ceil_split) simp
  have bound: "div_ceil eff 64 \<le> 64" using e(1) assms(1) unfolding div_ceil_def by (simp add: sizes)
  have chunk: "?ss ! i = take 64 (drop (64 * i) content)" if "i < ?full" for i
  proof -
    have "i * 64 + 64 \<le> ?full * 64" using that by linarith
    then show ?thesis using that le
      by (simp add: chunks_exact_nth min_def drop_take mult.commute)
  qed
  have last: "?tail @ drop (length ?tail) (replicate 64 0) = resize 64 0 (take 64 (drop (64 * ?full) content))"
    if "eff mod 64 \<noteq> 0"
  proof (rule nth_equalityI)
    have "eff - ?start \<le> length content - ?start" using e(1) by (rule diff_le_mono)
    then have "length ?tail = eff - ?start" by (simp only: length_take length_drop min_absorb2)
    then have lt: "length ?tail = eff mod 64" by (simp only: minus_div_mult_eq_mod)
    then show "length (?tail @ drop (length ?tail) (replicate 64 0)) =
        length (resize 64 0 (take 64 (drop (64 * ?full) content)))" by simp
    fix j assume "j < length (?tail @ drop (length ?tail) (replicate 64 (0 :: u8)))"
    then have j: "j < 64" using lt by simp
    have "?start + eff mod 64 = eff" by simp
    then show "(?tail @ drop (length ?tail) (replicate 64 0)) ! j =
        resize 64 0 (take 64 (drop (64 * ?full) content)) ! j"
      using lt j e by (auto simp: padded_nth nth_append mult.commute)
  qed
  have full: "resize 64 0 (take 64 (drop (64 * i) content)) = take 64 (drop (64 * i) content)" if "i < ?full" for i
  proof -
    have "64 * i + 64 \<le> length content" using that le by linarith
    then show ?thesis by (simp add: resize_def)
  qed
  show leaf: "bmt_leaves keccak content eff ! i = bmt_node keccak content 0 i"
    if "i < div_ceil eff SECTION2_SIZE" for i
  proof -
    have i: "i < div_ceil eff 64" using that by (simp add: bmt_sizes)
    have node: "bmt_node keccak content 0 i = keccak (resize 64 0 (take 64 (drop (64 * i) content)))"
      by (simp add: bmt_sizes)
    show ?thesis
    proof (cases "i < ?full")
      case True
      then have "bmt_leaves keccak content eff ! i = ?nodes ! i" by (simp add: L)
      also have "\<dots> = keccak (?ss ! i)" using n(2) [of i] True i bound by simp
      finally show ?thesis using node chunk [OF True] full [OF True] by simp
    next
      case False
      with i ceil have mod: "eff mod 64 \<noteq> 0" and i: "i = ?full" by (auto split: if_splits)
      have "?full < length ?nodes" using n(1) i \<open>i < div_ceil eff 64\<close> bound by simp
      then have "bmt_leaves keccak content eff ! i = keccak (?tail @ drop (length ?tail) (replicate 64 0))"
        unfolding L if_P [OF mod] i by (rule nth_list_update_eq)
      then show ?thesis using node i last [OF mod] by simp
    qed
  qed
  show "\<forall>n \<in> set (bmt_leaves keccak content eff). length n = 32"
  proof
    fix x assume "x \<in> set (bmt_leaves keccak content eff)"
    then obtain i where "i < 64" "x = bmt_leaves keccak content eff ! i" using len by (auto simp: in_set_conv_nth)
    then show "length x = 32" using n assms(2) by (auto simp: L nth_list_update)
  qed
  fix i assume "div_ceil eff SECTION2_SIZE \<le> i"
  then have "eff \<le> 64 * i" using ceil by (auto simp: bmt_sizes split: if_splits)
  then show "bmt_node keccak content 0 i = zero_bmt_node keccak 0"
    by (simp add: bmt_sizes padded_zero eff_def)
qed

lemma drop_concat:
  "\<forall>x \<in> set xs. length x = m \<Longrightarrow> i \<le> length xs \<Longrightarrow> drop (i * m) (concat xs) = concat (drop i xs)"
proof (induction xs arbitrary: i)
  case Nil
  then show ?case by simp
next
  case (Cons x xs)
  then show ?case by (cases i) simp_all
qed

lemma pair_slice:
  assumes "\<forall>x \<in> set nodes. length x = 32" "2 * i + 1 < length nodes"
  shows "take SECTION2_SIZE (drop (i * SECTION2_SIZE) (concat nodes)) = nodes ! (2 * i) @ nodes ! (2 * i + 1)"
proof -
  have "drop (i * 64) (concat nodes) = concat (drop (2 * i) nodes)"
    using drop_concat [OF assms(1), of "2 * i"] assms(2) by (simp add: mult.commute mult.left_commute)
  also have "drop (2 * i) nodes = nodes ! (2 * i) # nodes ! (2 * i + 1) # drop (2 * i + 2) nodes"
    using assms(2) by (simp add: Cons_nth_drop_Suc)
  finally show ?thesis using assms by (simp add: bmt_sizes)
qed

lemma hash_pairs_append: "hash_pairs keccak (xs @ ys) nodes = hash_pairs keccak ys (hash_pairs keccak xs nodes)"
  by (induction keccak xs nodes rule: hash_pairs.induct) simp_all

lemma hash_pairs_spec:
  assumes "\<And>x. length (keccak x) = 32" "length nodes = 64" "\<forall>x \<in> set nodes. length x = 32"
  shows "k \<le> 32 \<Longrightarrow> length (hash_pairs keccak [0..<k] nodes) = 64 \<and>
    (\<forall>x \<in> set (hash_pairs keccak [0..<k] nodes). length x = 32) \<and>
    (\<forall>j<64. hash_pairs keccak [0..<k] nodes ! j =
       (if j < k then keccak (nodes ! (2 * j) @ nodes ! (2 * j + 1)) else nodes ! j))"
proof (induction k)
  case 0
  then show ?case using assms by simp
next
  case (Suc k)
  let ?h = "hash_pairs keccak [0..<k] nodes"
  from Suc have IH: "length ?h = 64" "\<forall>x \<in> set ?h. length x = 32"
    "\<And>j. j < 64 \<Longrightarrow> ?h ! j = (if j < k then keccak (nodes ! (2 * j) @ nodes ! (2 * j + 1)) else nodes ! j)" by auto
  have "take SECTION2_SIZE (drop (k * SECTION2_SIZE) (concat ?h)) = nodes ! (2 * k) @ nodes ! (2 * k + 1)"
    using pair_slice [OF IH(2), of k] IH(1) IH(3) [of "2 * k"] IH(3) [of "2 * k + 1"] Suc.prems by simp
  then have "hash_pairs keccak [0..<Suc k] nodes = ?h[k := keccak (nodes ! (2 * k) @ nodes ! (2 * k + 1))]"
    by (simp add: hash_pairs_append)
  with IH Suc.prems assms(1) show ?case
    by (auto simp: nth_list_update dest!: set_update_subset_insert [THEN subsetD])
qed

lemma bmt_levels_spec:
  assumes k32: "\<And>x. length (keccak x) = 32"
  shows "level \<le> 6 \<Longrightarrow> 0 < occ \<Longrightarrow> occ \<le> 2 ^ (6 - level) \<Longrightarrow> length nodes = 64 \<Longrightarrow>
    \<forall>x \<in> set nodes. length x = 32 \<Longrightarrow>
    (\<And>i. i < occ \<Longrightarrow> nodes ! i = bmt_node keccak content level i) \<Longrightarrow>
    (\<And>i. occ \<le> i \<Longrightarrow> bmt_node keccak content level i = zero_bmt_node keccak level) \<Longrightarrow>
    bmt_levels keccak (map (zero_bmt_node keccak) [level..<6]) occ nodes ! 0 = bmt_node keccak content 6 0"
proof (induction "6 - level" arbitrary: level occ nodes)
  case 0
  then show ?case by simp
next
  case (Suc n)
  then have l: "level < 6" by simp
  then have u: "[level..<6] = level # [Suc level..<6]" by (simp add: upt_conv_Cons)
  let ?z = "zero_bmt_node keccak level"
  let ?nodes = "if occ mod 2 \<noteq> 0 then nodes[occ := ?z] else nodes"
  have half: "(2 :: nat) ^ (6 - level) = 2 * 2 ^ (6 - Suc level)" using l by (simp add: Suc_diff_Suc [symmetric])
  have "(2 :: nat) ^ (6 - Suc level) \<le> 2 ^ 5" by (intro power_increasing) auto
  then have occ64: "occ < 64 \<or> even occ" "div_ceil occ 2 \<le> 32" "div_ceil occ 2 \<le> 2 ^ (6 - Suc level)"
  proof -
    define c :: nat where "c = 2 ^ (6 - Suc level)"
    have c: "occ \<le> 2 * c" "c \<le> 32"
      using Suc.prems(3) half \<open>2 ^ (6 - Suc level) \<le> 2 ^ 5\<close> by (simp_all add: c_def)
    show "occ < 64 \<or> even occ" using c by (cases "occ = 64") auto
    have "(occ + 2 - 1) div 2 \<le> c" using c(1) by simp
    then show "div_ceil occ 2 \<le> 32" "div_ceil occ 2 \<le> 2 ^ (6 - Suc level)"
      using c(2) unfolding c_def div_ceil_def by simp_all
  qed
  have z32: "length ?z = 32" using k32 by (cases level) simp_all
  have shape: "length ?nodes = 64" "\<forall>x \<in> set ?nodes. length x = 32"
    using Suc.prems(4,5) z32 by (auto dest!: set_update_subset_insert [THEN subsetD])
  have agree: "?nodes ! i = bmt_node keccak content level i" if "i < 2 * div_ceil occ 2" for i
  proof -
    have "i < occ \<or> (i = occ \<and> odd occ)" using that unfolding div_ceil_def by presburger
    then show ?thesis using Suc.prems(4,6,7) occ64(1) by (auto simp: nth_list_update odd_iff_mod_2_eq_one)
  qed
  note h = hash_pairs_spec [of keccak, OF k32 shape occ64(2)]
  have "bmt_levels keccak (map (zero_bmt_node keccak) [Suc level..<6]) (div_ceil occ 2)
      (hash_pairs keccak [0..<div_ceil occ 2] ?nodes) ! 0 = bmt_node keccak content 6 0"
  proof (rule Suc.hyps(1))
    show "n = 6 - Suc level" "Suc level \<le> 6" using Suc.hyps(2) l by simp_all
    show "0 < div_ceil occ 2" using Suc.prems(2) unfolding div_ceil_def by simp
    show "div_ceil occ 2 \<le> 2 ^ (6 - Suc level)" by (rule occ64(3))
    show "length (hash_pairs keccak [0..<div_ceil occ 2] ?nodes) = 64"
      "\<forall>x \<in> set (hash_pairs keccak [0..<div_ceil occ 2] ?nodes). length x = 32" using h by blast+
    show "hash_pairs keccak [0..<div_ceil occ 2] ?nodes ! i = bmt_node keccak content (Suc level) i"
      if i: "i < div_ceil occ 2" for i
    proof -
      have "i < 64" using i occ64(2) by simp
      with h i have "hash_pairs keccak [0..<div_ceil occ 2] ?nodes ! i =
          keccak (?nodes ! (2 * i) @ ?nodes ! (2 * i + 1))" by presburger
      then show ?thesis using agree [of "2 * i"] agree [of "2 * i + 1"] i by simp
    qed
    show "bmt_node keccak content (Suc level) i = zero_bmt_node keccak (Suc level)" if "div_ceil occ 2 \<le> i" for i
    proof -
      have "occ \<le> 2 * i" using that unfolding div_ceil_def by linarith
      then show ?thesis using Suc.prems(7) [of "2 * i"] Suc.prems(7) [of "2 * i + 1"] by simp
    qed
  qed
  then show ?case unfolding u by (simp add: Let_def)
qed

lemma bmt_root_spec:
  assumes "length content \<le> CHUNK_SIZE" "\<And>x. length (keccak x) = 32"
  shows "bmt_root keccak content = Some (bmt_node keccak content 6 0)"
proof -
  let ?eff = "effective_len content"
  note leaves = bmt_leaves_spec [of content keccak, OF assms]
  have zeros: "take 6 (zero_bmt_nodes keccak) = map (zero_bmt_node keccak) [0..<6]"
    "zero_bmt_nodes keccak ! 6 = zero_bmt_node keccak 6"
    by (simp_all add: zero_bmt_nodes_def bmt_sizes take_map take_upt)
  show ?thesis
  proof (cases "?eff = 0")
    case True
    have "bmt_node keccak content level i = zero_bmt_node keccak level" for level i
      using leaves(4) True by (induction level arbitrary: i) (simp_all add: div_ceil_def bmt_sizes)
    with True assms(1) zeros show ?thesis by (simp add: bmt_root_def BMT_LEVEL_COUNT_def)
  next
    case False
    have occ: "0 < div_ceil ?eff SECTION2_SIZE" "div_ceil ?eff SECTION2_SIZE \<le> 2 ^ (6 - 0)"
      using False effective_len_spec(1) [of content] assms(1) by (simp_all add: div_ceil_def bmt_sizes)
    have "bmt_levels keccak (map (zero_bmt_node keccak) [0..<6]) (div_ceil ?eff SECTION2_SIZE)
        (bmt_leaves keccak content ?eff) ! 0 = bmt_node keccak content 6 0"
      using assms(2) le0 occ leaves by (rule bmt_levels_spec)
    with False assms(1) zeros show ?thesis by (simp add: bmt_root_def BMT_LEVEL_COUNT_def Let_def)
  qed
qed

lemma bmt_node_trailing_zeros: "bmt_node keccak (content @ replicate n 0) level i = bmt_node keccak content level i"
proof (induction level arbitrary: i)
  case 0
  have "resize 64 0 (take 64 (drop (64 * i) (content @ replicate n 0))) = resize 64 0 (take 64 (drop (64 * i) content))"
  proof (rule nth_equalityI)
    fix j assume "j < length (resize 64 0 (take 64 (drop (64 * i) (content @ replicate n (0 :: u8)))))"
    then have j: "j < 64" by simp
    show "resize 64 0 (take 64 (drop (64 * i) (content @ replicate n 0))) ! j =
        resize 64 0 (take 64 (drop (64 * i) content)) ! j"
      unfolding padded_nth [OF j] by (auto simp: nth_append)
  qed simp
  then show ?case by (simp add: bmt_sizes)
next
  case (Suc level)
  then show ?case by simp
qed

section \<open>Facts about proximity\<close>

lemma leading_zeros_from_spec:
  "w \<noteq> 0 \<or> n = 0 \<Longrightarrow> (\<And>k. n \<le> k \<Longrightarrow> \<not> bit w k) \<Longrightarrow> 0 < n \<Longrightarrow>
     leading_zeros_from n w < n \<and> bit w (n - 1 - leading_zeros_from n w) \<and>
     (\<forall>b. n - 1 - leading_zeros_from n w < b \<longrightarrow> \<not> bit w b)"
proof (induction n)
  case 0
  then show ?case by simp
next
  case (Suc n)
  show ?case
  proof (cases "bit w n")
    case True
    with Suc.prems(2) show ?thesis by (simp add: Suc_le_eq)
  next
    case False
    then have no: "\<And>k. n \<le> k \<Longrightarrow> \<not> bit w k" using Suc.prems(2) by (metis le_eq_less_or_eq Suc_leI)
    have "0 < n"
    proof (rule ccontr)
      assume "\<not> 0 < n"
      with no have "w = 0" by (intro bit_eqI) simp
      with Suc.prems(1) show False by simp
    qed
    with Suc.IH Suc.prems(1) no False show ?thesis by simp
  qed
qed

lemma leading_zeros_spec:
  assumes "w \<noteq> 0"
  shows "leading_zeros w < 8" "bit w (7 - leading_zeros w)" "\<forall>b > 7 - leading_zeros w. \<not> bit w b"
  using leading_zeros_from_spec [of w 8] assms bit_imp_le_length [of w]
  unfolding leading_zeros_def by (auto simp: not_less [symmetric])

lemma xor_eq_0_iff: "a XOR b = 0 \<longleftrightarrow> a = (b :: u8)"
proof
  assume eq: "a XOR b = 0"
  show "a = b"
  proof (rule bit_word_eqI)
    fix n
    have "bit (a XOR b) n = bit (0 :: u8) n" unfolding eq ..
    then show "bit a n = bit b n" by (simp add: bit_xor_iff)
  qed
qed simp

lemma proximity_scan_spec:
  "proximity_scan idx ps =
     (case position (\<lambda>(a, b). a \<noteq> b) ps of
        None \<Rightarrow> None
      | Some i \<Rightarrow> Some ((idx + i) * 8 + leading_zeros (fst (ps ! i) XOR snd (ps ! i))))"
proof (induction idx ps rule: proximity_scan.induct)
  case (1 idx)
  then show ?case by simp
next
  case (2 idx l r rest)
  then show ?case by (simp add: Let_def xor_eq_0_iff split: option.splits)
qed

lemma compared: "unat (MAX_PO div 4 + 1) = 8"
  by (simp add: MAX_PO_def)

text \<open>Two 32-byte addresses that first differ at bit 39: the order exceeds \<open>MAX_PO\<close>.\<close>

lemma get_proximity_exceeds_max:
  "get_proximity (replicate 32 0) (replicate 4 0 @ [1] @ replicate 27 0) = 39 \<and>
   get_proximity (replicate 32 0) (replicate 32 0) = MAX_PO \<and> MAX_PO < 39"
proof (intro conjI)
  show "get_proximity (replicate 32 0) (replicate 4 0 @ [1] @ replicate 27 0) = 39"
    "get_proximity (replicate 32 0) (replicate 32 0) = MAX_PO"
    unfolding get_proximity_def compared Let_def
    by (simp_all add: MAX_PO_def leading_zeros_def numeral_eq_Suc)
qed (simp add: MAX_PO_def)

section \<open>Properties\<close>

text \<open>
  C22.  The sparse Merkle root, which hashes only the occupied part of the tree in place and
  substitutes precomputed nodes for the empty part, is the root of the full tree over the padded
  chunk, for every content of at most a chunk; a longer content is refused.
\<close>

theorem bmt_root_full_tree:
  assumes "\<And>x. length (keccak x) = 32"
  shows "bmt_root keccak content =
    (if length content \<le> CHUNK_SIZE then Some (bmt_node keccak content 6 0) else None)"
  using bmt_root_spec [of content keccak] assms by (simp add: bmt_root_def)

theorem bmt_root_full_tree_witness:
  "bmt_root (\<lambda>x. resize 32 1 (rev x)) [5, 6] = Some (bmt_node (\<lambda>x. resize 32 1 (rev x)) [5, 6] 6 0)"
  using bmt_root_full_tree [of "\<lambda>x. resize 32 1 (rev x)" "[5, 6]"] by (simp add: sizes)

text \<open>
  Trailing zeros do not change a content address: as long as the chunk stays within the
  size limit, appending zero bytes to the payload gives the same address, so a chunk is valid at
  an address exactly when its zero-padded form is.
\<close>

theorem content_address_trailing_zeros:
  assumes "\<And>x. length (keccak x) = 32" "SPAN_SIZE \<le> length chunk" "length chunk + n \<le> SPAN_SIZE + CHUNK_SIZE"
  shows "content_address_array keccak (chunk @ replicate n 0) = content_address_array keccak chunk \<and>
    content_address_array keccak chunk \<noteq> None \<and>
    (valid_cac keccak (chunk @ replicate n 0) address \<longleftrightarrow> valid_cac keccak chunk address)"
proof -
  have "bmt_root keccak (drop SPAN_SIZE chunk @ replicate n 0) = bmt_root keccak (drop SPAN_SIZE chunk)"
    "bmt_root keccak (drop SPAN_SIZE chunk) \<noteq> None"
    using assms by (simp_all add: bmt_root_spec bmt_node_trailing_zeros)
  then have "content_address_array keccak (chunk @ replicate n 0) = content_address_array keccak chunk"
    "content_address_array keccak chunk \<noteq> None"
    using assms by (auto simp: content_address_array_def split: option.splits)
  then show ?thesis by (simp add: valid_cac_def)
qed

theorem content_address_trailing_zeros_witness:
  "content_address_array (\<lambda>x. resize 32 1 (rev x)) ([9, 0, 0, 0, 0, 0, 0, 0] @ [1, 2] @ [0, 0, 0]) =
   content_address_array (\<lambda>x. resize 32 1 (rev x)) ([9, 0, 0, 0, 0, 0, 0, 0] @ [1, 2])"
  using content_address_trailing_zeros [of "\<lambda>x. resize 32 1 (rev x)" "[9, 0, 0, 0, 0, 0, 0, 0] @ [1, 2]" 3]
  by (simp add: sizes numeral_3_eq_3)

text \<open>
  C40.  Proximity is the position of the first differing bit among the first eight bytes: when
  the compared prefixes are equal it is the maximum order (zero when one side is empty);
  otherwise it is eight times the first differing byte index plus the number of equal leading
  bits there.  Eight bytes are compared, so two addresses that first differ after bit 31 get an
  order above the maximum that equal prefixes get.
\<close>

theorem get_proximity_first_difference:
  "let k = min (min 8 (length one)) (length other) in
   (k = 0 \<longrightarrow> get_proximity one other = 0) \<and>
   (0 < k \<and> take k one = take k other \<longrightarrow> get_proximity one other = MAX_PO) \<and>
   (take k one \<noteq> take k other \<longrightarrow>
      (\<exists>i j. i < k \<and> j < 8 \<and> unat (get_proximity one other) = 8 * i + j \<and>
         take i one = take i other \<and>
         bit (one ! i) (7 - j) \<noteq> bit (other ! i) (7 - j) \<and>
         (\<forall>b > 7 - j. bit (one ! i) b = bit (other ! i) b)))"
proof -
  define k where "k = min (min 8 (length one)) (length other)"
  let ?ps = "take k (zip one other)"
  have len: "length ?ps = k" by (simp add: k_def)
  have nth: "?ps ! i = (one ! i, other ! i)" if "i < k" for i using that by (simp add: k_def)
  have prox: "get_proximity one other = (if k = 0 then 0 else
      case position (\<lambda>(a, b). a \<noteq> b) ?ps of None \<Rightarrow> MAX_PO
      | Some i \<Rightarrow> word_of_nat (i * 8 + leading_zeros (fst (?ps ! i) XOR snd (?ps ! i))))"
    unfolding get_proximity_def compared k_def [symmetric] Let_def proximity_scan_spec
    by (simp split: option.splits)
  have eq: "take i one = take i other \<longleftrightarrow> (\<forall>j<i. one ! j = other ! j)" if "i \<le> k" for i
    using that by (auto simp: k_def list_eq_iff_nth_eq)
  have none: "position (\<lambda>(a, b). a \<noteq> b) ?ps = None \<longleftrightarrow> take k one = take k other"
  proof -
    have "(\<forall>x \<in> set ?ps. \<not> (\<lambda>(a, b). a \<noteq> b) x) \<longleftrightarrow> (\<forall>i<k. \<not> (\<lambda>(a, b). a \<noteq> b) (?ps ! i))"
      unfolding all_set_conv_all_nth len ..
    also have "\<dots> \<longleftrightarrow> (\<forall>i<k. one ! i = other ! i)" using nth by simp
    finally show ?thesis using eq [of k] by (simp only: position_None order_refl)
  qed
  have some: "\<exists>j. j < 8 \<and> unat (get_proximity one other) = 8 * i + j \<and> take i one = take i other \<and>
      bit (one ! i) (7 - j) \<noteq> bit (other ! i) (7 - j) \<and> (\<forall>b > 7 - j. bit (one ! i) b = bit (other ! i) b)"
    if p: "position (\<lambda>(a, b). a \<noteq> b) ?ps = Some i" and i: "i < k" for i
  proof -
    let ?w = "one ! i XOR other ! i"
    from p have d: "one ! i \<noteq> other ! i" and before: "\<forall>j<i. one ! j = other ! j"
      using nth i by (auto simp: position_Some)
    from d have "?w \<noteq> 0" by (simp add: xor_eq_0_iff)
    note lz = leading_zeros_spec [OF this]
    have "i * 8 + leading_zeros ?w < 256" using lz(1) i by (simp add: k_def)
    then have "unat (word_of_nat (i * 8 + leading_zeros ?w) :: u8) = i * 8 + leading_zeros ?w"
      by (simp only: unat_of_nat) simp
    moreover have "get_proximity one other = word_of_nat (i * 8 + leading_zeros ?w)"
      using i p nth [OF i] by (simp only: prox option.case fst_conv snd_conv) simp
    ultimately have "unat (get_proximity one other) = 8 * i + leading_zeros ?w" by (simp only: mult.commute)
    with lz before eq [of i] i show ?thesis
      by (intro exI [of _ "leading_zeros ?w"]) (auto simp: bit_xor_iff)
  qed
  have "\<exists>i<k. position (\<lambda>(a, b). a \<noteq> b) ?ps = Some i" if "take k one \<noteq> take k other"
    using that none len by (cases "position (\<lambda>(a, b). a \<noteq> b) ?ps") (auto simp: position_Some)
  then have diff: "\<exists>i j. i < k \<and> j < 8 \<and> unat (get_proximity one other) = 8 * i + j \<and>
      take i one = take i other \<and> bit (one ! i) (7 - j) \<noteq> bit (other ! i) (7 - j) \<and>
      (\<forall>b > 7 - j. bit (one ! i) b = bit (other ! i) b)" if "take k one \<noteq> take k other"
    using some that by blast
  show ?thesis unfolding k_def [symmetric] Let_def
  proof (intro conjI impI)
    show "get_proximity one other = 0" if "k = 0" using prox that by simp
    show "get_proximity one other = MAX_PO" if "0 < k \<and> take k one = take k other"
      using prox none that by simp
  qed (rule diff)
qed

theorem get_proximity_first_difference_witness:
  "get_proximity [1, 2, 3] [1, 2, 3] = MAX_PO"
  using get_proximity_first_difference [of "[1, 2, 3]" "[1, 2, 3]"] by (simp add: Let_def)

text \<open>
  The handshake sign data is unambiguous: with 32-byte overlays, nonces of equal length and
  chequebook addresses that are absent or 20 bytes, equal sign data means equal underlay,
  overlay, network, nonce and timestamp, and equal chequebook up to the absent one standing for
  the zero address.
\<close>

theorem generate_sign_data_injective:
  assumes "generate_sign_data u1 o1 n1 k1 t1 c1 = generate_sign_data u2 o2 n2 k2 t2 c2"
    and "length o1 = 32" "length o2 = 32" "length k1 = length k2"
    and "length c1 \<in> {0, 20}" "length c2 \<in> {0, 20}"
  shows "u1 = u2 \<and> o1 = o2 \<and> n1 = n2 \<and> k1 = k2 \<and> t1 = t2 \<and>
    (if c1 = [] then EMPTY_CHEQUEBOOK_ADDRESS else c1) = (if c2 = [] then EMPTY_CHEQUEBOOK_ADDRESS else c2)"
proof -
  let ?c = "\<lambda>c. if c = [] then EMPTY_CHEQUEBOOK_ADDRESS else c"
  have len: "length (?c c1) = 20" "length (?c c2) = 20"
    using assms(5,6) by (auto simp: EMPTY_CHEQUEBOOK_ADDRESS_def)
  have "u1 @ o1 @ to_be_bytes n1 @ k1 @ to_be_bytes t1 @ ?c c1 = u2 @ o2 @ to_be_bytes n2 @ k2 @ to_be_bytes t2 @ ?c c2"
    using assms(1) by (simp only: generate_sign_data_def same_append_eq)
  then show ?thesis using assms(2-4) len by (simp add: append_eq_append_conv)
qed

theorem generate_sign_data_injective_witness:
  "generate_sign_data [1] (replicate 32 7) 10 [5] 99 [] \<noteq> generate_sign_data [2] (replicate 32 7) 10 [5] 99 []"
  using generate_sign_data_injective [of "[1]" "replicate 32 7" 10 "[5]" 99 "[]" "[2]" "replicate 32 7" 10 "[5]" 99 "[]"]
  by auto

end
