(* ===== verification/Feed.thy ===== *)
theory Feed
  imports Conventions "HOL-Library.Multiset"
begin

text \<open>
  Sequence feeds, \<open>src/feed.rs\<close>: the exponential wave of probes ahead of the newest known
  update, the collection of a wave's answers in whatever order they complete, and the search for
  the frontier, both the plain one and the bounded one that starts with a fixed set of levels.
  The environment is a parameter: the answer of every probe (by wave, so answers may change over
  time; a time-out is the answer \<open>Transient\<close>) and the completion order of every wave.  The
  second part of the result lists the positives handed to the observer.
\<close>

section \<open>Probes\<close>

datatype 'a FeedProbe = Found 'a | Missing | Transient

definition feed_probe_of_option :: "'a option \<Rightarrow> 'a FeedProbe" where
  "feed_probe_of_option result = (case result of None \<Rightarrow> Missing | Some x \<Rightarrow> Found x)"

fun feed_probe_of_result :: "(unit, 'a option) outcome \<Rightarrow> 'a FeedProbe" where
  "feed_probe_of_result (Ok result) = feed_probe_of_option result"
| "feed_probe_of_result _ = Transient"

definition FEED_FRONTIER_LOOKAHEAD_LEVELS :: nat where
  "FEED_FRONTIER_LOOKAHEAD_LEVELS = 8"

definition BOUNDED_INITIAL_LEVELS :: "nat list" where
  "BOUNDED_INITIAL_LEVELS = [8, 7, 6, 5, 4, 3, 2, 0]"

definition probe_index :: "u64 \<Rightarrow> nat \<Rightarrow> u64 option" where
  "probe_index base level = (if level < 64 then checked_add base (2 ^ level - 1) else None)"

section \<open>Collecting a wave\<close>

type_synonym 'a completion = "nat \<times> u64 \<times> 'a FeedProbe"

record 'a wave =
  completed :: "bool list"
  missing :: "u64 option list"
  found :: "(u64 \<times> 'a) option list"

definition wave_start :: "'a wave" where
  "wave_start = \<lparr>completed = replicate 9 False, missing = replicate 9 None, found = replicate 9 None\<rparr>"

fun wave_record :: "'a completion \<Rightarrow> 'a wave \<Rightarrow> 'a wave" where
  "wave_record (level, index, result) wv =
     (let wv1 = wv\<lparr>completed := (completed wv)[level := True]\<rparr>
      in case result of
           Found payload \<Rightarrow> wv1\<lparr>found := (found wv1)[level := Some (index, payload)]\<rparr>
         | Missing \<Rightarrow> wv1\<lparr>missing := (missing wv1)[level := Some index]\<rparr>
         | Transient \<Rightarrow> wv1)"

definition observed_by :: "'a completion \<Rightarrow> (u64 \<times> 'a) list" where
  "observed_by c = (case snd (snd c) of Found payload \<Rightarrow> [(fst (snd c), payload)] | _ \<Rightarrow> [])"

fun collect_feed_wave ::
  "nat list \<Rightarrow> 'a completion list \<Rightarrow> 'a wave \<Rightarrow>
   (nat \<times> (u64 \<times> 'a) \<times> u64 option) option \<times> (u64 \<times> 'a) list" where
  "collect_feed_wave levels [] wv = (None, [])"
| "collect_feed_wave levels (c # rest) wv =
     (let wv1 = wave_record c wv;
          continue = (let (r, obs) = collect_feed_wave levels rest wv1 in (r, observed_by c @ obs))
      in case find (\<lambda>level. found wv1 ! level \<noteq> None) levels of
           None \<Rightarrow> continue
         | Some highest \<Rightarrow>
             if list_all (\<lambda>level. completed wv1 ! level) (filter (\<lambda>level. highest < level) levels)
             then (Some (highest, the (found wv1 ! highest),
                     if highest + 1 < length (missing wv1) then missing wv1 ! (highest + 1) else None),
                   observed_by c)
             else continue)"

section \<open>The frontier search\<close>

definition effective_level :: "u64 \<Rightarrow> nat \<Rightarrow> nat" where
  "effective_level base level_limit =
     (case find (\<lambda>level. probe_index base level \<noteq> None) (rev [1..<Suc level_limit]) of
        Some level \<Rightarrow> level | None \<Rightarrow> 1)"

definition wave_probes :: "(u64 \<Rightarrow> 'a FeedProbe) \<Rightarrow> u64 \<Rightarrow> nat list \<Rightarrow> 'a completion list" where
  "wave_probes answer base levels =
     concat (map (\<lambda>level. case probe_index base level of
                            None \<Rightarrow> []
                          | Some index \<Rightarrow> [(level, index, answer index)]) levels)"

record 'a feed_env =
  answer :: "nat \<Rightarrow> u64 \<Rightarrow> 'a FeedProbe"
  completion_order :: "nat \<Rightarrow> 'a completion list \<Rightarrow> 'a completion list"

text \<open>One pass of the loop: stop with a result, or continue with a new state.\<close>

datatype 'a pass =
  Stop "(u64 \<times> 'a) option \<times> u64" "(u64 \<times> 'a) list"
| Continue "u64 \<times> 'a" nat "u64 option" "(u64 \<times> 'a) list"

definition after_wave ::
  "'a feed_env \<Rightarrow> nat \<Rightarrow> u64 \<times> 'a \<Rightarrow> nat \<Rightarrow> u64 option \<Rightarrow>
   (nat \<times> (u64 \<times> 'a) \<times> u64 option) option \<Rightarrow> (u64 \<times> 'a) list \<Rightarrow> 'a pass" where
  "after_wave env w latest eff known_missing wv obs =
     (case wv of
        None \<Rightarrow>
          let nxt = saturating_add (fst latest) 1
          in (case answer env (2 * w + 1) nxt of
                Found payload \<Rightarrow>
                  Continue (nxt, payload) FEED_FRONTIER_LOOKAHEAD_LEVELS None (obs @ [(nxt, payload)])
              | _ \<Rightarrow> Stop (Some latest, nxt) obs)
      | Some (highest_found_level, hit, gap) \<Rightarrow>
          if highest_found_level = eff then
            (case known_missing of
               Some m \<Rightarrow>
                 if checked_add (fst hit) 1 = Some m then
                   (case answer env (2 * w + 1) m of
                      Found payload \<Rightarrow>
                        Continue (m, payload) FEED_FRONTIER_LOOKAHEAD_LEVELS None (obs @ [(m, payload)])
                    | _ \<Rightarrow> Stop (Some hit, m) obs)
                 else Continue hit FEED_FRONTIER_LOOKAHEAD_LEVELS None obs
             | None \<Rightarrow> Continue hit FEED_FRONTIER_LOOKAHEAD_LEVELS None obs)
          else
            (case gap of
               None \<Rightarrow> Continue hit FEED_FRONTIER_LOOKAHEAD_LEVELS None obs
             | Some m \<Rightarrow> Continue hit highest_found_level (Some m) obs))"

definition seek_pass :: "'a feed_env \<Rightarrow> nat \<Rightarrow> u64 \<times> 'a \<Rightarrow> nat \<Rightarrow> u64 option \<Rightarrow> 'a pass" where
  "seek_pass env w latest level_limit known_missing =
     (if fst latest = - 1 then Stop (Some latest, - 1) []
      else let eff = effective_level (fst latest) level_limit;
               levels = rev [1..<Suc eff];
               probes = wave_probes (answer env (2 * w)) (fst latest) levels;
               (wv, obs) = collect_feed_wave levels (completion_order env w probes) wave_start
           in after_wave env w latest eff known_missing wv obs)"

text \<open>The loop has no bound of its own: \<open>None\<close> would mean that it does not return.\<close>

partial_function (option) seek_loop ::
  "'a feed_env \<Rightarrow> nat \<Rightarrow> u64 \<times> 'a \<Rightarrow> nat \<Rightarrow> u64 option \<Rightarrow> (u64 \<times> 'a) list \<Rightarrow>
   (((u64 \<times> 'a) option \<times> u64) \<times> (u64 \<times> 'a) list) option" where
  "seek_loop env w latest level_limit known_missing obs =
     (case seek_pass env w latest level_limit known_missing of
        Stop r obs' \<Rightarrow> Some (r, obs @ obs')
      | Continue latest' limit' missing' obs' \<Rightarrow> seek_loop env (w + 1) latest' limit' missing' (obs @ obs'))"

declare seek_loop.simps [code]

definition bounded_probes :: "(u64 \<Rightarrow> 'a FeedProbe) \<Rightarrow> 'a completion list" where
  "bounded_probes answers =
     map (\<lambda>level. let index = (if level = 0 then 0 else the (probe_index 0 level))
                  in (level, index, answers index)) (rev BOUNDED_INITIAL_LEVELS)"

definition seek_sequence_feed_frontier_inner ::
  "'a feed_env \<Rightarrow> bool \<Rightarrow> (((u64 \<times> 'a) option \<times> u64) \<times> (u64 \<times> 'a) list) option" where
  "seek_sequence_feed_frontier_inner env bounded =
     (if bounded then
        let (wv, obs) = collect_feed_wave BOUNDED_INITIAL_LEVELS
                          (completion_order env 0 (bounded_probes (answer env 0))) wave_start
        in case wv of
             None \<Rightarrow> Some ((None, 0), obs)
           | Some (highest_found_level, latest, known_missing) \<Rightarrow>
               if highest_found_level = 0 \<or> highest_found_level = FEED_FRONTIER_LOOKAHEAD_LEVELS \<or>
                  known_missing = None
               then seek_loop env 1 latest FEED_FRONTIER_LOOKAHEAD_LEVELS None obs
               else seek_loop env 1 latest highest_found_level known_missing obs
      else case answer env 0 0 of
             Found payload \<Rightarrow>
               seek_loop env 1 (0, payload) FEED_FRONTIER_LOOKAHEAD_LEVELS None [(0, payload)]
           | _ \<Rightarrow> Some ((None, 0), []))"

section \<open>Feed addresses\<close>

definition sequence_index_bytes :: "u64 \<Rightarrow> bytes" where
  "sequence_index_bytes index = to_be_bytes index"

definition sequence_feed_id_with :: "(bytes \<Rightarrow> bytes) \<Rightarrow> bytes \<Rightarrow> u64 \<Rightarrow> bytes" where
  "sequence_feed_id_with keccak topic index = keccak (topic @ sequence_index_bytes index)"

definition sequence_feed_address :: "(bytes \<Rightarrow> bytes) \<Rightarrow> bytes \<Rightarrow> bytes \<Rightarrow> u64 \<Rightarrow> bytes" where
  "sequence_feed_address keccak topic owner index =
     keccak (sequence_feed_id_with keccak topic index @ owner)"

text \<open>
  \<open>get_feed_address\<close> of \<open>conventions.rs\<close>, over the hex crate's decoder: the empty
  address when the owner is not twenty bytes of hex or the topic is not non-empty hex.
\<close>

definition strip_hex_prefix :: "string \<Rightarrow> string" where
  "strip_hex_prefix v =
     (case v of c # x # rest \<Rightarrow> (if c = CHR ''0'' \<and> (x = CHR ''x'' \<or> x = CHR ''X'') then rest else v) | _ \<Rightarrow> v)"

definition get_feed_address ::
  "(bytes \<Rightarrow> bytes) \<Rightarrow> (string \<Rightarrow> bytes option) \<Rightarrow> string \<Rightarrow> string \<Rightarrow> u64 \<Rightarrow> bytes" where
  "get_feed_address keccak hex_decode owner topic index =
     (case hex_decode (strip_hex_prefix owner) of
        None \<Rightarrow> []
      | Some owner_bytes \<Rightarrow>
          if length owner_bytes \<noteq> 20 then []
          else case hex_decode (strip_hex_prefix topic) of
                 None \<Rightarrow> []
               | Some topic_bytes \<Rightarrow>
                   if topic_bytes = [] then []
                   else sequence_feed_address keccak topic_bytes owner_bytes index)"

section \<open>What a wave returns, in any completion order\<close>

definition wave_inv :: "'a completion list \<Rightarrow> 'a wave \<Rightarrow> bool" where
  "wave_inv seen wv \<longleftrightarrow>
     length (completed wv) = 9 \<and> length (missing wv) = 9 \<and> length (found wv) = 9 \<and>
     (\<forall>l<9. completed wv ! l \<longleftrightarrow> l \<in> fst ` set seen) \<and>
     (\<forall>l<9. \<forall>i p. found wv ! l = Some (i, p) \<longleftrightarrow> (l, i, Found p) \<in> set seen) \<and>
     (\<forall>l<9. \<forall>i. missing wv ! l = Some i \<longleftrightarrow> (l, i, Missing) \<in> set seen)"

definition wave_result :: "'a completion list \<Rightarrow> (nat \<times> (u64 \<times> 'a) \<times> u64 option) option \<Rightarrow> bool" where
  "wave_result all r \<longleftrightarrow>
     (case r of
        None \<Rightarrow> (\<forall>l i p. (l, i, Found p) \<notin> set all)
      | Some (h, (i, p), m) \<Rightarrow>
          (h, i, Found p) \<in> set all \<and> (\<forall>l j q. (l, j, Found q) \<in> set all \<longrightarrow> l \<le> h) \<and>
          (\<forall>j. m = Some j \<longleftrightarrow> (h + 1, j, Missing) \<in> set all))"

lemma wave_start_inv: "wave_inv [] wave_start"
  by (simp add: wave_inv_def wave_start_def)

lemma wave_record_inv:
  assumes "wave_inv seen wv" "fst c \<notin> fst ` set seen" "fst c < 9"
  shows "wave_inv (seen @ [c]) (wave_record c wv)"
proof -
  obtain l i r where c: "c = (l, i, r)" by (cases c)
  have fresh: "(l, j, x) \<notin> set seen" for j x using assms(2) c by force
  show ?thesis
    using assms(1,3) fresh unfolding c wave_inv_def
    by (cases r) (auto simp: nth_list_update)
qed

lemma find_first_sorted:
  assumes "sorted_wrt (>) ls" "find P ls = Some h"
  shows "h \<in> set ls" "P h" "\<forall>l \<in> set ls. P l \<longrightarrow> l \<le> (h :: nat)"
proof -
  from assms(2) obtain i where i: "i < length ls" "P (ls ! i)" "h = ls ! i" "\<forall>j<i. \<not> P (ls ! j)"
    by (auto simp: find_Some_iff)
  then show "h \<in> set ls" "P h" by auto
  show "\<forall>l \<in> set ls. P l \<longrightarrow> l \<le> h"
  proof (intro ballI impI)
    fix l assume "l \<in> set ls" "P l"
    then obtain j where j: "j < length ls" "ls ! j = l" by (auto simp: in_set_conv_nth)
    with i \<open>P l\<close> have "i \<le> j" by (metis not_le_imp_less)
    with j i assms(1) show "l \<le> h"
      by (cases "i = j") (auto simp: sorted_wrt_iff_nth_less less_imp_le)
  qed
qed

lemma collect_spec:
  assumes "sorted_wrt (>) levels"
  shows "wave_inv seen wv \<Longrightarrow> distinct (map fst (seen @ cs)) \<Longrightarrow> \<forall>c \<in> set (seen @ cs). fst c < 9 \<Longrightarrow>
    set levels = fst ` set (seen @ cs) \<Longrightarrow>
    \<forall>h i p. (h, i, Found p) \<in> set seen \<longrightarrow> (\<exists>c \<in> set cs. h < fst c) \<Longrightarrow>
    wave_result (seen @ cs) (fst (collect_feed_wave levels cs wv)) \<and>
    (\<forall>(i, p) \<in> set (snd (collect_feed_wave levels cs wv)). \<exists>l. (l, i, Found p) \<in> set cs)"
proof (induction cs arbitrary: seen wv)
  case Nil
  then show ?case by (auto simp: wave_result_def)
next
  case (Cons c cs)
  let ?wv = "wave_record c wv"
  have fresh: "fst c \<notin> fst ` set seen" "fst c < 9" using Cons.prems(2,3) by auto
  note inv = wave_record_inv [OF Cons.prems(1) fresh]
  have obs: "(i, p) \<in> set (observed_by c) \<Longrightarrow> c = (fst c, i, Found p)" for i p
    by (cases c) (auto simp: observed_by_def split: FeedProbe.splits)
  have obs_mem: "\<exists>l. (l, i, Found p) \<in> set (c # cs)" if "(i, p) \<in> set (observed_by c)" for i p
    using obs [OF that] by (metis list.set_intros(1))
  have l9: "l < 9" if "l \<in> set levels" for l using that Cons.prems(3,4) by auto
  have found: "found ?wv ! l \<noteq> None \<longleftrightarrow> (\<exists>i p. (l, i, Found p) \<in> set (seen @ [c]))" if "l < 9" for l
    using inv that unfolding wave_inv_def by (cases "found ?wv ! l") (force, force)
  have in_levels: "l \<in> set levels" if "(l, i, x) \<in> set (seen @ c # cs)" for l i x
    using that Cons.prems(4) by force
  have continue: "wave_result (seen @ c # cs) (fst (collect_feed_wave levels cs ?wv)) \<and>
      (\<forall>(i, p) \<in> set (observed_by c @ snd (collect_feed_wave levels cs ?wv)). \<exists>l. (l, i, Found p) \<in> set (c # cs))"
    if "\<forall>h i p. (h, i, Found p) \<in> set (seen @ [c]) \<longrightarrow> (\<exists>c \<in> set cs. h < fst c)"
  proof -
    from Cons.IH [OF inv] Cons.prems(2-4) that
    have "wave_result (seen @ c # cs) (fst (collect_feed_wave levels cs ?wv))"
      "\<forall>(i, p) \<in> set (snd (collect_feed_wave levels cs ?wv)). \<exists>l. (l, i, Found p) \<in> set cs" by auto
    moreover have "\<exists>l. (l, i, Found p) \<in> set (c # cs)"
      if "(i, p) \<in> set (observed_by c @ snd (collect_feed_wave levels cs ?wv))" for i p
    proof (cases "(i, p) \<in> set (observed_by c)")
      case True
      then show ?thesis by (rule obs_mem)
    next
      case False
      with that calculation(2) have "\<exists>l. (l, i, Found p) \<in> set cs" by auto
      then show ?thesis by auto
    qed
    ultimately show ?thesis by auto
  qed
  show ?case
  proof (cases "find (\<lambda>level. found ?wv ! level \<noteq> None) levels")
    case None
    have "(h, i, Found p) \<notin> set (seen @ [c])" for h i p
    proof
      assume m: "(h, i, Found p) \<in> set (seen @ [c])"
      then have "h \<in> set levels" using in_levels [of h i "Found p"] by auto
      moreover from this m have "found ?wv ! h \<noteq> None" using found [of h] l9 by blast
      ultimately show False using None by (auto simp: find_None_iff)
    qed
    with None continue show ?thesis by (auto simp: case_prod_beta Let_def)
  next
    case (Some h)
    note h = find_first_sorted [OF assms Some]
    have h9: "h < 9" using h(1) l9 by blast
    have le: "l \<le> h" if "(l, i, Found p) \<in> set (seen @ [c])" for l i p
      using h(3) found [of l] l9 [of l] in_levels [of l i "Found p"] that by auto
    show ?thesis
    proof (cases "list_all (\<lambda>level. completed ?wv ! level) (filter (\<lambda>level. h < level) levels)")
      case False
      then obtain l where l: "l \<in> set levels" "h < l" "\<not> completed ?wv ! l" by (auto simp: list_all_iff)
      then have "l \<notin> fst ` set (seen @ [c])" using inv l9 unfolding wave_inv_def by blast
      then have "\<exists>c \<in> set cs. l = fst c" using l(1) Cons.prems(4) by auto
      then obtain d where d: "d \<in> set cs" "fst d = l" by auto
      have "\<forall>h i p. (h, i, Found p) \<in> set (seen @ [c]) \<longrightarrow> (\<exists>c \<in> set cs. h < fst c)"
      proof (intro allI impI)
        fix h' i p assume "(h', i, Found p) \<in> set (seen @ [c])"
        from le [OF this] l(2) d show "\<exists>c \<in> set cs. h' < fst c" by (auto intro!: bexI [of _ d])
      qed
      with continue False Some show ?thesis by (simp add: case_prod_beta Let_def)
    next
      case True
      have over: "(l, j, x) \<in> set (seen @ [c])" if "(l, j, x) \<in> set (seen @ c # cs)" "h < l" for l j x
      proof -
        have "l \<in> set levels" using in_levels that(1) by blast
        with True that(2) have "completed ?wv ! l" by (auto simp: list_all_iff)
        then have "l \<in> fst ` set (seen @ [c])" using inv l9 \<open>l \<in> set levels\<close> unfolding wave_inv_def by blast
        with that(1) Cons.prems(2) show ?thesis by (auto simp: image_iff) force+
      qed
      obtain i p where ip: "found ?wv ! h = Some (i, p)" using h(2) by auto
      have "(h, i, Found p) \<in> set (seen @ [c])" using ip inv h9 unfolding wave_inv_def by blast
      moreover have "l \<le> h" if "(l, j, Found q) \<in> set (seen @ c # cs)" for l j q
        using over [OF that] le by (meson not_le_imp_less order_refl)
      moreover have "(if h + 1 < length (missing ?wv) then missing ?wv ! (h + 1) else None) = Some j \<longleftrightarrow>
          (h + 1, j, Missing) \<in> set (seen @ c # cs)" for j
      proof (cases "h + 1 < 9")
        case False
        then have "(h + 1, j, Missing) \<notin> set (seen @ c # cs)" using Cons.prems(3) by force
        with False inv show ?thesis by (simp add: wave_inv_def)
      next
        case lt: True
        have "missing ?wv ! (h + 1) = Some j \<longleftrightarrow> (h + 1, j, Missing) \<in> set (seen @ [c])"
          using inv lt unfolding wave_inv_def by blast
        moreover have "(h + 1, j, Missing) \<in> set (seen @ [c]) \<longleftrightarrow> (h + 1, j, Missing) \<in> set (seen @ c # cs)"
          using over [of "h + 1" j Missing] by auto
        ultimately show ?thesis using lt inv by (simp add: wave_inv_def)
      qed
      ultimately have "wave_result (seen @ c # cs) (Some (h, (i, p),
          if h + 1 < length (missing ?wv) then missing ?wv ! (h + 1) else None))"
        unfolding wave_result_def by auto
      moreover have "\<forall>(i, p) \<in> set (observed_by c). \<exists>l. (l, i, Found p) \<in> set (c # cs)"
        using obs_mem by blast
      ultimately show ?thesis using Some True ip by (simp add: Let_def)
    qed
  qed
qed

lemma collect_any_order:
  assumes "sorted_wrt (>) levels" "mset cs' = mset cs" "map fst cs = levels \<or> map fst cs = rev levels"
    and "\<forall>l \<in> set levels. l < 9"
  shows "wave_result cs (fst (collect_feed_wave levels cs' wave_start))"
    and "\<forall>(i, p) \<in> set (snd (collect_feed_wave levels cs' wave_start)). \<exists>l. (l, i, Found p) \<in> set cs"
proof -
  have set: "set cs' = set cs" using assms(2) by (rule mset_eq_setD)
  have lv: "set levels = fst ` set cs" using assms(3) by (metis list.set_map set_rev)
  have "distinct levels" using assms(1) by (simp add: sorted_wrt_iff_nth_less distinct_conv_nth) (metis less_irrefl nat_neq_iff)
  then have "distinct (map fst cs)" using assms(3) by (metis distinct_rev)
  then have "distinct (map fst cs')" using assms(2) by (metis mset_eq_imp_distinct_iff mset_map)
  with collect_spec [OF assms(1) wave_start_inv, of cs'] set lv assms(4)
  have r: "wave_result cs' (fst (collect_feed_wave levels cs' wave_start)) \<and>
    (\<forall>(i, p) \<in> set (snd (collect_feed_wave levels cs' wave_start)). \<exists>l. (l, i, Found p) \<in> set cs')" by auto
  then show "wave_result cs (fst (collect_feed_wave levels cs' wave_start))"
    by (simp add: wave_result_def set split: option.splits prod.splits)
  from r set show "\<forall>(i, p) \<in> set (snd (collect_feed_wave levels cs' wave_start)). \<exists>l. (l, i, Found p) \<in> set cs"
    by simp
qed

section \<open>The levels of a wave\<close>

lemma unat_pow_minus_1: "l < 64 \<Longrightarrow> unat (2 ^ l - 1 :: u64) = 2 ^ l - 1"
proof -
  assume l: "l < 64"
  have "(2 :: nat) ^ l < 2 ^ 64" using l by (intro power_strict_increasing) auto
  then have "unat (word_of_nat (2 ^ l) :: u64) = 2 ^ l" by (simp only: unat_of_nat len_num1 len_bit0) simp
  then have "unat (2 ^ l :: u64) = 2 ^ l" by simp
  moreover have "(1 :: u64) \<le> 2 ^ l" using calculation by (simp add: word_le_nat_alt)
  ultimately show ?thesis by (simp add: unat_sub)
qed

lemma probe_index_Some:
  "probe_index base l = Some i \<longleftrightarrow>
     l < 64 \<and> unat base + (2 ^ l - 1) < 2 ^ 64 \<and> unat i = unat base + (2 ^ l - 1)"
  by (auto simp: probe_index_def checked_add_Some unat_pow_minus_1)

lemma probe_index_mono:
  assumes "probe_index base l \<noteq> None" "l' \<le> l"
  shows "probe_index base l' \<noteq> None"
proof -
  obtain i where i: "l < 64" "unat base + (2 ^ l - 1) < 2 ^ 64" using assms(1) by (auto simp: probe_index_Some)
  have "(2 :: nat) ^ l' \<le> 2 ^ l" using assms(2) by (intro power_increasing) auto
  with i have "unat base + (2 ^ l' - 1) < 2 ^ 64" by linarith
  with i assms(2) have "checked_add base (2 ^ l' - 1) \<noteq> None"
    by (simp add: checked_add_None unat_pow_minus_1 not_le)
  with i(1) assms(2) show ?thesis by (simp add: probe_index_def)
qed

lemma u64_max_iff: "w = (- 1 :: u64) \<longleftrightarrow> unat w = 2 ^ 64 - 1"
  using unat_max_word [where 'a = 64] word_unat_eq_iff [of w "- 1"] by simp

lemma u64_not_max: "w \<noteq> (- 1 :: u64) \<Longrightarrow> unat w + 1 < 2 ^ 64"
proof -
  assume "w \<noteq> - 1"
  then have "unat w \<noteq> 18446744073709551615" unfolding u64_max_iff by simp
  with u64_le_max have "unat w < 18446744073709551615" by (rule le_neq_implies_less)
  then show ?thesis by simp
qed

lemma probe_index_1: "base \<noteq> - 1 \<Longrightarrow> probe_index base 1 \<noteq> None"
  using u64_not_max [of base] by (simp add: probe_index_def checked_add_None)

lemma effective_level_spec:
  assumes "base \<noteq> - 1" "1 \<le> limit"
  shows "1 \<le> effective_level base limit" "effective_level base limit \<le> limit"
    and "l \<le> effective_level base limit \<Longrightarrow> probe_index base l \<noteq> None"
    and "probe_index base limit \<noteq> None \<Longrightarrow> effective_level base limit = limit"
proof -
  let ?ls = "rev [1..<Suc limit]"
  have sorted: "sorted_wrt (>) ?ls" by (simp add: sorted_wrt_rev del: upt_Suc)
  have "find (\<lambda>level. probe_index base level \<noteq> None) ?ls \<noteq> None"
    using probe_index_1 [OF assms(1)] assms(2) unfolding find_None_iff by force
  then obtain h where h: "find (\<lambda>level. probe_index base level \<noteq> None) ?ls = Some h" by blast
  then have eff: "effective_level base limit = h" by (simp add: effective_level_def del: upt_Suc)
  note f = find_first_sorted [OF sorted h]
  from f(1) show "1 \<le> effective_level base limit" "effective_level base limit \<le> limit" by (auto simp: eff)
  show "probe_index base l \<noteq> None" if "l \<le> effective_level base limit"
    using f(2) that probe_index_mono by (simp add: eff)
  show "effective_level base limit = limit" if "probe_index base limit \<noteq> None"
    using f assms(2) that unfolding eff by (simp del: upt_Suc) (simp add: le_antisym)
qed

lemma wave_probes_spec:
  assumes "\<forall>l \<in> set levels. probe_index base l \<noteq> None"
  shows "map fst (wave_probes ans base levels) = levels"
    and "(l, i, x) \<in> set (wave_probes ans base levels) \<longleftrightarrow>
      l \<in> set levels \<and> probe_index base l = Some i \<and> x = ans i"
  using assms unfolding wave_probes_def
  by (induction levels) (auto split: option.splits)

text \<open>An environment whose completion orders only permute.\<close>

definition valid_env :: "'a feed_env \<Rightarrow> bool" where
  "valid_env env \<longleftrightarrow> (\<forall>w cs. mset (completion_order env w cs) = mset cs)"

lemma pass_wave:
  fixes env :: "'a feed_env" and ans :: "u64 \<Rightarrow> 'a FeedProbe"
  assumes "valid_env env" "base \<noteq> - 1" "1 \<le> limit" "limit \<le> 8"
  defines "eff \<equiv> effective_level base limit"
  defines "cs \<equiv> wave_probes ans base (rev [1..<Suc eff])"
  shows "wave_result cs (fst (collect_feed_wave (rev [1..<Suc eff]) (completion_order env w cs) wave_start))"
    and "\<forall>(i, p) \<in> set (snd (collect_feed_wave (rev [1..<Suc eff]) (completion_order env w cs) wave_start)).
      ans i = Found p"
    and "(l, i, x) \<in> set cs \<longleftrightarrow> 1 \<le> l \<and> l \<le> eff \<and> unat i = unat base + (2 ^ l - 1) \<and> x = ans i"
proof -
  note e = effective_level_spec [OF assms(2,3), folded eff_def]
  have idx: "\<forall>l \<in> set (rev [1..<Suc eff]). probe_index base l \<noteq> None" using e(3) by auto
  note pr = wave_probes_spec [OF idx, where ans = ans, folded cs_def]
  have m: "mset (completion_order env w cs) = mset cs" using assms(1) by (simp add: valid_env_def)
  have l9: "\<forall>l \<in> set (rev [1..<Suc eff]). l < 9" using e(2) assms(4) by auto
  have sorted: "sorted_wrt (>) (rev [1..<Suc eff])" by (simp add: sorted_wrt_rev del: upt_Suc)
  note c = collect_any_order [OF sorted m _ l9]
  show "wave_result cs (fst (collect_feed_wave (rev [1..<Suc eff]) (completion_order env w cs) wave_start))"
    using c(1) pr(1) by blast
  show "\<forall>(i, p) \<in> set (snd (collect_feed_wave (rev [1..<Suc eff]) (completion_order env w cs) wave_start)).
      ans i = Found p"
    using c(2) pr by fastforce
  show "(l, i, x) \<in> set cs \<longleftrightarrow> 1 \<le> l \<and> l \<le> eff \<and> unat i = unat base + (2 ^ l - 1) \<and> x = ans i"
    using pr(2) [of l i x] e(3) [of l] by (auto simp: probe_index_Some)
qed

section \<open>Every environment: the search returns\<close>

text \<open>One pass either stops just after a confirmed update or moves on to a later confirmed one.\<close>

definition confirmed :: "'a feed_env \<Rightarrow> u64 \<times> 'a \<Rightarrow> bool" where
  "confirmed env u \<longleftrightarrow> (\<exists>t. answer env t (fst u) = Found (snd u))"

definition pass_ok :: "'a feed_env \<Rightarrow> u64 \<times> 'a \<Rightarrow> 'a pass \<Rightarrow> bool" where
  "pass_ok env latest r \<longleftrightarrow>
     (case r of
        Stop (res, nxt) obs \<Rightarrow>
          (\<exists>u. res = Some u \<and> confirmed env u \<and> unat nxt = min (unat (fst u) + 1) (2 ^ 64 - 1)) \<and>
          (\<forall>u \<in> set obs. confirmed env u)
      | Continue latest' limit' _ obs \<Rightarrow>
          unat (fst latest) < unat (fst latest') \<and> confirmed env latest' \<and> 1 \<le> limit' \<and> limit' \<le> 8 \<and>
          (\<forall>u \<in> set obs. confirmed env u))"

lemma seek_pass_wave:
  assumes "fst latest \<noteq> - 1"
    and "collect_feed_wave (rev [1..<Suc (effective_level (fst latest) limit)])
      (completion_order env w (wave_probes (answer env (2 * w)) (fst latest)
        (rev [1..<Suc (effective_level (fst latest) limit)]))) wave_start = (wv, obs)"
  shows "seek_pass env w latest limit km =
    after_wave env w latest (effective_level (fst latest) limit) km wv obs"
  unfolding seek_pass_def Let_def assms(2) using assms(1) by simp

lemma seek_pass_ok:
  assumes env: "valid_env env" and latest: "confirmed env latest" and limit: "1 \<le> limit" "limit \<le> 8"
  shows "pass_ok env latest (seek_pass env w latest limit km)"
proof (cases "fst latest = - 1")
  case True
  then have "unat (fst latest) = 2 ^ 64 - 1" by (simp only: u64_max_iff)
  moreover have "unat (- 1 :: u64) = 2 ^ 64 - 1" using u64_max_iff by blast
  ultimately show ?thesis using True latest by (cases latest) (simp add: seek_pass_def pass_ok_def)
next
  case False
  let ?eff = "effective_level (fst latest) limit"
  let ?cs = "wave_probes (answer env (2 * w)) (fst latest) (rev [1..<Suc ?eff])"
  note pw = pass_wave(1,2) [OF env False limit, where ans = "answer env (2 * w)" and w = w]
    pass_wave(3) [OF env False limit, where ans = "answer env (2 * w)"]
  note e = effective_level_spec [OF False limit(1)]
  obtain wv obs where c: "collect_feed_wave (rev [1..<Suc ?eff]) (completion_order env w ?cs) wave_start = (wv, obs)"
    by (cases "collect_feed_wave (rev [1..<Suc ?eff]) (completion_order env w ?cs) wave_start")
  from pw(1) c have wr: "wave_result ?cs wv" by simp
  have obs: "confirmed env u" if "u \<in> set obs" for u
    using bspec [OF pw(2) [unfolded c snd_conv] that] by (auto simp: confirmed_def split: prod.splits)
  note lt = u64_not_max [OF False]
  then have nxt: "unat (saturating_add (fst latest) 1) = unat (fst latest) + 1"
    by (simp add: unat_saturating_add)
  note pass = seek_pass_wave [OF False c, of km] after_wave_def
  show ?thesis
  proof (cases wv)
    case None
    then show ?thesis
      using obs latest nxt lt unfolding pass(1)
      by (cases latest; cases "answer env (2 * w + 1) (saturating_add (fst latest) 1)")
        (auto simp: after_wave_def pass_ok_def confirmed_def FEED_FRONTIER_LOOKAHEAD_LEVELS_def Let_def)
  next
    case (Some hit)
    then obtain h i p m where wv: "wv = Some (h, (i, p), m)" by (cases hit) auto
    from wr wv have "(h, i, Found p) \<in> set ?cs" by (simp add: wave_result_def)
    with pw(3) have h: "1 \<le> h" "h \<le> ?eff" and i: "unat i = unat (fst latest) + (2 ^ h - 1)"
      and a: "answer env (2 * w) i = Found p" by (metis, metis, metis, metis)
    have "(2 :: nat) ^ 1 \<le> 2 ^ h" using h(1) by (intro power_increasing) auto
    with i have up: "unat (fst latest) < unat i" by simp
    have conf: "confirmed env (i, p)" using a by (auto simp: confirmed_def)
    have h8: "h \<le> 8" using h e(2) limit by linarith
    have next_ok: "unat m' = min (unat i + 1) (2 ^ 64 - 1) \<and> unat i < unat m'" if "checked_add i 1 = Some m'" for m'
      using that by (simp add: checked_add_Some)
    show ?thesis
      using up conf h h8 obs next_ok
      by (auto simp: pass wv pass_ok_def confirmed_def FEED_FRONTIER_LOOKAHEAD_LEVELS_def Let_def
          split: option.splits FeedProbe.splits)
  qed
qed

lemma seek_loop_total:
  assumes env: "valid_env env"
  shows "confirmed env latest \<Longrightarrow> 1 \<le> limit \<Longrightarrow> limit \<le> 8 \<Longrightarrow> \<forall>u \<in> set obs. confirmed env u \<Longrightarrow>
    \<exists>u nxt obs'. seek_loop env w latest limit km obs = Some ((Some u, nxt), obs') \<and> confirmed env u \<and>
      unat nxt = min (unat (fst u) + 1) (2 ^ 64 - 1) \<and> (\<forall>u \<in> set obs'. confirmed env u)"
proof (induction "2 ^ 64 - unat (fst latest)" arbitrary: w latest limit km obs rule: less_induct)
  case less
  note ok = seek_pass_ok [OF env less.prems(1-3), of w km]
  show ?case
  proof (cases "seek_pass env w latest limit km")
    case (Stop r obs')
    then show ?thesis
      using ok less.prems(4) by (cases r) (auto simp: seek_loop.simps [of env w] pass_ok_def)
  next
    case (Continue latest' limit' km' obs')
    with ok have n: "unat (fst latest) < unat (fst latest')" "confirmed env latest'" "1 \<le> limit'" "limit' \<le> 8"
      "\<forall>u \<in> set obs'. confirmed env u" by (auto simp: pass_ok_def)
    have "2 ^ 64 - unat (fst latest') < 2 ^ 64 - unat (fst latest)"
      using n(1) u64_bound [of "fst latest'"] by (simp del: u64_bound add: diff_less_mono2)
    moreover have "\<forall>u \<in> set (obs @ obs'). confirmed env u" using n(5) less.prems(4) by auto
    ultimately show ?thesis
      using less.hyps [OF _ n(2-4), of "obs @ obs'" "w + 1" km'] Continue
      by (simp add: seek_loop.simps [of env w])
  qed
qed

lemma bounded_wave:
  assumes "valid_env env"
  shows "wave_result (bounded_probes ans)
      (fst (collect_feed_wave BOUNDED_INITIAL_LEVELS (completion_order env 0 (bounded_probes ans)) wave_start))"
    and "\<forall>(i, p) \<in> set (snd (collect_feed_wave BOUNDED_INITIAL_LEVELS
      (completion_order env 0 (bounded_probes ans)) wave_start)). ans i = Found p"
    and "(l, i, x) \<in> set (bounded_probes ans) \<longleftrightarrow>
      l \<in> set BOUNDED_INITIAL_LEVELS \<and> unat i = 2 ^ l - 1 \<and> x = ans i"
proof -
  have sorted: "sorted_wrt (>) BOUNDED_INITIAL_LEVELS" "\<forall>l \<in> set BOUNDED_INITIAL_LEVELS. l < 9"
    by (simp_all add: BOUNDED_INITIAL_LEVELS_def)
  have m: "mset (completion_order env 0 (bounded_probes ans)) = mset (bounded_probes ans)"
    using assms by (simp add: valid_env_def)
  have f: "map fst (bounded_probes ans) = rev BOUNDED_INITIAL_LEVELS"
    by (simp add: bounded_probes_def Let_def comp_def)
  note c = collect_any_order [OF sorted(1) m _ sorted(2)]
  show "wave_result (bounded_probes ans)
      (fst (collect_feed_wave BOUNDED_INITIAL_LEVELS (completion_order env 0 (bounded_probes ans)) wave_start))"
    using c(1) f by blast
  have idx: "unat (if l = 0 then 0 else the (probe_index 0 l)) = 2 ^ l - 1" if "l < 9" for l
  proof (cases "l = 0")
    case False
    have "(2 :: nat) ^ l \<le> 2 ^ 8" using that by (intro power_increasing) auto
    then have "(2 :: nat) ^ l - 1 < 2 ^ 64" by simp
    then have "checked_add 0 (2 ^ l - 1) \<noteq> (None :: u64 option)"
      using that by (simp only: checked_add_None unat_pow_minus_1) simp
    moreover have "l < 64" using that by simp
    ultimately obtain i where "probe_index 0 l = Some i" by (auto simp: probe_index_def)
    moreover from this have "unat i = 2 ^ l - 1" by (simp add: probe_index_Some)
    ultimately show ?thesis using False by simp
  qed simp
  show mem: "(l, i, x) \<in> set (bounded_probes ans) \<longleftrightarrow>
      l \<in> set BOUNDED_INITIAL_LEVELS \<and> unat i = 2 ^ l - 1 \<and> x = ans i" for l i x
  proof -
    have "(l, i, x) \<in> set (bounded_probes ans) \<longleftrightarrow> l \<in> set BOUNDED_INITIAL_LEVELS \<and>
        i = (if l = 0 then 0 else the (probe_index 0 l)) \<and> x = ans i"
      by (auto simp: bounded_probes_def Let_def)
    also have "\<dots> \<longleftrightarrow> l \<in> set BOUNDED_INITIAL_LEVELS \<and> unat i = 2 ^ l - 1 \<and> x = ans i"
    proof (cases "l \<in> set BOUNDED_INITIAL_LEVELS")
      case True
      then have "unat (if l = 0 then 0 else the (probe_index 0 l)) = 2 ^ l - 1" using idx sorted(2) by blast
      then show ?thesis using word_unat_eq_iff [of i "if l = 0 then 0 else the (probe_index 0 l)"] by presburger
    qed simp
    finally show ?thesis .
  qed
  show "\<forall>(i, p) \<in> set (snd (collect_feed_wave BOUNDED_INITIAL_LEVELS
      (completion_order env 0 (bounded_probes ans)) wave_start)). ans i = Found p"
    using c(2) f mem by fastforce
qed

section \<open>A contiguous feed: the search finds its end\<close>

text \<open>A feed of \<open>n\<close> updates, indices \<open>0\<close> to \<open>n - 1\<close>, that answers every probe.\<close>

definition contiguous :: "'a feed_env \<Rightarrow> nat \<Rightarrow> (u64 \<Rightarrow> 'a) \<Rightarrow> bool" where
  "contiguous env n payload \<longleftrightarrow>
     valid_env env \<and> n \<le> 2 ^ 64 \<and>
     (\<forall>t i. answer env t i = (if unat i < n then Found (payload i) else Missing))"

definition at_end :: "nat \<Rightarrow> (u64 \<Rightarrow> 'a) \<Rightarrow> (u64 \<times> 'a) option \<times> u64 \<Rightarrow> bool" where
  "at_end n payload r \<longleftrightarrow>
     (\<exists>i. fst r = Some (i, payload i) \<and> unat i = n - 1 \<and> unat (snd r) = min n (2 ^ 64 - 1))"

text \<open>What the loop keeps: a known missing index lies exactly one window above the newest update.\<close>

definition seek_inv :: "nat \<Rightarrow> (u64 \<Rightarrow> 'a) \<Rightarrow> u64 \<times> 'a \<Rightarrow> nat \<Rightarrow> u64 option \<Rightarrow> bool" where
  "seek_inv n payload latest limit km \<longleftrightarrow>
     unat (fst latest) < n \<and> snd latest = payload (fst latest) \<and> 1 \<le> limit \<and> limit \<le> 8 \<and>
     (\<forall>m. km = Some m \<longrightarrow> unat m = unat (fst latest) + 2 ^ limit \<and> n \<le> unat m)"

definition pass_exact :: "nat \<Rightarrow> (u64 \<Rightarrow> 'a) \<Rightarrow> u64 \<times> 'a \<Rightarrow> 'a pass \<Rightarrow> bool" where
  "pass_exact n payload latest r \<longleftrightarrow>
     (case r of
        Stop res _ \<Rightarrow> at_end n payload res
      | Continue latest' limit' km' _ \<Rightarrow>
          seek_inv n payload latest' limit' km' \<and> unat (fst latest) < unat (fst latest'))"

lemma known_missing_window:
  assumes "unat (m :: u64) = unat base + 2 ^ limit" "1 \<le> limit" "limit \<le> 8" "base \<noteq> - 1"
  shows "effective_level base limit = limit"
proof (rule effective_level_spec(4) [OF assms(4,2)])
  have "unat base + 2 ^ limit < 2 ^ 64" using assms(1) u64_bound [of m] by (simp del: u64_bound)
  then have "unat base + (2 ^ limit - 1) < 2 ^ 64" by linarith
  then have "checked_add base (2 ^ limit - 1) \<noteq> None"
    using assms(3) by (simp only: checked_add_None unat_pow_minus_1) simp
  then show "probe_index base limit \<noteq> None" using assms(3) by (simp add: probe_index_def)
qed

lemma seek_pass_exact:
  assumes feed: "contiguous env n payload" and inv: "seek_inv n payload latest limit km"
  shows "pass_exact n payload latest (seek_pass env w latest limit km)"
proof (cases "fst latest = - 1")
  case True
  then have "unat (fst latest) = 2 ^ 64 - 1" by (simp only: u64_max_iff)
  moreover have "unat (fst latest) < n" "n \<le> 2 ^ 64" "snd latest = payload (fst latest)"
    using inv feed by (auto simp: seek_inv_def contiguous_def)
  ultimately have "at_end n payload (Some latest, - 1)"
    using True by (cases latest) (simp add: at_end_def)
  then show ?thesis using True by (simp add: seek_pass_def pass_exact_def)
next
  case False
  have env: "valid_env env" and n64: "n \<le> 2 ^ 64"
    and ans: "\<And>t i. answer env t i = (if unat i < n then Found (payload i) else Missing)"
    using feed by (auto simp: contiguous_def)
  from inv have l: "unat (fst latest) < n" "snd latest = payload (fst latest)" "1 \<le> limit" "limit \<le> 8"
    and km: "\<And>m. km = Some m \<Longrightarrow> unat m = unat (fst latest) + 2 ^ limit \<and> n \<le> unat m"
    by (auto simp: seek_inv_def)
  let ?eff = "effective_level (fst latest) limit"
  let ?cs = "wave_probes (answer env (2 * w)) (fst latest) (rev [1..<Suc ?eff])"
  note pw = pass_wave(1) [OF env False l(3,4), where ans = "answer env (2 * w)" and w = w]
    pass_wave(3) [OF env False l(3,4), where ans = "answer env (2 * w)"]
  note e = effective_level_spec [OF False l(3)]
  obtain wv obs where c: "collect_feed_wave (rev [1..<Suc ?eff]) (completion_order env w ?cs) wave_start = (wv, obs)"
    by (cases "collect_feed_wave (rev [1..<Suc ?eff]) (completion_order env w ?cs) wave_start")
  from pw(1) c have wr: "wave_result ?cs wv" by simp
  have probe: "\<exists>i. (k, i, answer env (2 * w) i) \<in> set ?cs \<and> unat i = unat (fst latest) + (2 ^ k - 1)"
    if k: "1 \<le> k" "k \<le> ?eff" for k
  proof -
    obtain i where "probe_index (fst latest) k = Some i" using e(3) [OF k(2)] by blast
    then have "unat i = unat (fst latest) + (2 ^ k - 1)" by (simp add: probe_index_Some)
    with k pw(2) show ?thesis by blast
  qed
  note lt = u64_not_max [OF False]
  then have nxt: "unat (saturating_add (fst latest) 1) = unat (fst latest) + 1"
    by (simp add: unat_saturating_add)
  note pass = seek_pass_wave [OF False c, of km] after_wave_def
  show ?thesis
  proof (cases wv)
    case None
    obtain i where i: "(1, i, answer env (2 * w) i) \<in> set ?cs" "unat i = unat (fst latest) + 1"
      using probe [of 1] e(1) by auto
    with wr None ans [of "2 * w" i] have "\<not> unat i < n" by (auto simp: wave_result_def split: if_splits)
    then have end_n: "n = unat (fst latest) + 1" using l(1) i(2) by simp
    then have "answer env (2 * w + 1) (saturating_add (fst latest) 1) = Missing" using nxt ans by simp
    then have "seek_pass env w latest limit km = Stop (Some latest, saturating_add (fst latest) 1) obs"
      using None by (simp add: pass Let_def)
    moreover have "at_end n payload (Some latest, saturating_add (fst latest) 1)"
      using end_n nxt lt l(2) by (cases latest) (simp add: at_end_def)
    ultimately show ?thesis by (simp add: pass_exact_def)
  next
    case (Some hit)
    then obtain h i p m where wv: "wv = Some (h, (i, p), m)" by (cases hit) auto
    have mem: "(h, i, Found p) \<in> set ?cs" and top: "\<And>k j q. (k, j, Found q) \<in> set ?cs \<Longrightarrow> k \<le> h"
      and gap: "\<And>j. m = Some j \<longleftrightarrow> (h + 1, j, Missing) \<in> set ?cs"
      using wr wv by (auto simp: wave_result_def)
    from mem pw(2) have h: "1 \<le> h" "h \<le> ?eff" and i: "unat i = unat (fst latest) + (2 ^ h - 1)"
      and a: "answer env (2 * w) i = Found p" by (metis, metis, metis, metis)
    have hit_n: "unat i < n" "p = payload i" using a ans [of "2 * w" i] by (auto split: if_splits)
    have h2: "(2 :: nat) \<le> 2 ^ h" using h(1) power_increasing [of 1 h "2 :: nat"] by simp
    then have up: "unat (fst latest) < unat i" using i by simp
    have h8: "h \<le> 8" using h e(2) l(4) by linarith
    show ?thesis
    proof (cases "h = ?eff")
      case True
      show ?thesis
      proof (cases "\<exists>k. km = Some k")
        case kSome: True
        then obtain k where k: "km = Some k" by blast
        have w: "unat k = unat (fst latest) + 2 ^ limit" "n \<le> unat k" using km [OF k] by auto
        have "?eff = limit" using w(1) l(3,4) False by (rule known_missing_window)
        then have ik: "unat k = unat i + 1" using w(1) i True h2 by simp
        then have add: "checked_add i 1 = Some k" using u64_bound [of k] by (simp add: checked_add_Some del: u64_bound)
        have "answer env (2 * w + 1) k = Missing" using w(2) ans by simp
        then have "seek_pass env w latest limit km = Stop (Some (i, p), k) obs"
          using wv True k add unfolding pass(1) by (simp add: after_wave_def)
        moreover have "at_end n payload (Some (i, p), k)"
          using hit_n w(2) ik u64_le_max [of k] by (simp add: at_end_def del: u64_le_max)
        ultimately show ?thesis by (simp add: pass_exact_def)
      next
        case kNone: False
        then have "seek_pass env w latest limit km = Continue (i, p) 8 None obs"
          using wv True unfolding pass(1)
          by (simp add: after_wave_def FEED_FRONTIER_LOOKAHEAD_LEVELS_def split: option.splits)
        then show ?thesis using hit_n up by (simp add: pass_exact_def seek_inv_def)
      qed
    next
      case less: False
      with h(2) have "h + 1 \<le> ?eff" by simp
      with probe [of "h + 1"] obtain j where j: "(h + 1, j, answer env (2 * w) j) \<in> set ?cs"
        "unat j = unat (fst latest) + (2 ^ (h + 1) - 1)" by auto
      have jn: "\<not> unat j < n"
      proof
        assume "unat j < n"
        with j(1) ans have "(h + 1, j, Found (payload j)) \<in> set ?cs" by simp
        from top [OF this] show False by simp
      qed
      with j(1) ans gap have m: "m = Some j" by simp
      then have "seek_pass env w latest limit km = Continue (i, p) h (Some j) obs"
        using wv less by (simp add: pass Let_def)
      moreover have "unat j = unat i + 2 ^ h" using j(2) i h2 by simp
      ultimately show ?thesis using hit_n up h h8 jn by (simp add: pass_exact_def seek_inv_def)
    qed
  qed
qed

lemma seek_loop_exact:
  assumes feed: "contiguous env n payload"
  shows "seek_inv n payload latest limit km \<Longrightarrow>
    \<exists>r obs'. seek_loop env w latest limit km obs = Some (r, obs') \<and> at_end n payload r"
proof (induction "2 ^ 64 - unat (fst latest)" arbitrary: w latest limit km obs rule: less_induct)
  case less
  note ok = seek_pass_exact [OF feed less.prems(1), of w]
  show ?case
  proof (cases "seek_pass env w latest limit km")
    case (Stop r obs')
    then show ?thesis using ok by (simp add: seek_loop.simps [of env w] pass_exact_def)
  next
    case (Continue latest' limit' km' obs')
    with ok have n: "unat (fst latest) < unat (fst latest')" "seek_inv n payload latest' limit' km'"
      by (auto simp: pass_exact_def)
    have "2 ^ 64 - unat (fst latest') < 2 ^ 64 - unat (fst latest)"
      using n(1) u64_bound [of "fst latest'"] by (simp del: u64_bound add: diff_less_mono2)
    from less.hyps [OF this n(2)] Continue show ?thesis
      by (simp add: seek_loop.simps [of env w])
  qed
qed

lemma seek_returns_confirmed:
  assumes "valid_env env"
  shows "\<exists>r obs. seek_sequence_feed_frontier_inner env bounded = Some (r, obs) \<and>
    (r = (None, 0) \<or>
     (\<exists>u nxt. r = (Some u, nxt) \<and> confirmed env u \<and> unat nxt = min (unat (fst u) + 1) (2 ^ 64 - 1))) \<and>
    (\<forall>u \<in> set obs. confirmed env u)"
proof (cases bounded)
  case False
  show ?thesis
  proof (cases "answer env 0 0")
    case (Found p)
    then have "confirmed env (0, p)" by (auto simp: confirmed_def)
    with seek_loop_total [OF assms this, of 8 "[(0, p)]" 1 None] Found False show ?thesis
      by (fastforce simp: seek_sequence_feed_frontier_inner_def FEED_FRONTIER_LOOKAHEAD_LEVELS_def)
  qed (use False in \<open>simp_all add: seek_sequence_feed_frontier_inner_def\<close>)
next
  case True
  obtain wv obs where c: "collect_feed_wave BOUNDED_INITIAL_LEVELS
      (completion_order env 0 (bounded_probes (answer env 0))) wave_start = (wv, obs)"
    by (cases "collect_feed_wave BOUNDED_INITIAL_LEVELS
      (completion_order env 0 (bounded_probes (answer env 0))) wave_start")
  note bw = bounded_wave [OF assms, where ans = "answer env 0"]
  have obs: "\<forall>u \<in> set obs. confirmed env u" using bw(2) c by (auto simp: confirmed_def split: prod.splits) blast
  show ?thesis
  proof (cases wv)
    case None
    with True c obs show ?thesis by (simp add: seek_sequence_feed_frontier_inner_def)
  next
    case (Some hit)
    then obtain h i p m where wv: "wv = Some (h, (i, p), m)" by (cases hit) auto
    have "(h, i, Found p) \<in> set (bounded_probes (answer env 0))"
      using bw(1) c wv by (simp add: wave_result_def)
    with bw(3) have "h \<in> set BOUNDED_INITIAL_LEVELS" "answer env 0 i = Found p" by (metis, metis)
    then have h: "h \<le> 8" and conf: "confirmed env (i, p)"
      by (auto simp: BOUNDED_INITIAL_LEVELS_def confirmed_def)
    from True c wv h
      seek_loop_total [OF assms conf, of 8 obs 1 None] seek_loop_total [OF assms conf, of h obs 1 m] obs
    show ?thesis
      by (cases "h = 0 \<or> h = 8 \<or> m = None")
        (fastforce simp: seek_sequence_feed_frontier_inner_def FEED_FRONTIER_LOOKAHEAD_LEVELS_def Let_def)+
  qed
qed

lemma seek_contiguous:
  assumes "contiguous env n payload"
  shows "\<exists>r obs. seek_sequence_feed_frontier_inner env bounded = Some (r, obs) \<and>
    (if n = 0 then r = (None, 0) else at_end n payload r)"
proof -
  have env: "valid_env env" and ans: "\<And>t i. answer env t i = (if unat i < n then Found (payload i) else Missing)"
    using assms by (auto simp: contiguous_def)
  show ?thesis
  proof (cases bounded)
    case False
    have "seek_inv n payload (0, payload 0) 8 None" if "n \<noteq> 0" using that by (simp add: seek_inv_def)
    with seek_loop_exact [OF assms, of "(0, payload 0)" 8 None 1 "[(0, payload 0)]"] False ans [of 0 0]
    show ?thesis
      by (cases "n = 0") (auto simp: seek_sequence_feed_frontier_inner_def FEED_FRONTIER_LOOKAHEAD_LEVELS_def)
  next
    case True
    let ?bp = "bounded_probes (answer env 0)"
    obtain wv obs where c: "collect_feed_wave BOUNDED_INITIAL_LEVELS (completion_order env 0 ?bp) wave_start = (wv, obs)"
      by (cases "collect_feed_wave BOUNDED_INITIAL_LEVELS (completion_order env 0 ?bp) wave_start")
    note bw = bounded_wave [OF env, where ans = "answer env 0"]
    have wr: "wave_result ?bp wv" using bw(1) c by simp
    have zero: "(0, 0, answer env 0 0) \<in> set ?bp" using bw(3) by (simp add: BOUNDED_INITIAL_LEVELS_def)
    show ?thesis
    proof (cases wv)
      case None
      with wr zero ans [of 0 0] have "n = 0" by (auto simp: wave_result_def split: if_splits)
      with True c None show ?thesis by (simp add: seek_sequence_feed_frontier_inner_def)
    next
      case (Some hit)
      then obtain h i p m where wv: "wv = Some (h, (i, p), m)" by (cases hit) auto
      have mem: "(h, i, Found p) \<in> set ?bp" and top: "\<And>k j q. (k, j, Found q) \<in> set ?bp \<Longrightarrow> k \<le> h"
        and gap: "\<And>j. m = Some j \<longleftrightarrow> (h + 1, j, Missing) \<in> set ?bp"
        using wr wv by (auto simp: wave_result_def)
      from mem bw(3) have h: "h \<in> set BOUNDED_INITIAL_LEVELS" and i: "unat i = 2 ^ h - 1"
        and a: "answer env 0 i = Found p" by (metis, metis, metis)
      have hit_n: "unat i < n" "p = payload i" using a ans [of 0 i] by (auto split: if_splits)
      have inv: "seek_inv n payload (i, p) h m" if "h \<noteq> 0" "h \<noteq> 8" "m \<noteq> None"
      proof -
        from that(3) obtain j where j: "m = Some j" by blast
        then have "(h + 1, j, Missing) \<in> set ?bp" using gap by blast
        with bw(3) have "unat j = 2 ^ (h + 1) - 1" "answer env 0 j = Missing" by (metis, metis)
        moreover from this have "n \<le> unat j" using ans [of 0 j] by (auto split: if_splits)
        moreover have "1 \<le> h" "h \<le> 8" using h that by (auto simp: BOUNDED_INITIAL_LEVELS_def)
        moreover have "(1 :: nat) \<le> 2 ^ h" by simp
        ultimately show ?thesis using hit_n i j by (simp add: seek_inv_def)
      qed
      have inv8: "seek_inv n payload (i, p) 8 None" using hit_n by (simp add: seek_inv_def)
      have n0: "n \<noteq> 0" using hit_n by auto
      show ?thesis
      proof (cases "h = 0 \<or> h = 8 \<or> m = None")
        case a: True
        with seek_loop_exact [OF assms inv8, of 1 obs] True c wv n0 show ?thesis
          by (simp add: seek_sequence_feed_frontier_inner_def FEED_FRONTIER_LOOKAHEAD_LEVELS_def Let_def)
      next
        case False
        with seek_loop_exact [OF assms inv, of 1 obs] True c wv n0 show ?thesis
          by (auto simp: seek_sequence_feed_frontier_inner_def FEED_FRONTIER_LOOKAHEAD_LEVELS_def Let_def)
      qed
    qed
  qed
qed

section \<open>Properties\<close>

text \<open>
  C26.  The frontier search, plain or bounded, returns in every environment (any answers, also
  ones that change between waves or time out, in any completion order); the update it returns was
  found by a probe, the index it returns is the one just after it, and every positive handed to
  the observer was found by a probe.  When nothing is found it returns nothing and index zero.
\<close>

theorem feed_seek_total:
  assumes "valid_env env"
  shows "\<exists>r obs. seek_sequence_feed_frontier_inner env bounded = Some (r, obs) \<and>
    (r = (None, 0) \<or>
     (\<exists>u nxt. r = (Some u, nxt) \<and> confirmed env u \<and> unat nxt = min (unat (fst u) + 1) (2 ^ 64 - 1))) \<and>
    (\<forall>u \<in> set obs. confirmed env u)"
  by (rule seek_returns_confirmed [OF assms])

text \<open>A feed of three updates that answers waves last probe first.\<close>

definition three_updates :: "u64 feed_env" where
  "three_updates = \<lparr>answer = \<lambda>t i. if unat i < 3 then Found i else Missing, completion_order = \<lambda>w cs. rev cs\<rparr>"

lemma three_updates_contiguous: "contiguous three_updates 3 (\<lambda>i. i)"
  by (simp add: contiguous_def three_updates_def valid_env_def)

theorem feed_seek_total_witness:
  "\<exists>r obs. seek_sequence_feed_frontier_inner three_updates True = Some (r, obs)"
proof -
  have "valid_env three_updates" using three_updates_contiguous by (simp add: contiguous_def)
  from feed_seek_total [OF this, of True] show ?thesis by blast
qed

text \<open>
  C6.  On a contiguous feed that answers, the search is exact in every completion order: with
  \<open>n\<close> updates it returns the last one and the index \<open>n\<close> of the next (the largest index when
  the index space is full), and on an empty feed nothing and zero.
\<close>

theorem feed_frontier_exact:
  assumes "contiguous env n payload"
  shows "\<exists>r obs. seek_sequence_feed_frontier_inner env bounded = Some (r, obs) \<and>
    (if n = 0 then r = (None, 0) else at_end n payload r)"
  by (rule seek_contiguous [OF assms])

theorem feed_frontier_exact_witness:
  "\<exists>r obs. seek_sequence_feed_frontier_inner three_updates False = Some (r, obs) \<and> r = (Some (2, 2), 3)"
proof -
  from feed_frontier_exact [OF three_updates_contiguous, of False] obtain r obs where
    r: "seek_sequence_feed_frontier_inner three_updates False = Some (r, obs)" "at_end 3 (\<lambda>i. i) r" by auto
  from r(2) obtain i where i: "fst r = Some (i, i)" "unat i = 2" "unat (snd r) = 3"
    by (auto simp: at_end_def)
  from i have "i = 2" "snd r = 3" by (simp_all add: word_unat_eq_iff)
  with i(1) r(1) show ?thesis by (intro exI [of _ r] exI [of _ obs]) (simp add: prod_eq_iff)
qed

text \<open>
  Feed addressing separates updates: if the hash function has no collision on the two
  preimages of each step, different indices of one topic and owner have different addresses.
\<close>

theorem feed_address_separates:
  assumes "inj_on keccak {tb @ sequence_index_bytes i, tb @ sequence_index_bytes j}"
    and "inj_on keccak {sequence_feed_id_with keccak tb i @ ob, sequence_feed_id_with keccak tb j @ ob}"
    and "hex_decode (strip_hex_prefix owner) = Some ob" "length ob = 20"
    and "hex_decode (strip_hex_prefix topic) = Some tb" "tb \<noteq> []"
    and "get_feed_address keccak hex_decode owner topic i = get_feed_address keccak hex_decode owner topic j"
  shows "i = j"
proof -
  let ?id = "sequence_feed_id_with keccak tb"
  have "keccak (?id i @ ob) = keccak (?id j @ ob)"
    using assms(3-7) by (simp add: get_feed_address_def sequence_feed_address_def)
  then have "?id i @ ob = ?id j @ ob" by (rule inj_onD [OF assms(2)]) simp_all
  then have "keccak (tb @ sequence_index_bytes i) = keccak (tb @ sequence_index_bytes j)"
    by (simp add: sequence_feed_id_with_def)
  then have "tb @ sequence_index_bytes i = tb @ sequence_index_bytes j"
    by (rule inj_onD [OF assms(1)]) simp_all
  then show ?thesis by (simp add: sequence_index_bytes_def)
qed

theorem feed_address_separates_witness:
  "get_feed_address (\<lambda>x. x) (\<lambda>s. Some (replicate 20 7)) ''0xaa'' ''bb'' 1 \<noteq>
   get_feed_address (\<lambda>x. x) (\<lambda>s. Some (replicate 20 7)) ''0xaa'' ''bb'' 2"
  using feed_address_separates [of "\<lambda>x. x" "replicate 20 7" 1 2 "replicate 20 7" "\<lambda>s. Some (replicate 20 7)" "''0xaa''" "''bb''"]
  by auto

end
