(* ===== verification/F64.thy ===== *)
theory F64
  imports Complex_Main Prelude
begin

text \<open>
  The \<open>f64\<close> of the Rust sources: IEEE 754 binary64 values with round-to-nearest-even
  arithmetic, as an executable datatype.  A finite value is a sign bit and the exact rational
  magnitude it denotes; \<open>round_mag\<close> is the rounding of an exact magnitude to the format
  (53 bits of significand, least exponent -1074, overflow to infinity at 2 to the 1024).
  All NaNs are one value.  Playlist durations, the dial bucket's tokens and the millisecond
  clock are values of this type.
\<close>

section \<open>Format and rounding\<close>

datatype f64 = F64NaN | F64Inf bool | F64Fin bool rat

definition pow2i :: "int \<Rightarrow> rat" where
  "pow2i e = (if 0 \<le> e then 2 ^ nat e else 1 / 2 ^ nat (- e))"

text \<open>The exponent of the leading bit of a positive integer, and of a positive rational.\<close>

function ilog2 :: "int \<Rightarrow> int" where
  "ilog2 n = (if n \<le> 1 then 0 else 1 + ilog2 (n div 2))"
  by pat_completeness auto
termination
  by (relation "measure nat") auto

declare ilog2.simps [simp del]

definition lead_exp :: "rat \<Rightarrow> int" where
  "lead_exp m =
     (let (p, q) = quotient_of m; e = ilog2 p - ilog2 q
      in if pow2i e \<le> m then e else e - 1)"

definition round_half_even :: "rat \<Rightarrow> int" where
  "round_half_even x =
     (let n = \<lfloor>x\<rfloor>; r = x - of_int n
      in if r < 1 / 2 then n else if 1 / 2 < r then n + 1
         else if even n then n else n + 1)"

definition ulp_of :: "rat \<Rightarrow> rat" where
  "ulp_of m = pow2i (max (lead_exp m) (- 1022) - 52)"

definition round_mag :: "bool \<Rightarrow> rat \<Rightarrow> f64" where
  "round_mag s m =
     (if m \<le> 0 then F64Fin s 0
      else let u = ulp_of m; v = of_int (round_half_even (m / u)) * u
           in if 2 ^ 1024 \<le> v then F64Inf s else F64Fin s v)"

definition f64_zero :: f64 where
  "f64_zero = F64Fin False 0"

fun fin_value :: "bool \<Rightarrow> rat \<Rightarrow> rat" where
  "fin_value s m = (if s then - m else m)"

definition round_value :: "rat \<Rightarrow> f64" where
  "round_value x = round_mag (x < 0) \<bar>x\<bar>"

section \<open>Arithmetic\<close>

fun f64_add :: "f64 \<Rightarrow> f64 \<Rightarrow> f64" where
  "f64_add F64NaN _ = F64NaN"
| "f64_add _ F64NaN = F64NaN"
| "f64_add (F64Inf s) (F64Inf t) = (if s = t then F64Inf s else F64NaN)"
| "f64_add (F64Inf s) _ = F64Inf s"
| "f64_add _ (F64Inf t) = F64Inf t"
| "f64_add (F64Fin s a) (F64Fin t b) =
     (let x = fin_value s a + fin_value t b
      in if x = 0 then F64Fin (s \<and> t) 0 else round_value x)"

fun f64_neg :: "f64 \<Rightarrow> f64" where
  "f64_neg F64NaN = F64NaN"
| "f64_neg (F64Inf s) = F64Inf (\<not> s)"
| "f64_neg (F64Fin s a) = F64Fin (\<not> s) a"

definition f64_sub :: "f64 \<Rightarrow> f64 \<Rightarrow> f64" where
  "f64_sub a b = f64_add a (f64_neg b)"

fun f64_mul :: "f64 \<Rightarrow> f64 \<Rightarrow> f64" where
  "f64_mul F64NaN _ = F64NaN"
| "f64_mul _ F64NaN = F64NaN"
| "f64_mul (F64Inf s) (F64Inf t) = F64Inf (s \<noteq> t)"
| "f64_mul (F64Inf s) (F64Fin t b) = (if b = 0 then F64NaN else F64Inf (s \<noteq> t))"
| "f64_mul (F64Fin s a) (F64Inf t) = (if a = 0 then F64NaN else F64Inf (s \<noteq> t))"
| "f64_mul (F64Fin s a) (F64Fin t b) = round_mag (s \<noteq> t) (a * b)"

fun f64_div :: "f64 \<Rightarrow> f64 \<Rightarrow> f64" where
  "f64_div F64NaN _ = F64NaN"
| "f64_div _ F64NaN = F64NaN"
| "f64_div (F64Inf s) (F64Inf t) = F64NaN"
| "f64_div (F64Inf s) (F64Fin t b) = F64Inf (s \<noteq> t)"
| "f64_div (F64Fin s a) (F64Inf t) = F64Fin (s \<noteq> t) 0"
| "f64_div (F64Fin s a) (F64Fin t b) =
     (if b = 0 then (if a = 0 then F64NaN else F64Inf (s \<noteq> t))
      else round_mag (s \<noteq> t) (a / b))"

section \<open>Comparisons\<close>

fun f64_eq :: "f64 \<Rightarrow> f64 \<Rightarrow> bool" where
  "f64_eq (F64Inf s) (F64Inf t) = (s = t)"
| "f64_eq (F64Fin s a) (F64Fin t b) = (fin_value s a = fin_value t b)"
| "f64_eq _ _ = False"

fun f64_lt :: "f64 \<Rightarrow> f64 \<Rightarrow> bool" where
  "f64_lt (F64Inf s) (F64Inf t) = (s \<and> \<not> t)"
| "f64_lt (F64Inf s) (F64Fin t b) = s"
| "f64_lt (F64Fin s a) (F64Inf t) = (\<not> t)"
| "f64_lt (F64Fin s a) (F64Fin t b) = (fin_value s a < fin_value t b)"
| "f64_lt _ _ = False"

definition f64_le :: "f64 \<Rightarrow> f64 \<Rightarrow> bool" where
  "f64_le a b = (f64_lt a b \<or> f64_eq a b)"

fun f64_is_finite :: "f64 \<Rightarrow> bool" where
  "f64_is_finite (F64Fin _ _) = True"
| "f64_is_finite _ = False"

definition f64_max :: "f64 \<Rightarrow> f64 \<Rightarrow> f64" where
  "f64_max a b = (if a = F64NaN then b else if b = F64NaN then a else if f64_lt a b then b else a)"

definition f64_min :: "f64 \<Rightarrow> f64 \<Rightarrow> f64" where
  "f64_min a b = (if a = F64NaN then b else if b = F64NaN then a else if f64_lt b a then b else a)"

section \<open>Conversions\<close>

definition f64_of_nat :: "nat \<Rightarrow> f64" where
  "f64_of_nat n = round_mag False (of_nat n)"

text \<open>\<open>f64::round\<close>: half away from zero; \<open>ceil\<close> and \<open>floor\<close>.\<close>

fun f64_round :: "f64 \<Rightarrow> f64" where
  "f64_round (F64Fin s a) = F64Fin s (of_int \<lfloor>a + 1 / 2\<rfloor>)"
| "f64_round x = x"

fun f64_ceil :: "f64 \<Rightarrow> f64" where
  "f64_ceil (F64Fin s a) = F64Fin s (of_int (if s then \<lfloor>a\<rfloor> else \<lceil>a\<rceil>))"
| "f64_ceil x = x"

fun f64_floor :: "f64 \<Rightarrow> f64" where
  "f64_floor (F64Fin s a) = F64Fin s (of_int (if s then \<lceil>a\<rceil> else \<lfloor>a\<rfloor>))"
| "f64_floor x = x"

text \<open>\<open>as u64\<close>: truncation, saturating at the ends of the range, NaN to zero.\<close>

fun f64_as_u64 :: "f64 \<Rightarrow> u64" where
  "f64_as_u64 F64NaN = 0"
| "f64_as_u64 (F64Inf s) = (if s then 0 else - 1)"
| "f64_as_u64 (F64Fin s a) =
     (if s then 0 else if 2 ^ 64 \<le> a then - 1 else word_of_int \<lfloor>a\<rfloor>)"

section \<open>Facts\<close>

lemma round_half_even_nonneg: "0 \<le> x \<Longrightarrow> 0 \<le> round_half_even x"
  by (auto simp: round_half_even_def Let_def)

lemma ulp_pos: "0 < ulp_of m"
  by (simp add: ulp_of_def pow2i_def)

text \<open>Rounding keeps the sign and never produces a negative magnitude.\<close>

lemma round_mag_cases:
  "round_mag s m = F64Inf s \<or> (\<exists>v \<ge> 0. round_mag s m = F64Fin s v)"
proof (cases "m \<le> 0")
  case True
  then show ?thesis by (auto simp: round_mag_def)
next
  case False
  then have "0 \<le> round_half_even (m / ulp_of m)"
    by (intro round_half_even_nonneg) (simp add: ulp_pos less_imp_le)
  then have "0 \<le> of_int (round_half_even (m / ulp_of m)) * ulp_of m"
    using ulp_pos [of m] by simp
  with False show ?thesis by (auto simp: round_mag_def Let_def)
qed

lemma f64_lt_irrefl [simp]: "\<not> f64_lt a a"
  by (cases a) auto

lemma f64_lt_trans: "f64_lt a b \<Longrightarrow> f64_lt b c \<Longrightarrow> f64_lt a c"
  by (cases a; cases b; cases c) (auto split: if_splits)

lemma f64_lt_asym: "f64_lt a b \<Longrightarrow> \<not> f64_lt b a"
  using f64_lt_trans f64_lt_irrefl by blast

lemma f64_le_trans: "f64_le a b \<Longrightarrow> f64_le b c \<Longrightarrow> f64_le a c"
  by (cases a; cases b; cases c) (auto simp: f64_le_def split: if_splits)

lemma f64_not_lt_le: "a \<noteq> F64NaN \<Longrightarrow> b \<noteq> F64NaN \<Longrightarrow> \<not> f64_lt a b \<longleftrightarrow> f64_le b a"
  by (cases a; cases b) (auto simp: f64_le_def)

end
