(* ===== verification/Reservation.thy ===== *)
theory Reservation
  imports Prelude "HOL-Library.Multiset"
begin

text \<open>
  The contract shared by the two places where the node reserves capacity before it does work
  and gives it back when the work settles: the credit a peer account holds for requests in
  flight (\<open>accounting.rs\<close>) and the dial slots of the connection population
  (\<open>network_conventions.rs\<close>).  A provider states what its acquire, release and
  remaining operations do to the amount held; the client lemma, proved once here, is that the
  amount held is exactly the sum of the reservations still outstanding, in every state reached
  by operations that only release what was acquired.
\<close>

locale reservation =
  fixes held :: "'s \<Rightarrow> nat"
    and weight :: "'a \<Rightarrow> nat"
    and acquire :: "'a \<Rightarrow> 's \<Rightarrow> 's \<Rightarrow> bool"
    and release :: "'a \<Rightarrow> 's \<Rightarrow> 's \<Rightarrow> bool"
    and frame :: "'s \<Rightarrow> 's \<Rightarrow> bool"
  assumes acquire_held: "acquire a s s' \<Longrightarrow> held s' = held s + weight a"
    and release_held: "release a s s' \<Longrightarrow> weight a \<le> held s \<Longrightarrow> held s' = held s - weight a"
    and frame_held: "frame s s' \<Longrightarrow> held s' = held s"
begin

inductive reaches :: "'s \<Rightarrow> 'a multiset \<Rightarrow> 's \<Rightarrow> 'a multiset \<Rightarrow> bool" where
  refl: "reaches s A s A"
| acquire: "reaches s A t B \<Longrightarrow> acquire a t u \<Longrightarrow> reaches s A u (add_mset a B)"
| release: "reaches s A t (add_mset a B) \<Longrightarrow> release a t u \<Longrightarrow> reaches s A u B"
| frame: "reaches s A t B \<Longrightarrow> frame t u \<Longrightarrow> reaches s A u B"

lemma held_eq_outstanding:
  "reaches s A t B \<Longrightarrow> held s = sum_mset (image_mset weight A) \<Longrightarrow>
     held t = sum_mset (image_mset weight B)"
proof (induction rule: reaches.induct)
  case (refl s A)
  then show ?case by simp
next
  case (acquire s A t B a u)
  then show ?case using acquire_held by simp
next
  case (release s A t a B u)
  then have t: "held t = weight a + sum_mset (image_mset weight B)" by simp
  then show ?case using release_held [OF release.hyps(2)] by simp
next
  case (frame s A t B u)
  then show ?case using frame_held by simp
qed

lemma nothing_outstanding:
  "reaches s {#} t {#} \<Longrightarrow> held s = 0 \<Longrightarrow> held t = 0"
  using held_eq_outstanding [of s "{#}" t "{#}"] by simp

end

end
