(* ===== verification/Accounting.thy ===== *)
theory Accounting
  imports F64 Reservation Conventions
begin

text \<open>
  \<open>src/accounting.rs\<close> and the \<open>PeerAccounting\<close> record of \<open>src/conventions.rs\<close>:
  the per-peer debt ledger.  An account is reserved against before a chunk is requested,
  credited when the chunk arrives, released when it does not, and paid down by a refreshment.
  Every operation runs under the account's mutex, so it is one function from the account to
  the account; \<open>apply_credit\<close>, which leaves the lock before it sends its refreshment
  instruction, is its locked section followed by the outcome of the send.  The process-wide
  peer limit is passed as an argument.
\<close>

section \<open>Data\<close>

record ('p, 'c) PeerAccounting =
  pa_balance :: u64
  pa_surplus_balance :: u64
  pa_threshold :: u64
  pa_reserve :: u64
  pa_refreshment :: f64
  pa_refresh_scheduled :: bool
  pa_id :: 'p
  pa_connection_id :: "'c option"

definition REFRESH_RATE :: u64 where
  "REFRESH_RATE = 450000"

definition PO_PRICE :: u64 where
  "PO_PRICE = 10000"

definition CONNECTION_BUILDUP_LIMIT_DEFAULT :: u64 where
  "CONNECTION_BUILDUP_LIMIT_DEFAULT = 200"

section \<open>Operations\<close>

definition set_connection_buildup_limit :: "u64 \<Rightarrow> u64" where
  "set_connection_buildup_limit limit = max limit 1"

definition refreshment_due :: "u64 \<Rightarrow> f64 \<Rightarrow> u64 \<Rightarrow> bool" where
  "refreshment_due balance last_refreshment payment_threshold =
     (let target = (if f64_eq last_refreshment f64_zero
                    then saturating_mul REFRESH_RATE 2 else REFRESH_RATE)
      in (if payment_threshold = 0 then target else min target payment_threshold) \<le> balance)"

definition connection_population_deficit :: "u64 \<Rightarrow> u64 \<Rightarrow> u64 \<Rightarrow> u64" where
  "connection_population_deficit limit connected_count ongoing_count =
     saturating_sub limit (saturating_add connected_count ongoing_count)"

definition connection_dial_capacity_available :: "u64 \<Rightarrow> u64 \<Rightarrow> u64 \<Rightarrow> bool" where
  "connection_dial_capacity_available limit connected_count ongoing_count =
     (0 < connection_population_deficit limit connected_count ongoing_count)"

definition bee_reconnect_delay_seconds :: "u64 \<Rightarrow> u64 \<Rightarrow> u64 \<Rightarrow> u64 \<Rightarrow> u64" where
  "bee_reconnect_delay_seconds balance reserve payment_threshold refresh_rate =
     (if refresh_rate = 0 then 1
      else let bee_refresh_rate = saturating_mul refresh_rate 10;
               bee_payment_threshold = saturating_mul payment_threshold 10
           in saturating_add (max (saturating_add balance reserve) bee_refresh_rate)
                bee_payment_threshold div bee_refresh_rate)"

definition set_payment_threshold ::
  "u64 \<Rightarrow> ('p, 'c) PeerAccounting \<Rightarrow> ('p, 'c) PeerAccounting" where
  "set_payment_threshold amount account = account\<lparr>pa_threshold := amount\<rparr>"

definition reserve ::
  "u64 \<Rightarrow> ('p, 'c) PeerAccounting \<Rightarrow> ('c \<times> ('p, 'c) PeerAccounting) option" where
  "reserve amount account = do {
     connection_id \<leftarrow> pa_connection_id account;
     new_reserve \<leftarrow> checked_add (pa_reserve account) amount;
     total \<leftarrow> checked_add (pa_balance account) new_reserve;
     if pa_threshold account < total then None
     else Some (connection_id, account\<lparr>pa_reserve := new_reserve\<rparr>)
   }"

text \<open>
  The locked section of \<open>apply_credit\<close>: the account, the refreshment instruction to send
  (peer and connection), and whether the reserve has drained.
\<close>

definition apply_credit_locked ::
  "u64 \<Rightarrow> ('p, 'c) PeerAccounting \<Rightarrow>
     ('p, 'c) PeerAccounting \<times> ('p \<times> 'c) option \<times> bool" where
  "apply_credit_locked amount account0 =
     (let account1 = account0\<lparr>pa_reserve := saturating_sub (pa_reserve account0) amount\<rparr>;
          compensated = min (pa_surplus_balance account1) amount;
          account2 = account1\<lparr>pa_surplus_balance := pa_surplus_balance account1 - compensated\<rparr>;
          debt_increase = amount - compensated;
          account3 = account2\<lparr>pa_balance := saturating_add (pa_balance account2) debt_increase\<rparr>;
          (account4, instruction) =
            (if refreshment_due (pa_balance account3) (pa_refreshment account3)
                  (pa_threshold account3) \<and> \<not> pa_refresh_scheduled account3
             then case pa_connection_id account3 of
                    None \<Rightarrow> (account3, None)
                  | Some connection_id \<Rightarrow>
                      (account3\<lparr>pa_refresh_scheduled := True\<rparr>,
                       Some (pa_id account3, connection_id))
             else (account3, None))
      in (account4, instruction, pa_reserve account4 = 0))"

definition clear_refresh_scheduled ::
  "('p, 'c) PeerAccounting \<Rightarrow> ('p, 'c) PeerAccounting" where
  "clear_refresh_scheduled account = account\<lparr>pa_refresh_scheduled := False\<rparr>"

text \<open>
  The whole of \<open>apply_credit\<close>: the instruction goes to the refreshment channel; a failed
  send (the channel is closed) takes the schedule flag back.
\<close>

definition apply_credit ::
  "bool \<Rightarrow> u64 \<Rightarrow> ('p, 'c) PeerAccounting \<Rightarrow>
     ('p, 'c) PeerAccounting \<times> ('p \<times> 'c) option \<times> bool" where
  "apply_credit send_ok amount account0 =
     (let (account1, instruction, drained) = apply_credit_locked amount account0
      in case instruction of
           None \<Rightarrow> (account1, None, drained)
         | Some i \<Rightarrow>
             if send_ok then (account1, Some i, drained)
             else (clear_refresh_scheduled account1, None, drained))"

definition apply_refreshment ::
  "u64 \<Rightarrow> ('p, 'c) PeerAccounting \<Rightarrow> ('p, 'c) PeerAccounting \<times> ('p \<times> u64 \<times> u64) option" where
  "apply_refreshment amount account =
     (if pa_balance account \<le> amount then
        let surplus_growth = amount - pa_balance account;
            account' = account\<lparr>pa_balance := 0,
              pa_surplus_balance := saturating_add (pa_surplus_balance account) surplus_growth\<rparr>
        in if 0 < surplus_growth
           then (account', Some (pa_id account', surplus_growth, pa_surplus_balance account'))
           else (account', None)
      else (account\<lparr>pa_balance := pa_balance account - amount\<rparr>, None))"

definition cancel_reserve ::
  "u64 \<Rightarrow> ('p, 'c) PeerAccounting \<Rightarrow> ('p, 'c) PeerAccounting \<times> bool" where
  "cancel_reserve amount account =
     (let account' = account\<lparr>pa_reserve := saturating_sub (pa_reserve account) amount\<rparr>
      in (account', pa_reserve account' = 0))"

definition price :: "u8 \<Rightarrow> u64" where
  "price proximity = (ucast (saturating_sub MAX_PO proximity) + 1) * PO_PRICE"

text \<open>The account a peer starts with (\<open>get_or_create_accounting_peer\<close>).\<close>

definition new_peer_accounting :: "'p \<Rightarrow> ('p, 'c) PeerAccounting" where
  "new_peer_accounting peer =
     \<lparr>pa_balance = 0, pa_surplus_balance = 0, pa_threshold = 0, pa_reserve = 0,
      pa_refreshment = f64_zero, pa_refresh_scheduled = False, pa_id = peer,
      pa_connection_id = None\<rparr>"

section \<open>Life of an account\<close>

text \<open>
  Every operation of the node on an account, as steps of one relation over the account, the
  amounts reserved and not yet settled, and the highest payment threshold announced so far.
  A settled amount is one that was reserved (\<open>settle_retrieve_attempt\<close> credits or cancels
  the amount \<open>select_retrieve_peer\<close> reserved); the last three rules are the direct writes of
  \<open>src/lib.rs\<close> to the session, the refreshment clock and the balance a peer acknowledged
  as cleared.
\<close>

inductive account_run :: "('p, 'c) PeerAccounting \<Rightarrow> u64 multiset \<Rightarrow> nat \<Rightarrow> bool" where
  start: "account_run (new_peer_accounting peer) {#} 0"
| reserve: "account_run s A m \<Longrightarrow> reserve a s = Some (c, s') \<Longrightarrow>
     account_run s' (add_mset a A) m"
| credit: "account_run s (add_mset a A) m \<Longrightarrow> apply_credit ok a s = (s', i, d) \<Longrightarrow>
     account_run s' A m"
| cancel: "account_run s (add_mset a A) m \<Longrightarrow> cancel_reserve a s = (s', d) \<Longrightarrow>
     account_run s' A m"
| refreshment: "account_run s A m \<Longrightarrow> apply_refreshment a s = (s', r) \<Longrightarrow> account_run s' A m"
| threshold: "account_run s A m \<Longrightarrow>
     account_run (set_payment_threshold a s) A (max m (unat a))"
| session: "account_run s A m \<Longrightarrow> account_run (s\<lparr>pa_connection_id := c\<rparr>) A m"
| refreshed: "account_run s A m \<Longrightarrow>
     account_run (s\<lparr>pa_refreshment := t, pa_refresh_scheduled := b\<rparr>) A m"
| cleared: "account_run s A m \<Longrightarrow>
     account_run (s\<lparr>pa_refreshment := t, pa_balance := 0, pa_refresh_scheduled := b\<rparr>) A m"

section \<open>Each operation\<close>

named_theorems account_ops \<open>effect of each account operation\<close>

lemma reserve_Some [account_ops]:
  assumes "reserve a s = Some (c, s')"
  shows "pa_connection_id s = Some c"
    and "unat (pa_reserve s') = unat (pa_reserve s) + unat a"
    and "unat (pa_balance s) + unat (pa_reserve s') \<le> unat (pa_threshold s)"
    and "s' = s\<lparr>pa_reserve := pa_reserve s'\<rparr>"
proof -
  from assms obtain r t where
    "pa_connection_id s = Some c"
    and r: "checked_add (pa_reserve s) a = Some r"
    and t: "checked_add (pa_balance s) r = Some t"
    and le: "\<not> pa_threshold s < t"
    and s': "s' = s\<lparr>pa_reserve := r\<rparr>"
    by (auto simp: reserve_def Option.bind_eq_Some_conv split: if_splits)
  then show "pa_connection_id s = Some c"
    and "unat (pa_reserve s') = unat (pa_reserve s) + unat a"
    and "s' = s\<lparr>pa_reserve := pa_reserve s'\<rparr>"
    by (simp_all add: checked_add_Some)
  from t le s' show "unat (pa_balance s) + unat (pa_reserve s') \<le> unat (pa_threshold s)"
    by (simp add: checked_add_Some word_less_nat_alt not_less)
qed

text \<open>A reservation is refused exactly when no session is open or the debt would pass the
  threshold; the two overflow checks never decide the outcome on their own.\<close>

lemma reserve_None_iff:
  "reserve a s = None \<longleftrightarrow>
     pa_connection_id s = None \<or>
     unat (pa_threshold s) < unat (pa_balance s) + (unat (pa_reserve s) + unat a)"
proof (cases "pa_connection_id s")
  case None
  then show ?thesis by (simp add: reserve_def)
next
  case (Some c)
  have T: "unat (pa_threshold s) < 2 ^ 64" by simp
  show ?thesis
  proof (cases "checked_add (pa_reserve s) a")
    case None
    then have "2 ^ 64 \<le> unat (pa_reserve s) + unat a"
      by (simp add: checked_add_None)
    with T have "unat (pa_threshold s) < unat (pa_balance s) + (unat (pa_reserve s) + unat a)"
      by linarith
    with Some None show ?thesis by (simp add: reserve_def)
  next
    case r: (Some r)
    show ?thesis
    proof (cases "checked_add (pa_balance s) r")
      case None
      then have "2 ^ 64 \<le> unat (pa_balance s) + unat r" by (simp add: checked_add_None)
      with T have "unat (pa_threshold s) < unat (pa_balance s) + unat r" by linarith
      moreover have "reserve a s = None" using Some None r by (simp add: reserve_def)
      ultimately show ?thesis using r by (simp add: checked_add_Some)
    next
      case (Some t)
      with r \<open>pa_connection_id s = Some c\<close> have
        "reserve a s = None \<longleftrightarrow> unat (pa_threshold s) < unat t"
        by (simp add: reserve_def word_less_nat_alt)
      with r Some \<open>pa_connection_id s = Some c\<close> show ?thesis
        by (simp add: checked_add_Some)
    qed
  qed
qed

lemma cancel_reserve_fields [account_ops]:
  assumes "cancel_reserve a s = (s', d)"
  shows "unat (pa_reserve s') = unat (pa_reserve s) - unat a"
    and "s' = s\<lparr>pa_reserve := pa_reserve s'\<rparr>" and "d \<longleftrightarrow> pa_reserve s' = 0"
  using assms unat_saturating_sub [of "pa_reserve s" a]
  by (auto simp: cancel_reserve_def Let_def)

lemma apply_credit_fields:
  assumes "apply_credit ok a s = (s', i, d)"
  shows "pa_reserve s' = saturating_sub (pa_reserve s) a"
    and "pa_surplus_balance s' = pa_surplus_balance s - min (pa_surplus_balance s) a"
    and "pa_balance s' =
           saturating_add (pa_balance s) (a - min (pa_surplus_balance s) a)"
    and "pa_threshold s' = pa_threshold s" and "pa_connection_id s' = pa_connection_id s"
    and "pa_id s' = pa_id s" and "d \<longleftrightarrow> pa_reserve s' = 0"
  using assms
  by (auto simp: apply_credit_def apply_credit_locked_def clear_refresh_scheduled_def Let_def
      split: if_splits option.splits)

lemma unat_sub_min: "unat (a - min b a :: u64) = unat a - unat b"
proof (cases "b \<le> a")
  case True
  then show ?thesis by (simp add: min_absorb1 unat_sub)
next
  case False
  then have "unat a \<le> unat b" by (simp add: word_le_nat_alt)
  with False show ?thesis by (simp add: min_def)
qed

lemma unat_sub_min': "unat (b - min b a :: u64) = unat b - unat a"
  using unat_sub_min [of b a] by (simp add: min.commute)

lemma apply_credit_amounts [account_ops]:
  assumes "apply_credit ok a s = (s', i, d)"
  shows "unat (pa_reserve s') = unat (pa_reserve s) - unat a"
    and "unat (pa_surplus_balance s') = unat (pa_surplus_balance s) - unat a"
    and "unat (pa_balance s') =
           min (unat (pa_balance s) + (unat a - unat (pa_surplus_balance s))) (2 ^ 64 - 1)"
  by (simp_all add: apply_credit_fields [OF assms] unat_saturating_sub unat_saturating_add
      unat_sub_min unat_sub_min')

lemma apply_refreshment_fields [account_ops]:
  assumes "apply_refreshment a s = (s', r)"
  shows "unat (pa_balance s') = unat (pa_balance s) - unat a"
    and "unat (pa_surplus_balance s') =
           min (unat (pa_surplus_balance s) + (unat a - unat (pa_balance s))) (2 ^ 64 - 1)"
    and "pa_reserve s' = pa_reserve s" and "pa_threshold s' = pa_threshold s"
    and "r = (if pa_balance s < a
              then Some (pa_id s, a - pa_balance s, pa_surplus_balance s') else None)"
proof -
  show "unat (pa_balance s') = unat (pa_balance s) - unat a"
    using assms
    by (auto simp: apply_refreshment_def Let_def word_le_nat_alt unat_sub split: if_splits)
  show "unat (pa_surplus_balance s') =
          min (unat (pa_surplus_balance s) + (unat a - unat (pa_balance s))) (2 ^ 64 - 1)"
    using assms
    by (auto simp: apply_refreshment_def Let_def word_le_nat_alt unat_sub unat_saturating_add
        split: if_splits)
  show "pa_reserve s' = pa_reserve s" and "pa_threshold s' = pa_threshold s"
    using assms by (auto simp: apply_refreshment_def Let_def split: if_splits)
  show "r = (if pa_balance s < a
              then Some (pa_id s, a - pa_balance s, pa_surplus_balance s') else None)"
    using assms
    by (auto simp: apply_refreshment_def Let_def word_le_nat_alt word_less_nat_alt unat_sub
        split: if_splits)
qed

section \<open>The ledger as a reservation\<close>

definition account_release ::
  "u64 \<Rightarrow> ('p, 'c) PeerAccounting \<Rightarrow> ('p, 'c) PeerAccounting \<Rightarrow> bool" where
  "account_release a s s' =
     (s' = fst (cancel_reserve a s) \<or> s' = fst (apply_credit True a s)
      \<or> s' = fst (apply_credit False a s))"

interpretation ledger: reservation
  "\<lambda>s :: ('p, 'c) PeerAccounting. unat (pa_reserve s)" "unat :: u64 \<Rightarrow> nat"
  "\<lambda>a s s'. \<exists>c. reserve a s = Some (c, s')" account_release
  "\<lambda>s s'. pa_reserve s' = pa_reserve s"
proof
  fix a and s s' :: "('p, 'c) PeerAccounting"
  assume "account_release a s s'"
  then show "unat (pa_reserve s') = unat (pa_reserve s) - unat a"
    unfolding account_release_def
    by (metis apply_credit_amounts(1) cancel_reserve_fields(1) prod.collapse)
qed (auto dest: reserve_Some(2))

lemma account_run_ledger:
  "account_run s A m \<Longrightarrow> \<exists>peer. ledger.reaches (new_peer_accounting peer) {#} s A"
proof (induction rule: account_run.induct)
  case (start peer)
  then show ?case by (blast intro: ledger.reaches.refl)
next
  case (reserve s A m a c s')
  then show ?case by (blast intro: ledger.reaches.acquire)
next
  case (credit s a A m ok s' i d)
  then have "account_release a s s'" by (cases ok) (auto simp: account_release_def)
  with credit show ?case by (blast intro: ledger.reaches.release)
next
  case (cancel s a A m s' d)
  then have "account_release a s s'" by (auto simp: account_release_def)
  with cancel show ?case by (blast intro: ledger.reaches.release)
next
  case (refreshment s A m a s' r)
  from apply_refreshment_fields(3) [OF refreshment.hyps(2)] refreshment.IH
  show ?case by (blast intro: ledger.reaches.frame)
qed (force simp: set_payment_threshold_def intro: ledger.reaches.frame)+

lemma account_run_reserve:
  "account_run s A m \<Longrightarrow> unat (pa_reserve s) = sum_mset (image_mset unat A)"
  using account_run_ledger [of s A m] ledger.held_eq_outstanding [of _ "{#}" s A]
  by (force simp: new_peer_accounting_def)

lemma account_run_exposure:
  "account_run s A m \<Longrightarrow> unat (pa_balance s) + unat (pa_reserve s) \<le> m \<and> unat (pa_threshold s) \<le> m"
proof (induction rule: account_run.induct)
  case (reserve s A m a c s')
  from reserve_Some [OF reserve.hyps(2)] have
    "unat (pa_balance s) + unat (pa_reserve s') \<le> unat (pa_threshold s)"
    "pa_balance s' = pa_balance s" "pa_threshold s' = pa_threshold s"
    by (metis PeerAccounting.select_convs PeerAccounting.surjective
        PeerAccounting.update_convs(4))+
  with reserve.IH show ?case by simp
next
  case (credit s a A m ok s' i d)
  have "unat a \<le> unat (pa_reserve s)"
    using account_run_reserve [OF credit.hyps(1)] by simp
  moreover have "unat (pa_balance s') \<le> unat (pa_balance s) + unat a"
    by (simp add: apply_credit_amounts [OF credit.hyps(2)] min.coboundedI1)
  ultimately show ?case
    using credit.IH apply_credit_amounts(1) [OF credit.hyps(2)]
      apply_credit_fields(4) [OF credit.hyps(2)] by auto
next
  case (cancel s a A m s' d)
  from cancel_reserve_fields [OF cancel.hyps(2)] have
    "pa_balance s' = pa_balance s" "pa_threshold s' = pa_threshold s"
    "unat (pa_reserve s') \<le> unat (pa_reserve s)"
    by (metis PeerAccounting.select_convs PeerAccounting.surjective
        PeerAccounting.update_convs(4), metis PeerAccounting.select_convs
        PeerAccounting.surjective PeerAccounting.update_convs(4), simp)
  with cancel.IH show ?case by simp
next
  case (refreshment s A m a s' r)
  then show ?case using apply_refreshment_fields [OF refreshment.hyps(2)] by auto
qed (auto simp: new_peer_accounting_def set_payment_threshold_def)

section \<open>Correctness of the ledger\<close>

text \<open>
  C8.  In every state an account can reach, under any interleaving of reservations, credits,
  cancellations, refreshments, threshold announcements and session changes, the reserve field
  is exactly the sum of the reservations not yet settled (no saturating subtraction ever loses
  an amount), and debt plus reserve never exceeds the highest threshold the peer announced.
\<close>

theorem account_reserve_exact_and_bounded:
  assumes "account_run s A m"
  shows "unat (pa_reserve s) = sum_mset (image_mset unat A) \<and>
         unat (pa_balance s) + unat (pa_reserve s) \<le> m"
  using account_run_reserve [OF assms] account_run_exposure [OF assms] by simp_all

definition example_account :: "(nat, nat) PeerAccounting" where
  "example_account = (set_payment_threshold 900000 (new_peer_accounting 7))\<lparr>pa_connection_id := Some 3\<rparr>"

lemma account_run_example: "account_run example_account {#} 900000"
proof -
  have "account_run (set_payment_threshold 900000 (new_peer_accounting 7 :: (nat, nat) PeerAccounting))
          {#} (max 0 (unat (900000 :: u64)))"
    by (rule account_run.threshold) (rule account_run.start)
  from account_run.session [OF this, of "Some 3"] show ?thesis
    by (simp add: example_account_def)
qed

lemma reserve_example:
  "reserve 320000 example_account = Some (3, example_account\<lparr>pa_reserve := 320000\<rparr>)"
  by (simp add: reserve_def example_account_def set_payment_threshold_def
      new_peer_accounting_def checked_add_def)

theorem account_reserve_exact_and_bounded_witness:
  "account_run (example_account\<lparr>pa_reserve := 320000\<rparr>) {#320000#} 900000 \<and>
   unat (pa_reserve (example_account\<lparr>pa_reserve := 320000\<rparr>)) = sum_mset (image_mset unat {#320000 :: u64#})"
proof -
  have r: "account_run (example_account\<lparr>pa_reserve := 320000\<rparr>) {#320000#} 900000"
    by (rule account_run.reserve [OF account_run_example reserve_example])
  from r account_reserve_exact_and_bounded [OF r] show ?thesis by simp
qed

text \<open>
  \<open>reserve\<close> refuses exactly when the account has no session or the debt with all
  reservations would pass the announced threshold; it succeeds otherwise, adds exactly the
  amount to the reserve, returns the session's connection and leaves every other field alone.
\<close>

theorem reserve_outcome:
  "reserve a s =
     (case pa_connection_id s of
        None \<Rightarrow> None
      | Some c \<Rightarrow>
          if unat (pa_balance s) + unat (pa_reserve s) + unat a \<le> unat (pa_threshold s)
          then Some (c, s\<lparr>pa_reserve := pa_reserve s + a\<rparr>) else None)"
proof (cases "reserve a s")
  case None
  then show ?thesis
    by (auto simp: reserve_None_iff add.assoc split: option.splits)
next
  case (Some cs)
  then obtain c s' where r: "reserve a s = Some (c, s')" by (cases cs) auto
  note f = reserve_Some [OF r]
  have "pa_reserve s' = pa_reserve s + a"
    using f(2) u64_bound [of "pa_reserve s'"]
    by (simp add: word_unat_eq_iff unat_add_lem [THEN iffD1])
  with f r show ?thesis by simp
qed

text \<open>
  Settling a reservation: a successful request gives back exactly what it reserved and the
  rest of the price becomes debt after the surplus is used up; a failed one restores the account.
\<close>

theorem reserve_then_settle:
  assumes "reserve a s = Some (c, s1)"
  shows "fst (cancel_reserve a s1) = s \<and>
         pa_reserve (fst (apply_credit ok a s1)) = pa_reserve s \<and>
         unat (pa_balance (fst (apply_credit ok a s1))) + unat (pa_surplus_balance s)
         = unat (pa_balance s) + unat (pa_surplus_balance (fst (apply_credit ok a s1))) + unat a"
proof (intro conjI)
  note f = reserve_Some [OF assms]
  have bal: "pa_balance s1 = pa_balance s" by (subst f(4)) simp
  have sur: "pa_surplus_balance s1 = pa_surplus_balance s" by (subst f(4)) simp
  have id: "s1\<lparr>pa_reserve := r\<rparr> = s\<lparr>pa_reserve := r\<rparr>" for r by (subst f(4)) simp
  have restored: "saturating_sub (pa_reserve s1) a = pa_reserve s"
    using f(2) by (simp add: word_unat_eq_iff unat_saturating_sub)
  then show "fst (cancel_reserve a s1) = s"
    by (simp add: cancel_reserve_def Let_def id)
  obtain s2 i d where c: "apply_credit ok a s1 = (s2, i, d)" by (cases "apply_credit ok a s1") auto
  from apply_credit_fields(1) [OF c] restored c
  show "pa_reserve (fst (apply_credit ok a s1)) = pa_reserve s" by simp
  have "unat (pa_balance s) + unat a \<le> 18446744073709551615"
    using f(2,3) u64_le_max [of "pa_threshold s"] by linarith
  with apply_credit_amounts [OF c] c bal sur
  show "unat (pa_balance (fst (apply_credit ok a s1))) + unat (pa_surplus_balance s)
         = unat (pa_balance s) + unat (pa_surplus_balance (fst (apply_credit ok a s1))) + unat a"
    by (auto simp: min_def)
qed

theorem reserve_then_settle_witness:
  "fst (cancel_reserve 320000 (example_account\<lparr>pa_reserve := 320000\<rparr>)) = example_account"
  using reserve_then_settle [OF reserve_example] by blast

text \<open>
  At most one refreshment is ever scheduled per account: a credit hands out an instruction
  only when none was scheduled, debt has reached the due amount and a session is open; it sets
  the flag with it, and clears the flag again when the instruction could not be sent.
\<close>

theorem apply_credit_schedules_once:
  assumes "apply_credit ok a s = (s', i, d)"
  shows "i = (if ok \<and> \<not> pa_refresh_scheduled s \<and>
                  refreshment_due (pa_balance s') (pa_refreshment s) (pa_threshold s)
              then map_option (\<lambda>c. (pa_id s, c)) (pa_connection_id s) else None) \<and>
         (pa_refresh_scheduled s' \<longleftrightarrow> pa_refresh_scheduled s \<or> i \<noteq> None)"
  using assms
  by (auto simp: apply_credit_def apply_credit_locked_def clear_refresh_scheduled_def Let_def
      split: if_splits option.splits)

theorem apply_credit_schedules_once_witness:
  "\<exists>s' i d. apply_credit True 900000 example_account = (s', i, d) \<and> i = Some (7, 3) \<and>
     pa_refresh_scheduled s'"
proof -
  obtain s' i d where c: "apply_credit True 900000 example_account = (s', i, d)"
    by (cases "apply_credit True 900000 example_account") auto
  have "pa_balance s' = 900000"
    by (simp add: apply_credit_fields(3) [OF c] example_account_def set_payment_threshold_def
        new_peer_accounting_def saturating_add_def)
  then have "refreshment_due (pa_balance s') (pa_refreshment example_account)
      (pa_threshold example_account)"
    by (simp add: example_account_def refreshment_due_def set_payment_threshold_def
        new_peer_accounting_def f64_zero_def REFRESH_RATE_def saturating_mul_def)
  moreover have "\<not> pa_refresh_scheduled example_account" "pa_id example_account = 7"
    "pa_connection_id example_account = Some 3"
    by (simp_all add: example_account_def set_payment_threshold_def new_peer_accounting_def)
  ultimately show ?thesis
    using c apply_credit_schedules_once [OF c] by auto
qed

text \<open>
  A refreshment pays down exactly what was acknowledged: the net position (debt minus
  surplus) falls by the amount, up to saturation of the surplus at the top of the range, and a
  surplus is reported exactly when the payment exceeded the debt.
\<close>

theorem apply_refreshment_conserves:
  assumes "apply_refreshment a s = (s', r)"
    and "unat (pa_surplus_balance s) + unat a < 2 ^ 64"
  shows "unat (pa_balance s') + unat (pa_surplus_balance s) + unat a
         = unat (pa_balance s) + unat (pa_surplus_balance s') \<and>
         (r \<noteq> None \<longleftrightarrow> pa_balance s < a)"
  using apply_refreshment_fields [OF assms(1)] assms(2) by (auto simp: min_def)

theorem apply_refreshment_conserves_witness:
  "unat (pa_balance (fst (apply_refreshment 5 example_account))) + 5
     = unat (pa_surplus_balance (fst (apply_refreshment 5 example_account)))"
  using apply_refreshment_conserves
    [of 5 example_account "fst (apply_refreshment 5 example_account)"
      "snd (apply_refreshment 5 example_account)"]
  by (simp add: example_account_def set_payment_threshold_def new_peer_accounting_def)

text \<open>
  Prices fall by a fixed step with proximity, never wrap, and stay between one and
  thirty-two price units for every proximity a byte can hold.
\<close>

theorem price_formula:
  "unat (price p) = (32 - min (unat p) 31) * 10000"
proof -
  have "unat (saturating_sub MAX_PO p) = 31 - unat p"
    by (simp add: unat_saturating_sub MAX_PO_def)
  then have "unat (ucast (saturating_sub MAX_PO p) :: u64) = 31 - unat p"
    by (simp add: unsigned_ucast_eq take_bit_nat_eq_self)
  then have "unat (ucast (saturating_sub MAX_PO p) + 1 :: u64) = 32 - min (unat p) 31"
    by (subst unat_add_lem [THEN iffD1]) auto
  then show ?thesis
    unfolding price_def PO_PRICE_def
    by (subst unat_mult_lem [THEN iffD1]) simp_all
qed

text \<open>
  The reconnect back-off is total and at least one second: the divisor is never zero and
  no intermediate sum wraps, whatever the account holds.
\<close>

theorem reconnect_delay_at_least_one:
  "1 \<le> unat (bee_reconnect_delay_seconds balance reserved threshold rate)"
proof (cases "rate = 0")
  case True
  then show ?thesis by (simp add: bee_reconnect_delay_seconds_def)
next
  case False
  define r where "r = saturating_mul rate (10 :: u64)"
  define t where
    "t = saturating_add (max (saturating_add balance reserved) r) (saturating_mul threshold 10)"
  have "0 < unat rate" using False by (simp add: unat_gt_0)
  then have r: "0 < unat r" by (simp add: r_def unat_saturating_mul)
  have "unat r \<le> unat (max (saturating_add balance reserved) r)"
    by (simp add: max_def word_le_nat_alt)
  also have "\<dots> \<le> unat t" by (simp add: t_def unat_saturating_add)
  finally have "unat r div unat r \<le> unat t div unat r" by (rule div_le_mono)
  with r have "1 \<le> unat t div unat r" by simp
  with False show ?thesis
    by (simp add: bee_reconnect_delay_seconds_def Let_def r_def t_def unat_div)
qed

text \<open>
  The dialer has capacity exactly while connected and pending peers together are below the
  limit, and the limit can never be set below one, so a node with no peers can always dial.
\<close>

theorem dial_capacity_iff:
  "(connection_dial_capacity_available limit n k \<longleftrightarrow> unat n + unat k < unat limit) \<and>
   connection_dial_capacity_available (set_connection_buildup_limit l) 0 0"
proof -
  have iff: "connection_dial_capacity_available limit n k \<longleftrightarrow> unat n + unat k < unat limit"
    for limit n k
  proof -
    have "connection_dial_capacity_available limit n k \<longleftrightarrow>
            min (unat n + unat k) 18446744073709551615 < unat limit"
      by (simp add: connection_dial_capacity_available_def connection_population_deficit_def
          word_less_nat_alt unat_saturating_sub unat_saturating_add)
    with u64_le_max [of limit] show ?thesis by linarith
  qed
  moreover have "0 < unat (set_connection_buildup_limit l)"
    by (simp add: set_connection_buildup_limit_def max_def word_le_nat_alt)
  ultimately show ?thesis by simp
qed

end
