(* ===== verification/Addresses.thy ===== *)
theory Addresses
  imports Prelude
begin

text \<open>
  \<open>src/addresses.rs\<close> and \<open>try_from_multiaddr\<close> of \<open>src/conventions.rs\<close>: how the
  underlay bytes a peer gossips become addresses to dial.  A multiaddress is the list of its
  protocol parts; the parts the sources inspect have a constructor of their own.  Decoding one
  multiaddress from bytes is the job of the multiaddr crate and is the argument
  \<open>parse\<close>.  A host name is the list of its bytes.  The pieces of the standard library the
  code calls (\<open>u8::from_str\<close>, \<open>Ipv4Addr::from_str\<close> and its classification
  predicates, \<open>str::split\<close>, \<open>strip_suffix\<close>, \<open>eq_ignore_ascii_case\<close>) are
  written out.
\<close>

section \<open>Data\<close>

type_synonym Ipv4Addr = "u8 \<times> u8 \<times> u8 \<times> u8"

datatype 'p Protocol =
    Ip4 Ipv4Addr | Tcp u16 | Tls | Sni string | Ws string | P2p 'p | Dns4 string
  | OtherProtocol nat bytes

type_synonym 'p Multiaddr = "'p Protocol list"

definition UNDERLAY_LIST_PREFIX :: u8 where "UNDERLAY_LIST_PREFIX = 0x99"
definition MAX_UNDERLAYS_PER_PEER :: usize where "MAX_UNDERLAYS_PER_PEER = 20"
definition MAX_UNDERLAY_BYTES :: usize where "MAX_UNDERLAY_BYTES = 2048"

section \<open>The standard library\<close>

definition digit_value :: "char \<Rightarrow> nat option" where
  "digit_value c = (let n = of_char c :: nat in if 48 \<le> n \<and> n \<le> 57 then Some (n - 48) else None)"

fun parse_digits :: "string \<Rightarrow> nat \<Rightarrow> nat option" where
  "parse_digits [] acc = Some acc"
| "parse_digits (c # cs) acc = (case digit_value c of
     None \<Rightarrow> None
   | Some d \<Rightarrow> if 10 * acc + d < 256 then parse_digits cs (10 * acc + d) else None)"

text \<open>\<open>u8::from_str\<close>: an optional plus sign, at least one digit, checked accumulation.\<close>

definition parse_u8 :: "string \<Rightarrow> u8 option" where
  "parse_u8 s = (let ds = (case s of [] \<Rightarrow> [] | c # cs \<Rightarrow> if c = CHR ''+'' then cs else s)
     in if ds = [] then None else map_option of_nat (parse_digits ds 0))"

fun split_on :: "char \<Rightarrow> string \<Rightarrow> string list" where
  "split_on d [] = [[]]"
| "split_on d (c # cs) = (if c = d then [] # split_on d cs
     else case split_on d cs of [] \<Rightarrow> [[c]] | w # ws \<Rightarrow> (c # w) # ws)"

definition ends_with :: "string \<Rightarrow> string \<Rightarrow> bool" where
  "ends_with suffix s = (length suffix \<le> length s \<and> drop (length s - length suffix) s = suffix)"

definition strip_suffix :: "string \<Rightarrow> string \<Rightarrow> string option" where
  "strip_suffix suffix s =
     (if ends_with suffix s then Some (take (length s - length suffix) s) else None)"

definition ascii_lower :: "char \<Rightarrow> nat" where
  "ascii_lower c = (let n = of_char c :: nat in if 65 \<le> n \<and> n \<le> 90 then n + 32 else n)"

definition eq_ignore_ascii_case :: "string \<Rightarrow> string \<Rightarrow> bool" where
  "eq_ignore_ascii_case a b = (map ascii_lower a = map ascii_lower b)"

definition trim_end_dots :: "string \<Rightarrow> string" where
  "trim_end_dots s = rev (dropWhile (\<lambda>c. c = CHR ''.'') (rev s))"

text \<open>One octet of a dotted quad: one to three digits, no leading zero, at most 255.\<close>

definition parse_octet :: "string \<Rightarrow> u8 option" where
  "parse_octet s = (if s = [] \<or> 3 < length s \<or> (1 < length s \<and> hd s = CHR ''0'') then None
     else map_option of_nat (parse_digits s 0))"

definition parse_ipv4 :: "string \<Rightarrow> Ipv4Addr option" where
  "parse_ipv4 s = (if 15 < length s then None else case split_on CHR ''.'' s of
     [a, b, c, d] \<Rightarrow> do {
       w \<leftarrow> parse_octet a; x \<leftarrow> parse_octet b; y \<leftarrow> parse_octet c; z \<leftarrow> parse_octet d;
       Some (w, x, y, z) }
   | _ \<Rightarrow> None)"

fun is_private :: "Ipv4Addr \<Rightarrow> bool" where
  "is_private (a, b, c, d) =
     (a = 10 \<or> (a = 172 \<and> 16 \<le> b \<and> b \<le> 31) \<or> (a = 192 \<and> b = 168))"

fun is_loopback :: "Ipv4Addr \<Rightarrow> bool" where
  "is_loopback (a, b, c, d) = (a = 127)"

fun is_link_local :: "Ipv4Addr \<Rightarrow> bool" where
  "is_link_local (a, b, c, d) = (a = 169 \<and> b = 254)"

fun is_multicast :: "Ipv4Addr \<Rightarrow> bool" where
  "is_multicast (a, b, c, d) = (224 \<le> a \<and> a \<le> 239)"

fun is_broadcast :: "Ipv4Addr \<Rightarrow> bool" where
  "is_broadcast (a, b, c, d) = (a = 255 \<and> b = 255 \<and> c = 255 \<and> d = 255)"

fun is_unspecified :: "Ipv4Addr \<Rightarrow> bool" where
  "is_unspecified (a, b, c, d) = (a = 0 \<and> b = 0 \<and> c = 0 \<and> d = 0)"

fun is_documentation :: "Ipv4Addr \<Rightarrow> bool" where
  "is_documentation (a, b, c, d) =
     ((a = 192 \<and> b = 0 \<and> c = 2) \<or> (a = 198 \<and> b = 51 \<and> c = 100) \<or> (a = 203 \<and> b = 0 \<and> c = 113))"

section \<open>Operations\<close>

definition try_from_multiaddr :: "'p Multiaddr \<Rightarrow> 'p option" where
  "try_from_multiaddr address = (if address = [] then None else
     case last address of P2p hash \<Rightarrow> Some hash | _ \<Rightarrow> None)"

fun read_uvarint_loop :: "bytes \<Rightarrow> usize \<Rightarrow> u64 \<Rightarrow> nat \<Rightarrow> u64 \<times> usize" where
  "read_uvarint_loop [] index value shift = (0, 0)"
| "read_uvarint_loop (byte # src) index value shift =
     (let value' = value OR push_bit shift (ucast (byte AND 0x7f)) in
      if byte AND 0x80 = 0 then (value', index + 1)
      else if 63 < shift + 7 then (0, 0)
      else read_uvarint_loop src (index + 1) value' (shift + 7))"

definition read_underlay_uvarint :: "bytes \<Rightarrow> u64 \<times> usize" where
  "read_underlay_uvarint src = read_uvarint_loop src 0 0 0"

function underlay_list_loop ::
  "(bytes \<Rightarrow> 'a option) \<Rightarrow> bytes \<Rightarrow> 'a list \<Rightarrow> usize \<Rightarrow> 'a list" where
  "underlay_list_loop parse data addresses offset =
     (if length data \<le> offset then addresses
      else let (address_len, varint_len) = read_underlay_uvarint (drop offset data) in
        if MAX_UNDERLAYS_PER_PEER \<le> length addresses \<or> varint_len = 0
           \<or> usize_bound - 1 < unat address_len then []
        else let offset' = offset + varint_len; address_len' = unat address_len in
          if length data - offset' < address_len' then []
          else case parse (take address_len' (drop offset' data)) of
            None \<Rightarrow> []
          | Some address \<Rightarrow>
              underlay_list_loop parse data (addresses @ [address]) (offset' + address_len'))"
  by pat_completeness auto
termination
  by (relation "measure (\<lambda>(parse, data, addresses, offset). length data - offset)") auto

declare underlay_list_loop.simps [simp del]

definition deserialize_underlay_list :: "(bytes \<Rightarrow> 'a option) \<Rightarrow> bytes \<Rightarrow> 'a list" where
  "deserialize_underlay_list parse data = underlay_list_loop parse data [] 0"

definition deserialize_underlays :: "(bytes \<Rightarrow> 'a option) \<Rightarrow> bytes \<Rightarrow> 'a list" where
  "deserialize_underlays parse data =
     (if data = [] \<or> MAX_UNDERLAY_BYTES < length data then []
      else if data ! 0 = UNDERLAY_LIST_PREFIX then deserialize_underlay_list parse (drop 1 data)
      else case parse data of None \<Rightarrow> [] | Some address \<Rightarrow> [address])"

text \<open>\<open>Inr\<close> is the dialable address, \<open>Inl\<close> hands the argument back.\<close>

definition browser_dial_address :: "'p Multiaddr \<Rightarrow> 'p Multiaddr + 'p Multiaddr" where
  "browser_dial_address address = (case address of
     [Ip4 _, Tcp tcp_port, Tls, Sni hostname, Ws _, P2p peer_id] \<Rightarrow>
       Inr [Dns4 hostname, Tcp tcp_port, Tls, Ws ''/'', P2p peer_id]
   | [Dns4 _, Tcp _, Tls, Ws _, P2p _] \<Rightarrow> Inr address
   | _ \<Rightarrow> Inl address)"

fun is_public_ipv4 :: "Ipv4Addr \<Rightarrow> bool" where
  "is_public_ipv4 (first, second, third, fourth) =
     (\<not> (first = 0
       \<or> is_private (first, second, third, fourth)
       \<or> is_loopback (first, second, third, fourth)
       \<or> is_link_local (first, second, third, fourth)
       \<or> is_multicast (first, second, third, fourth)
       \<or> is_broadcast (first, second, third, fourth)
       \<or> is_documentation (first, second, third, fourth)
       \<or> (first = 100 \<and> 64 \<le> second \<and> second \<le> 127)
       \<or> (first = 192 \<and> second = 0 \<and> third = 0)
       \<or> (first = 192 \<and> second = 88 \<and> third = 99)
       \<or> (first = 198 \<and> 18 \<le> second \<and> second \<le> 19)
       \<or> 240 \<le> first))"

definition libp2p_direct_ipv4 :: "string \<Rightarrow> Ipv4Addr option" where
  "libp2p_direct_ipv4 hostname = do {
     prefix \<leftarrow> strip_suffix ''.libp2p.direct'' hostname;
     case split_on CHR ''-'' (hd (split_on CHR ''.'' prefix)) of
       [a, b, c, d] \<Rightarrow> do {
         w \<leftarrow> parse_u8 a; x \<leftarrow> parse_u8 b; y \<leftarrow> parse_u8 c; z \<leftarrow> parse_u8 d;
         Some (w, x, y, z) }
     | _ \<Rightarrow> None }"

definition host_ends_with :: "string \<Rightarrow> string \<Rightarrow> bool" where
  "host_ends_with hostname suffix =
     (length suffix \<le> length hostname
      \<and> eq_ignore_ascii_case (drop (length hostname - length suffix) hostname) suffix)"

definition is_public_dns_name :: "string \<Rightarrow> bool" where
  "is_public_dns_name hostname0 =
     (let hostname = trim_end_dots hostname0 in
      case parse_ipv4 hostname of
        Some address \<Rightarrow> is_public_ipv4 address
      | None \<Rightarrow>
          hostname \<noteq> [] \<and> CHR ''.'' \<in> set hostname
          \<and> \<not> eq_ignore_ascii_case hostname ''localhost''
          \<and> \<not> host_ends_with hostname ''.localhost''
          \<and> \<not> host_ends_with hostname ''.local''
          \<and> \<not> host_ends_with hostname ''.internal''
          \<and> \<not> host_ends_with hostname ''.home.arpa'')"

fun find_sni :: "'p Multiaddr \<Rightarrow> string option" where
  "find_sni [] = None"
| "find_sni (Sni hostname # ps) = Some hostname"
| "find_sni (p # ps) = find_sni ps"

fun is_publicly_dialable_underlay :: "'p Multiaddr \<Rightarrow> bool" where
  "is_publicly_dialable_underlay (Ip4 address # protocols) =
     (is_public_ipv4 address \<and>
      (case find_sni protocols of
         None \<Rightarrow> False
       | Some hostname \<Rightarrow> (case libp2p_direct_ipv4 hostname of
             None \<Rightarrow> is_public_dns_name hostname
           | Some embedded \<Rightarrow> embedded = address)))"
| "is_publicly_dialable_underlay (Dns4 hostname # protocols) =
     (case libp2p_direct_ipv4 hostname of
        Some address \<Rightarrow> is_public_ipv4 address
      | None \<Rightarrow> is_public_dns_name hostname)"
| "is_publicly_dialable_underlay _ = False"

section \<open>Reference definitions\<close>

text \<open>
  The reserved blocks of the IPv4 space as prefixes, and membership of an address in a prefix
  \<open>base/len\<close> on the 32-bit value of the address.
\<close>

definition ipv4_value :: "Ipv4Addr \<Rightarrow> nat" where
  "ipv4_value = (\<lambda>(a, b, c, d). ((unat a * 256 + unat b) * 256 + unat c) * 256 + unat d)"

definition in_prefix :: "Ipv4Addr \<Rightarrow> Ipv4Addr \<times> nat \<Rightarrow> bool" where
  "in_prefix ip = (\<lambda>(base, len). ipv4_value ip div 2 ^ (32 - len) = ipv4_value base div 2 ^ (32 - len))"

definition RESERVED_BLOCKS :: "(Ipv4Addr \<times> nat) list" where
  "RESERVED_BLOCKS =
     [((0, 0, 0, 0), 8), ((10, 0, 0, 0), 8), ((100, 64, 0, 0), 10), ((127, 0, 0, 0), 8),
      ((169, 254, 0, 0), 16), ((172, 16, 0, 0), 12), ((192, 0, 0, 0), 24), ((192, 0, 2, 0), 24),
      ((192, 88, 99, 0), 24), ((192, 168, 0, 0), 16), ((198, 18, 0, 0), 15),
      ((198, 51, 100, 0), 24), ((203, 0, 113, 0), 24), ((224, 0, 0, 0), 4), ((240, 0, 0, 0), 4)]"

text \<open>The unsigned LEB128 encoding and the list framing a peer record carries.\<close>

fun uvarint :: "nat \<Rightarrow> bytes" where
  "uvarint n = (if n < 128 then [of_nat n] else of_nat (128 + n mod 128) # uvarint (n div 128))"

declare uvarint.simps [simp del]

definition frame_underlay :: "bytes \<Rightarrow> bytes" where
  "frame_underlay a = uvarint (length a) @ a"

section \<open>Reserved address blocks\<close>

lemma digit_div: "r < 256 \<Longrightarrow> (q * 256 + r) div 256 = (q :: nat)"
  by simp

lemma prefix24: "ipv4_value (a, b, c, d) div 2 ^ 8 = (unat a * 256 + unat b) * 256 + unat c"
  using digit_div [OF u8_bound, of "(unat a * 256 + unat b) * 256 + unat c" d]
  by (simp only: ipv4_value_def prod.case) simp

lemma prefix_shorter: "ipv4_value ip div 2 ^ (k + j) = ipv4_value ip div 2 ^ k div 2 ^ j"
  by (simp add: power_add div_mult2_eq)

lemma prefix16: "ipv4_value (a, b, c, d) div 2 ^ 16 = unat a * 256 + unat b"
  using prefix_shorter [of "(a, b, c, d)" 8 8] digit_div [OF u8_bound, of "unat a * 256 + unat b" c]
  by (simp only: prefix24) simp

lemma prefix8: "ipv4_value (a, b, c, d) div 2 ^ 24 = unat a"
  using prefix_shorter [of "(a, b, c, d)" 16 8] digit_div [OF u8_bound, of "unat a" b]
  by (simp only: prefix16) simp

lemma in_prefix8: "in_prefix (a, b, c, d) ((w, x, y, z), 8) \<longleftrightarrow> a = w"
  by (simp add: in_prefix_def prefix8 [simplified] word_unat_eq_iff)

lemma pair_digits_eq:
  assumes "b < m" "x < m" shows "a * m + b = w * m + x \<longleftrightarrow> a = w \<and> b = (x :: nat)"
proof
  assume eq: "a * m + b = w * m + x"
  have "(a * m + b) div m = a" "(w * m + x) div m = w" using assms by simp_all
  with eq have "a = w" by simp
  with eq show "a = w \<and> b = x" by simp
qed simp

lemma in_prefix16: "in_prefix (a, b, c, d) ((w, x, y, z), 16) \<longleftrightarrow> a = w \<and> b = x"
  using pair_digits_eq [OF u8_bound u8_bound, of "unat a" b "unat w" x]
  by (simp add: in_prefix_def prefix16 [simplified] word_unat_eq_iff)

lemma in_prefix24: "in_prefix (a, b, c, d) ((w, x, y, z), 24) \<longleftrightarrow> a = w \<and> b = x \<and> c = y"
  using pair_digits_eq [OF u8_bound u8_bound, of "unat a" b "unat w" x]
    pair_digits_eq [OF u8_bound u8_bound, of "unat a * 256 + unat b" c "unat w * 256 + unat x" y]
  by (simp add: in_prefix_def prefix24 [simplified] word_unat_eq_iff)

lemma digits_div:
  assumes "0 < k" "m * k = 256" shows "(a * 256 + b) div k = a * m + (b :: nat) div k"
proof -
  have "(a * 256 + b) = b + (a * m) * k" using assms(2) by simp
  then show ?thesis using assms(1) by (simp only: div_mult_self1)
qed

lemma in_prefix_upper:
  assumes "8 \<le> len" "len \<le> 16"
  shows "in_prefix (a, b, c, d) ((w, x, y, z), len) \<longleftrightarrow>
    a = w \<and> unat b div 2 ^ (16 - len) = unat x div 2 ^ (16 - len)"
proof -
  let ?k = "2 ^ (16 - len) :: nat" and ?m = "2 ^ (len - 8) :: nat"
  have km: "?m * ?k = 256" using assms by (simp flip: power_add)
  have less: "unat u div ?k < ?m" for u :: u8
    using u8_bound [of u] km by (simp add: less_mult_imp_div_less)
  have quotient: "ipv4_value (p, q, r, s) div 2 ^ (32 - len) = unat p * ?m + unat q div ?k"
    for p q r s :: u8
  proof -
    have "32 - len = 16 + (16 - len)" using assms by simp
    then have "ipv4_value (p, q, r, s) div 2 ^ (32 - len) = (unat p * 256 + unat q) div ?k"
      by (simp only: prefix_shorter prefix16)
    then show ?thesis using digits_div [OF _ km] by simp
  qed
  show ?thesis
    using pair_digits_eq [OF less less, of "unat a" b "unat w" x]
    by (simp add: in_prefix_def quotient word_unat_eq_iff)
qed

lemma in_prefix4: "in_prefix (a, b, c, d) ((w, x, y, z), 4) \<longleftrightarrow> unat a div 16 = unat w div 16"
proof -
  have "ipv4_value (p, q, r, s) div 2 ^ 28 = unat p div 16" for p q r s :: u8
    using prefix_shorter [of "(p, q, r, s)" 24 4] by (simp only: prefix8) simp
  then show ?thesis by (simp add: in_prefix_def)
qed

lemma div_eq_range: "0 < k \<Longrightarrow> n div k = q \<longleftrightarrow> q * k \<le> n \<and> n < q * k + (k :: nat)"
  by (metis div_nat_eqI div_times_less_eq_dividend dividend_less_div_times mult.commute mult_Suc_right add.commute)

lemma in_prefix_ranges:
  "in_prefix (a, b, c, d) ((100, 64, 0, 0), 10) \<longleftrightarrow> a = 100 \<and> 64 \<le> b \<and> b \<le> 127"
  "in_prefix (a, b, c, d) ((172, 16, 0, 0), 12) \<longleftrightarrow> a = 172 \<and> 16 \<le> b \<and> b \<le> 31"
  "in_prefix (a, b, c, d) ((198, 18, 0, 0), 15) \<longleftrightarrow> a = 198 \<and> 18 \<le> b \<and> b \<le> 19"
  "in_prefix (a, b, c, d) ((224, 0, 0, 0), 4) \<longleftrightarrow> 224 \<le> a \<and> a \<le> 239"
  "in_prefix (a, b, c, d) ((240, 0, 0, 0), 4) \<longleftrightarrow> 240 \<le> a"
proof -
  have range: "n div 64 = Suc 0 \<longleftrightarrow> 64 \<le> n \<and> n \<le> 127" "n div 16 = Suc 0 \<longleftrightarrow> 16 \<le> n \<and> n \<le> 31"
    "n div 2 = 9 \<longleftrightarrow> 18 \<le> n \<and> n \<le> 19" "n div 16 = 14 \<longleftrightarrow> 224 \<le> n \<and> n \<le> 239" for n :: nat
    by (auto simp: div_eq_range)
  have high: "n div 16 = 15 \<longleftrightarrow> 240 \<le> n" if "n < 256" for n :: nat
    using that by (auto simp: div_eq_range)
  show "in_prefix (a, b, c, d) ((100, 64, 0, 0), 10) \<longleftrightarrow> a = 100 \<and> 64 \<le> b \<and> b \<le> 127"
    by (simp add: in_prefix_upper range word_le_nat_alt)
  show "in_prefix (a, b, c, d) ((172, 16, 0, 0), 12) \<longleftrightarrow> a = 172 \<and> 16 \<le> b \<and> b \<le> 31"
    by (simp add: in_prefix_upper range word_le_nat_alt)
  show "in_prefix (a, b, c, d) ((198, 18, 0, 0), 15) \<longleftrightarrow> a = 198 \<and> 18 \<le> b \<and> b \<le> 19"
    by (simp add: in_prefix_upper range word_le_nat_alt)
  show "in_prefix (a, b, c, d) ((224, 0, 0, 0), 4) \<longleftrightarrow> 224 \<le> a \<and> a \<le> 239"
    by (simp add: in_prefix4 range word_le_nat_alt)
  show "in_prefix (a, b, c, d) ((240, 0, 0, 0), 4) \<longleftrightarrow> 240 \<le> a"
    by (simp add: in_prefix4 high [OF u8_bound] word_le_nat_alt)
qed

text \<open>
  The dial filter's test for a public IPv4 address accepts exactly the addresses outside
  the reserved blocks: this-network, private, shared, loopback, link-local, protocol
  assignment, documentation, 6to4 relay, benchmarking, multicast and the class E block with the
  broadcast address.
\<close>

theorem is_public_ipv4_cidr:
  "is_public_ipv4 ip = list_all (\<lambda>block. \<not> in_prefix ip block) RESERVED_BLOCKS"
proof -
  obtain a b c d where ip: "ip = (a, b, c, d)" by (cases ip)
  have "is_broadcast (a, b, c, d) \<Longrightarrow> 240 \<le> a" by simp
  then show ?thesis
    unfolding ip RESERVED_BLOCKS_def list.pred_inject is_public_ipv4.simps
      is_private.simps is_loopback.simps is_link_local.simps is_multicast.simps is_documentation.simps
      in_prefix_ranges in_prefix8 in_prefix16 in_prefix24
    using list.pred_inject(1) [of "\<lambda>block. \<not> in_prefix (a, b, c, d) block"] by argo
qed

section \<open>Underlay lists\<close>

lemma or_push_bit_add:
  assumes "unat v < 2 ^ s" "m * 2 ^ s < 2 ^ 64"
  shows "unat ((v :: u64) OR push_bit s (of_nat m)) = unat v + m * 2 ^ s"
proof -
  have "push_bit s (of_nat m :: u64) = of_nat (m * 2 ^ s)"
    by (simp add: push_bit_eq_mult)
  then have shifted: "unat (push_bit s (of_nat m :: u64)) = m * 2 ^ s"
    using assms(2) by (simp only: unat_of_nat) simp
  have "unat v AND m * 2 ^ s = 0"
  proof (rule bit_eqI)
    fix n
    have "\<not> bit (unat v) n" if "s \<le> n"
      using assms(1) that
      by (metis bit_iff_odd div_less even_zero less_le_trans one_le_numeral power_increasing)
    moreover have "\<not> bit (m * 2 ^ s) n" if "n < s"
      using that by (simp add: bit_push_bit_iff flip: push_bit_eq_mult)
    ultimately show "bit (unat v AND m * 2 ^ s) n \<longleftrightarrow> bit (0 :: nat) n"
      by (cases "s \<le> n") (auto simp: bit_and_iff)
  qed
  then show ?thesis
    by (simp only: unsigned_or_eq shifted disjunctive_add_eq_or)
qed

lemma low_bits:
  assumes "m < 128"
  shows "ucast ((of_nat m :: u8) AND 0x7f) = (of_nat m :: u64)" "(of_nat m :: u8) AND 0x80 = 0"
    "ucast ((of_nat (128 + m) :: u8) AND 0x7f) = (of_nat m :: u64)"
    "(of_nat (128 + m) :: u8) AND 0x80 \<noteq> 0"
proof -
  have "\<forall>m \<in> set [0..<128]. ucast ((of_nat m :: u8) AND 0x7f) = (of_nat m :: u64)
     \<and> (of_nat m :: u8) AND 0x80 = 0 \<and> ucast ((of_nat (128 + m) :: u8) AND 0x7f) = (of_nat m :: u64)
     \<and> (of_nat (128 + m) :: u8) AND 0x80 \<noteq> 0"
    by code_simp
  with assms show "ucast ((of_nat m :: u8) AND 0x7f) = (of_nat m :: u64)"
    "(of_nat m :: u8) AND 0x80 = 0" "ucast ((of_nat (128 + m) :: u8) AND 0x7f) = (of_nat m :: u64)"
    "(of_nat (128 + m) :: u8) AND 0x80 \<noteq> 0" by auto
qed

lemma uvarint_not_Nil [simp]: "uvarint n \<noteq> []"
  by (subst uvarint.simps) simp

lemma read_uvarint_loop_uvarint:
  assumes "unat v < 2 ^ s" "n * 2 ^ s < 2 ^ 64"
  shows "\<exists>v'. read_uvarint_loop (uvarint n @ rest) i v s = (v', i + length (uvarint n))
    \<and> unat v' = unat v + n * 2 ^ s"
  using assms
proof (induction n arbitrary: i v s rule: uvarint.induct)
  case (1 n)
  show ?case
  proof (cases "n < 128")
    case True
    then show ?thesis
      using or_push_bit_add [OF "1.prems"]
      by (subst (1 2) uvarint.simps) (simp add: low_bits Let_def)
  next
    case False
    let ?m = "n mod 128" and ?q = "n div 128"
    have n: "n = ?m + ?q * 128" by simp
    have m: "?m * 2 ^ s < 2 ^ 64"
      using "1.prems"(2) by (rule le_less_trans [rotated]) simp
    have q: "?q * 2 ^ (s + 7) \<le> n * 2 ^ s"
      using n by (simp add: power_add)
    have "(2 :: nat) ^ (s + 7) \<le> n * 2 ^ s"
      using False by (simp add: power_add)
    then have s: "s + 7 < 64"
      using "1.prems"(2) by (metis le_less_trans nat_power_less_imp_less zero_less_numeral)
    let ?v = "v OR push_bit s (of_nat ?m)"
    have v: "unat ?v = unat v + ?m * 2 ^ s" by (rule or_push_bit_add [OF "1.prems"(1) m])
    have "unat v + ?m * 2 ^ s < 2 ^ s + 127 * 2 ^ s"
      using "1.prems"(1) by (intro add_less_le_mono mult_le_mono1) simp_all
    then have v': "unat ?v < 2 ^ (s + 7)" using v by (simp add: power_add)
    have "\<exists>v'. read_uvarint_loop (uvarint ?q @ rest) (i + 1) ?v (s + 7) = (v', i + 1 + length (uvarint ?q))
      \<and> unat v' = unat ?v + ?q * 2 ^ (s + 7)"
      by (rule "1.IH" [OF False v' le_less_trans [OF q "1.prems"(2)]])
    moreover have "unat ?v + ?q * 2 ^ (s + 7) = unat v + n * 2 ^ s"
    proof -
      have "n * 2 ^ s = (?m + ?q * 128) * 2 ^ s" by simp
      then show ?thesis using v by (simp only: power_add distrib_right) simp
    qed
    moreover have "uvarint n = of_nat (128 + ?m) # uvarint ?q"
      using False by (subst uvarint.simps) simp
    ultimately show ?thesis
      using s low_bits(3,4) [of ?m] by (auto simp: Let_def)
  qed
qed

lemma read_underlay_uvarint_uvarint:
  "n < 2 ^ 64 \<Longrightarrow> read_underlay_uvarint (uvarint n @ rest) = (of_nat n, length (uvarint n))"
  using read_uvarint_loop_uvarint [of 0 0 n rest 0]
  by (auto simp: read_underlay_uvarint_def unat_of_nat word_unat_eq_iff)


lemma length_le_concat: "x \<in> set xs \<Longrightarrow> length x \<le> length (concat (map frame_underlay xs))"
  by (induction xs) (auto simp: frame_underlay_def)

lemma underlay_list_loop_frames:
  assumes "data = front @ concat (map frame_underlay xs)" "length data < 2 ^ 64"
    and "\<And>x. x \<in> set xs \<Longrightarrow> parse x = Some (addr x)"
    and "length acc + length xs \<le> MAX_UNDERLAYS_PER_PEER"
  shows "underlay_list_loop parse data acc (length front) = acc @ map addr xs"
  using assms
proof (induction xs arbitrary: front acc)
  case Nil
  then show ?case by (simp add: underlay_list_loop.simps)
next
  case (Cons x xs)
  let ?rest = "concat (map frame_underlay xs)"
  have data: "data = front @ uvarint (length x) @ x @ ?rest"
    using Cons.prems(1) by (simp add: frame_underlay_def [of x])
  have len: "length x < 2 ^ 64" using Cons.prems(2) data by simp
  have unat: "unat (of_nat (length x) :: u64) = length x"
    using len by (simp add: unat_of_nat)
  have parse: "parse x = Some (addr x)" using Cons.prems(3) by simp
  note read = read_underlay_uvarint_uvarint [OF len, of "x @ ?rest"]
  have "underlay_list_loop parse data (acc @ [addr x]) (length (front @ frame_underlay x))
      = (acc @ [addr x]) @ map addr xs"
    using Cons.prems by (intro Cons.IH) simp_all
  moreover have "underlay_list_loop parse data acc (length front)
      = underlay_list_loop parse data (acc @ [addr x]) (length (front @ frame_underlay x))"
    using Cons.prems(4) len parse unfolding data
    by (subst underlay_list_loop.simps)
       (simp add: Let_def read unat usize_bound_def frame_underlay_def [of x] add.assoc)
  ultimately show ?case by simp
qed

text \<open>
  C38. An underlay record that lists at most twenty addresses, each framed by the unsigned varint of
  its length, decodes to exactly those addresses in order, for every decoder of a single
  address that accepts each of them.
\<close>

theorem deserialize_underlays_roundtrip:
  assumes "\<And>x. x \<in> set xs \<Longrightarrow> parse x = Some (addr x)"
    and "length xs \<le> MAX_UNDERLAYS_PER_PEER"
    and "length (concat (map frame_underlay xs)) < MAX_UNDERLAY_BYTES"
  shows "deserialize_underlays parse (UNDERLAY_LIST_PREFIX # concat (map frame_underlay xs))
    = map addr xs"
  using underlay_list_loop_frames [of "concat (map frame_underlay xs)" "[]" xs parse addr "[]"] assms
  by (simp add: deserialize_underlays_def deserialize_underlay_list_def MAX_UNDERLAY_BYTES_def)

theorem deserialize_underlays_roundtrip_witness:
  "deserialize_underlays (\<lambda>b. if b = [] then None else Some b)
     (UNDERLAY_LIST_PREFIX # concat (map frame_underlay [[4, 127], [6]])) = [[4, 127], [6]]"
proof -
  have "length (concat (map frame_underlay [[4, 127], [6]])) < MAX_UNDERLAY_BYTES"
    by (simp add: frame_underlay_def uvarint.simps MAX_UNDERLAY_BYTES_def)
  then show ?thesis
    by (subst deserialize_underlays_roundtrip [where addr = "\<lambda>b. b"])
       (auto simp: MAX_UNDERLAYS_PER_PEER_def)
qed

text \<open>A record is decoded whole or not at all, and never to more than twenty addresses.\<close>

lemma underlay_list_loop_bounded:
  "length addresses \<le> MAX_UNDERLAYS_PER_PEER \<Longrightarrow>
     length (underlay_list_loop parse data addresses offset) \<le> MAX_UNDERLAYS_PER_PEER"
proof (induction parse data addresses offset rule: underlay_list_loop.induct)
  case (1 parse data addresses offset)
  show ?case
    using "1.IH" "1.prems"
    by (subst underlay_list_loop.simps) (auto simp: Let_def split: prod.splits option.splits)
qed

lemma deserialize_underlays_bounded:
  "length (deserialize_underlays parse data) \<le> MAX_UNDERLAYS_PER_PEER"
  using underlay_list_loop_bounded [of "[]"]
  by (auto simp: deserialize_underlays_def deserialize_underlay_list_def MAX_UNDERLAYS_PER_PEER_def
      split: option.splits)

section \<open>The address that is dialled\<close>

text \<open>
  Rewriting a secure address for the browser transport keeps the peer it names and keeps it
  publicly dialable: the host name that replaces the IP address was checked against it.
\<close>

lemma browser_dial_address_cases:
  assumes "browser_dial_address a = Inr d"
  obtains (sni) ip port host path peer where
      "a = [Ip4 ip, Tcp port, Tls, Sni host, Ws path, P2p peer]"
      "d = [Dns4 host, Tcp port, Tls, Ws ''/'', P2p peer]"
    | (dns) host port path peer where "a = [Dns4 host, Tcp port, Tls, Ws path, P2p peer]" "d = a"
  using assms unfolding browser_dial_address_def
  by (auto split: list.splits Protocol.splits)

lemma browser_dial_address_peer:
  "browser_dial_address a = Inr d \<Longrightarrow> try_from_multiaddr d = try_from_multiaddr a"
  by (erule browser_dial_address_cases) (simp_all add: try_from_multiaddr_def)

lemma browser_dial_address_public:
  "browser_dial_address a = Inr d \<Longrightarrow> is_publicly_dialable_underlay a \<Longrightarrow>
     is_publicly_dialable_underlay d"
  by (erule browser_dial_address_cases) (auto split: option.splits)

lemma browser_dial_address_idem:
  "browser_dial_address a = Inr d \<Longrightarrow> browser_dial_address d = Inr d"
  by (erule browser_dial_address_cases) (simp_all add: browser_dial_address_def)

end
