(* ===== verification/Network.thy ===== *)
theory Network
  imports Accounting Addresses
begin

text \<open>
  \<open>src/network_conventions.rs\<close>: the connection population, the physical connections of a
  peer, connection attempts, delayed retries, accounting sessions and cheque claims.  A lock of
  the source protects a field of \<open>Wings\<close>; an operation is a function from the shared state
  to the shared state.  Peer and connection identifiers are opaque to the code, which only
  compares them.  A hash map is a partial map, a hash set a set.  The shared mutexes around
  \<open>PeerAccounting\<close> are compared by address (\<open>Arc::ptr_eq\<close>), so an account is a
  reference into a store.  What the swarm answers is an argument, and what an operation asks of
  the swarm or of a channel is returned as a list of effects.
\<close>

section \<open>Data\<close>

type_synonym PeerId = nat
type_synonym ConnectionId = nat
type_synonym ConnectionAttemptId = u64
type_synonym AccountRef = nat
type_synonym Address = "PeerId Multiaddr"
type_synonym Account = "(PeerId, ConnectionId) PeerAccounting"

record PeerFile =
  pf_peer_id :: PeerId
  pf_overlay :: bytes
  pf_beneficiary :: bytes
  pf_connection_attempt_id :: ConnectionAttemptId
  pf_connection_id :: ConnectionId

text \<open>The bounded(1) ready channel of an attempt is the list of the messages it holds.\<close>

record ConnectionAttempt =
  ca_id :: ConnectionAttemptId
  ca_physical_connection_id :: "ConnectionId option"
  ca_identify_failed :: bool
  ca_handshake_ready :: "ConnectionId list"

record KnownPeer =
  kp_underlay :: Address
  kp_generation :: u64

record PeerDialInstruction =
  pdi_underlay :: bytes
  pdi_generation :: u64
  pdi_retry :: bool
  pdi_bootnode :: bool

record QueuedPeerDial =
  qpd_peer :: PeerId
  qpd_dial_addr :: Address
  qpd_generation :: u64
  qpd_bootnode :: bool

record ConnectionPopulation =
  cp_connected :: u64
  cp_ongoing :: u64

type_synonym PhysicalConnectionMap = "PeerId \<rightharpoonup> ConnectionId set"
type_synonym DelayedPeerRetryMap = "PeerId \<rightharpoonup> u64 \<times> u64"

record TransportConnectionSession =
  tcs_peer :: PeerId
  tcs_connection_id :: ConnectionId

text \<open>
  The last four fields are the process-wide counters of attempts and retries, and the store of
  accounts with its next free reference.
\<close>

record Wings =
  connected_peers :: "PeerId \<rightharpoonup> PeerFile"
  overlay_peers :: "bytes \<rightharpoonup> PeerId"
  bootnodes :: "PeerId set"
  accounting_peers :: "PeerId \<rightharpoonup> AccountRef"
  ongoing_cheques :: "PeerId \<rightharpoonup> u64 \<times> u64"
  connection_attempts :: "PeerId \<rightharpoonup> ConnectionAttempt"
  connection_cooldowns :: "PeerId set"
  physical_connections :: PhysicalConnectionMap
  handshake_ready_connections :: "(PeerId \<times> ConnectionId) set"
  canonical_identify_address :: "Address option"
  known_peers :: "PeerId \<rightharpoonup> KnownPeer"
  delayed_peer_retries :: DelayedPeerRetryMap
  rejected_duplicate_peers :: "PeerId \<rightharpoonup> PeerId"
  dial_failures :: u64
  NEXT_CONNECTION_ATTEMPT_ID :: u64
  NEXT_PEER_RETRY_ID :: u64
  account_store :: "AccountRef \<Rightarrow> Account option"
  next_account :: AccountRef

text \<open>What a handler asks of the swarm and of the channels.\<close>

datatype Effect =
    CloseConnection ConnectionId
  | DisconnectPeer PeerId
  | DisconnectPeers "PeerId set"
  | RemoveExternalAddresses
  | Dial PeerId Address ConnectionId
  | AddExternalAddress Address
  | PushIdentify PeerId
  | QueueDial PeerDialInstruction
  | ScheduleRetry PeerId u64 u64 Address bool
  | StartHandshake Address bool u64 ConnectionAttemptId
  | AccountingDrained

definition PEER_RETRY_DELAY_MS :: u64 where "PEER_RETRY_DELAY_MS = 500"
definition MAINNET_BOOTNODE_RETRY_DELAY_MS :: u64 where "MAINNET_BOOTNODE_RETRY_DELAY_MS = 30000"
definition MAINNET_BOOTNODE_RETRY_JITTER_MS :: u64 where "MAINNET_BOOTNODE_RETRY_JITTER_MS = 5000"

section \<open>Population\<close>

definition try_reserve_connection_capacity ::
  "u64 \<Rightarrow> ConnectionPopulation \<Rightarrow> bool \<times> ConnectionPopulation" where
  "try_reserve_connection_capacity limit population =
     (if connection_dial_capacity_available limit (cp_connected population) (cp_ongoing population)
      then (True, population\<lparr>cp_ongoing := saturating_add (cp_ongoing population) 1\<rparr>)
      else (False, population))"

text \<open>
  One turn of the waiting loop of \<open>reserve_connection_capacity\<close>: the answer, or
  \<open>None\<close> to wait for the population to change.
\<close>

definition reserve_connection_capacity_turn ::
  "u64 \<Rightarrow> u64 \<Rightarrow> u64 \<Rightarrow> ConnectionPopulation \<Rightarrow> bool option \<times> ConnectionPopulation" where
  "reserve_connection_capacity_turn limit generation expected_generation population =
     (if generation \<noteq> expected_generation then (Some False, population)
      else let (reserved, population') = try_reserve_connection_capacity limit population
           in (if reserved then Some True else None, population'))"

definition complete_connection_reservation ::
  "bool \<Rightarrow> ConnectionPopulation \<Rightarrow> ConnectionPopulation" where
  "complete_connection_reservation newly_connected population =
     (let population' = population\<lparr>cp_ongoing := saturating_sub (cp_ongoing population) 1\<rparr> in
      if newly_connected
      then population'\<lparr>cp_connected := saturating_add (cp_connected population') 1\<rparr>
      else population')"

definition release_connection_reservation :: "ConnectionPopulation \<Rightarrow> ConnectionPopulation" where
  "release_connection_reservation population = complete_connection_reservation False population"

definition release_connected_peer :: "ConnectionPopulation \<Rightarrow> ConnectionPopulation" where
  "release_connected_peer population =
     population\<lparr>cp_connected := saturating_sub (cp_connected population) 1\<rparr>"

text \<open>One turn of the loop in \<open>wait_for_connections\<close>, for the generation it started in.\<close>

definition wait_for_connections_turn ::
  "u64 \<Rightarrow> u64 \<Rightarrow> u64 \<Rightarrow> ConnectionPopulation \<Rightarrow> u64 option" where
  "wait_for_connections_turn current_generation generation minimum population =
     (if current_generation \<noteq> generation then Some 0
      else if minimum \<le> cp_connected population then Some (cp_connected population)
      else None)"

definition bump_connection_generation :: "u64 \<Rightarrow> u64" where
  "bump_connection_generation generation = saturating_add generation 1"

section \<open>Delayed retries\<close>

text \<open>The delay is jittered for the mainnet bootnodes; the random number is an argument.\<close>

definition failed_peer_retry_delay_ms :: "(Address \<Rightarrow> bool) \<Rightarrow> u64 \<Rightarrow> Address \<Rightarrow> u64" where
  "failed_peer_retry_delay_ms is_mainnet_bootnode random address =
     (if is_mainnet_bootnode address
      then saturating_add MAINNET_BOOTNODE_RETRY_DELAY_MS
             (random mod MAINNET_BOOTNODE_RETRY_JITTER_MS)
      else PEER_RETRY_DELAY_MS)"

definition queue_peer_dial_retry ::
  "Address \<Rightarrow> u64 \<Rightarrow> bool \<Rightarrow> Wings \<Rightarrow> Wings \<times> Effect list" where
  "queue_peer_dial_retry address expected_generation bootnode w =
     (case try_from_multiaddr address of
        None \<Rightarrow> (w, [])
      | Some peer \<Rightarrow>
          let retry_id = max (NEXT_PEER_RETRY_ID w) 1 in
          (w\<lparr>NEXT_PEER_RETRY_ID := NEXT_PEER_RETRY_ID w + 1,
             delayed_peer_retries := (delayed_peer_retries w)(peer \<mapsto> (expected_generation, retry_id))\<rparr>,
           [ScheduleRetry peer expected_generation retry_id address bootnode]))"

text \<open>The task the retry spawns, after its sleep.\<close>

definition peer_dial_retry_fires ::
  "(Address \<Rightarrow> bytes) \<Rightarrow> u64 \<Rightarrow> PeerId \<Rightarrow> u64 \<Rightarrow> u64 \<Rightarrow> Address \<Rightarrow> bool \<Rightarrow> Wings \<Rightarrow> Wings \<times> Effect list" where
  "peer_dial_retry_fires to_vec generation peer expected_generation retry_id address bootnode w =
     (if delayed_peer_retries w peer \<noteq> Some (expected_generation, retry_id) then (w, [])
      else let w' = w\<lparr>delayed_peer_retries := (delayed_peer_retries w)(peer := None)\<rparr> in
        if generation \<noteq> expected_generation then (w', [])
        else (w', [QueueDial \<lparr>pdi_underlay = to_vec address, pdi_generation = expected_generation,
                     pdi_retry = True, pdi_bootnode = bootnode\<rparr>]))"

section \<open>Physical connections\<close>

definition record_physical_connection_established ::
  "PeerId \<Rightarrow> ConnectionId \<Rightarrow> PhysicalConnectionMap \<Rightarrow> PhysicalConnectionMap" where
  "record_physical_connection_established peer connection_id connections =
     connections(peer \<mapsto> insert connection_id (case connections peer of None \<Rightarrow> {} | Some cs \<Rightarrow> cs))"

definition record_physical_connection_closed ::
  "PeerId \<Rightarrow> ConnectionId \<Rightarrow> PhysicalConnectionMap \<Rightarrow> PhysicalConnectionMap" where
  "record_physical_connection_closed peer connection_id connections =
     (case connections peer of
        None \<Rightarrow> connections
      | Some cs \<Rightarrow> let cs' = cs - {connection_id} in
          if cs' = {} then connections(peer := None) else connections(peer \<mapsto> cs'))"

definition exclusive_physical_connection ::
  "PhysicalConnectionMap \<Rightarrow> PeerId \<Rightarrow> ConnectionId option" where
  "exclusive_physical_connection connections peer =
     (case connections peer of
        None \<Rightarrow> None
      | Some cs \<Rightarrow> if card cs = 1 then Some (the_elem cs) else None)"

definition session_is_current ::
  "PhysicalConnectionMap \<Rightarrow> TransportConnectionSession \<Rightarrow> bool" where
  "session_is_current connections session =
     (exclusive_physical_connection connections (tcs_peer session) = Some (tcs_connection_id session))"

definition session_capture ::
  "PeerId \<Rightarrow> ConnectionId \<Rightarrow> PhysicalConnectionMap \<Rightarrow> TransportConnectionSession option" where
  "session_capture peer connection_id connections =
     (let session = \<lparr>tcs_peer = peer, tcs_connection_id = connection_id\<rparr> in
      if session_is_current connections session then Some session else None)"

section \<open>Connection attempts\<close>

definition try_mark_connection_attempt ::
  "PeerId \<Rightarrow> Wings \<Rightarrow> ConnectionAttemptId option \<times> Wings" where
  "try_mark_connection_attempt peer w =
     (if peer \<in> dom (connected_peers w) then (None, w)
      else if peer \<in> connection_cooldowns w then (None, w)
      else if peer \<in> dom (delayed_peer_retries w) then (None, w)
      else if peer \<in> dom (connection_attempts w) then (None, w)
      else let attempt_id = max (NEXT_CONNECTION_ATTEMPT_ID w) 1 in
        (Some attempt_id,
         w\<lparr>NEXT_CONNECTION_ATTEMPT_ID := NEXT_CONNECTION_ATTEMPT_ID w + 1,
           connection_attempts := (connection_attempts w)(peer \<mapsto>
             \<lparr>ca_id = attempt_id, ca_physical_connection_id = None,
              ca_identify_failed = False, ca_handshake_ready = []\<rparr>)\<rparr>))"

definition physically_open :: "Wings \<Rightarrow> PeerId \<Rightarrow> ConnectionId \<Rightarrow> bool" where
  "physically_open w peer connection_id =
     (case physical_connections w peer of None \<Rightarrow> False | Some cs \<Rightarrow> connection_id \<in> cs)"

definition awaits_identify :: "Wings \<Rightarrow> PeerId \<Rightarrow> ConnectionId \<Rightarrow> ConnectionAttempt option" where
  "awaits_identify w peer connection_id =
     (case connection_attempts w peer of
        None \<Rightarrow> None
      | Some attempt \<Rightarrow>
          if ca_physical_connection_id attempt = Some connection_id \<and> \<not> ca_identify_failed attempt
          then Some attempt else None)"

definition mark_handshake_ready_connection :: "PeerId \<Rightarrow> ConnectionId \<Rightarrow> Wings \<Rightarrow> Wings" where
  "mark_handshake_ready_connection peer connection_id w =
     (case awaits_identify w peer connection_id of
        None \<Rightarrow> w
      | Some attempt \<Rightarrow>
          if \<not> physically_open w peer connection_id then w
          else let w' = w\<lparr>handshake_ready_connections :=
                           insert (peer, connection_id) (handshake_ready_connections w)\<rparr> in
            if exclusive_physical_connection (physical_connections w) peer \<noteq> None
               \<and> ca_handshake_ready attempt = []
            then w'\<lparr>connection_attempts := (connection_attempts w')(peer \<mapsto>
                     attempt\<lparr>ca_handshake_ready := [connection_id]\<rparr>)\<rparr>
            else w')"

text \<open>The flag, and whether the swarm is asked to close the connection.\<close>

definition close_failed_identify_connection ::
  "PeerId \<Rightarrow> ConnectionId \<Rightarrow> Wings \<Rightarrow> Wings \<times> Effect list" where
  "close_failed_identify_connection peer connection_id w =
     (case awaits_identify w peer connection_id of
        None \<Rightarrow> (w, [])
      | Some attempt \<Rightarrow>
          if \<not> physically_open w peer connection_id
             \<or> (peer, connection_id) \<in> handshake_ready_connections w then (w, [])
          else (w\<lparr>connection_attempts := (connection_attempts w)(peer \<mapsto>
                   attempt\<lparr>ca_identify_failed := True\<rparr>)\<rparr>,
                [CloseConnection connection_id]))"

definition remove_connection_attempt ::
  "PeerId \<Rightarrow> ConnectionAttemptId \<Rightarrow> Wings \<Rightarrow> bool \<times> Wings" where
  "remove_connection_attempt peer expected_attempt_id w =
     (if map_option ca_id (connection_attempts w peer) \<noteq> Some expected_attempt_id then (False, w)
      else (True, w\<lparr>connection_attempts := (connection_attempts w)(peer := None)\<rparr>))"

definition remove_connection_attempt_for_connection ::
  "PeerId \<Rightarrow> ConnectionId \<Rightarrow> Wings \<Rightarrow> bool \<times> Wings" where
  "remove_connection_attempt_for_connection peer connection_id w =
     (if Option.bind (connection_attempts w peer) ca_physical_connection_id \<noteq> Some connection_id
      then (False, w)
      else (True, w\<lparr>connection_attempts := (connection_attempts w)(peer := None)\<rparr>))"

definition connection_attempt_is_current :: "Wings \<Rightarrow> PeerId \<Rightarrow> ConnectionAttemptId \<Rightarrow> bool" where
  "connection_attempt_is_current w peer expected_attempt_id =
     (map_option ca_id (connection_attempts w peer) = Some expected_attempt_id)"

definition assign_connection ::
  "PeerId \<Rightarrow> ConnectionAttemptId \<Rightarrow> ConnectionId option \<Rightarrow> Wings \<Rightarrow> bool \<times> Wings" where
  "assign_connection peer attempt_id connection w =
     (case connection_attempts w peer of
        Some attempt \<Rightarrow>
          if ca_id attempt = attempt_id \<and> connection \<noteq> None
          then (True, w\<lparr>connection_attempts := (connection_attempts w)(peer \<mapsto>
                        attempt\<lparr>ca_physical_connection_id := connection\<rparr>)\<rparr>)
          else (False, w)
      | None \<Rightarrow> (False, w))"

text \<open>
  \<open>start_owned_connection_attempt\<close> up to the wait for a dial permit.  \<open>Inl\<close> is the
  answer when no dial is needed; \<open>Inr\<close> the connection that will be dialled once a permit
  arrives.  The swarm draws the identifier of the new connection.
\<close>

definition start_owned_connection_attempt ::
  "bool \<Rightarrow> ConnectionId \<Rightarrow> PeerId \<Rightarrow> ConnectionAttemptId \<Rightarrow> Wings \<Rightarrow> (bool + ConnectionId) \<times> Wings" where
  "start_owned_connection_attempt swarm_is_connected fresh_connection_id peer attempt_id w =
     (if swarm_is_connected then
        let (owned, w') = assign_connection peer attempt_id
              (exclusive_physical_connection (physical_connections w) peer) w
        in (Inl owned, w')
      else
        let (owned, w') = assign_connection peer attempt_id (Some fresh_connection_id) w
        in (if owned then Inr fresh_connection_id else Inl False, w'))"

section \<open>Accounting sessions and cheques\<close>

definition new_account :: "PeerId \<Rightarrow> Account" where
  "new_account peer = \<lparr>pa_balance = 0, pa_surplus_balance = 0, pa_threshold = 0, pa_reserve = 0,
     pa_refreshment = f64_zero, pa_refresh_scheduled = False, pa_id = peer,
     pa_connection_id = None\<rparr>"

definition get_or_create_accounting_peer :: "PeerId \<Rightarrow> Wings \<Rightarrow> AccountRef \<times> Wings" where
  "get_or_create_accounting_peer peer w =
     (case accounting_peers w peer of
        Some account \<Rightarrow> (account, w)
      | None \<Rightarrow>
          let account = next_account w in
          (account, w\<lparr>accounting_peers := (accounting_peers w)(peer \<mapsto> account),
                      account_store := (account_store w)(account \<mapsto> new_account peer),
                      next_account := account + 1\<rparr>))"

text \<open>A locked update of an account.\<close>

definition update_account :: "AccountRef \<Rightarrow> (Account \<Rightarrow> Account) \<Rightarrow> Wings \<Rightarrow> Wings" where
  "update_account account f w =
     w\<lparr>account_store := (account_store w)(account := map_option f (account_store w account))\<rparr>"

definition account_connection :: "Wings \<Rightarrow> AccountRef \<Rightarrow> ConnectionId option" where
  "account_connection w account = Option.bind (account_store w account) pa_connection_id"

definition owns_connection :: "Wings \<Rightarrow> PeerId \<Rightarrow> ConnectionId \<Rightarrow> bool" where
  "owns_connection w peer connection_id =
     (map_option pf_connection_id (connected_peers w peer) = Some connection_id)"

definition current_accounting_protocol_session ::
  "Wings \<Rightarrow> PeerId \<Rightarrow> AccountRef \<Rightarrow> ConnectionId \<Rightarrow> TransportConnectionSession option" where
  "current_accounting_protocol_session w peer account connection_id =
     (if \<not> owns_connection w peer connection_id then None
      else if accounting_peers w peer \<noteq> Some account then None
      else if account_connection w account \<noteq> Some connection_id then None
      else session_capture peer connection_id (physical_connections w))"

definition claim_current_cheque ::
  "PeerId \<Rightarrow> AccountRef \<Rightarrow> ConnectionId \<Rightarrow> u64 \<Rightarrow> u64 \<Rightarrow> Wings \<Rightarrow> bool \<times> Wings" where
  "claim_current_cheque peer account connection_id amount generation w =
     (if \<not> owns_connection w peer connection_id then (False, w)
      else if accounting_peers w peer \<noteq> Some account
              \<or> account_connection w account \<noteq> Some connection_id then (False, w)
      else if peer \<in> dom (ongoing_cheques w)
              \<or> exclusive_physical_connection (physical_connections w) peer \<noteq> Some connection_id
      then (False, w)
      else (True, w\<lparr>ongoing_cheques := (ongoing_cheques w)(peer \<mapsto> (amount, generation))\<rparr>))"

text \<open>
  \<open>quiesce_drain_and_close_accounting_session\<close>: the locked entry, which stops new
  reservations and returns the cheque to wait for; the condition its loop waits for; and the
  effect once it holds.
\<close>

definition quiesce_accounting_session ::
  "PeerId \<Rightarrow> AccountRef \<Rightarrow> ConnectionId \<Rightarrow> Wings \<Rightarrow> (u64 \<times> u64) option \<times> Wings" where
  "quiesce_accounting_session peer account connection_id w =
     (if owns_connection w peer connection_id \<and> accounting_peers w peer = Some account
         \<and> account_connection w account = Some connection_id
      then (ongoing_cheques w peer, update_account account (\<lambda>a. a\<lparr>pa_connection_id := None\<rparr>) w)
      else (None, w))"

definition accounting_session_drained ::
  "PeerId \<Rightarrow> AccountRef \<Rightarrow> (u64 \<times> u64) option \<Rightarrow> Wings \<Rightarrow> bool" where
  "accounting_session_drained peer account pending_cheque w =
     (map_option pa_reserve (account_store w account) = Some 0
      \<and> (case pending_cheque of
            None \<Rightarrow> True
          | Some claim \<Rightarrow> ongoing_cheques w peer \<noteq> Some claim))"

definition drain_turn ::
  "PeerId \<Rightarrow> AccountRef \<Rightarrow> ConnectionId \<Rightarrow> (u64 \<times> u64) option \<Rightarrow> Wings \<Rightarrow> Effect list option" where
  "drain_turn peer account connection_id pending_cheque w =
     (if accounting_session_drained peer account pending_cheque w
      then Some [CloseConnection connection_id] else None)"

section \<open>Dial candidates\<close>

definition peer_dial_candidates ::
  "(bytes \<Rightarrow> Address option) \<Rightarrow> PeerDialInstruction \<Rightarrow> bool \<Rightarrow> QueuedPeerDial list" where
  "peer_dial_candidates parse instruction public_network =
     List.map_filter (\<lambda>source_addr. do {
         peer \<leftarrow> try_from_multiaddr source_addr;
         (if public_network \<and> \<not> pdi_retry instruction \<and> \<not> pdi_bootnode instruction
             \<and> \<not> is_publicly_dialable_underlay source_addr
          then None
          else case browser_dial_address source_addr of
            Inl _ \<Rightarrow> None
          | Inr dial_addr \<Rightarrow> Some \<lparr>qpd_peer = peer, qpd_dial_addr = dial_addr,
              qpd_generation = pdi_generation instruction,
              qpd_bootnode = pdi_bootnode instruction\<rparr>) })
       (deserialize_underlays parse (pdi_underlay instruction))"

definition is_private_or_local_bootnode :: "(string \<Rightarrow> Address option) \<Rightarrow> string \<Rightarrow> bool" where
  "is_private_or_local_bootnode parse address =
     (case parse address of
        None \<Rightarrow> False
      | Some [] \<Rightarrow> False
      | Some (Ip4 ip # _) \<Rightarrow> is_private ip \<or> is_loopback ip \<or> is_link_local ip \<or> is_unspecified ip
      | Some (Dns4 h # ps) \<Rightarrow> \<not> is_publicly_dialable_underlay (Dns4 h # ps)
      | Some _ \<Rightarrow> False)"

end
