(* ===== verification/Node.thy ===== *)
theory Node
  imports Network
begin

text \<open>
  The event handlers of \<open>src/lib.rs\<close> and the node operations of
  \<open>src/network_conventions.rs\<close>.  All tasks of a node run on one thread
  (\<open>spawn_local\<close> on a \<open>LocalSet\<close>), and no task keeps a lock across a point where it
  waits for time, the network or a channel, so a lock is always free when it is asked for and a
  task runs undisturbed from one such wait to the next.  Each definition below is one such
  section; where a handler waits in the middle it has one definition per section, and the
  sections are interleaved freely by the step relation of \<open>NodeSafety\<close>.  Logging is left
  out.
\<close>

section \<open>Data\<close>

datatype NetworkMode = Testnet | Mainnet

record NetworkProfile =
  np_mode :: NetworkMode
  np_swarm_network_id :: u64

definition profile_for_swarm_network_id :: "u64 \<Rightarrow> NetworkProfile option" where
  "profile_for_swarm_network_id network_id =
     (if network_id = 1 then Some \<lparr>np_mode = Mainnet, np_swarm_network_id = 1\<rparr>
      else if network_id = 10 then Some \<lparr>np_mode = Testnet, np_swarm_network_id = 10\<rparr>
      else None)"

record Node =
  wings :: Wings
  population :: ConnectionPopulation
  connection_generation :: u64
  network_id :: u64
  service_worker_network_id :: u64
  allow_private_gossip :: bool
  mainnet_active :: bool
  buildup_limit :: u64
  cheque_generations :: u64

definition new_wings :: Wings where
  "new_wings = \<lparr>connected_peers = Map.empty, overlay_peers = Map.empty, bootnodes = {},
     accounting_peers = Map.empty, ongoing_cheques = Map.empty, connection_attempts = Map.empty,
     connection_cooldowns = {}, physical_connections = Map.empty,
     handshake_ready_connections = {}, canonical_identify_address = None,
     known_peers = Map.empty, delayed_peer_retries = Map.empty,
     rejected_duplicate_peers = Map.empty, dial_failures = 0, NEXT_CONNECTION_ATTEMPT_ID = 1,
     NEXT_PEER_RETRY_ID = 1, account_store = Map.empty, next_account = 0\<rparr>"

definition new_node :: Node where
  "new_node = \<lparr>wings = new_wings, population = \<lparr>cp_connected = 0, cp_ongoing = 0\<rparr>,
     connection_generation = 0, network_id = 1, service_worker_network_id = 1,
     allow_private_gossip = False, mainnet_active = True,
     buildup_limit = CONNECTION_BUILDUP_LIMIT_DEFAULT, cheque_generations = 0\<rparr>"

section \<open>Changing the network\<close>

definition disconnect_all_peers :: "PeerId set \<Rightarrow> Node \<Rightarrow> Node \<times> Effect list" where
  "disconnect_all_peers swarm_connected n =
     (let w = wings n;
          peers = dom (connection_attempts w) \<union> swarm_connected;
          w' = w\<lparr>physical_connections := Map.empty, handshake_ready_connections := {},
                 canonical_identify_address := None, connected_peers := Map.empty,
                 overlay_peers := Map.empty, connection_attempts := Map.empty,
                 connection_cooldowns := {}, accounting_peers := Map.empty, bootnodes := {},
                 ongoing_cheques := Map.empty, known_peers := Map.empty,
                 delayed_peer_retries := Map.empty, rejected_duplicate_peers := Map.empty\<rparr>
      in (n\<lparr>wings := w', population := \<lparr>cp_connected = 0, cp_ongoing = 0\<rparr>\<rparr>,
          [DisconnectPeers peers, RemoveExternalAddresses, AccountingDrained]))"

text \<open>The argument is the result of parsing the identifier as a number.\<close>

definition set_network_id :: "PeerId set \<Rightarrow> u64 option \<Rightarrow> Node \<Rightarrow> bool \<times> Node \<times> Effect list" where
  "set_network_id swarm_connected parsed n =
     (case parsed of
        None \<Rightarrow> (False, n, [])
      | Some parsed_id \<Rightarrow>
          let profile = profile_for_swarm_network_id parsed_id;
              n1 = (case profile of None \<Rightarrow> n
                    | Some pr \<Rightarrow> n\<lparr>mainnet_active := np_mode pr = Mainnet\<rparr>)
          in if network_id n1 \<noteq> parsed_id
             then let n2 = n1\<lparr>connection_generation := bump_connection_generation (connection_generation n1),
                              network_id := parsed_id,
                              service_worker_network_id :=
                                (case profile of None \<Rightarrow> 0 | Some pr \<Rightarrow> np_swarm_network_id pr),
                              allow_private_gossip := False\<rparr>
                  in (True, disconnect_all_peers swarm_connected n2)
             else (True, n1, []))"

section \<open>Dialling\<close>

datatype DialProgress =
    NoCapacity | Abandoned | Requeued
  | WaitingForPermit ConnectionAttemptId ConnectionId
  | HandedOver ConnectionAttemptId

definition release_slot :: "Node \<Rightarrow> Node" where
  "release_slot n = n\<lparr>population := release_connection_reservation (population n)\<rparr>"

text \<open>Remove the attempt and, when it was still ours, give its slot back.\<close>

definition drop_attempt :: "PeerId \<Rightarrow> ConnectionAttemptId \<Rightarrow> Node \<Rightarrow> Node" where
  "drop_attempt peer attempt_id n =
     (let (removed, w) = remove_connection_attempt peer attempt_id (wings n) in
      if removed then release_slot (n\<lparr>wings := w\<rparr>) else n)"

text \<open>Remove the attempt and, when it was still ours, queue a retry and give its slot back.\<close>

definition retry_attempt ::
  "PeerId \<Rightarrow> Address \<Rightarrow> u64 \<Rightarrow> bool \<Rightarrow> ConnectionAttemptId \<Rightarrow> Node \<Rightarrow> Node \<times> Effect list" where
  "retry_attempt peer address generation bootnode attempt_id n =
     (let (removed, w) = remove_connection_attempt peer attempt_id (wings n) in
      if removed then
        let (w', effects) = queue_peer_dial_retry address generation bootnode w
        in (release_slot (n\<lparr>wings := w'\<rparr>), effects)
      else (n, []))"

definition hand_over ::
  "bool \<Rightarrow> PeerId \<Rightarrow> Address \<Rightarrow> bool \<Rightarrow> u64 \<Rightarrow> ConnectionAttemptId \<Rightarrow> Node \<Rightarrow> Node \<times> Effect list" where
  "hand_over send_ok peer address bootnode generation attempt_id n =
     (if send_ok then (n, [StartHandshake address bootnode generation attempt_id])
      else (drop_attempt peer attempt_id n, []))"

text \<open>
  A marked attempt is entered in the known peers (and the bootnodes) and its connection is
  chosen.
\<close>

definition begin_dial ::
  "bool \<Rightarrow> ConnectionId \<Rightarrow> PeerId \<Rightarrow> Address \<Rightarrow> u64 \<Rightarrow> bool \<Rightarrow> ConnectionAttemptId \<Rightarrow> Wings \<Rightarrow>
     (bool + ConnectionId) \<times> Wings" where
  "begin_dial swarm_is_connected fresh peer address generation bootnode attempt_id w =
     (let w1 = w\<lparr>known_peers := (known_peers w)(peer \<mapsto>
                 \<lparr>kp_underlay = address, kp_generation = generation\<rparr>)\<rparr>;
          w2 = (if bootnode then w1\<lparr>bootnodes := insert peer (bootnodes w1)\<rparr> else w1)
      in start_owned_connection_attempt swarm_is_connected fresh peer attempt_id w2)"

text \<open>
  The tail of the dial scheduler for a candidate it has picked, up to the wait for a dial
  permit: with a marked attempt, with a reserved slot, and from the start.
\<close>

definition scheduler_marked ::
  "bool \<Rightarrow> bool \<Rightarrow> ConnectionId \<Rightarrow> QueuedPeerDial \<Rightarrow> ConnectionAttemptId \<Rightarrow> Node \<Rightarrow>
     DialProgress \<times> Node \<times> Effect list" where
  "scheduler_marked send_ok swarm_is_connected fresh candidate attempt_id n =
     (let (started, w) = begin_dial swarm_is_connected fresh (qpd_peer candidate)
            (qpd_dial_addr candidate) (qpd_generation candidate) (qpd_bootnode candidate)
            attempt_id (wings n);
          n' = n\<lparr>wings := w\<rparr>
      in case started of
           Inr connection_id \<Rightarrow> (WaitingForPermit attempt_id connection_id, n', [])
         | Inl owned \<Rightarrow>
             if owned
             then (HandedOver attempt_id,
                   hand_over send_ok (qpd_peer candidate) (qpd_dial_addr candidate)
                     (qpd_bootnode candidate) (qpd_generation candidate) attempt_id n')
             else (Abandoned,
                   retry_attempt (qpd_peer candidate) (qpd_dial_addr candidate)
                     (qpd_generation candidate) (qpd_bootnode candidate) attempt_id n'))"

definition scheduler_reserved ::
  "bool \<Rightarrow> bool \<Rightarrow> ConnectionId \<Rightarrow> QueuedPeerDial \<Rightarrow> Node \<Rightarrow> DialProgress \<times> Node \<times> Effect list" where
  "scheduler_reserved send_ok swarm_is_connected fresh candidate n =
     (if connection_generation n \<noteq> qpd_generation candidate then (Abandoned, release_slot n, [])
      else case try_mark_connection_attempt (qpd_peer candidate) (wings n) of
        (None, _) \<Rightarrow>
          (if connection_generation n = qpd_generation candidate then Requeued else Abandoned,
           release_slot n, [])
      | (Some attempt_id, w) \<Rightarrow>
          if connection_generation n \<noteq> qpd_generation candidate
          then (Abandoned, drop_attempt (qpd_peer candidate) attempt_id (n\<lparr>wings := w\<rparr>), [])
          else scheduler_marked send_ok swarm_is_connected fresh candidate attempt_id (n\<lparr>wings := w\<rparr>))"

definition scheduler_dial ::
  "bool \<Rightarrow> bool \<Rightarrow> ConnectionId \<Rightarrow> QueuedPeerDial \<Rightarrow> Node \<Rightarrow> DialProgress \<times> Node \<times> Effect list" where
  "scheduler_dial send_ok swarm_is_connected fresh candidate n =
     (let (reserved, pop) = try_reserve_connection_capacity (buildup_limit n) (population n) in
      if \<not> reserved then (NoCapacity, n, [])
      else scheduler_reserved send_ok swarm_is_connected fresh candidate (n\<lparr>population := pop\<rparr>))"

text \<open>The rest of it, once the permit has come and the swarm has answered the dial.\<close>

definition scheduler_dial_permitted ::
  "bool \<Rightarrow> bool \<Rightarrow> QueuedPeerDial \<Rightarrow> ConnectionAttemptId \<Rightarrow> ConnectionId \<Rightarrow> Node \<Rightarrow> Node \<times> Effect list" where
  "scheduler_dial_permitted dial_ok send_ok candidate attempt_id connection_id n =
     (let dial = Dial (qpd_peer candidate) (qpd_dial_addr candidate) connection_id;
          (n', effects) =
            (if dial_ok
             then hand_over send_ok (qpd_peer candidate) (qpd_dial_addr candidate)
                    (qpd_bootnode candidate) (qpd_generation candidate) attempt_id n
             else retry_attempt (qpd_peer candidate) (qpd_dial_addr candidate)
                    (qpd_generation candidate) (qpd_bootnode candidate) attempt_id n)
      in (n', dial # effects))"

text \<open>
  The bootnode loop for one parsed address: its turn of \<open>reserve_connection_capacity\<close> and
  what follows up to the dial permit.  \<open>NoCapacity\<close> is the turn that waits.
\<close>

definition bootnode_failed ::
  "PeerId \<Rightarrow> Address \<Rightarrow> u64 \<Rightarrow> bool \<Rightarrow> ConnectionAttemptId \<Rightarrow> Node \<Rightarrow> Node \<times> Effect list" where
  "bootnode_failed pid dial_addr request_generation usable attempt_id n =
     (let (released, w) = remove_connection_attempt pid attempt_id (wings n);
          w1 = w\<lparr>known_peers := (known_peers w)(pid := None)\<rparr>
      in if released then
           let (w2, effects) = queue_peer_dial_retry dial_addr request_generation (\<not> usable) w1
           in (release_slot (n\<lparr>wings := w2\<rparr>), effects)
         else (n\<lparr>wings := w1\<rparr>, []))"

definition bootnode_marked ::
  "bool \<Rightarrow> bool \<Rightarrow> ConnectionId \<Rightarrow> PeerId \<Rightarrow> Address \<Rightarrow> bool \<Rightarrow> u64 \<Rightarrow> ConnectionAttemptId \<Rightarrow> Node \<Rightarrow>
     DialProgress \<times> Node \<times> Effect list" where
  "bootnode_marked send_ok swarm_is_connected fresh pid dial_addr usable request_generation attempt_id n =
     (let (started, w) = begin_dial swarm_is_connected fresh pid dial_addr request_generation
            (\<not> usable) attempt_id (wings n);
          n' = n\<lparr>wings := w\<rparr>
      in case started of
           Inr connection_id \<Rightarrow> (WaitingForPermit attempt_id connection_id, n', [])
         | Inl owned \<Rightarrow>
             if owned
             then (HandedOver attempt_id,
                   hand_over send_ok pid dial_addr (\<not> usable) request_generation attempt_id n')
             else (Abandoned, bootnode_failed pid dial_addr request_generation usable attempt_id n'))"

definition bootnode_reserved ::
  "bool \<Rightarrow> bool \<Rightarrow> ConnectionId \<Rightarrow> PeerId \<Rightarrow> Address \<Rightarrow> bool \<Rightarrow> u64 \<Rightarrow> Node \<Rightarrow>
     DialProgress \<times> Node \<times> Effect list" where
  "bootnode_reserved send_ok swarm_is_connected fresh pid dial_addr usable request_generation n =
     (case try_mark_connection_attempt pid (wings n) of
        (None, _) \<Rightarrow> (Abandoned, release_slot n, [])
      | (Some attempt_id, w) \<Rightarrow>
          if connection_generation n \<noteq> request_generation
          then (Abandoned, drop_attempt pid attempt_id (n\<lparr>wings := w\<rparr>), [])
          else bootnode_marked send_ok swarm_is_connected fresh pid dial_addr usable
                 request_generation attempt_id (n\<lparr>wings := w\<rparr>))"

definition bootnode_dial ::
  "bool \<Rightarrow> bool \<Rightarrow> ConnectionId \<Rightarrow> Address \<Rightarrow> bool \<Rightarrow> u64 \<Rightarrow> Node \<Rightarrow> DialProgress \<times> Node \<times> Effect list" where
  "bootnode_dial send_ok swarm_is_connected fresh address usable request_generation n =
     (if connection_generation n \<noteq> request_generation then (Abandoned, n, [])
      else case try_from_multiaddr address of
        None \<Rightarrow> (Abandoned, n, [])
      | Some pid \<Rightarrow>
          let dial_addr = (case browser_dial_address address of Inl a \<Rightarrow> a | Inr a \<Rightarrow> a);
              (reserved, pop) = reserve_connection_capacity_turn (buildup_limit n)
                (connection_generation n) request_generation (population n)
          in case reserved of
               None \<Rightarrow> (NoCapacity, n, [])
             | Some granted \<Rightarrow>
                 if granted
                 then bootnode_reserved send_ok swarm_is_connected fresh pid dial_addr usable
                        request_generation (n\<lparr>population := pop\<rparr>)
                 else (Abandoned, n, []))"

definition bootnode_dial_permitted ::
  "bool \<Rightarrow> bool \<Rightarrow> PeerId \<Rightarrow> Address \<Rightarrow> bool \<Rightarrow> u64 \<Rightarrow> ConnectionAttemptId \<Rightarrow> ConnectionId \<Rightarrow> Node \<Rightarrow>
     Node \<times> Effect list" where
  "bootnode_dial_permitted dial_ok send_ok pid dial_addr usable request_generation attempt_id
       connection_id n =
     (let (n', effects) =
            (if dial_ok then hand_over send_ok pid dial_addr (\<not> usable) request_generation attempt_id n
             else bootnode_failed pid dial_addr request_generation usable attempt_id n)
      in (n', Dial pid dial_addr connection_id # effects))"

section \<open>Promotion\<close>

text \<open>
  What happens to the overlay map when a priced peer is promoted: whether it is promoted, the
  owner of its overlay when that is another peer, and the map.
\<close>

definition claim_overlay ::
  "bool \<Rightarrow> bytes \<Rightarrow> PeerId \<Rightarrow> (bytes \<rightharpoonup> PeerId) \<Rightarrow> bool \<times> PeerId option \<times> (bytes \<rightharpoonup> PeerId)" where
  "claim_overlay bootnode overlay peer overlays =
     (if bootnode then (True, None, overlays)
      else case overlays overlay of
        None \<Rightarrow> (True, None, overlays(overlay \<mapsto> peer))
      | Some owner \<Rightarrow> if owner = peer then (False, None, overlays)
                      else (False, Some owner, overlays))"

definition reject_duplicate :: "PeerId \<Rightarrow> PeerId \<Rightarrow> Wings \<Rightarrow> Wings" where
  "reject_duplicate peer owner w =
     w\<lparr>rejected_duplicate_peers := (rejected_duplicate_peers w)(peer \<mapsto> owner),
       connected_peers := (connected_peers w)(peer := None),
       accounting_peers := (accounting_peers w)(peer := None),
       known_peers := (known_peers w)(peer := None),
       delayed_peer_retries := (delayed_peer_retries w)(peer := None)\<rparr>"

definition promote_priced_peer :: "PeerId \<Rightarrow> Node \<Rightarrow> Node \<times> Effect list" where
  "promote_priced_peer peer n =
     (case connected_peers (wings n) peer of
        None \<Rightarrow> (n, [])
      | Some peer_file \<Rightarrow>
          if exclusive_physical_connection (physical_connections (wings n)) peer
               \<noteq> Some (pf_connection_id peer_file) then (n, [])
          else let (had_reservation, w) =
                     remove_connection_attempt peer (pf_connection_attempt_id peer_file) (wings n) in
            if \<not> had_reservation then (n, [])
            else let bootnode = (peer \<in> bootnodes w);
                     (promoted, duplicate_owner, overlays) =
                       claim_overlay bootnode (pf_overlay peer_file) peer (overlay_peers w);
                     n' = n\<lparr>wings := w\<lparr>overlay_peers := overlays\<rparr>,
                            population := complete_connection_reservation promoted (population n)\<rparr>
                 in case (promoted, duplicate_owner) of
                      (False, Some owner) \<Rightarrow>
                        (n'\<lparr>wings := reject_duplicate peer owner (wings n')\<rparr>, [DisconnectPeer peer])
                    | _ \<Rightarrow> (n', []))"

section \<open>Swarm events\<close>

text \<open>
  The event loop records a connection before it spawns the task that handles the event, so
  each of the two connection events has a recording section and a task section.
\<close>

definition on_connection_established :: "PeerId \<Rightarrow> ConnectionId \<Rightarrow> Node \<Rightarrow> Node" where
  "on_connection_established peer connection_id n =
     n\<lparr>wings := (wings n)\<lparr>physical_connections :=
        record_physical_connection_established peer connection_id (physical_connections (wings n))\<rparr>\<rparr>"

definition connection_established_task ::
  "PeerId \<Rightarrow> ConnectionId \<Rightarrow> Node \<Rightarrow> Effect list" where
  "connection_established_task peer connection_id n =
     (let expected_peer_connection = map_option pf_connection_id (connected_peers (wings n) peer);
          expected_attempt_connection =
            Option.bind (connection_attempts (wings n) peer) ca_physical_connection_id;
          cooling_down = (peer \<in> connection_cooldowns (wings n));
          lifecycle_known = (expected_peer_connection \<noteq> None \<or> expected_attempt_connection \<noteq> None
                             \<or> cooling_down);
          connection_owned = (expected_peer_connection = Some connection_id
                              \<or> expected_attempt_connection = Some connection_id)
      in if lifecycle_known \<and> \<not> connection_owned then [CloseConnection connection_id] else [])"

definition identify_received ::
  "PeerId \<Rightarrow> PeerId \<Rightarrow> ConnectionId \<Rightarrow> Address \<Rightarrow> Node \<Rightarrow> Node \<times> Effect list" where
  "identify_received local_peer peer connection_id observed_addr n =
     (let w = wings n in
      if \<not> physically_open w peer connection_id then (n, [])
      else if (peer, connection_id) \<in> handshake_ready_connections w then (n, [])
      else if observed_addr = [] \<or>
              (case try_from_multiaddr observed_addr of None \<Rightarrow> False | Some p \<Rightarrow> p \<noteq> local_peer)
      then let (w', effects) = close_failed_identify_connection peer connection_id w
           in (n\<lparr>wings := w'\<rparr>, effects)
      else let (w', effects) =
                 (if canonical_identify_address w = None
                  then (w\<lparr>canonical_identify_address := Some observed_addr\<rparr>,
                        [AddExternalAddress observed_addr])
                  else (w, []))
           in (n\<lparr>wings := mark_handshake_ready_connection peer connection_id w'\<rparr>,
               effects @ [PushIdentify peer]))"

definition identify_error :: "PeerId \<Rightarrow> ConnectionId \<Rightarrow> Node \<Rightarrow> Node \<times> Effect list" where
  "identify_error peer connection_id n =
     (let (w, effects) = close_failed_identify_connection peer connection_id (wings n)
      in (n\<lparr>wings := w\<rparr>, effects))"

datatype DialError =
    LocalPeerId Address | WrongPeerId Address | Transport "Address list" | OtherDialError

fun dial_error_retryable :: "DialError \<Rightarrow> bool" where
  "dial_error_retryable (LocalPeerId _) = False"
| "dial_error_retryable (WrongPeerId _) = False"
| "dial_error_retryable _ = True"

fun dial_error_address :: "DialError \<Rightarrow> Address option" where
  "dial_error_address (LocalPeerId address) = Some address"
| "dial_error_address (WrongPeerId address) = Some address"
| "dial_error_address (Transport errors) = (case errors of [] \<Rightarrow> None | address # _ \<Rightarrow> Some address)"
| "dial_error_address OtherDialError = None"

definition clear_failed_dial ::
  "PeerId \<Rightarrow> ConnectionId \<Rightarrow> bool \<Rightarrow> Address option \<Rightarrow> Node \<Rightarrow> Node \<times> Effect list" where
  "clear_failed_dial peer connection_id retryable retry_address n =
     (let retry_generation = connection_generation n;
          (removed, w) = remove_connection_attempt_for_connection peer connection_id (wings n)
      in if \<not> removed then (n, [])
         else let peer_generation = map_option kp_generation (known_peers w peer);
                  (w', effects) =
                    (if retryable \<and> peer_generation = Some retry_generation \<and> retry_address \<noteq> None
                     then queue_peer_dial_retry (the retry_address) retry_generation
                            (peer \<in> bootnodes w) w
                     else if \<not> retryable \<and> peer_generation = Some retry_generation
                     then (w\<lparr>known_peers := (known_peers w)(peer := None)\<rparr>, [])
                     else (w, []))
              in (release_slot (n\<lparr>wings := w'\<rparr>), effects))"

definition outgoing_connection_error ::
  "PeerId option \<Rightarrow> ConnectionId \<Rightarrow> DialError \<Rightarrow> Node \<Rightarrow> Node \<times> Effect list" where
  "outgoing_connection_error peer_id connection_id error n0 =
     (let n = n0\<lparr>wings := (wings n0)\<lparr>dial_failures := dial_failures (wings n0) + 1\<rparr>\<rparr>;
          retry_address = (case dial_error_address error of
              Some address \<Rightarrow> Some address
            | None \<Rightarrow> Option.bind peer_id (\<lambda>p. map_option kp_underlay (known_peers (wings n) p)));
          peer_to_clear = (case peer_id of
              Some p \<Rightarrow> Some p
            | None \<Rightarrow> Option.bind retry_address try_from_multiaddr)
      in case peer_to_clear of
           None \<Rightarrow> (n, [])
         | Some peer \<Rightarrow>
             clear_failed_dial peer connection_id (dial_error_retryable error) retry_address n)"

definition on_connection_closed :: "PeerId \<Rightarrow> ConnectionId \<Rightarrow> Node \<Rightarrow> Node" where
  "on_connection_closed peer connection_id n =
     n\<lparr>wings := (wings n)\<lparr>
        physical_connections :=
          record_physical_connection_closed peer connection_id (physical_connections (wings n)),
        handshake_ready_connections :=
          handshake_ready_connections (wings n) - {(peer, connection_id)}\<rparr>\<rparr>"

definition close_owns_lifecycle :: "Wings \<Rightarrow> PeerId \<Rightarrow> ConnectionId \<Rightarrow> bool" where
  "close_owns_lifecycle w peer connection_id =
     (case connected_peers w peer of
        Some peer_file \<Rightarrow> pf_connection_id peer_file = connection_id
      | None \<Rightarrow>
          Option.bind (connection_attempts w peer) ca_physical_connection_id = Some connection_id)"

text \<open>
  The bookkeeping of a closed connection that belonged to the peer's lifecycle: the peer file,
  the overlay and the attempt go; the answers are whether the peer was tracked, whether it
  owned its overlay or was a bootnode, and whether an attempt was still open.
\<close>

definition forget_peer ::
  "PeerId \<Rightarrow> ConnectionId \<Rightarrow> Wings \<Rightarrow> (bool \<times> bool \<times> bool) \<times> Wings" where
  "forget_peer peer connection_id w =
     (let removed_peer_file = connected_peers w peer;
          w1 = w\<lparr>connected_peers := (connected_peers w)(peer := None),
                 rejected_duplicate_peers :=
                   (\<lambda>p. if rejected_duplicate_peers w p = Some peer then None
                        else rejected_duplicate_peers w p)\<rparr>
      in case removed_peer_file of
           Some peer_file \<Rightarrow>
             let tracked_bootnode = (peer \<in> bootnodes w1);
                 overlay = pf_overlay peer_file;
                 removed_owned_overlay = (overlay_peers w1 overlay = Some peer);
                 w2 = (if removed_owned_overlay
                       then w1\<lparr>overlay_peers := (overlay_peers w1)(overlay := None)\<rparr> else w1);
                 (had_attempt, w3) =
                   remove_connection_attempt peer (pf_connection_attempt_id peer_file) w2
             in ((True, removed_owned_overlay \<or> tracked_bootnode, had_attempt), w3)
         | None \<Rightarrow>
             let (had_attempt, w2) = remove_connection_attempt_for_connection peer connection_id w1
             in ((False, False, had_attempt), w2))"

text \<open>
  The task for a closed connection, up to the reconnect delay.  The second component is the
  delay, the generation, the address and the bootnode flag of the reconnect that follows, when
  one does.  The dialled address of the closed endpoint is given when this side dialled.
\<close>

definition connection_closed_task ::
  "(Address \<Rightarrow> bool) \<Rightarrow> u64 \<Rightarrow> PeerId \<Rightarrow> ConnectionId \<Rightarrow> Address option \<Rightarrow> Node \<Rightarrow>
     Node \<times> (u64 \<times> u64 \<times> Address option \<times> bool) option \<times> Effect list" where
  "connection_closed_task is_mainnet_bootnode random peer connection_id dialled n =
     (let w0 = wings n in
      if \<not> close_owns_lifecycle w0 peer connection_id then
        (case exclusive_physical_connection (physical_connections w0) peer of
           Some remaining \<Rightarrow>
             if (peer, remaining) \<in> handshake_ready_connections w0
             then (n\<lparr>wings := mark_handshake_ready_connection peer remaining w0\<rparr>, None, [])
             else (n, None, [])
         | None \<Rightarrow> (n, None, []))
      else
        let ((was_tracked_peer, counted_connected, had_attempt), w1) =
              forget_peer peer connection_id w0 in
        if \<not> was_tracked_peer \<and> \<not> had_attempt then (n\<lparr>wings := w1\<rparr>, None, [])
        else
          let account = Option.bind (accounting_peers w1 peer) (account_store w1);
              (balance, reserve, announced_threshold) =
                (case account of
                   Some a \<Rightarrow> (pa_balance a, pa_reserve a, pa_threshold a)
                 | None \<Rightarrow> (0, 0, 0));
              reconnect_delay_seconds = bee_reconnect_delay_seconds balance reserve
                (max announced_threshold (saturating_mul REFRESH_RATE 3)) REFRESH_RATE;
              known_peer = known_peers w1 peer;
              retry_address = (case dialled of
                  Some address \<Rightarrow> Some address
                | None \<Rightarrow> map_option kp_underlay known_peer);
              reconnect_delay_ms =
                (if was_tracked_peer then saturating_mul reconnect_delay_seconds 1000
                 else case retry_address of
                        Some address \<Rightarrow> failed_peer_retry_delay_ms is_mainnet_bootnode random address
                      | None \<Rightarrow> PEER_RETRY_DELAY_MS);
              retry_generation = connection_generation n;
              retry_is_current = (map_option kp_generation known_peer = Some retry_generation);
              w2 = w1\<lparr>accounting_peers := (accounting_peers w1)(peer := None),
                      known_peers := (known_peers w1)(peer := None),
                      ongoing_cheques := (ongoing_cheques w1)(peer := None),
                      connection_cooldowns :=
                        (if retry_is_current then insert peer (connection_cooldowns w1)
                         else connection_cooldowns w1)\<rparr>;
              pop = (if had_attempt then release_connection_reservation (population n)
                     else if counted_connected then release_connected_peer (population n)
                     else population n)
          in (n\<lparr>wings := w2, population := pop\<rparr>,
              (if retry_is_current
               then Some (reconnect_delay_ms, retry_generation, retry_address, peer \<in> bootnodes w2)
               else None),
              [AccountingDrained]))"

definition connection_closed_reconnect ::
  "(Address \<Rightarrow> bytes) \<Rightarrow> PeerId \<Rightarrow> u64 \<Rightarrow> Address option \<Rightarrow> bool \<Rightarrow> Node \<Rightarrow> Node \<times> Effect list" where
  "connection_closed_reconnect to_vec peer retry_generation retry_address retry_bootnode n =
     (if connection_generation n = retry_generation then
        (n\<lparr>wings := (wings n)\<lparr>connection_cooldowns := connection_cooldowns (wings n) - {peer}\<rparr>\<rparr>,
         (case retry_address of
            None \<Rightarrow> []
          | Some address \<Rightarrow> [QueueDial \<lparr>pdi_underlay = to_vec address,
              pdi_generation = retry_generation, pdi_retry = True, pdi_bootnode = retry_bootnode\<rparr>]))
      else (n, []))"

section \<open>Handshake\<close>

text \<open>
  The handle drops an instruction of another generation and spawns a task for the rest.  The
  section of that task before it waits answers the connection it waits for, or \<open>None\<close>
  when the task ends here.
\<close>

definition handshake_dispatch :: "u64 \<Rightarrow> Node \<Rightarrow> bool" where
  "handshake_dispatch instruction_generation n = (instruction_generation = connection_generation n)"

definition handshake_start ::
  "Address \<Rightarrow> bool \<Rightarrow> u64 \<Rightarrow> ConnectionAttemptId \<Rightarrow> Node \<Rightarrow> ConnectionId option \<times> Node" where
  "handshake_start underlay_address bootnode instruction_generation attempt_id n =
     (case try_from_multiaddr underlay_address of
        None \<Rightarrow> (None, n)
      | Some peer \<Rightarrow>
          let n1 = (if bootnode
                    then n\<lparr>wings := (wings n)\<lparr>bootnodes := insert peer (bootnodes (wings n))\<rparr>\<rparr> else n)
          in if connection_generation n1 \<noteq> instruction_generation
             then (None, drop_attempt peer attempt_id n1)
             else (case connection_attempts (wings n1) peer of
                     Some attempt \<Rightarrow> if ca_id attempt = attempt_id
                                     then ca_physical_connection_id attempt else None
                   | None \<Rightarrow> None,
                   n1))"

text \<open>
  One turn of its wait for the identify exchange: \<open>received\<close> is the message that woke it
  (\<open>None\<close> on the first turn, which looks for the ready mark instead).  The answer is
  whether the handshake may start, or \<open>None\<close> to wait on.
\<close>

definition handshake_ready_turn ::
  "PeerId \<Rightarrow> u64 \<Rightarrow> ConnectionAttemptId \<Rightarrow> ConnectionId \<Rightarrow> ConnectionId option \<Rightarrow> Node \<Rightarrow> bool option" where
  "handshake_ready_turn peer instruction_generation attempt_id physical_connection_id received n =
     (let still_current = (connection_generation n = instruction_generation
                           \<and> connection_attempt_is_current (wings n) peer attempt_id);
          exclusive = (exclusive_physical_connection (physical_connections (wings n)) peer
                         = Some physical_connection_id)
      in case received of
           None \<Rightarrow>
             if \<not> still_current then Some False
             else if (peer, physical_connection_id) \<in> handshake_ready_connections (wings n) \<and> exclusive
             then Some True else None
         | Some connection_id \<Rightarrow>
             if connection_id \<noteq> physical_connection_id then Some False
             else if \<not> still_current then Some False
             else if exclusive then Some True else None)"

text \<open>The section after a handshake that failed or timed out.\<close>

definition handshake_failed ::
  "bool \<Rightarrow> PeerId \<Rightarrow> Address \<Rightarrow> u64 \<Rightarrow> bool \<Rightarrow> ConnectionAttemptId \<Rightarrow> Node \<Rightarrow> Node \<times> Effect list" where
  "handshake_failed disconnect_ok peer underlay_address instruction_generation bootnode attempt_id n =
     (if \<not> connection_attempt_is_current (wings n) peer attempt_id then (n, [])
      else if disconnect_ok then (n, [DisconnectPeer peer])
      else let (n', effects) =
                 retry_attempt peer underlay_address instruction_generation bootnode attempt_id n
           in (n', DisconnectPeer peer # effects))"

section \<open>Accounting events\<close>

text \<open>
  A finished handshake publishes the peer file.  The second component is the account whose
  pricing deadline starts, when the peer is new and has not announced its price.
\<close>

definition accounting_event ::
  "PeerFile \<Rightarrow> Node \<Rightarrow> Node \<times> AccountRef option \<times> Effect list" where
  "accounting_event peer_file n =
     (let peer = pf_peer_id peer_file; w = wings n;
          physical_session_current =
            (exclusive_physical_connection (physical_connections w) peer
               = Some (pf_connection_id peer_file));
          owns_attempt = (case connection_attempts w peer of
              None \<Rightarrow> False
            | Some attempt \<Rightarrow> ca_id attempt = pf_connection_attempt_id peer_file
                \<and> ca_physical_connection_id attempt = Some (pf_connection_id peer_file))
      in if \<not> physical_session_current \<or> \<not> owns_attempt
         then (n, None, if owns_attempt then [DisconnectPeer peer] else [])
         else if (case connected_peers w peer of
                    Some existing \<Rightarrow>
                      pf_connection_attempt_id existing \<noteq> pf_connection_attempt_id peer_file
                  | None \<Rightarrow> False)
         then (n, None, [])
         else
           let newly_connected = (connected_peers w peer = None);
               (account, w1) = get_or_create_accounting_peer peer w;
               w2 = update_account account
                      (\<lambda>a. a\<lparr>pa_connection_id := Some (pf_connection_id peer_file)\<rparr>) w1;
               threshold_ready = (case account_store w2 account of
                                    None \<Rightarrow> False | Some a \<Rightarrow> 0 < pa_threshold a);
               n' = n\<lparr>wings := w2\<lparr>connected_peers := (connected_peers w2)(peer \<mapsto> peer_file)\<rparr>\<rparr>
           in if threshold_ready
              then let (n'', effects) = promote_priced_peer peer n' in (n'', None, effects)
              else (n', if newly_connected then Some account else None, []))"

text \<open>The pricing deadline of a peer that never announced a threshold.\<close>

definition pricing_timeout ::
  "PeerId \<Rightarrow> ConnectionAttemptId \<Rightarrow> AccountRef \<Rightarrow> u64 \<Rightarrow> Node \<Rightarrow> Effect list" where
  "pricing_timeout peer attempt_id account retry_generation n =
     (let w = wings n in
      if connection_generation n \<noteq> retry_generation then []
      else if map_option pf_connection_attempt_id (connected_peers w peer) \<noteq> Some attempt_id then []
      else if accounting_peers w peer \<noteq> Some account then []
      else if (case account_store w account of None \<Rightarrow> False | Some a \<Rightarrow> 0 < pa_threshold a) then []
      else if \<not> connection_attempt_is_current w peer attempt_id then []
      else [DisconnectPeer peer])"

definition pricing_event ::
  "PeerId \<Rightarrow> u64 \<Rightarrow> TransportConnectionSession \<Rightarrow> Node \<Rightarrow> Node \<times> Effect list" where
  "pricing_event peer amount pricing_session n =
     (let w = wings n;
          expected_connection = (case connected_peers w peer of
              Some peer_file \<Rightarrow> Some (pf_connection_id peer_file)
            | None \<Rightarrow> Option.bind (connection_attempts w peer) ca_physical_connection_id)
      in if session_is_current (physical_connections w) pricing_session
            \<and> expected_connection = Some (tcs_connection_id pricing_session)
         then let (account, w1) = get_or_create_accounting_peer peer w
              in promote_priced_peer peer
                   (n\<lparr>wings := update_account account (set_payment_threshold amount) w1\<rparr>)
         else (n, []))"

section \<open>Refreshments and cheques\<close>

datatype RefreshmentOutcome = NotDispatched | Acknowledged u64 | AmbiguousAfterPayment

text \<open>What the refreshment task of an account does next.\<close>

datatype RefreshTurn =
    RefreshStops | RefreshSleeps | RefreshDelays u64
  | RefreshSends u64 TransportConnectionSession | RefreshQuiesces | RefreshAgain

definition unschedule :: "AccountRef \<Rightarrow> Node \<Rightarrow> Node" where
  "unschedule account n = n\<lparr>wings := update_account account clear_refresh_scheduled (wings n)\<rparr>"

text \<open>From the head of the loop to the pacing delay; \<open>now\<close> is the clock in milliseconds.\<close>

definition refresh_delay_ms :: "f64 \<Rightarrow> f64 \<Rightarrow> u64" where
  "refresh_delay_ms now last_refreshment =
     (let elapsed = f64_sub now last_refreshment in
      if \<not> f64_is_finite elapsed \<or> f64_lt elapsed f64_zero then 1000
      else if f64_lt elapsed (f64_of_nat 1000)
      then f64_as_u64 (f64_ceil (f64_sub (f64_of_nat 1000) elapsed))
      else 0)"

definition refresh_head ::
  "f64 \<Rightarrow> PeerId \<Rightarrow> AccountRef \<Rightarrow> ConnectionId \<Rightarrow> Node \<Rightarrow> RefreshTurn \<times> Node" where
  "refresh_head now peer account connection_id n =
     (case account_store (wings n) account of
        None \<Rightarrow> (RefreshStops, n)
      | Some a \<Rightarrow>
          if \<not> refreshment_due (pa_balance a) (pa_refreshment a) (pa_threshold a)
          then (RefreshStops, unschedule account n)
          else if current_accounting_protocol_session (wings n) peer account connection_id = None
          then (RefreshStops, unschedule account n)
          else let pending = (case ongoing_cheques (wings n) peer of
                                None \<Rightarrow> 0 | Some (amount, _) \<Rightarrow> amount) in
            if \<not> refreshment_due (saturating_sub (pa_balance a) pending) (pa_refreshment a) (pa_threshold a)
            then (RefreshSleeps, n)
            else (RefreshDelays (refresh_delay_ms now (pa_refreshment a)), n))"

text \<open>From the end of the delay to the dispatch of the payment.\<close>

definition refresh_dispatch ::
  "PeerId \<Rightarrow> AccountRef \<Rightarrow> ConnectionId \<Rightarrow> Node \<Rightarrow> RefreshTurn \<times> Node" where
  "refresh_dispatch peer account connection_id n =
     (case current_accounting_protocol_session (wings n) peer account connection_id of
        None \<Rightarrow> (RefreshStops, unschedule account n)
      | Some session \<Rightarrow> (case account_store (wings n) account of
            None \<Rightarrow> (RefreshStops, n)
          | Some a \<Rightarrow>
              if \<not> refreshment_due (pa_balance a) (pa_refreshment a) (pa_threshold a)
              then (RefreshStops, unschedule account n)
              else if pa_threshold a = 0 then (RefreshStops, unschedule account n)
              else (RefreshSends (pa_threshold a) session, n)))"

text \<open>
  Claiming a cheque for what a refreshment left over; \<open>send_ok\<close> is whether the cheque
  channel took the instruction.
\<close>

definition claim_remaining_debt ::
  "bool \<Rightarrow> bool \<Rightarrow> PeerId \<Rightarrow> AccountRef \<Rightarrow> ConnectionId \<Rightarrow> Node \<Rightarrow> (u64 \<times> u64) option \<times> Node" where
  "claim_remaining_debt cheques_active send_ok peer account connection_id n =
     (let balance = (case account_store (wings n) account of None \<Rightarrow> 0 | Some a \<Rightarrow> pa_balance a) in
      if \<not> (cheques_active \<and> REFRESH_RATE < balance) then (None, n)
      else let cheque_amt = balance - REFRESH_RATE;
               cheque_generation = cheque_generations n + 1;
               n1 = n\<lparr>cheque_generations := cheque_generation\<rparr>;
               (claimed, w) = claim_current_cheque peer account connection_id cheque_amt
                                cheque_generation (wings n1)
           in if \<not> claimed then (None, n1)
              else if send_ok then (Some (cheque_amt, cheque_generation), n1\<lparr>wings := w\<rparr>)
              else (None, n1\<lparr>wings := w\<lparr>ongoing_cheques :=
                      (if ongoing_cheques w peer = Some (cheque_amt, cheque_generation)
                       then (ongoing_cheques w)(peer := None) else ongoing_cheques w)\<rparr>\<rparr>))"

definition refresh_outcome ::
  "f64 \<Rightarrow> bool \<Rightarrow> bool \<Rightarrow> RefreshmentOutcome \<Rightarrow> PeerId \<Rightarrow> AccountRef \<Rightarrow> ConnectionId \<Rightarrow> Node \<Rightarrow>
     RefreshTurn \<times> (u64 \<times> u64) option \<times> Node" where
  "refresh_outcome now cheques_active send_ok outcome peer account connection_id n =
     (case outcome of
        NotDispatched \<Rightarrow> (RefreshSleeps, None, n)
      | AmbiguousAfterPayment \<Rightarrow>
          let (pending, w) = quiesce_accounting_session peer account connection_id (wings n)
          in (RefreshQuiesces, pending, n\<lparr>wings := w\<rparr>)
      | Acknowledged amount \<Rightarrow>
          if amount = 0 then
            (RefreshStops, None,
             n\<lparr>wings := update_account account
                (\<lambda>a. a\<lparr>pa_refreshment := now, pa_balance := 0, pa_refresh_scheduled := False\<rparr>) (wings n)\<rparr>)
          else
            let n1 = n\<lparr>wings := update_account account
                  (\<lambda>a. fst (apply_refreshment amount (a\<lparr>pa_refreshment := now\<rparr>))) (wings n)\<rparr>;
                (instruction, n2) =
                  claim_remaining_debt cheques_active send_ok peer account connection_id n1
            in (RefreshAgain, instruction, n2))"

text \<open>
  A cheque instruction: \<open>None\<close> when it is no longer the claim of the peer, otherwise the
  session and beneficiary to issue it with, or the failure to report.  A price of zero is
  reported before the claim is looked at.
\<close>

definition cheque_instruction ::
  "bool \<Rightarrow> PeerId \<Rightarrow> u64 \<Rightarrow> u64 \<Rightarrow> Node \<Rightarrow> (TransportConnectionSession \<times> bytes + unit) option" where
  "cheque_instruction price_is_zero peer amount cheque_generation n =
     (let w = wings n; failure = Some (Inr ()) in
      if price_is_zero then failure
      else if ongoing_cheques w peer \<noteq> Some (amount, cheque_generation) then None
      else case accounting_peers w peer of
        None \<Rightarrow> failure
      | Some account \<Rightarrow>
          (case Option.bind (account_connection w account)
                  (\<lambda>c. session_capture peer c (physical_connections w)) of
             None \<Rightarrow> failure
           | Some session \<Rightarrow>
               (case connected_peers w peer of
                  None \<Rightarrow> failure
                | Some peer_file \<Rightarrow>
                    if pf_connection_id peer_file \<noteq> tcs_connection_id session then failure
                    else Some (Inl (session, pf_beneficiary peer_file)))))"

definition cheque_apply :: "PeerId \<Rightarrow> bool \<Rightarrow> u64 \<Rightarrow> Node \<Rightarrow> Node \<times> Effect list" where
  "cheque_apply peer cheque_ok cheque_generation n =
     (case ongoing_cheques (wings n) peer of
        None \<Rightarrow> (n, [])
      | Some (amount, generation) \<Rightarrow>
          if generation \<noteq> cheque_generation then (n, [])
          else let w1 = (case accounting_peers (wings n) peer of
                           Some account \<Rightarrow>
                             if cheque_ok
                             then update_account account (\<lambda>a. fst (apply_refreshment amount a)) (wings n)
                             else wings n
                         | None \<Rightarrow> wings n)
               in (n\<lparr>wings := w1\<lparr>ongoing_cheques := (ongoing_cheques w1)(peer := None)\<rparr>\<rparr>,
                   [AccountingDrained]))"

section \<open>The dial queue\<close>

record DialQueue =
  dq_queue :: "QueuedPeerDial list"
  dq_queued_underlays :: "(PeerId \<times> Address) set"
  dq_generation :: u64

definition dial_key :: "QueuedPeerDial \<Rightarrow> PeerId \<times> Address" where
  "dial_key candidate = (qpd_peer candidate, qpd_dial_addr candidate)"

definition refresh_queue_generation :: "u64 \<Rightarrow> DialQueue \<Rightarrow> DialQueue" where
  "refresh_queue_generation current_generation q =
     (if current_generation \<noteq> dq_generation q
      then \<lparr>dq_queue = [], dq_queued_underlays = {}, dq_generation = current_generation\<rparr> else q)"

fun enqueue_candidates :: "PeerId \<Rightarrow> QueuedPeerDial list \<Rightarrow> DialQueue \<Rightarrow> DialQueue" where
  "enqueue_candidates local_peer [] q = q"
| "enqueue_candidates local_peer (c # cs) q =
     enqueue_candidates local_peer cs
       (if qpd_peer c \<noteq> local_peer \<and> dial_key c \<notin> dq_queued_underlays q
        then q\<lparr>dq_queue := dq_queue q @ [c],
               dq_queued_underlays := insert (dial_key c) (dq_queued_underlays q)\<rparr>
        else q)"

definition public_gossip_only :: "Node \<Rightarrow> bool" where
  "public_gossip_only n = (service_worker_network_id n \<noteq> 0 \<and> \<not> allow_private_gossip n)"

definition ingest_instruction ::
  "(bytes \<Rightarrow> Address option) \<Rightarrow> PeerId \<Rightarrow> Node \<Rightarrow> PeerDialInstruction \<Rightarrow> DialQueue \<Rightarrow> DialQueue" where
  "ingest_instruction parse local_peer n instruction q0 =
     (let q = refresh_queue_generation (connection_generation n) q0 in
      if pdi_generation instruction \<noteq> dq_generation q then q
      else enqueue_candidates local_peer
             (peer_dial_candidates parse instruction (public_gossip_only n)) q)"

definition dial_unavailable :: "u64 \<Rightarrow> Wings \<Rightarrow> PeerId set" where
  "dial_unavailable queue_generation w =
     connection_cooldowns w \<union> dom (connection_attempts w)
     \<union> {peer. \<exists>retry_id. delayed_peer_retries w peer = Some (queue_generation, retry_id)}"

text \<open>
  The rotation through the queue: at most one look at each entry it held.  The first component
  is the candidate that was taken out, when one is eligible.
\<close>

fun pick_candidate ::
  "nat \<Rightarrow> u64 \<Rightarrow> (PeerId \<Rightarrow> bool) \<Rightarrow> (PeerId \<Rightarrow> bool) \<Rightarrow> DialQueue \<Rightarrow> QueuedPeerDial option \<times> DialQueue" where
  "pick_candidate 0 generation settled unavailable q = (None, q)"
| "pick_candidate (Suc k) generation settled unavailable q =
     (case dq_queue q of
        [] \<Rightarrow> (None, q)
      | c # cs \<Rightarrow>
          if qpd_generation c \<noteq> generation \<or> settled (qpd_peer c)
          then pick_candidate k generation settled unavailable
                 (q\<lparr>dq_queue := cs, dq_queued_underlays := dq_queued_underlays q - {dial_key c}\<rparr>)
          else if unavailable (qpd_peer c)
          then pick_candidate k generation settled unavailable (q\<lparr>dq_queue := cs @ [c]\<rparr>)
          else (Some c, q\<lparr>dq_queue := cs\<rparr>))"

text \<open>
  One turn of the scheduler after ingestion: pick, try to dial, and put the candidate back at
  the front when there is no slot, or at the back when the peer turned out to be busy.
\<close>

definition scheduler_turn ::
  "bool \<Rightarrow> bool \<Rightarrow> ConnectionId \<Rightarrow> DialQueue \<Rightarrow> Node \<Rightarrow>
     (QueuedPeerDial \<times> DialProgress) option \<times> DialQueue \<times> Node \<times> Effect list" where
  "scheduler_turn send_ok swarm_is_connected fresh q n =
     (let w = wings n;
          settled = (\<lambda>p. p \<in> dom (connected_peers w) \<or> p \<in> dom (rejected_duplicate_peers w));
          (picked, q1) = pick_candidate (length (dq_queue q)) (connection_generation n) settled
             (\<lambda>p. p \<in> dial_unavailable (dq_generation q) w) q
      in case picked of
           None \<Rightarrow> (None, q1, n, [])
         | Some c \<Rightarrow>
             let (progress, n', effects) = scheduler_dial send_ok swarm_is_connected fresh c n in
             (Some (c, progress),
              (case progress of
                 NoCapacity \<Rightarrow> q1\<lparr>dq_queue := c # dq_queue q1\<rparr>
               | Requeued \<Rightarrow> q1\<lparr>dq_queue := dq_queue q1 @ [c]\<rparr>
               | _ \<Rightarrow> q1\<lparr>dq_queued_underlays := dq_queued_underlays q1 - {dial_key c}\<rparr>),
              n', effects))"

end
