(* ===== verification/NodeSafety.thy ===== *)
theory NodeSafety
  imports Node
begin

text \<open>
  The connection lifecycle as a transition system and its invariant.  The step relation
  interleaves the sections of \<open>Node\<close> in any order and with any local data a suspended task
  may hold; it adds only what the runtime guarantees about that data, as side conditions of
  three rules.  The invariant ties the two population counters to the maps: \<open>ongoing\<close> is
  the number of open attempts, \<open>connected\<close> the number of published peers whose attempt is
  closed, and every such peer is a bootnode or owns its overlay.
\<close>

section \<open>The population as a reservation ledger\<close>

lemma try_reserve_True:
  "try_reserve_connection_capacity limit p = (True, p') \<longleftrightarrow>
     unat (cp_connected p) + unat (cp_ongoing p) < unat limit
     \<and> p' = p\<lparr>cp_ongoing := cp_ongoing p + 1\<rparr>"
proof -
  have "connection_dial_capacity_available limit (cp_connected p) (cp_ongoing p) \<longleftrightarrow>
      unat (cp_connected p) + unat (cp_ongoing p) < unat limit"
    using u64_bound [of limit]
    by (auto simp: connection_dial_capacity_available_def connection_population_deficit_def
        word_less_nat_alt rust_int simp del: u64_bound)
  moreover have "saturating_add (cp_ongoing p) 1 = cp_ongoing p + 1"
    if "unat (cp_connected p) + unat (cp_ongoing p) < unat limit"
  proof -
    have "unat (cp_ongoing p) < 18446744073709551615"
      using that u64_le_max [of limit] by linarith
    then show ?thesis by (simp add: saturating_add_def)
  qed
  ultimately show ?thesis by (auto simp: try_reserve_connection_capacity_def)
qed

lemma unat_ongoing_reserve:
  "unat c + unat g < unat (limit :: u64) \<Longrightarrow> unat (g + 1 :: u64) = unat g + 1"
proof -
  assume "unat c + unat g < unat limit"
  then have "unat g + 1 < 2 ^ 64" using u64_bound [of limit] by (simp del: u64_bound)
  then show ?thesis by (simp add: unat_word_ariths)
qed

interpretation slots: reservation
  "\<lambda>p. unat (cp_ongoing p)" "\<lambda>_. 1"
  "\<lambda>_ p p'. \<exists>limit. try_reserve_connection_capacity limit p = (True, p')"
  "\<lambda>_ p p'. \<exists>newly_connected. p' = complete_connection_reservation newly_connected p"
  "\<lambda>p p'. p' = release_connected_peer p \<or> p' = p"
  by unfold_locales
    (auto simp: try_reserve_True unat_ongoing_reserve complete_connection_reservation_def Let_def
      release_connected_peer_def rust_int)

section \<open>The invariant\<close>

definition counts_inv ::
  "(PeerId \<rightharpoonup> ConnectionAttempt) \<Rightarrow> (PeerId \<rightharpoonup> PeerFile) \<Rightarrow> ConnectionPopulation \<Rightarrow> u64 \<Rightarrow> bool" where
  "counts_inv A C p limit \<longleftrightarrow>
     finite (dom A) \<and> finite (dom C)
     \<and> unat (cp_ongoing p) = card (dom A)
     \<and> unat (cp_connected p) = card (dom C - dom A)
     \<and> unat (cp_connected p) + unat (cp_ongoing p) \<le> unat limit"

text \<open>A published peer with an open attempt was published by that attempt and its connection.\<close>

definition sessions_inv :: "(PeerId \<rightharpoonup> ConnectionAttempt) \<Rightarrow> (PeerId \<rightharpoonup> PeerFile) \<Rightarrow> bool" where
  "sessions_inv A C \<longleftrightarrow> (\<forall>q pf a. C q = Some pf \<longrightarrow> A q = Some a \<longrightarrow>
     ca_id a = pf_connection_attempt_id pf
     \<and> ca_physical_connection_id a = Some (pf_connection_id pf))"

text \<open>An overlay is owned only by a published peer that has it and whose attempt is closed.\<close>

definition owners_inv ::
  "(PeerId \<rightharpoonup> ConnectionAttempt) \<Rightarrow> (PeerId \<rightharpoonup> PeerFile) \<Rightarrow> (bytes \<rightharpoonup> PeerId) \<Rightarrow> bool" where
  "owners_inv A C O' \<longleftrightarrow> (\<forall>ov q. O' ov = Some q \<longrightarrow> A q = None \<and> map_option pf_overlay (C q) = Some ov)"

definition promoted_inv ::
  "(PeerId \<rightharpoonup> ConnectionAttempt) \<Rightarrow> (PeerId \<rightharpoonup> PeerFile) \<Rightarrow> (bytes \<rightharpoonup> PeerId) \<Rightarrow> PeerId set \<Rightarrow> bool" where
  "promoted_inv A C O' B \<longleftrightarrow> (\<forall>q pf. C q = Some pf \<longrightarrow> A q = None \<longrightarrow> q \<in> B \<or> O' (pf_overlay pf) = Some q)"

definition slots_inv ::
  "(PeerId \<rightharpoonup> ConnectionAttempt) \<Rightarrow> (PeerId \<rightharpoonup> PeerFile) \<Rightarrow> (bytes \<rightharpoonup> PeerId) \<Rightarrow> PeerId set \<Rightarrow>
     ConnectionPopulation \<Rightarrow> u64 \<Rightarrow> bool" where
  "slots_inv A C O' B p limit \<longleftrightarrow>
     counts_inv A C p limit \<and> sessions_inv A C \<and> owners_inv A C O' \<and> promoted_inv A C O' B"

text \<open>How each part reacts to an update of one of its maps.\<close>

lemma sessions_inv_updates:
  "sessions_inv A C \<Longrightarrow> sessions_inv (A(q := None)) C"
  "sessions_inv A C \<Longrightarrow> sessions_inv A (C(q := None))"
  "sessions_inv A C \<Longrightarrow> (\<And>pf. C q = Some pf \<Longrightarrow> ca_id a = pf_connection_attempt_id pf
      \<and> ca_physical_connection_id a = Some (pf_connection_id pf)) \<Longrightarrow> sessions_inv (A(q \<mapsto> a)) C"
  "sessions_inv A C \<Longrightarrow> (\<And>a. A q = Some a \<Longrightarrow> ca_id a = pf_connection_attempt_id pf
      \<and> ca_physical_connection_id a = Some (pf_connection_id pf)) \<Longrightarrow> sessions_inv A (C(q \<mapsto> pf))"
  by (simp_all add: sessions_inv_def)

lemma owners_inv_ran:
  "owners_inv A C O' \<Longrightarrow> q \<in> ran O' \<Longrightarrow> A q = None \<and> q \<in> dom C"
  by (fastforce simp: owners_inv_def ran_def)

lemma owners_inv_updates:
  "owners_inv A C O' \<Longrightarrow> owners_inv (A(q := None)) C O'"
  "owners_inv A C O' \<Longrightarrow> q \<notin> ran O' \<Longrightarrow> owners_inv (A(q \<mapsto> a)) C O'"
  "owners_inv A C O' \<Longrightarrow> q \<notin> ran O' \<Longrightarrow> owners_inv A (C(q := v)) O'"
  "owners_inv A C O' \<Longrightarrow> owners_inv A C (O'(ov := None))"
  "owners_inv A C O' \<Longrightarrow> A q = None \<Longrightarrow> C q = Some pf \<Longrightarrow> owners_inv A C (O'(pf_overlay pf \<mapsto> q))"
  by (auto simp: owners_inv_def ran_def)

lemma promoted_inv_updates:
  "promoted_inv A C O' B \<Longrightarrow> promoted_inv (A(q \<mapsto> a)) C O' B"
  "promoted_inv A C O' B \<Longrightarrow> promoted_inv A (C(q := None)) O' B"
  "promoted_inv A C O' B \<Longrightarrow> A q \<noteq> None \<Longrightarrow> promoted_inv A (C(q \<mapsto> pf)) O' B"
  "promoted_inv A C O' B \<Longrightarrow> (\<And>pf. C q = Some pf \<Longrightarrow> q \<in> B \<or> O' (pf_overlay pf) = Some q) \<Longrightarrow>
     promoted_inv (A(q := None)) C O' B"
  "promoted_inv A C O' B \<Longrightarrow> O' ov = None \<Longrightarrow> promoted_inv A C (O'(ov \<mapsto> q)) B"
  "promoted_inv A C O' B \<Longrightarrow> O' ov = Some q \<Longrightarrow> q \<notin> dom C \<Longrightarrow> promoted_inv A C (O'(ov := None)) B"
  unfolding promoted_inv_def by (simp_all add: domIff) (metis option.distinct(1) option.inject)+

lemma slots_invI:
  "counts_inv A C p limit \<Longrightarrow> sessions_inv A C \<Longrightarrow> owners_inv A C O' \<Longrightarrow> promoted_inv A C O' B \<Longrightarrow>
     slots_inv A C O' B p limit"
  by (simp add: slots_inv_def)

lemma slots_invD:
  assumes "slots_inv A C O' B p limit"
  shows "counts_inv A C p limit" "sessions_inv A C" "owners_inv A C O'" "promoted_inv A C O' B"
    "q \<in> dom A \<Longrightarrow> q \<notin> ran O'" "q \<notin> dom C \<Longrightarrow> q \<notin> ran O'"
  using assms owners_inv_ran [of A C O' q] by (auto simp: slots_inv_def)

definition node_inv :: "Node \<Rightarrow> bool" where
  "node_inv n = slots_inv (connection_attempts (wings n)) (connected_peers (wings n))
     (overlay_peers (wings n)) (bootnodes (wings n)) (population n) (buildup_limit n)"

lemma unat_sub_one: "0 < unat (x :: u64) \<Longrightarrow> unat (saturating_sub x 1) = unat x - 1"
  by (simp add: rust_int)

lemma complete_slot:
  assumes "0 < unat (cp_ongoing p)" "unat (cp_connected p) + unat (cp_ongoing p) \<le> unat (limit :: u64)"
  shows "unat (cp_ongoing (complete_connection_reservation b p)) = unat (cp_ongoing p) - 1"
    "unat (cp_connected (complete_connection_reservation b p))
       = unat (cp_connected p) + (if b then 1 else 0)"
proof -
  have "unat (cp_connected p) + 1 < 2 ^ 64"
    using assms u64_bound [of limit] by (simp del: u64_bound)
  then show "unat (cp_ongoing (complete_connection_reservation b p)) = unat (cp_ongoing p) - 1"
    "unat (cp_connected (complete_connection_reservation b p))
       = unat (cp_connected p) + (if b then 1 else 0)"
    using assms(1) by (simp_all add: complete_connection_reservation_def unat_sub_one Let_def
        rust_int del: One_nat_def)
qed

text \<open>The transitions of the maps and counters that the handlers are made of.\<close>

lemma slots_inv_open:
  assumes inv: "slots_inv A C O' B p limit" and q: "q \<notin> dom A" "q \<notin> dom C"
    and res: "try_reserve_connection_capacity limit p = (True, p')"
  shows "slots_inv (A(q \<mapsto> a)) C O' B p' limit"
proof (rule slots_invI)
  note D = slots_invD [OF inv]
  from res have room: "unat (cp_connected p) + unat (cp_ongoing p) < unat limit"
    and p': "p' = p\<lparr>cp_ongoing := cp_ongoing p + 1\<rparr>" by (simp_all add: try_reserve_True)
  have "dom C - insert q (dom A) = dom C - dom A" using q by blast
  then show "counts_inv (A(q \<mapsto> a)) C p' limit"
    using D(1) q room p' unat_ongoing_reserve [OF room] by (simp add: counts_inv_def)
  show "sessions_inv (A(q \<mapsto> a)) C" using D(2) q(2) by (auto intro: sessions_inv_updates)
  show "owners_inv (A(q \<mapsto> a)) C O'" using D(3) D(6) [OF q(2)] by (rule owners_inv_updates)
  show "promoted_inv (A(q \<mapsto> a)) C O' B" using D(4) by (rule promoted_inv_updates)
qed

lemma slots_inv_abort:
  assumes inv: "slots_inv A C O' B p limit" and q: "q \<in> dom A" "q \<notin> dom C"
  shows "slots_inv (A(q := None)) C O' B (release_connection_reservation p) limit"
proof (rule slots_invI)
  note D = slots_invD [OF inv]
  have "dom C - (dom A - {q}) = dom C - dom A" using q by blast
  moreover have "0 < card (dom A)" using D(1) q by (auto simp: counts_inv_def card_gt_0_iff)
  ultimately show "counts_inv (A(q := None)) C (release_connection_reservation p) limit"
    using D(1) q(1) complete_slot [of p limit False]
    by (auto simp: counts_inv_def release_connection_reservation_def)
  show "sessions_inv (A(q := None)) C" using D(2) by (rule sessions_inv_updates)
  show "owners_inv (A(q := None)) C O'" using D(3) by (rule owners_inv_updates)
  show "promoted_inv (A(q := None)) C O' B" using D(4) q(2) by (auto intro: promoted_inv_updates)
qed

lemma slots_inv_bootnodes:
  "slots_inv A C O' B p limit \<Longrightarrow> B \<subseteq> B' \<Longrightarrow> slots_inv A C O' B' p limit"
  unfolding slots_inv_def promoted_inv_def by blast

lemma slots_inv_attempt:
  assumes inv: "slots_inv A C O' B p limit" and a: "A q = Some a"
    and "q \<in> dom C \<Longrightarrow> ca_id a' = ca_id a \<and> ca_physical_connection_id a' = ca_physical_connection_id a"
  shows "slots_inv (A(q \<mapsto> a')) C O' B p limit"
proof (rule slots_invI)
  note D = slots_invD [OF inv]
  have "dom (A(q \<mapsto> a')) = dom A" using a by auto
  then show "counts_inv (A(q \<mapsto> a')) C p limit"
    using D(1) unfolding counts_inv_def by metis
  show "sessions_inv (A(q \<mapsto> a')) C"
    using D(2) a assms(3) by (intro sessions_inv_updates(3)) (simp_all add: sessions_inv_def domIff)
  show "owners_inv (A(q \<mapsto> a')) C O'" using D(3) D(5) a by (auto intro: owners_inv_updates)
  show "promoted_inv (A(q \<mapsto> a')) C O' B" using D(4) by (rule promoted_inv_updates)
qed

lemma slots_inv_publish:
  assumes inv: "slots_inv A C O' B p limit" and a: "A q = Some a"
    and "ca_id a = pf_connection_attempt_id pf" "ca_physical_connection_id a = Some (pf_connection_id pf)"
  shows "slots_inv A (C(q \<mapsto> pf)) O' B p limit"
proof (rule slots_invI)
  note D = slots_invD [OF inv]
  have "insert q (dom C) - dom A = dom C - dom A" using a by auto
  then show "counts_inv A (C(q \<mapsto> pf)) p limit" using D(1) by (simp add: counts_inv_def)
  show "sessions_inv A (C(q \<mapsto> pf))" using D(2) assms by (auto intro!: sessions_inv_updates)
  show "owners_inv A (C(q \<mapsto> pf)) O'" using D(3) D(5) a by (auto intro: owners_inv_updates)
  show "promoted_inv A (C(q \<mapsto> pf)) O' B" using D(4) a by (auto intro: promoted_inv_updates)
qed

lemma slots_inv_promote:
  assumes inv: "slots_inv A C O' B p limit" and q: "q \<in> dom A" "C q = Some pf"
    and claim: "claim_overlay (q \<in> B) (pf_overlay pf) q O' = (True, own, O'')"
  shows "slots_inv (A(q := None)) C O'' B (complete_connection_reservation True p) limit"
proof (rule slots_invI)
  note D = slots_invD [OF inv]
  have card: "0 < card (dom A)" using D(1) q by (auto simp: counts_inv_def card_gt_0_iff)
  have "dom C - (dom A - {q}) = insert q (dom C - dom A)" using q by blast
  moreover have "card (insert q (dom C - dom A)) = Suc (card (dom C - dom A))"
    using D(1) q by (intro card_insert_disjoint) (auto simp: counts_inv_def)
  ultimately show "counts_inv (A(q := None)) C (complete_connection_reservation True p) limit"
    using D(1) q complete_slot [of p limit True] card by (auto simp: counts_inv_def)
  show "sessions_inv (A(q := None)) C" using D(2) by (rule sessions_inv_updates)
  have "q \<in> B \<and> O'' = O' \<or> O' (pf_overlay pf) = None \<and> O'' = O'(pf_overlay pf \<mapsto> q)"
    using claim by (simp add: claim_overlay_def split: if_splits option.splits)
  then consider "q \<in> B" "O'' = O'" | "O' (pf_overlay pf) = None" "O'' = O'(pf_overlay pf \<mapsto> q)"
    by metis
  then have "owners_inv (A(q := None)) C O'' \<and> promoted_inv (A(q := None)) C O'' B"
  proof cases
    case 1
    then show ?thesis
      using owners_inv_updates(1) [OF D(3), of q] promoted_inv_updates(4) [OF D(4), of q] by simp
  next
    case 2
    then have "promoted_inv A C O'' B" using promoted_inv_updates(5) [OF D(4)] by simp
    moreover have "owners_inv (A(q := None)) C O''"
      using owners_inv_updates(5) [OF owners_inv_updates(1) [OF D(3), of q]] q 2 by simp
    ultimately show ?thesis using promoted_inv_updates(4) [of A C O'' B q] q 2 by simp
  qed
  then show "owners_inv (A(q := None)) C O''" "promoted_inv (A(q := None)) C O'' B" by simp_all
qed

lemma slots_inv_reject:
  assumes inv: "slots_inv A C O' B p limit" and q: "q \<in> dom A"
  shows "slots_inv (A(q := None)) (C(q := None)) O' B (complete_connection_reservation False p) limit"
proof (rule slots_invI)
  note D = slots_invD [OF inv]
  have card: "0 < card (dom A)" using D(1) q by (auto simp: counts_inv_def card_gt_0_iff)
  have "dom C - {q} - (dom A - {q}) = dom C - dom A" using q by blast
  then show "counts_inv (A(q := None)) (C(q := None)) (complete_connection_reservation False p) limit"
    using D(1) q complete_slot [of p limit False] card by (auto simp: counts_inv_def)
  show "sessions_inv (A(q := None)) (C(q := None))" using D(2) by (intro sessions_inv_updates(1,2))
  show "owners_inv (A(q := None)) (C(q := None)) O'"
    using D(3) D(5) [OF q] by (intro owners_inv_updates(1,3))
  show "promoted_inv (A(q := None)) (C(q := None)) O' B"
    using promoted_inv_updates(2) [OF D(4), of q] by (rule promoted_inv_updates(4)) simp
qed

lemma slots_inv_leave:
  assumes inv: "slots_inv A C O' B p limit" and q: "C q = Some pf" "A q = None"
    and O'': "O'' = (if O' (pf_overlay pf) = Some q then O'(pf_overlay pf := None) else O')"
  shows "slots_inv A (C(q := None)) O'' B (release_connected_peer p) limit"
proof (rule slots_invI)
  note D = slots_invD [OF inv]
  have "dom C - {q} - dom A = dom C - dom A - {q}" by blast
  moreover have "0 < card (dom C - dom A)"
    using D(1) q by (auto simp: counts_inv_def card_gt_0_iff)
  ultimately show "counts_inv A (C(q := None)) (release_connected_peer p) limit"
    using D(1) q by (auto simp: counts_inv_def release_connected_peer_def unat_sub_one domIff)
  show "sessions_inv A (C(q := None))" using D(2) by (rule sessions_inv_updates)
  have "owners_inv A C O''" using D(3) O'' by (simp add: owners_inv_updates)
  moreover have "q \<notin> ran O''" using D(3) O'' q by (fastforce simp: owners_inv_def ran_def split: if_splits)
  ultimately show "owners_inv A (C(q := None)) O''" by (rule owners_inv_updates)
  show "promoted_inv A (C(q := None)) O'' B"
    using promoted_inv_updates(2) [OF D(4), of q] O'' by (auto intro: promoted_inv_updates(6))
qed

lemma slots_inv_empty: "slots_inv Map.empty Map.empty Map.empty {} \<lparr>cp_connected = 0, cp_ongoing = 0\<rparr> limit"
  by (simp add: slots_inv_def counts_inv_def sessions_inv_def owners_inv_def promoted_inv_def)


section \<open>Every section keeps it\<close>

text \<open>The invariant reads six fields; a section that leaves them alone keeps it.\<close>

lemma node_inv_frame:
  "node_inv n \<Longrightarrow> connection_attempts (wings n') = connection_attempts (wings n) \<Longrightarrow>
   connected_peers (wings n') = connected_peers (wings n) \<Longrightarrow>
   overlay_peers (wings n') = overlay_peers (wings n) \<Longrightarrow>
   bootnodes (wings n) \<subseteq> bootnodes (wings n') \<Longrightarrow> population n' = population n \<Longrightarrow>
   buildup_limit n' = buildup_limit n \<Longrightarrow> node_inv n'"
  by (simp add: node_inv_def slots_inv_bootnodes)

lemma queue_peer_dial_retry_frame [simp]:
  "connection_attempts (fst (queue_peer_dial_retry a g b w)) = connection_attempts w"
  "connected_peers (fst (queue_peer_dial_retry a g b w)) = connected_peers w"
  "overlay_peers (fst (queue_peer_dial_retry a g b w)) = overlay_peers w"
  "bootnodes (fst (queue_peer_dial_retry a g b w)) = bootnodes w"
  by (simp_all add: queue_peer_dial_retry_def Let_def split: option.splits)

lemma update_account_frame [simp]:
  "connection_attempts (update_account r f w) = connection_attempts w"
  "connected_peers (update_account r f w) = connected_peers w"
  "overlay_peers (update_account r f w) = overlay_peers w"
  "bootnodes (update_account r f w) = bootnodes w"
  "physical_connections (update_account r f w) = physical_connections w"
  by (simp_all add: update_account_def)

lemma get_or_create_frame [simp]:
  "connection_attempts (snd (get_or_create_accounting_peer p w)) = connection_attempts w"
  "connected_peers (snd (get_or_create_accounting_peer p w)) = connected_peers w"
  "overlay_peers (snd (get_or_create_accounting_peer p w)) = overlay_peers w"
  "bootnodes (snd (get_or_create_accounting_peer p w)) = bootnodes w"
  "physical_connections (snd (get_or_create_accounting_peer p w)) = physical_connections w"
  by (simp_all add: get_or_create_accounting_peer_def Let_def split: option.splits)

text \<open>The attempt with this identifier has not published its peer.\<close>

definition unpublished :: "Node \<Rightarrow> PeerId \<Rightarrow> ConnectionAttemptId \<Rightarrow> bool" where
  "unpublished n peer attempt_id =
     (map_option pf_connection_attempt_id (connected_peers (wings n) peer) \<noteq> Some attempt_id)"

lemma unpublished_not_connected:
  assumes "node_inv n" "unpublished n peer attempt_id"
    and "map_option ca_id (connection_attempts (wings n) peer) = Some attempt_id"
  shows "peer \<notin> dom (connected_peers (wings n))" "peer \<in> dom (connection_attempts (wings n))"
  using assms by (auto simp: node_inv_def slots_inv_def sessions_inv_def unpublished_def)

lemma abort_keeps:
  assumes "node_inv n" "peer \<in> dom (connection_attempts (wings n))"
    "peer \<notin> dom (connected_peers (wings n))"
    and "connection_attempts w = (connection_attempts (wings n))(peer := None)"
    "connected_peers w = connected_peers (wings n)" "overlay_peers w = overlay_peers (wings n)"
    "bootnodes w = bootnodes (wings n)"
  shows "node_inv (release_slot (n\<lparr>wings := w\<rparr>))"
  using slots_inv_abort [OF assms(1) [unfolded node_inv_def] assms(2,3)] assms(4-)
  by (simp add: node_inv_def release_slot_def)

lemma remove_attempt_cases:
  obtains (kept) "remove_connection_attempt peer attempt_id w = (False, w)"
      "map_option ca_id (connection_attempts w peer) \<noteq> Some attempt_id"
    | (removed) "remove_connection_attempt peer attempt_id w
        = (True, w\<lparr>connection_attempts := (connection_attempts w)(peer := None)\<rparr>)"
      "map_option ca_id (connection_attempts w peer) = Some attempt_id"
  by (cases "map_option ca_id (connection_attempts w peer) = Some attempt_id")
     (simp_all add: remove_connection_attempt_def)

lemma drop_attempt_keeps:
  assumes "node_inv n" "unpublished n peer attempt_id"
  shows "node_inv (drop_attempt peer attempt_id n)"
proof (cases rule: remove_attempt_cases [of peer attempt_id "wings n"])
  case removed
  then show ?thesis
    using abort_keeps [OF assms(1) unpublished_not_connected(2,1) [OF assms removed(2)]]
    by (simp add: drop_attempt_def)
qed (simp add: drop_attempt_def assms)

lemma retry_attempt_keeps:
  assumes "node_inv n" "unpublished n peer attempt_id"
  shows "node_inv (fst (retry_attempt peer address g b attempt_id n))"
proof (cases rule: remove_attempt_cases [of peer attempt_id "wings n"])
  case removed
  then show ?thesis
    using abort_keeps [OF assms(1) unpublished_not_connected(2,1) [OF assms removed(2)]]
    by (simp add: retry_attempt_def split_def Let_def)
qed (simp add: retry_attempt_def assms)

lemma bootnode_failed_keeps:
  assumes "node_inv n" "unpublished n peer attempt_id"
  shows "node_inv (fst (bootnode_failed peer address g usable attempt_id n))"
proof (cases rule: remove_attempt_cases [of peer attempt_id "wings n"])
  case kept
  then show ?thesis
    by (simp add: bootnode_failed_def node_inv_frame [OF assms(1)])
next
  case removed
  then show ?thesis
    using abort_keeps [OF assms(1) unpublished_not_connected(2,1) [OF assms removed(2)]]
    by (simp add: bootnode_failed_def split_def Let_def)
qed

lemma hand_over_keeps:
  "node_inv n \<Longrightarrow> unpublished n peer attempt_id \<Longrightarrow>
     node_inv (fst (hand_over send_ok peer address b g attempt_id n))"
  by (simp add: hand_over_def drop_attempt_keeps)

text \<open>
  Opening an attempt for a peer and assigning it a connection: the common part of the two ways
  a dial starts.
\<close>

lemma marked_keeps:
  assumes inv: "node_inv n"
    and res: "try_reserve_connection_capacity (buildup_limit n) (population n) = (True, pop)"
    and mark: "try_mark_connection_attempt peer (wings n) = (Some attempt_id, w)"
  shows "node_inv (n\<lparr>population := pop, wings := w\<rparr>)"
    "unpublished (n\<lparr>population := pop, wings := w\<rparr>) peer attempt_id"
    "peer \<notin> dom (connected_peers w)"
proof -
  from mark have fresh_peer: "peer \<notin> dom (connection_attempts (wings n))"
      "peer \<notin> dom (connected_peers (wings n))"
    and w: "\<exists>a. connection_attempts w = (connection_attempts (wings n))(peer \<mapsto> a)"
      "connected_peers w = connected_peers (wings n)" "overlay_peers w = overlay_peers (wings n)"
      "bootnodes w = bootnodes (wings n)"
    by (auto simp: try_mark_connection_attempt_def Let_def split: if_splits)
  then show "node_inv (n\<lparr>population := pop, wings := w\<rparr>)"
    using slots_inv_open [OF inv [unfolded node_inv_def] fresh_peer res] by (auto simp: node_inv_def)
  show "unpublished (n\<lparr>population := pop, wings := w\<rparr>) peer attempt_id"
    "peer \<notin> dom (connected_peers w)"
    using fresh_peer w by (simp_all add: unpublished_def domIff)
qed

lemma begin_dial_keeps:
  assumes inv: "node_inv n" and peer: "peer \<notin> dom (connected_peers (wings n))"
  shows "node_inv (n\<lparr>wings := snd (begin_dial up fresh peer address g b attempt_id (wings n))\<rparr>)"
    "unpublished (n\<lparr>wings := snd (begin_dial up fresh peer address g b attempt_id (wings n))\<rparr>) peer attempt_id"
proof -
  let ?w = "snd (begin_dial up fresh peer address g b attempt_id (wings n))"
  have frame: "connected_peers ?w = connected_peers (wings n)" "overlay_peers ?w = overlay_peers (wings n)"
    "bootnodes (wings n) \<subseteq> bootnodes ?w"
    by (auto simp: begin_dial_def start_owned_connection_attempt_def assign_connection_def Let_def
        split_def split: if_splits option.splits)
  have "connection_attempts ?w = connection_attempts (wings n) \<or>
    (\<exists>a a'. connection_attempts (wings n) peer = Some a
       \<and> connection_attempts ?w = (connection_attempts (wings n))(peer \<mapsto> a'))"
    by (auto simp: begin_dial_def start_owned_connection_attempt_def assign_connection_def Let_def
        split_def split: if_splits option.splits)
  then have "slots_inv (connection_attempts ?w) (connected_peers (wings n)) (overlay_peers (wings n))
      (bootnodes (wings n)) (population n) (buildup_limit n)"
    using inv slots_inv_attempt [OF inv [unfolded node_inv_def], of peer] peer
    by (elim disjE exE conjE) (simp_all add: node_inv_def)
  then show "node_inv (n\<lparr>wings := ?w\<rparr>)"
    using frame slots_inv_bootnodes by (simp add: node_inv_def)
  show "unpublished (n\<lparr>wings := ?w\<rparr>) peer attempt_id"
    using frame peer by (simp add: unpublished_def domIff)
qed

lemma begun_keeps:
  assumes "node_inv n"
    and "try_reserve_connection_capacity (buildup_limit n) (population n) = (True, pop)"
    and "try_mark_connection_attempt peer (wings n) = (Some attempt_id, w)"
  shows "node_inv (n\<lparr>population := pop, wings := snd (begin_dial up fresh peer address g b attempt_id w)\<rparr>)"
    "unpublished (n\<lparr>population := pop, wings := snd (begin_dial up fresh peer address g b attempt_id w)\<rparr>)
       peer attempt_id"
  using begin_dial_keeps [OF marked_keeps(1) [OF assms]] marked_keeps(3) [OF assms] by simp_all

lemma reserve_then_release:
  assumes "node_inv n" "try_reserve_connection_capacity (buildup_limit n) (population n) = (True, pop)"
  shows "node_inv (release_slot (n\<lparr>population := pop\<rparr>))"
proof -
  from assms(2) have room: "unat (cp_connected (population n)) + unat (cp_ongoing (population n))
      < unat (buildup_limit n)"
    and pop: "pop = (population n)\<lparr>cp_ongoing := cp_ongoing (population n) + 1\<rparr>"
    by (simp_all add: try_reserve_True)
  have "saturating_sub (cp_ongoing (population n) + 1) 1 = cp_ongoing (population n)"
    using unat_sub_one [of "cp_ongoing (population n) + 1"] unat_ongoing_reserve [OF room]
    by (simp add: word_unat_eq_iff)
  then have "release_connection_reservation pop = population n"
    by (simp add: pop release_connection_reservation_def complete_connection_reservation_def)
  then show ?thesis using assms(1) by (simp add: release_slot_def)
qed

lemma scheduler_dial_keeps:
  assumes inv: "node_inv n"
  shows "node_inv (fst (snd (scheduler_dial send_ok up fresh candidate n)))"
proof -
  obtain reserved pop where
    pair: "try_reserve_connection_capacity (buildup_limit n) (population n) = (reserved, pop)"
    by fastforce
  let ?n = "n\<lparr>population := pop\<rparr>"
  have "node_inv (fst (snd (scheduler_reserved send_ok up fresh candidate ?n)))" if reserved
  proof -
    have res: "try_reserve_connection_capacity (buildup_limit n) (population n) = (True, pop)"
      using pair that by simp
    note released = reserve_then_release [OF inv res]
    obtain m w where mark: "try_mark_connection_attempt (qpd_peer candidate) (wings n) = (m, w)"
      by fastforce
    show ?thesis
    proof (cases m)
      case None
      then show ?thesis using released mark by (simp add: scheduler_reserved_def)
    next
      case (Some attempt_id)
      note mark = mark [unfolded Some]
      let ?n' = "n\<lparr>population := pop, wings := w\<rparr>"
      have "node_inv (fst (snd (scheduler_marked send_ok up fresh candidate attempt_id ?n')))"
        using begun_keeps [OF inv res mark]
        by (simp add: scheduler_marked_def split_def Let_def hand_over_keeps retry_attempt_keeps
            split: sum.split)
      then show ?thesis
        using released drop_attempt_keeps marked_keeps [OF inv res mark] mark
        by (simp add: scheduler_reserved_def)
    qed
  qed
  then show ?thesis using inv pair by (simp add: scheduler_dial_def)
qed

lemma bootnode_dial_keeps:
  assumes inv: "node_inv n"
  shows "node_inv (fst (snd (bootnode_dial send_ok up fresh address usable g n)))"
proof -
  have "node_inv (fst (snd (bootnode_reserved send_ok up fresh pid dial_addr usable g (n\<lparr>population := pop\<rparr>))))"
    if res: "try_reserve_connection_capacity (buildup_limit n) (population n) = (True, pop)"
    for pop pid dial_addr
  proof -
    obtain m w where mark: "try_mark_connection_attempt pid (wings n) = (m, w)" by fastforce
    show ?thesis
    proof (cases m)
      case None
      then show ?thesis
        using reserve_then_release [OF inv res] mark by (simp add: bootnode_reserved_def)
    next
      case (Some attempt_id)
      note mark = mark [unfolded Some]
      have "node_inv (fst (snd (bootnode_marked send_ok up fresh pid dial_addr usable g attempt_id
          (n\<lparr>population := pop, wings := w\<rparr>))))"
        using begun_keeps [OF inv res mark]
        by (simp add: bootnode_marked_def split_def Let_def hand_over_keeps bootnode_failed_keeps
            split: sum.split)
      then show ?thesis
        using drop_attempt_keeps marked_keeps [OF inv res mark] mark
        by (simp add: bootnode_reserved_def)
    qed
  qed
  then show ?thesis
    using inv
    by (auto simp: bootnode_dial_def reserve_connection_capacity_turn_def Let_def
        split: option.splits prod.splits if_splits)
qed

lemma dial_permitted_keeps:
  assumes "node_inv n" "unpublished n peer attempt_id"
  shows "qpd_peer candidate = peer \<Longrightarrow>
      node_inv (fst (scheduler_dial_permitted dial_ok send_ok candidate attempt_id c n))"
    "node_inv (fst (bootnode_dial_permitted dial_ok send_ok peer address usable g attempt_id c n))"
  using assms
  by (simp_all add: scheduler_dial_permitted_def bootnode_dial_permitted_def split_def Let_def
      hand_over_keeps retry_attempt_keeps bootnode_failed_keeps)

lemma claim_overlay_cases:
  assumes "q \<notin> ran O'"
  obtains (promoted) O'' where "claim_overlay b ov q O' = (True, None, O'')"
    | (rejected) owner where "claim_overlay b ov q O' = (False, Some owner, O')"
proof (cases "O' ov")
  case None
  then show ?thesis using promoted by (cases b) (simp_all add: claim_overlay_def)
next
  case (Some owner)
  then have "owner \<noteq> q" using assms by (auto simp: ran_def)
  then show ?thesis
    using Some promoted rejected by (cases b) (simp_all add: claim_overlay_def)
qed

lemma promote_priced_peer_keeps:
  assumes inv: "node_inv n"
  shows "node_inv (fst (promote_priced_peer peer n))"
proof (cases "connected_peers (wings n) peer")
  case None
  then show ?thesis using inv by (simp add: promote_priced_peer_def)
next
  case (Some pf)
  show ?thesis
  proof (cases rule: remove_attempt_cases [of peer "pf_connection_attempt_id pf" "wings n"])
    case kept
    then show ?thesis using inv Some by (simp add: promote_priced_peer_def)
  next
    case removed
    let ?B = "bootnodes (wings n)" and ?O = "overlay_peers (wings n)"
    have A: "peer \<in> dom (connection_attempts (wings n))" using removed(2) by auto
    have "peer \<notin> ran ?O" using slots_invD(5) [OF inv [unfolded node_inv_def] A] .
    then show ?thesis
    proof (cases rule: claim_overlay_cases [of peer ?O "peer \<in> ?B" "pf_overlay pf"])
      case promoted
      then show ?thesis
        using slots_inv_promote [OF inv [unfolded node_inv_def] A Some promoted] removed(1) Some inv
        by (simp add: promote_priced_peer_def node_inv_def)
    next
      case rejected
      then show ?thesis
        using slots_inv_reject [OF inv [unfolded node_inv_def] A] removed(1) Some inv
        by (simp add: promote_priced_peer_def node_inv_def reject_duplicate_def)
    qed
  qed
qed


lemma accounting_event_keeps:
  assumes inv: "node_inv n"
  shows "node_inv (fst (accounting_event pf n))"
proof -
  let ?w = "wings n" and ?peer = "pf_peer_id pf"
  obtain account w1 where get: "get_or_create_accounting_peer ?peer ?w = (account, w1)" by fastforce
  let ?w2 = "update_account account (\<lambda>a. a\<lparr>pa_connection_id := Some (pf_connection_id pf)\<rparr>) w1"
  let ?n = "n\<lparr>wings := ?w2\<lparr>connected_peers := (connected_peers ?w2)(?peer \<mapsto> pf)\<rparr>\<rparr>"
  have w1: "connection_attempts w1 = connection_attempts ?w" "connected_peers w1 = connected_peers ?w"
    "overlay_peers w1 = overlay_peers ?w" "bootnodes w1 = bootnodes ?w"
    using get_or_create_frame [of ?peer ?w] get by simp_all
  have published: "node_inv ?n" if "connection_attempts ?w ?peer = Some a"
    "ca_id a = pf_connection_attempt_id pf" "ca_physical_connection_id a = Some (pf_connection_id pf)" for a
    using slots_inv_publish [OF inv [unfolded node_inv_def] that] by (simp add: node_inv_def w1)
  show ?thesis
    using inv published promote_priced_peer_keeps [OF published]
    by (simp add: accounting_event_def Let_def get split_def split: option.splits)
qed

lemma pricing_event_keeps:
  assumes inv: "node_inv n"
  shows "node_inv (fst (pricing_event peer amount session n))"
proof -
  have "node_inv (n\<lparr>wings := update_account (fst (get_or_create_accounting_peer peer (wings n)))
      (set_payment_threshold amount) (snd (get_or_create_accounting_peer peer (wings n)))\<rparr>)"
    by (rule node_inv_frame [OF inv]) simp_all
  then show ?thesis
    using inv by (simp add: pricing_event_def Let_def split_def promote_priced_peer_keeps)
qed

lemma attempt_flags_keep:
  assumes "node_inv n"
  shows "node_inv (n\<lparr>wings := mark_handshake_ready_connection peer c (wings n)\<rparr>)"
    "node_inv (n\<lparr>wings := fst (close_failed_identify_connection peer c (wings n))\<rparr>)"
proof -
  have flags: "node_inv (n\<lparr>wings := w\<rparr>)"
    if "connection_attempts (wings n) peer = Some a"
      "connection_attempts w = (connection_attempts (wings n))(peer \<mapsto> a')"
      "ca_id a' = ca_id a" "ca_physical_connection_id a' = ca_physical_connection_id a"
      "connected_peers w = connected_peers (wings n)" "overlay_peers w = overlay_peers (wings n)"
      "bootnodes w = bootnodes (wings n)" for w a a'
    using slots_inv_attempt [OF assms [unfolded node_inv_def] that(1), of a'] that
    by (simp add: node_inv_def)
  show "node_inv (n\<lparr>wings := mark_handshake_ready_connection peer c (wings n)\<rparr>)"
    using assms
    by (auto simp: mark_handshake_ready_connection_def awaits_identify_def Let_def
        split: option.splits if_splits intro: flags node_inv_frame)
  show "node_inv (n\<lparr>wings := fst (close_failed_identify_connection peer c (wings n))\<rparr>)"
    using assms
    by (auto simp: close_failed_identify_connection_def awaits_identify_def Let_def
        split: option.splits if_splits intro: flags node_inv_frame)
qed


lemma identify_keeps:
  assumes "node_inv n"
  shows "node_inv (fst (identify_received local_peer peer c observed n))"
    "node_inv (fst (identify_error peer c n))"
proof -
  have "node_inv (n\<lparr>wings := (wings n)\<lparr>canonical_identify_address := Some observed\<rparr>\<rparr>)"
    by (rule node_inv_frame [OF assms]) simp_all
  from attempt_flags_keep(1) [OF this] show "node_inv (fst (identify_received local_peer peer c observed n))"
    using assms attempt_flags_keep [OF assms]
    by (simp add: identify_received_def Let_def split_def)
  show "node_inv (fst (identify_error peer c n))"
    using attempt_flags_keep(2) [OF assms] by (simp add: identify_error_def split_def Let_def)
qed

text \<open>A dial that failed never became the connection of a published peer.\<close>

definition undialled :: "Node \<Rightarrow> ConnectionId \<Rightarrow> bool" where
  "undialled n c = (\<forall>pf \<in> ran (connected_peers (wings n)). pf_connection_id pf \<noteq> c)"

lemma remove_for_connection_cases:
  obtains (kept) "remove_connection_attempt_for_connection peer c w = (False, w)"
    | (removed) a where "remove_connection_attempt_for_connection peer c w
        = (True, w\<lparr>connection_attempts := (connection_attempts w)(peer := None)\<rparr>)"
      "connection_attempts w peer = Some a" "ca_physical_connection_id a = Some c"
  by (cases "Option.bind (connection_attempts w peer) ca_physical_connection_id = Some c")
     (auto simp: remove_connection_attempt_for_connection_def bind_eq_Some_conv)

lemma clear_failed_dial_keeps:
  assumes inv: "node_inv n" and c: "undialled n c"
  shows "node_inv (fst (clear_failed_dial peer c retryable address n))"
proof (cases rule: remove_for_connection_cases [of peer c "wings n"])
  case kept
  then show ?thesis using inv by (simp add: clear_failed_dial_def)
next
  case (removed a)
  have "peer \<notin> dom (connected_peers (wings n))"
    using removed inv c
    by (fastforce simp: undialled_def node_inv_def slots_inv_def sessions_inv_def ran_def)
  moreover have "peer \<in> dom (connection_attempts (wings n))" using removed by auto
  ultimately show ?thesis
    using abort_keeps [OF inv] removed(1) by (simp add: clear_failed_dial_def Let_def split_def)
qed

lemma outgoing_connection_error_keeps:
  assumes inv: "node_inv n" and c: "undialled n c"
  shows "node_inv (fst (outgoing_connection_error peer_id c error n))"
proof -
  let ?n = "n\<lparr>wings := (wings n)\<lparr>dial_failures := dial_failures (wings n) + 1\<rparr>\<rparr>"
  have "node_inv ?n" by (rule node_inv_frame [OF inv]) simp_all
  moreover have "undialled ?n c" using c by (simp add: undialled_def)
  ultimately show ?thesis
    by (simp add: outgoing_connection_error_def Let_def clear_failed_dial_keeps split: option.split)
qed

lemma forget_peer_keeps:
  assumes inv: "node_inv n" and own: "close_owns_lifecycle (wings n) peer c"
    and forget: "forget_peer peer c (wings n) = ((tracked, counted, had_attempt), w)"
  shows "slots_inv (connection_attempts w) (connected_peers w) (overlay_peers w) (bootnodes w)
    (if had_attempt then release_connection_reservation (population n)
     else if counted then release_connected_peer (population n) else population n) (buildup_limit n)"
    (is ?inv) and "tracked \<or> had_attempt" (is ?some)
proof -
  note inv' = inv [unfolded node_inv_def]
  show ?inv
  proof (cases "connected_peers (wings n) peer")
    case None
    with own have "peer \<in> dom (connection_attempts (wings n))"
      by (auto simp: close_owns_lifecycle_def bind_eq_Some_conv)
    then show ?thesis
      using slots_inv_abort [OF inv', of peer] fun_upd_idem [of "connected_peers (wings n)" peer None] None own forget
      by (auto simp: forget_peer_def remove_connection_attempt_for_connection_def Let_def
          close_owns_lifecycle_def domIff)
  next
    case (Some pf)
    show ?thesis
    proof (cases "connection_attempts (wings n) peer")
      case None
      have "overlay_peers (wings n) (pf_overlay pf) = Some peer \<or> peer \<in> bootnodes (wings n)"
        using slots_invD(4) [OF inv'] Some None by (auto simp: promoted_inv_def)
      then show ?thesis
        using slots_inv_leave [OF inv' Some None refl] Some None forget
        by (auto simp: forget_peer_def remove_connection_attempt_def Let_def split: if_splits)
    next
      case (Some a)
      then have "peer \<in> dom (connection_attempts (wings n))" by auto
      moreover have "overlay_peers (wings n) (pf_overlay pf) \<noteq> Some peer"
        using slots_invD(5) [OF inv' calculation] by (auto simp: ran_def)
      moreover have "ca_id a = pf_connection_attempt_id pf"
        using slots_invD(2) [OF inv'] Some \<open>connected_peers (wings n) peer = Some pf\<close>
        by (simp add: sessions_inv_def)
      ultimately show ?thesis
        using slots_inv_reject [OF inv', of peer] Some \<open>connected_peers (wings n) peer = Some pf\<close> forget
        by (auto simp: forget_peer_def remove_connection_attempt_def Let_def
            release_connection_reservation_def)
    qed
  qed
  show ?some
    using own forget
    by (auto simp: forget_peer_def remove_connection_attempt_for_connection_def Let_def
        close_owns_lifecycle_def split_def split: option.splits)
qed

lemma connection_closed_task_keeps:
  assumes inv: "node_inv n"
  shows "node_inv (fst (connection_closed_task mb r peer c dialled n))"
proof (cases "close_owns_lifecycle (wings n) peer c")
  case False
  then show ?thesis
    using inv attempt_flags_keep(1) [OF inv]
    by (simp add: connection_closed_task_def Let_def split: option.split)
next
  case True
  obtain tracked counted had_attempt w where
    forget: "forget_peer peer c (wings n) = ((tracked, counted, had_attempt), w)"
    by (metis prod.collapse)
  note keeps = forget_peer_keeps [OF inv True forget]
  show ?thesis
    using keeps True forget
    by (cases had_attempt; cases counted)
       (simp_all add: connection_closed_task_def Let_def split_def node_inv_def)
qed


section \<open>The transition system\<close>

text \<open>
  One rule per section.  The arguments a rule leaves free are the answers of the environment and
  the local data of a suspended task.  Three rules carry a side condition: a task that waits for
  its dial permit or whose handshake failed has not published its peer (publishing is the last
  act of a handshake that succeeds), and a connection the swarm reports as failed to dial was
  never the connection of a published peer.
\<close>

inductive node_step :: "Node \<Rightarrow> Node \<Rightarrow> bool" where
  scheduler: "node_step n (fst (snd (scheduler_dial send_ok up fresh candidate n)))"
| scheduler_permit: "unpublished n (qpd_peer candidate) attempt_id \<Longrightarrow>
    node_step n (fst (scheduler_dial_permitted dial_ok send_ok candidate attempt_id c n))"
| bootnode: "node_step n (fst (snd (bootnode_dial send_ok up fresh address usable g n)))"
| bootnode_permit: "unpublished n peer attempt_id \<Longrightarrow>
    node_step n (fst (bootnode_dial_permitted dial_ok send_ok peer address usable g attempt_id c n))"
| established: "node_step n (on_connection_established peer c n)"
| identified: "node_step n (fst (identify_received local_peer peer c observed n))"
| identify_failed: "node_step n (fst (identify_error peer c n))"
| dial_failed: "undialled n c \<Longrightarrow>
    node_step n (fst (outgoing_connection_error peer_id c error n))"
| closed: "node_step n (on_connection_closed peer c n)"
| closed_task: "node_step n (fst (connection_closed_task mainnet_bootnode random peer c dialled n))"
| reconnect: "node_step n (fst (connection_closed_reconnect to_vec peer g retry_address b n))"
| retry: "node_step n
    (n\<lparr>wings := fst (peer_dial_retry_fires to_vec (connection_generation n) peer g retry_id address b (wings n))\<rparr>)"
| handshake: "unpublished n peer attempt_id \<Longrightarrow> try_from_multiaddr address = Some peer \<Longrightarrow>
    node_step n (snd (handshake_start address b g attempt_id n))"
| handshake_failure: "unpublished n peer attempt_id \<Longrightarrow>
    node_step n (fst (handshake_failed disconnect_ok peer address g b attempt_id n))"
| accounting: "node_step n (fst (accounting_event pf n))"
| pricing: "node_step n (fst (pricing_event peer amount session n))"
| refresh: "node_step n (snd (refresh_head now peer account c n))"
| dispatch: "node_step n (snd (refresh_dispatch peer account c n))"
| refreshed: "node_step n (snd (snd (refresh_outcome now active send_ok result peer account c n)))"
| cheque: "node_step n (fst (cheque_apply peer cheque_ok g n))"
| network: "node_step n (fst (snd (set_network_id swarm_connected parsed n)))"

lemma node_inv_new: "node_inv (new_node\<lparr>buildup_limit := limit\<rparr>)"
  by (simp add: node_inv_def new_node_def new_wings_def slots_inv_empty)

lemma claim_remaining_debt_frame:
  "node_inv n \<Longrightarrow> node_inv (snd (claim_remaining_debt active send_ok peer account c n))"
  by (auto simp: claim_remaining_debt_def claim_current_cheque_def Let_def split_def
      split: if_splits intro: node_inv_frame)

lemma node_inv_update_account:
  "node_inv n \<Longrightarrow> node_inv (n\<lparr>wings := update_account account f (wings n)\<rparr>)"
  by (rule node_inv_frame) simp_all

lemma refresh_keeps:
  assumes "node_inv n"
  shows "node_inv (snd (refresh_head now peer account c n))"
    "node_inv (snd (refresh_dispatch peer account c n))"
    "node_inv (snd (snd (refresh_outcome now active send_ok result peer account c n)))"
  using assms node_inv_update_account [OF assms]
  by (simp_all add: refresh_head_def refresh_dispatch_def refresh_outcome_def unschedule_def Let_def
      quiesce_accounting_session_def split_def claim_remaining_debt_frame
      split: option.split RefreshmentOutcome.split)

lemma set_network_id_keeps:
  assumes "node_inv n"
  shows "node_inv (fst (snd (set_network_id swarm_connected parsed n)))"
  using assms
  by (auto simp: set_network_id_def disconnect_all_peers_def Let_def node_inv_def slots_inv_empty
      split: option.splits)

lemma handshake_start_keeps:
  assumes "node_inv n" "unpublished n peer attempt_id" "try_from_multiaddr address = Some peer"
  shows "node_inv (snd (handshake_start address b g attempt_id n))"
proof -
  have "node_inv (n\<lparr>wings := (wings n)\<lparr>bootnodes := insert peer (bootnodes (wings n))\<rparr>\<rparr>)"
    by (rule node_inv_frame [OF assms(1)]) auto
  moreover have "unpublished (n\<lparr>wings := (wings n)\<lparr>bootnodes := insert peer (bootnodes (wings n))\<rparr>\<rparr>)
      peer attempt_id"
    using assms(2) by (simp add: unpublished_def)
  ultimately show ?thesis
    using assms by (simp add: handshake_start_def Let_def drop_attempt_keeps)
qed

lemma node_step_keeps: "node_step n n' \<Longrightarrow> node_inv n \<Longrightarrow> node_inv n'"
proof (induction rule: node_step.induct)
  case (established n peer c)
  then show ?case by (auto simp: on_connection_established_def intro: node_inv_frame)
next
  case (closed n peer c)
  then show ?case by (auto simp: on_connection_closed_def intro: node_inv_frame)
next
  case (reconnect n to_vec peer g retry_address b)
  then show ?case by (auto simp: connection_closed_reconnect_def intro: node_inv_frame)
next
  case (retry n to_vec peer g retry_id address b)
  then show ?case by (auto simp: peer_dial_retry_fires_def Let_def intro: node_inv_frame)
next
  case (handshake_failure n peer attempt_id disconnect_ok address g b)
  then show ?case by (simp add: handshake_failed_def split_def Let_def retry_attempt_keeps)
next
  case (cheque n peer cheque_ok g)
  then show ?case
    by (auto simp: cheque_apply_def Let_def split: option.splits intro: node_inv_frame)
qed (simp_all add: scheduler_dial_keeps dial_permitted_keeps bootnode_dial_keeps identify_keeps
    outgoing_connection_error_keeps connection_closed_task_keeps handshake_start_keeps
    accounting_event_keeps pricing_event_keeps refresh_keeps set_network_id_keeps)

lemma reachable_inv:
  assumes "node_step\<^sup>*\<^sup>* n n'" "node_inv n" shows "node_inv n'"
  using assms by (induction rule: rtranclp_induct) (auto intro: node_step_keeps)

text \<open>
  C9. In every state the node reaches, under any interleaving of its handlers and any answers of
  the swarm, the number of ongoing connections is exactly the number of open attempts, the number of
  connected peers is exactly the number of published peers whose attempt is closed, and the two
  together never exceed the connection limit: no handler leaks a slot or releases one twice.
\<close>

theorem population_exact:
  assumes "node_step\<^sup>*\<^sup>* (new_node\<lparr>buildup_limit := limit\<rparr>) n"
  shows "unat (cp_ongoing (population n)) = card (dom (connection_attempts (wings n)))
    \<and> unat (cp_connected (population n))
        = card (dom (connected_peers (wings n)) - dom (connection_attempts (wings n)))
    \<and> unat (cp_connected (population n)) + unat (cp_ongoing (population n)) \<le> unat (buildup_limit n)"
  using reachable_inv [OF assms node_inv_new]
  by (simp add: node_inv_def slots_inv_def counts_inv_def)

text \<open>
  A run for the witnesses: a gossiped peer is dialled, its connection comes up, its handshake
  publishes it and it announces its price.
\<close>

definition demo_candidate :: QueuedPeerDial where
  "demo_candidate = \<lparr>qpd_peer = 7, qpd_dial_addr = [Dns4 ''a.b'', P2p 7], qpd_generation = 0,
     qpd_bootnode = False\<rparr>"

definition demo_file :: PeerFile where
  "demo_file = \<lparr>pf_peer_id = 7, pf_overlay = [1, 2], pf_beneficiary = [],
     pf_connection_attempt_id = 1, pf_connection_id = 3\<rparr>"

definition demo_dialled :: Node where
  "demo_dialled = fst (snd (scheduler_dial True False 3 demo_candidate (new_node\<lparr>buildup_limit := 2\<rparr>)))"

definition demo_established :: Node where
  "demo_established = on_connection_established 7 3 demo_dialled"

definition demo_published :: Node where
  "demo_published = fst (accounting_event demo_file demo_established)"

definition demo_priced :: Node where
  "demo_priced = fst (pricing_event 7 100 \<lparr>tcs_peer = 7, tcs_connection_id = 3\<rparr> demo_published)"

lemma demo_reachable:
  "node_step\<^sup>*\<^sup>* (new_node\<lparr>buildup_limit := 2\<rparr>) demo_priced"
proof -
  have "node_step (new_node\<lparr>buildup_limit := 2\<rparr>) demo_dialled"
    unfolding demo_dialled_def by (rule node_step.scheduler)
  also have "node_step\<^sup>*\<^sup>* demo_dialled demo_established"
    unfolding demo_established_def by (intro r_into_rtranclp node_step.established)
  also have "node_step\<^sup>*\<^sup>* demo_established demo_published"
    unfolding demo_published_def by (intro r_into_rtranclp node_step.accounting)
  also have "node_step\<^sup>*\<^sup>* demo_published demo_priced"
    unfolding demo_priced_def by (intro r_into_rtranclp node_step.pricing)
  finally show ?thesis .
qed

lemma demo_dialled_eq:
  "demo_dialled = new_node\<lparr>buildup_limit := 2, population := \<lparr>cp_connected = 0, cp_ongoing = 1\<rparr>,
     wings := new_wings\<lparr>NEXT_CONNECTION_ATTEMPT_ID := 2,
       connection_attempts := [7 \<mapsto> \<lparr>ca_id = 1, ca_physical_connection_id = Some 3,
         ca_identify_failed = False, ca_handshake_ready = []\<rparr>],
       known_peers := [7 \<mapsto> \<lparr>kp_underlay = [Dns4 ''a.b'', P2p 7], kp_generation = 0\<rparr>]\<rparr>\<rparr>"
  by (simp add: demo_dialled_def scheduler_dial_def scheduler_reserved_def scheduler_marked_def
      begin_dial_def start_owned_connection_attempt_def assign_connection_def demo_candidate_def
      new_node_def new_wings_def try_reserve_connection_capacity_def try_mark_connection_attempt_def
      connection_dial_capacity_available_def connection_population_deficit_def saturating_add_def
      saturating_sub_def)

lemma demo_priced_eq:
  "population demo_priced = \<lparr>cp_connected = 1, cp_ongoing = 0\<rparr>"
  "connection_attempts (wings demo_priced) = Map.empty"
  "connected_peers (wings demo_priced) = [7 \<mapsto> demo_file]"
  "bootnodes (wings demo_priced) = {}" "buildup_limit demo_priced = 2"
  by (simp_all add: demo_priced_def demo_published_def demo_established_def demo_dialled_eq
      on_connection_established_def record_physical_connection_established_def accounting_event_def
      exclusive_physical_connection_def demo_file_def get_or_create_accounting_peer_def
      update_account_def new_account_def pricing_event_def session_is_current_def
      promote_priced_peer_def remove_connection_attempt_def claim_overlay_def set_payment_threshold_def
      complete_connection_reservation_def new_node_def new_wings_def saturating_add_def
      saturating_sub_def Let_def)

theorem population_exact_witness:
  "node_step\<^sup>*\<^sup>* (new_node\<lparr>buildup_limit := 2\<rparr>) demo_priced
   \<and> unat (cp_connected (population demo_priced)) = 1
   \<and> card (dom (connected_peers (wings demo_priced)) - dom (connection_attempts (wings demo_priced))) = 1"
  using population_exact [OF demo_reachable] demo_reachable by (simp add: demo_priced_eq)

text \<open>
  C16. In every reachable state an overlay address belongs to at most one published peer whose
  attempt is closed, unless one of the two is a bootnode: the owner the overlay map names.
\<close>

theorem overlay_owner_unique:
  assumes "node_step\<^sup>*\<^sup>* (new_node\<lparr>buildup_limit := limit\<rparr>) n"
    and "connected_peers (wings n) p = Some f" "p \<notin> dom (connection_attempts (wings n))"
    and "connected_peers (wings n) q = Some g" "q \<notin> dom (connection_attempts (wings n))"
    and "pf_overlay f = pf_overlay g" "p \<notin> bootnodes (wings n)" "q \<notin> bootnodes (wings n)"
  shows "p = q \<and> overlay_peers (wings n) (pf_overlay f) = Some p"
proof -
  have "promoted_inv (connection_attempts (wings n)) (connected_peers (wings n)) (overlay_peers (wings n))
      (bootnodes (wings n))"
    using reachable_inv [OF assms(1) node_inv_new] by (simp add: node_inv_def slots_inv_def)
  then have "overlay_peers (wings n) (pf_overlay f) = Some p" "overlay_peers (wings n) (pf_overlay g) = Some q"
    using assms(2-5,7,8) unfolding promoted_inv_def domIff by blast+
  then show ?thesis using assms(6) by simp
qed


theorem overlay_owner_unique_witness:
  "overlay_peers (wings demo_priced) [1, 2] = Some 7"
  using overlay_owner_unique [OF demo_reachable, of 7 demo_file 7 demo_file]
  by (simp add: demo_priced_eq) (simp add: demo_file_def)


section \<open>What is dialled\<close>

lemma set_map_filter_iff: "x \<in> set (List.map_filter f xs) \<longleftrightarrow> (\<exists>a \<in> set xs. f a = Some x)"
  by (force simp: map_filter_def)

text \<open>
  C31. On a public network an address learned from gossip is dialled only if it is publicly
  dialable, in the form the browser transport takes, and names the peer it is dialled for.
\<close>

theorem peer_dial_candidates_public:
  assumes "c \<in> set (peer_dial_candidates parse instruction True)"
    and "\<not> pdi_retry instruction" "\<not> pdi_bootnode instruction"
  shows "is_publicly_dialable_underlay (qpd_dial_addr c)
    \<and> browser_dial_address (qpd_dial_addr c) = Inr (qpd_dial_addr c)
    \<and> try_from_multiaddr (qpd_dial_addr c) = Some (qpd_peer c)
    \<and> qpd_generation c = pdi_generation instruction"
proof -
  obtain a y where a: "is_publicly_dialable_underlay a" "try_from_multiaddr a = Some y"
    and c: "(case browser_dial_address a of Inl _ \<Rightarrow> None
      | Inr dial_addr \<Rightarrow> Some \<lparr>qpd_peer = y, qpd_dial_addr = dial_addr,
          qpd_generation = pdi_generation instruction, qpd_bootnode = pdi_bootnode instruction\<rparr>) = Some c"
    using assms by (auto simp: peer_dial_candidates_def set_map_filter_iff bind_eq_Some_conv split: if_splits)
  then obtain d where "browser_dial_address a = Inr d" by (cases "browser_dial_address a") auto
  with a c have "try_from_multiaddr a = Some (qpd_peer c)" "is_publicly_dialable_underlay a"
    "browser_dial_address a = Inr d" "qpd_dial_addr c = d" "qpd_generation c = pdi_generation instruction"
    by auto
  then show ?thesis
    using browser_dial_address_public browser_dial_address_idem browser_dial_address_peer by metis
qed

theorem peer_dial_candidates_public_witness:
  "is_publicly_dialable_underlay [Dns4 ''1.1.1.1'', Tcp 443, Tls, Ws ''/'', P2p (7 :: PeerId)]"
proof -
  let ?a = "[Ip4 (1, 1, 1, 1), Tcp 443, Tls, Sni ''1.1.1.1'', Ws ''/x'', P2p (7 :: PeerId)]"
  let ?i = "\<lparr>pdi_underlay = [4], pdi_generation = 0, pdi_retry = False, pdi_bootnode = False\<rparr>"
  let ?c = "\<lparr>qpd_peer = 7, qpd_dial_addr = [Dns4 ''1.1.1.1'', Tcp 443, Tls, Ws ''/'', P2p 7],
    qpd_generation = 0, qpd_bootnode = False\<rparr>"
  have "is_publicly_dialable_underlay ?a"
    by (simp add: libp2p_direct_ipv4_def strip_suffix_def ends_with_def is_public_dns_name_def
        trim_end_dots_def parse_ipv4_def parse_octet_def digit_value_def word_le_nat_alt)
  then have "?c \<in> set (peer_dial_candidates (\<lambda>_. Some ?a) ?i True)"
    by (simp add: peer_dial_candidates_def deserialize_underlays_def MAX_UNDERLAY_BYTES_def
        UNDERLAY_LIST_PREFIX_def map_filter_simps try_from_multiaddr_def browser_dial_address_def)
  from peer_dial_candidates_public [OF this] show ?thesis by simp
qed

text \<open>The keys the dial queue remembers are those of the candidates it holds, each once.\<close>

definition queue_inv :: "DialQueue \<Rightarrow> bool" where
  "queue_inv q = (distinct (map dial_key (dq_queue q))
     \<and> dq_queued_underlays q = set (map dial_key (dq_queue q)))"

lemma enqueue_candidates_keeps: "queue_inv q \<Longrightarrow> queue_inv (enqueue_candidates me cs q)"
  by (induction cs arbitrary: q) (auto simp: queue_inv_def)

lemma ingest_instruction_keeps: "queue_inv q \<Longrightarrow> queue_inv (ingest_instruction parse me n i q)"
proof -
  assume "queue_inv q"
  then have "queue_inv (refresh_queue_generation g q)" for g
    by (simp add: refresh_queue_generation_def queue_inv_def)
  then show ?thesis by (simp add: ingest_instruction_def Let_def enqueue_candidates_keeps)
qed

lemma pick_candidate_keeps:
  "queue_inv q \<Longrightarrow> pick_candidate k g settled unavailable q = (picked, q') \<Longrightarrow>
     queue_inv (case picked of None \<Rightarrow> q' | Some c \<Rightarrow> q'\<lparr>dq_queue := c # dq_queue q'\<rparr>)
     \<and> (\<forall>c. picked = Some c \<longrightarrow>
          qpd_generation c = g \<and> \<not> settled (qpd_peer c) \<and> \<not> unavailable (qpd_peer c))"
proof (induction k arbitrary: q)
  case 0
  then show ?case by simp
next
  case (Suc k)
  show ?case
  proof (cases "dq_queue q")
    case Nil
    then show ?thesis using Suc.prems by simp
  next
    case (Cons c cs)
    have dropped: "queue_inv (q\<lparr>dq_queue := cs, dq_queued_underlays := dq_queued_underlays q - {dial_key c}\<rparr>)"
      and rotated: "queue_inv (q\<lparr>dq_queue := cs @ [c]\<rparr>)"
      using Suc.prems(1) Cons by (auto simp: queue_inv_def)
    show ?thesis
      using Suc.prems Cons Suc.IH [OF dropped] Suc.IH [OF rotated]
      by (auto simp: queue_inv_def split: if_splits)
  qed
qed

text \<open>
  A turn of the dial scheduler keeps the queue free of duplicates and its key set in step with
  it, and the candidate it dials is of the current generation, is neither connected nor a rejected
  duplicate, and has no attempt, cool-down or pending retry of this generation.
\<close>

theorem scheduler_turn_exact:
  assumes "queue_inv q"
    and "scheduler_turn send_ok up fresh q n = (picked, q', n', effects)"
  shows "queue_inv q' \<and> (\<forall>c progress. picked = Some (c, progress) \<longrightarrow>
      qpd_generation c = connection_generation n
      \<and> qpd_peer c \<notin> dom (connected_peers (wings n))
      \<and> qpd_peer c \<notin> dom (rejected_duplicate_peers (wings n))
      \<and> qpd_peer c \<notin> dial_unavailable (dq_generation q) (wings n))"
proof -
  let ?settled = "\<lambda>p. p \<in> dom (connected_peers (wings n)) \<or> p \<in> dom (rejected_duplicate_peers (wings n))"
  let ?unavailable = "\<lambda>p. p \<in> dial_unavailable (dq_generation q) (wings n)"
  obtain pc q1 where pick: "pick_candidate (length (dq_queue q)) (connection_generation n)
      ?settled ?unavailable q = (pc, q1)" by fastforce
  note keeps = pick_candidate_keeps [OF assms(1) pick]
  show ?thesis
  proof (cases pc)
    case None
    then show ?thesis using assms(2) keeps pick by (simp add: scheduler_turn_def)
  next
    case (Some c)
    obtain progress n'' e where dial: "scheduler_dial send_ok up fresh c n = (progress, n'', e)"
      by (metis prod.collapse)
    have inv: "queue_inv (q1\<lparr>dq_queue := c # dq_queue q1\<rparr>)" using keeps Some by simp
    have "queue_inv (q1\<lparr>dq_queue := dq_queue q1 @ [c]\<rparr>)"
      "queue_inv (q1\<lparr>dq_queued_underlays := dq_queued_underlays q1 - {dial_key c}\<rparr>)"
      using inv by (auto simp: queue_inv_def)
    with inv show ?thesis
      using assms(2) keeps pick Some dial
      by (auto simp: scheduler_turn_def split: DialProgress.splits)
  qed
qed

theorem scheduler_turn_exact_witness:
  "qpd_peer demo_candidate \<notin> dial_unavailable 0 (wings new_node)"
proof -
  let ?q = "\<lparr>dq_queue = [demo_candidate], dq_queued_underlays = {dial_key demo_candidate}, dq_generation = 0\<rparr>"
  have q: "queue_inv ?q" by (simp add: queue_inv_def)
  obtain p q' n' e where turn: "scheduler_turn True False 3 ?q new_node = (p, q', n', e)"
    by (metis prod.collapse)
  then have "\<exists>progress. p = Some (demo_candidate, progress)"
    by (auto simp: scheduler_turn_def demo_candidate_def new_node_def new_wings_def dial_unavailable_def
        split_def Let_def)
  then show ?thesis using scheduler_turn_exact [OF q turn] by auto
qed

section \<open>Closing an accounting session\<close>

text \<open>
  Once an accounting session is quiesced, nothing new starts on it: its account takes no
  reservation, no protocol session is handed out for its connection and no cheque is claimed on
  it, so what remains to settle before the connection closes can only shrink.
\<close>

theorem quiesced_session_inert:
  assumes "quiesce_accounting_session peer account c w = (pending, w')"
    and "owns_connection w peer c" "accounting_peers w peer = Some account"
    and "account_connection w account = Some c"
  shows "account_connection w' account = None
    \<and> (\<forall>a amount. account_store w' account = Some a \<longrightarrow> reserve amount a = None)
    \<and> current_accounting_protocol_session w' peer account c' = None
    \<and> claim_current_cheque peer account c' amount g w' = (False, w')
    \<and> pending = ongoing_cheques w' peer"
  using assms
  by (auto simp: quiesce_accounting_session_def update_account_def account_connection_def
      current_accounting_protocol_session_def claim_current_cheque_def reserve_def bind_eq_Some_conv)

theorem quiesced_session_inert_witness:
  "current_accounting_protocol_session
     (snd (quiesce_accounting_session 7 0 3 (wings demo_published))) 7 0 3 = None"
proof -
  have w: "owns_connection (wings demo_published) 7 3" "accounting_peers (wings demo_published) 7 = Some 0"
    "account_connection (wings demo_published) 0 = Some 3"
    by (simp_all add: demo_published_def demo_established_def demo_dialled_eq owns_connection_def
      on_connection_established_def record_physical_connection_established_def accounting_event_def
      exclusive_physical_connection_def demo_file_def get_or_create_accounting_peer_def
      account_connection_def update_account_def new_account_def new_node_def new_wings_def)
  obtain p w' where "quiesce_accounting_session 7 0 3 (wings demo_published) = (p, w')" by fastforce
  from quiesced_session_inert [OF this w] this show ?thesis by simp
qed

end
