(* ===== verification/Handlers.thy ===== *)
theory Handlers
  imports NodeSafety
begin

text \<open>
  \<open>src/handlers.rs\<close>: the frame reader and the protocol exchanges that run on one stream.
  A stream is the bytes the remote side will still deliver, the bytes that were handed to the
  transport, and what the coming write, flush and close calls will answer; a failed write may
  have handed over a part of its bytes.  The protobuf messages are generated by the build and
  encoded by the prost crate, so the encoders (of length-delimited frames) and decoders are the
  fields of \<open>Wire\<close>.
\<close>

section \<open>Streams\<close>

text \<open>In the script of answers \<open>None\<close> is success, \<open>Some k\<close> a failure after \<open>k\<close> bytes.\<close>

record Stream =
  st_incoming :: bytes
  st_written :: bytes
  st_answers :: "nat option list"

definition next_answer :: "Stream \<Rightarrow> nat option \<times> Stream" where
  "next_answer s = (case st_answers s of [] \<Rightarrow> (None, s) | a # as \<Rightarrow> (a, s\<lparr>st_answers := as\<rparr>))"

definition write_all :: "bytes \<Rightarrow> Stream \<Rightarrow> bool \<times> Stream" where
  "write_all bs s = (case next_answer s of
     (None, s') \<Rightarrow> (True, s'\<lparr>st_written := st_written s' @ bs\<rparr>)
   | (Some k, s') \<Rightarrow> (False, s'\<lparr>st_written := st_written s' @ take k bs\<rparr>))"

definition flush :: "Stream \<Rightarrow> bool \<times> Stream" where
  "flush s = (let (a, s') = next_answer s in (a = None, s'))"

definition close :: "Stream \<Rightarrow> bool \<times> Stream" where
  "close s = (let (a, s') = next_answer s in (a = None, s'))"

definition read_exact :: "nat \<Rightarrow> Stream \<Rightarrow> bytes option \<times> Stream" where
  "read_exact n s =
     (if n \<le> length (st_incoming s)
      then (Some (take n (st_incoming s)), s\<lparr>st_incoming := drop n (st_incoming s)\<rparr>)
      else (None, s\<lparr>st_incoming := []\<rparr>))"

section \<open>Frames\<close>

definition CONTROL_PROTOCOL_MAX_FRAME_BYTES :: u64 where
  "CONTROL_PROTOCOL_MAX_FRAME_BYTES = 64 * 1024"

definition HIVE_PROTOCOL_MAX_FRAME_BYTES :: u64 where
  "HIVE_PROTOCOL_MAX_FRAME_BYTES = 128 * 1024"

definition EMPTY_HEADERS_FRAME :: bytes where "EMPTY_HEADERS_FRAME = [0]"

function read_frame_loop :: "u64 \<Rightarrow> nat \<Rightarrow> u64 \<Rightarrow> Stream \<Rightarrow> bytes option \<times> Stream" where
  "read_frame_loop maximum shift frame_len s =
     (if 64 \<le> shift then (None, s)
      else case read_exact 1 s of
        (None, s1) \<Rightarrow> (None, s1)
      | (Some bs, s1) \<Rightarrow>
          let byte = hd bs; v = ucast (byte AND 0x7f) :: u64 in
          if drop_bit shift (- 1) < v then (None, s1)
          else let frame_len' = frame_len OR push_bit shift v in
            if maximum < frame_len' then (None, s1)
            else if byte AND 0x80 = 0 then read_exact (unat frame_len') s1
            else read_frame_loop maximum (shift + 7) frame_len' s1)"
  by pat_completeness auto
termination
  by (relation "measure (\<lambda>(maximum, shift, frame_len, s). 64 - shift)") auto

declare read_frame_loop.simps [simp del]

definition read_control_protocol_frame_bounded :: "u64 \<Rightarrow> Stream \<Rightarrow> bytes option \<times> Stream" where
  "read_control_protocol_frame_bounded maximum s = read_frame_loop maximum 0 0 s"

definition read_control_protocol_frame :: "Stream \<Rightarrow> bytes option \<times> Stream" where
  "read_control_protocol_frame s =
     read_control_protocol_frame_bounded CONTROL_PROTOCOL_MAX_FRAME_BYTES s"

section \<open>Big-endian amounts\<close>

definition significant_big_endian :: "bytes \<Rightarrow> bytes" where
  "significant_big_endian bs =
     drop (case position (\<lambda>b. b \<noteq> 0) bs of Some i \<Rightarrow> i | None \<Rightarrow> length bs) bs"

definition trimmed_big_endian :: "bytes \<Rightarrow> bytes" where
  "trimmed_big_endian bs = significant_big_endian bs"

definition decode_big_endian_u64 :: "bytes \<Rightarrow> u64 option" where
  "decode_big_endian_u64 bs0 =
     (let bs = significant_big_endian bs0 in
      if 8 < length bs then None
      else Some (from_be_bytes (replicate (8 - length bs) 0 @ bs)))"

section \<open>Messages\<close>

record BzzAddress =
  ba_underlay :: bytes
  ba_signature :: bytes
  ba_overlay :: bytes
  ba_nonce :: bytes
  ba_timestamp :: u64
  ba_chequebook_address :: bytes

record Ack =
  ack_address :: "BzzAddress option"
  ack_network_id :: u64
  ack_full_node :: bool
  ack_welcome_message :: string

record SynAck =
  sa_syn :: "bytes option"
  sa_ack :: "Ack option"

record Wire =
  encode_syn :: "bytes \<Rightarrow> bytes"
  decode_syn_ack :: "bytes \<Rightarrow> SynAck option"
  encode_ack :: "Ack \<Rightarrow> bytes"
  decode_announce :: "bytes \<Rightarrow> bytes option"
  decode_peers :: "bytes \<Rightarrow> bytes list option"
  encode_payment :: "bytes \<Rightarrow> bytes"
  decode_payment_ack :: "bytes \<Rightarrow> bytes option"
  encode_request :: "bytes \<Rightarrow> bytes"
  decode_delivery :: "bytes \<Rightarrow> bytes option"

section \<open>Exchanges\<close>

text \<open>
  \<open>handshake_exchange\<close>: what the answer of the remote side must satisfy, and the peer file
  of a handshake that succeeds.  The key store signs and gives the address; the clock gives the
  timestamp.
\<close>

definition handshake_peer ::
  "'sig ecdsa \<Rightarrow> (bytes \<Rightarrow> Address option) \<Rightarrow> PeerId \<Rightarrow> u64 \<Rightarrow> SynAck \<Rightarrow> (bytes \<times> bytes \<times> bytes) option" where
  "handshake_peer curve parse local_peer network syn_ack = do {
     observed \<leftarrow> sa_syn syn_ack;
     let observed_underlays = deserialize_underlays parse observed;
     if observed_underlays = [] \<or>
        (\<exists>underlay \<in> set observed_underlays. try_from_multiaddr underlay \<noteq> Some local_peer)
     then None
     else do {
       ack \<leftarrow> sa_ack syn_ack;
       if ack_network_id ack \<noteq> network then None
       else do {
         peer_address \<leftarrow> ack_address ack;
         if length (ba_overlay peer_address) \<noteq> 32 then None
         else let beneficiary = parse_address curve (ba_underlay peer_address) (ba_overlay peer_address)
                    (ba_signature peer_address) (ba_nonce peer_address) (ba_timestamp peer_address)
                    network (ba_chequebook_address peer_address)
              in if beneficiary = replicate 20 0 then None
                 else Some (observed, ba_overlay peer_address, beneficiary) } } }"

definition handshake_ack ::
  "(bytes \<Rightarrow> bytes) \<Rightarrow> (bytes \<Rightarrow> bytes option) \<Rightarrow> bytes \<Rightarrow> u64 \<Rightarrow> u64 \<Rightarrow> bytes \<Rightarrow> Ack option" where
  "handshake_ack keccak sign_message signer_address network timestamp underlay =
     (let nonce = replicate 32 0;
          overlay = keccak (signer_address @ to_le_bytes network @ nonce);
          sign_data = generate_sign_data underlay overlay network nonce timestamp EMPTY_CHEQUEBOOK_ADDRESS
      in case sign_message sign_data of
           None \<Rightarrow> None
         | Some signature \<Rightarrow> Some \<lparr>
             ack_address = Some \<lparr>ba_underlay = underlay, ba_signature = signature,
               ba_overlay = overlay, ba_nonce = nonce, ba_timestamp = timestamp,
               ba_chequebook_address = EMPTY_CHEQUEBOOK_ADDRESS\<rparr>,
             ack_network_id = network, ack_full_node = False,
             ack_welcome_message = ''... Ara Ara ...''\<rparr>)"

definition write_and_flush :: "bytes \<Rightarrow> Stream \<Rightarrow> bool \<times> Stream" where
  "write_and_flush bs s =
     (let (written, s1) = write_all bs s in if written then flush s1 else (False, s1))"

definition handshake_exchange ::
  "'sig ecdsa \<Rightarrow> (bytes \<Rightarrow> Address option) \<Rightarrow> (bytes \<Rightarrow> bytes) \<Rightarrow> (bytes \<Rightarrow> bytes option) \<Rightarrow> bytes \<Rightarrow> u64 \<Rightarrow>
     Wire \<Rightarrow> bool \<Rightarrow> PeerId \<Rightarrow> PeerId \<Rightarrow> ConnectionAttemptId \<Rightarrow> ConnectionId \<Rightarrow> u64 \<Rightarrow> bytes \<Rightarrow> Stream \<Rightarrow>
     PeerFile option \<times> Stream" where
  "handshake_exchange curve parse keccak sign_message signer_address timestamp wire send_ok
       peer local_peer connection_attempt_id connection_id network observed_underlay s =
     (let (sent, s1) = write_and_flush (encode_syn wire observed_underlay) s in
      if \<not> sent then (None, s1)
      else case read_control_protocol_frame s1 of
        (None, s2) \<Rightarrow> (None, s2)
      | (Some frame, s2) \<Rightarrow>
          (case Option.bind (decode_syn_ack wire frame) (handshake_peer curve parse local_peer network) of
             None \<Rightarrow> (None, s2)
           | Some (underlay, peer_overlay, beneficiary) \<Rightarrow>
               (case handshake_ack keccak sign_message signer_address network timestamp underlay of
                  None \<Rightarrow> (None, s2)
                | Some ack \<Rightarrow>
                    let (acked, s3) = write_and_flush (encode_ack wire ack) s2 in
                    if \<not> acked then (None, s3)
                    else let (_, s4) = close s3 in
                      (if send_ok
                       then Some \<lparr>pf_peer_id = peer, pf_overlay = peer_overlay,
                              pf_beneficiary = beneficiary,
                              pf_connection_attempt_id = connection_attempt_id,
                              pf_connection_id = connection_id\<rparr>
                       else None, s4))))"

text \<open>The header exchange that opens an inbound protocol stream.\<close>

definition accept_headers :: "Stream \<Rightarrow> bool \<times> Stream" where
  "accept_headers s =
     (case read_control_protocol_frame s of
        (None, s1) \<Rightarrow> (False, s1)
      | (Some _, s1) \<Rightarrow>
          let (written, s2) = write_all EMPTY_HEADERS_FRAME s1 in
          if \<not> written then (False, s2)
          else let (_, s3) = flush s2; (_, s4) = close s3 in (True, s4))"

definition pricing_handler ::
  "Wire \<Rightarrow> PhysicalConnectionMap \<Rightarrow> PeerId \<Rightarrow> TransportConnectionSession \<Rightarrow> Stream \<Rightarrow>
     (PeerId \<times> u64 \<times> TransportConnectionSession) option" where
  "pricing_handler wire connections peer session s =
     (let (accepted, s1) = accept_headers s in
      if \<not> accepted then None
      else do {
        frame \<leftarrow> fst (read_control_protocol_frame s1);
        announcement \<leftarrow> decode_announce wire frame;
        payment_threshold \<leftarrow> decode_big_endian_u64 announcement;
        if \<not> session_is_current connections session then None
        else Some (peer, payment_threshold, session) })"

definition gossip_handler :: "Wire \<Rightarrow> u64 \<Rightarrow> Stream \<Rightarrow> PeerDialInstruction list" where
  "gossip_handler wire generation s =
     (let (accepted, s1) = accept_headers s in
      if \<not> accepted then []
      else case Option.bind (fst (read_control_protocol_frame_bounded HIVE_PROTOCOL_MAX_FRAME_BYTES s1))
                  (decode_peers wire) of
        None \<Rightarrow> []
      | Some peers \<Rightarrow> map (\<lambda>underlay. \<lparr>pdi_underlay = underlay, pdi_generation = generation,
                         pdi_retry = False, pdi_bootnode = False\<rparr>) peers)"

definition refreshment_exchange :: "Wire \<Rightarrow> u64 \<Rightarrow> Stream \<Rightarrow> RefreshmentOutcome \<times> Stream" where
  "refreshment_exchange wire amount s =
     (let (greeted, s1) = write_and_flush EMPTY_HEADERS_FRAME s in
      if \<not> greeted then (NotDispatched, s1)
      else case read_control_protocol_frame s1 of
        (None, s2) \<Rightarrow> (NotDispatched, s2)
      | (Some _, s2) \<Rightarrow>
          let (paid, s3) = write_all (encode_payment wire (trimmed_big_endian (to_be_bytes amount))) s2 in
          if \<not> paid then (AmbiguousAfterPayment, s3)
          else let (flushed, s4) = flush s3 in
            if \<not> flushed then (AmbiguousAfterPayment, s4)
            else let (closed_ok, s5) = close s4 in
              if \<not> closed_ok then (AmbiguousAfterPayment, s5)
              else case read_control_protocol_frame s5 of
                (None, s6) \<Rightarrow> (AmbiguousAfterPayment, s6)
              | (Some ack_frame, s6) \<Rightarrow>
                  (case Option.bind (decode_payment_ack wire ack_frame) decode_big_endian_u64 of
                     None \<Rightarrow> (AmbiguousAfterPayment, s6)
                   | Some acknowledged_amount \<Rightarrow>
                       if amount < acknowledged_amount then (AmbiguousAfterPayment, s6)
                       else (Acknowledged acknowledged_amount, s6)))"

text \<open>A viewer has no chequebook: the stream is closed and no cheque is issued.\<close>

definition cheque_exchange :: "Stream \<Rightarrow> unit option \<times> Stream" where
  "cheque_exchange s = (let (_, s') = close s in (None, s'))"

definition retrieval_exchange :: "Wire \<Rightarrow> bytes \<Rightarrow> Stream \<Rightarrow> bytes option \<times> Stream" where
  "retrieval_exchange wire chunk_address s =
     (let (written, s1) = write_all EMPTY_HEADERS_FRAME s in
      if \<not> written then (None, s1)
      else let (_, s2) = flush s1 in
        case read_control_protocol_frame s2 of
          (None, s3) \<Rightarrow> (None, s3)
        | (Some _, s3) \<Rightarrow>
            let (requested, s4) = write_all (encode_request wire chunk_address) s3 in
            if \<not> requested then (None, s4)
            else let (_, s5) = flush s4; (_, s6) = close s5; (delivery, s7) = read_control_protocol_frame s6
                 in (Option.bind delivery (decode_delivery wire), s7))"

text \<open>
  A stream is opened for a session only if the session is current before and after; the two
  connection maps are what the node holds at the two looks.
\<close>

definition open_current_outbound_stream ::
  "PhysicalConnectionMap \<Rightarrow> PhysicalConnectionMap \<Rightarrow> Stream option \<Rightarrow> TransportConnectionSession \<Rightarrow>
     Stream option" where
  "open_current_outbound_stream before after opened session =
     (if \<not> session_is_current before session then None
      else case opened of
        None \<Rightarrow> None
      | Some stream \<Rightarrow> if session_is_current after session then Some stream else None)"

definition connection_handler ::
  "'sig ecdsa \<Rightarrow> (bytes \<Rightarrow> Address option) \<Rightarrow> (bytes \<Rightarrow> bytes) \<Rightarrow> (bytes \<Rightarrow> bytes option) \<Rightarrow> bytes \<Rightarrow> u64 \<Rightarrow>
     Wire \<Rightarrow> bool \<Rightarrow> PeerId \<Rightarrow> PeerId \<Rightarrow> ConnectionAttemptId \<Rightarrow> ConnectionId \<Rightarrow> PhysicalConnectionMap \<Rightarrow>
     u64 \<Rightarrow> bytes \<Rightarrow> Stream option \<Rightarrow> PeerFile option" where
  "connection_handler curve parse keccak sign_message signer_address timestamp wire send_ok
       peer local_peer connection_attempt_id connection_id connections network
       observed_underlay opened = do {
     stream \<leftarrow> opened;
     session \<leftarrow> session_capture peer connection_id connections;
     fst (handshake_exchange curve parse keccak sign_message signer_address timestamp wire send_ok
       peer local_peer connection_attempt_id (tcs_connection_id session) network
       observed_underlay stream) }"

definition refresh_handler ::
  "Wire \<Rightarrow> PhysicalConnectionMap \<Rightarrow> PhysicalConnectionMap \<Rightarrow> Stream option \<Rightarrow> u64 \<Rightarrow>
     TransportConnectionSession \<Rightarrow> RefreshmentOutcome" where
  "refresh_handler wire before after opened amount session =
     (case open_current_outbound_stream before after opened session of
        None \<Rightarrow> NotDispatched
      | Some stream \<Rightarrow> fst (refreshment_exchange wire amount stream))"

definition issue_handler ::
  "PhysicalConnectionMap \<Rightarrow> PhysicalConnectionMap \<Rightarrow> Stream option \<Rightarrow> TransportConnectionSession \<Rightarrow> bool" where
  "issue_handler before after opened session =
     (case open_current_outbound_stream before after opened session of
        None \<Rightarrow> False
      | Some stream \<Rightarrow> fst (cheque_exchange stream) \<noteq> None)"

definition retrieve_handler ::
  "Wire \<Rightarrow> PhysicalConnectionMap \<Rightarrow> PhysicalConnectionMap \<Rightarrow> Stream option \<Rightarrow> bytes \<Rightarrow>
     TransportConnectionSession \<Rightarrow> bytes option" where
  "retrieve_handler wire before after opened chunk_address session = do {
     stream \<leftarrow> open_current_outbound_stream before after opened session;
     fst (retrieval_exchange wire chunk_address stream) }"

section \<open>Reading frames\<close>

lemma write_frame [simp]:
  "fst (next_answer s) = None \<Longrightarrow> fst (write_all bs s)"
  "st_incoming (snd (next_answer s)) = st_incoming s"
  "st_written (snd (next_answer s)) = st_written s"
  "st_incoming (snd (write_all bs s)) = st_incoming s"
  "st_incoming (snd (flush s)) = st_incoming s" "st_written (snd (flush s)) = st_written s"
  "st_incoming (snd (close s)) = st_incoming s" "st_written (snd (close s)) = st_written s"
  by (auto simp: next_answer_def write_all_def flush_def close_def Let_def split_def
      split: list.splits option.splits prod.splits)

lemma read_exact_written [simp]: "st_written (snd (read_exact k s)) = st_written s"
  "st_answers (snd (read_exact k s)) = st_answers s"
  by (simp_all add: read_exact_def)

lemma flush_written: "flush s = (b, s') \<Longrightarrow> st_written s' = st_written s"
  using write_frame(6) [of s] by simp

lemma ex_take: "\<exists>k. xs = take k xs"
  by (metis order_refl take_all)

lemma write_all_written:
  "\<exists>k. st_written (snd (write_all bs s)) = st_written s @ take k bs"
  "fst (write_all bs s) \<Longrightarrow> st_written (snd (write_all bs s)) = st_written s @ bs"
proof -
  have whole: "\<exists>k. xs @ bs = xs @ take k bs" for xs by (metis take_all order_refl)
  show "\<exists>k. st_written (snd (write_all bs s)) = st_written s @ take k bs"
    using whole by (auto simp: write_all_def next_answer_def split: list.splits option.splits)
  show "fst (write_all bs s) \<Longrightarrow> st_written (snd (write_all bs s)) = st_written s @ bs"
    by (auto simp: write_all_def next_answer_def split: list.splits option.splits)
qed

lemma read_frame_loop_written:
  "st_written (snd (read_frame_loop maximum shift len s)) = st_written s
   \<and> st_answers (snd (read_frame_loop maximum shift len s)) = st_answers s"
proof (induction maximum shift len s rule: read_frame_loop.induct)
  case (1 maximum shift len s)
  obtain r s1 where read: "read_exact 1 s = (r, s1)" by fastforce
  then have s1: "st_written s1 = st_written s" "st_answers s1 = st_answers s"
    using read_exact_written [of 1 s] by simp_all
  show ?case
    using "1.IH" [OF _ read [symmetric]] s1 read
    by (subst (1 2) read_frame_loop.simps) (auto simp: Let_def split: option.splits)
qed

lemma read_control_protocol_frame_written [simp]:
  "st_written (snd (read_control_protocol_frame s)) = st_written s"
  "st_answers (snd (read_control_protocol_frame s)) = st_answers s"
  by (simp_all add: read_control_protocol_frame_def read_control_protocol_frame_bounded_def
      read_frame_loop_written)

lemma read_byte: "st_incoming s = b # rest \<Longrightarrow> read_exact 1 s = (Some [b], s\<lparr>st_incoming := rest\<rparr>)"
  by (simp add: read_exact_def)

lemma shifted_fits:
  assumes "m * 2 ^ shift < 2 ^ 64"
  shows "\<not> drop_bit shift (- 1) < (of_nat m :: u64)"
proof -
  have "m \<le> (2 ^ 64 - 1) div 2 ^ shift"
    using assms by (simp add: less_eq_div_iff_mult_less_eq)
  moreover have "m < 2 ^ 64"
    using assms by (metis le_less_trans mult_le_mono2 mult.right_neutral one_le_numeral one_le_power)
  moreover have "unat (drop_bit shift (- 1 :: u64)) = (2 ^ 64 - 1) div 2 ^ shift"
    unfolding unat_drop_bit_eq unat_max_word by (simp add: drop_bit_eq_div)
  ultimately show ?thesis by (simp add: word_less_nat_alt not_less unat_of_nat)
qed

lemma read_frame_loop_uvarint:
  assumes "shift < 64" "unat len < 2 ^ shift" "n * 2 ^ shift < 2 ^ 64"
    and "unat len + n * 2 ^ shift \<le> unat maximum" "st_incoming s = uvarint n @ rest"
  shows "read_frame_loop maximum shift len s
    = read_exact (unat len + n * 2 ^ shift) (s\<lparr>st_incoming := rest\<rparr>)"
  using assms
proof (induction n arbitrary: shift len s rule: uvarint.induct)
  case (1 n)
  show ?case
  proof (cases "n < 128")
    case True
    note or = or_push_bit_add [OF "1.prems"(2,3)]
    have fits: "\<not> maximum < len OR push_bit shift (of_nat n)"
      using or "1.prems"(4) by (simp add: word_less_nat_alt)
    have "st_incoming s = of_nat n # rest" using "1.prems"(5) True by (simp add: uvarint.simps)
    from read_byte [OF this] show ?thesis
      using True "1.prems"(1) low_bits [OF True] shifted_fits [OF "1.prems"(3)] fits or
      by (subst read_frame_loop.simps) (simp add: Let_def)
  next
    case False
    let ?m = "n mod 128" and ?q = "n div 128"
    have n: "n * 2 ^ shift = ?m * 2 ^ shift + ?q * 2 ^ (shift + 7)"
    proof -
      have "n * 2 ^ shift = (?m + ?q * 128) * 2 ^ shift" by simp
      then show ?thesis by (simp only: power_add distrib_right) simp
    qed
    have m: "?m * 2 ^ shift < 2 ^ 64" and q: "?q * 2 ^ (shift + 7) < 2 ^ 64"
      using n "1.prems"(3) by linarith+
    have "(2 :: nat) ^ (shift + 7) \<le> ?q * 2 ^ (shift + 7)" using False by (simp add: Suc_leI)
    then have s: "shift + 7 < 64"
      using q by (metis le_less_trans nat_power_less_imp_less zero_less_numeral)
    let ?len = "len OR push_bit shift (of_nat ?m)"
    have len: "unat ?len = unat len + ?m * 2 ^ shift" by (rule or_push_bit_add [OF "1.prems"(2) m])
    have "unat len + ?m * 2 ^ shift < 2 ^ shift + 127 * 2 ^ shift"
      using "1.prems"(2) by (intro add_less_le_mono mult_le_mono1) simp_all
    then have small: "unat ?len < 2 ^ (shift + 7)" using len by (simp add: power_add)
    have bound: "unat ?len + ?q * 2 ^ (shift + 7) \<le> unat maximum" using "1.prems"(4) len n by linarith
    have fits: "\<not> maximum < ?len" using bound by (simp add: word_less_nat_alt)
    let ?s = "s\<lparr>st_incoming := uvarint ?q @ rest\<rparr>"
    have "read_frame_loop maximum (shift + 7) ?len ?s
        = read_exact (unat ?len + ?q * 2 ^ (shift + 7)) (?s\<lparr>st_incoming := rest\<rparr>)"
      by (rule "1.IH" [OF False s small q bound]) simp
    moreover have "st_incoming s = of_nat (128 + ?m) # uvarint ?q @ rest"
      using "1.prems"(5) False by (subst (asm) uvarint.simps) simp
    note read_byte [OF this]
    moreover have "unat ?len + ?q * 2 ^ (shift + 7) = unat len + n * 2 ^ shift" using len n by linarith
    ultimately show ?thesis
      using "1.prems"(1) low_bits(3,4) [of ?m] shifted_fits [OF m] fits
      by (subst read_frame_loop.simps) (simp add: Let_def)
  qed
qed

lemma read_frame_roundtrip:
  assumes "length frame \<le> unat maximum" "st_incoming s = uvarint (length frame) @ frame @ rest"
  shows "read_control_protocol_frame_bounded maximum s = (Some frame, s\<lparr>st_incoming := rest\<rparr>)"
proof -
  have "length frame < 2 ^ 64"
    using assms(1) u64_bound [of maximum] by (simp del: u64_bound)
  then show ?thesis
    using read_frame_loop_uvarint [of 0 0 "length frame" maximum s "frame @ rest"] assms
    by (simp add: read_control_protocol_frame_bounded_def read_exact_def)
qed

lemma read_frame_loop_bounded:
  "read_frame_loop maximum shift len s = (Some frame, s') \<Longrightarrow> length frame \<le> unat maximum"
proof (induction maximum shift len s rule: read_frame_loop.induct)
  case (1 maximum shift len s)
  obtain r s1 where read: "read_exact 1 s = (r, s1)" by fastforce
  show ?case
    using "1.prems" "1.IH" [OF _ read [symmetric]] read
    by (subst (asm) read_frame_loop.simps)
       (auto simp: Let_def read_exact_def word_le_nat_alt not_less split: option.splits if_splits)
qed

section \<open>Amounts\<close>

lemma significant_dropWhile: "significant_big_endian bs = dropWhile (\<lambda>b. b = 0) bs"
proof -
  have "significant_big_endian bs = dropWhile (\<lambda>b. b = 0) bs"
  proof (induction bs)
    case (Cons b bs)
    then show ?case by (auto simp: significant_big_endian_def split: option.splits)
  qed (simp add: significant_big_endian_def)
  then show ?thesis .
qed

lemma takeWhile_replicate: "takeWhile (\<lambda>b. b = x) bs = replicate (length (takeWhile (\<lambda>b. b = x) bs)) x"
  by (induction bs) simp_all

lemma significant_big_endian_pad:
  "replicate (length bs - length (significant_big_endian bs)) 0 @ significant_big_endian bs = bs"
proof -
  have "length bs - length (dropWhile (\<lambda>b. b = 0) bs) = length (takeWhile (\<lambda>b. b = 0) bs)"
  proof -
    have "length bs = length (takeWhile (\<lambda>b. b = 0) bs @ dropWhile (\<lambda>b. b = 0) bs)" by simp
    then show ?thesis unfolding length_append by linarith
  qed
  moreover have "replicate (length (takeWhile (\<lambda>b. b = 0) bs)) 0 = takeWhile (\<lambda>b. b = 0) bs"
    by (rule takeWhile_replicate [symmetric])
  ultimately show ?thesis by (simp add: significant_dropWhile)
qed

lemma decode_trimmed: "decode_big_endian_u64 (trimmed_big_endian (to_be_bytes n)) = Some n"
proof -
  have "length (significant_big_endian (to_be_bytes n)) \<le> 8"
    by (metis length_dropWhile_le length_to_bytes(2) significant_dropWhile)
  then show ?thesis
    using significant_big_endian_pad [of "to_be_bytes n"]
    by (simp add: decode_big_endian_u64_def trimmed_big_endian_def Let_def)
       (simp add: significant_dropWhile)
qed

section \<open>Refreshments\<close>

text \<open>
  C15. What a refreshment reports is what happened to the payment: when it reports that nothing was
  dispatched, at most the header frame has left the node; when it reports an acknowledgement, the
  whole payment frame for the amount was sent and no more than the amount was acknowledged; when
  it reports an ambiguity, the header frame and a part of the payment frame may have been sent, and nothing else.
\<close>

theorem refreshment_exchange_payment:
  "case refreshment_exchange wire amount s of
     (NotDispatched, s') \<Rightarrow> \<exists>k. st_written s' = st_written s @ take k EMPTY_HEADERS_FRAME
   | (Acknowledged n, s') \<Rightarrow> n \<le> amount \<and> st_written s' = st_written s @ EMPTY_HEADERS_FRAME
        @ encode_payment wire (trimmed_big_endian (to_be_bytes amount))
   | (AmbiguousAfterPayment, s') \<Rightarrow> \<exists>k. st_written s' = st_written s @ EMPTY_HEADERS_FRAME
        @ take k (encode_payment wire (trimmed_big_endian (to_be_bytes amount)))"
proof -
  let ?payment = "encode_payment wire (trimmed_big_endian (to_be_bytes amount))"
  obtain greeted s1 where greet: "write_and_flush EMPTY_HEADERS_FRAME s = (greeted, s1)" by fastforce
  obtain headers s2 where read: "read_control_protocol_frame s1 = (headers, s2)" by fastforce
  obtain paid s3 where pay: "write_all ?payment s2 = (paid, s3)" by fastforce
  obtain flushed s4 where fl: "flush s3 = (flushed, s4)" by fastforce
  obtain closed_ok s5 where cl: "close s4 = (closed_ok, s5)" by fastforce
  obtain ack s6 where last_read: "read_control_protocol_frame s5 = (ack, s6)" by fastforce
  have s1: "\<exists>k. st_written s1 = st_written s @ take k EMPTY_HEADERS_FRAME"
    "greeted \<Longrightarrow> st_written s1 = st_written s @ EMPTY_HEADERS_FRAME"
    using write_all_written [of EMPTY_HEADERS_FRAME s] greet
    by (auto simp: write_and_flush_def split_def Let_def ex_take dest!: flush_written split: if_splits)
  have s3: "\<exists>k. st_written s3 = st_written s2 @ take k ?payment"
    "paid \<Longrightarrow> st_written s3 = st_written s2 @ ?payment"
    using write_all_written [of ?payment s2] pay by auto
  have same: "st_written s2 = st_written s1" "st_written s4 = st_written s3" "st_written s5 = st_written s4"
    "st_written s6 = st_written s5"
    using read_control_protocol_frame_written(1) [of s1] write_frame(6) [of s3] write_frame(8) [of s4]
      read_control_protocol_frame_written(1) [of s5] read fl cl last_read by simp_all
  show ?thesis
    using s1 s3 same
    by (auto simp: refreshment_exchange_def greet read pay fl cl last_read not_less ex_take
        split: option.splits)
qed


text \<open>
  C32. A refreshment succeeds when the remote side plays by the protocol: if the transport does not
  fail, the remote side answers with a header frame and with a frame whose message carries an
  amount it accepts, at most the amount offered, then the exchange ends with exactly that
  acknowledgement.
\<close>

theorem refreshment_exchange_succeeds:
  assumes "st_answers s = []" "accepted \<le> amount"
    and "length headers \<le> 64 * 1024" "length ack \<le> 64 * 1024"
    and "decode_payment_ack wire ack = Some (trimmed_big_endian (to_be_bytes accepted))"
    and "st_incoming s = uvarint (length headers) @ headers @ uvarint (length ack) @ ack @ rest"
  shows "fst (refreshment_exchange wire amount s) = Acknowledged accepted"
proof -
  note read = read_frame_roundtrip [of _ CONTROL_PROTOCOL_MAX_FRAME_BYTES]
  show ?thesis
    using assms(1,2,5) read [of headers "s\<lparr>st_written := st_written s @ EMPTY_HEADERS_FRAME\<rparr>"]
      read [of ack "s\<lparr>st_incoming := uvarint (length ack) @ ack @ rest,
        st_written := st_written s @ EMPTY_HEADERS_FRAME
          @ encode_payment wire (trimmed_big_endian (to_be_bytes amount))\<rparr>"] assms(3,4,6)
    by (simp add: refreshment_exchange_def write_and_flush_def write_all_def flush_def close_def
        next_answer_def read_control_protocol_frame_def CONTROL_PROTOCOL_MAX_FRAME_BYTES_def
        decode_trimmed not_less)
qed

definition demo_wire :: Wire where
  "demo_wire = \<lparr>encode_syn = (\<lambda>b. b), decode_syn_ack = (\<lambda>_. None), encode_ack = (\<lambda>_. []),
     decode_announce = Some, decode_peers = (\<lambda>_. None), encode_payment = frame_underlay,
     decode_payment_ack = Some, encode_request = frame_underlay, decode_delivery = Some\<rparr>"

theorem refreshment_exchange_succeeds_witness:
  "fst (refreshment_exchange demo_wire 9
     \<lparr>st_incoming = [0, 1, 5], st_written = [], st_answers = []\<rparr>) = Acknowledged 5"
proof -
  have "trimmed_big_endian (to_be_bytes 5) = [5]"
    by code_simp
  then show ?thesis
    using refreshment_exchange_succeeds [of "\<lparr>st_incoming = [0, 1, 5], st_written = [], st_answers = []\<rparr>"
        5 9 "[]" "[5]" demo_wire "[]"]
    by (simp add: demo_wire_def uvarint.simps)
qed

text \<open>
  A peer that a handshake admits has acknowledged the node's own address on the node's network,
  with a full-size overlay and a signature from which a beneficiary is recovered.
\<close>

lemma handshake_exchange_admits:
  assumes "fst (handshake_exchange curve parse keccak sign_message signer_address timestamp wire send_ok
      peer local_peer attempt_id connection_id network observed s) = Some pf"
  shows "pf_peer_id pf = peer \<and> pf_connection_attempt_id pf = attempt_id
    \<and> pf_connection_id pf = connection_id \<and> length (pf_overlay pf) = 32
    \<and> pf_beneficiary pf \<noteq> replicate 20 0"
  using assms
  by (auto simp: handshake_exchange_def handshake_peer_def Let_def split_def bind_eq_Some_conv
      split: prod.splits option.splits if_splits)

end
