(* ===== verification/Hls.thy ===== *)
theory Hls
  imports F64 Addresses
begin

text \<open>
  \<open>src/stream_hls.rs\<close>: the playlists a feed publishes.  Text is the list of its code
  points.  \<open>std::str::from_utf8\<close>, \<open>str::lines\<close>, \<open>str::trim\<close> and the number
  parsers of the standard library are written out; a decimal number is the double nearest to it
  (\<open>F64\<close>).  A \<open>usize\<close> and a \<open>u64\<close> have the same width, so the conversions between
  them never fail.  Rendering a playlist, which a native viewer never does, is left out.
\<close>

section \<open>Text\<close>

type_synonym ctext = "nat list"

definition codes :: "string \<Rightarrow> ctext" where
  "codes s = map of_char s"

definition continuation :: "u8 \<Rightarrow> bool" where
  "continuation b = (0x80 \<le> b \<and> b < 0xC0)"

definition payload6 :: "u8 \<Rightarrow> nat" where
  "payload6 b = unat b - 0x80"

text \<open>The well-formed byte sequences of UTF-8: no overlong forms, no surrogates, at most 10FFFF.\<close>

fun from_utf8 :: "bytes \<Rightarrow> ctext option" where
  "from_utf8 [] = Some []"
| "from_utf8 (a # bs) =
     (if a < 0x80 then map_option ((#) (unat a)) (from_utf8 bs)
      else if 0xC2 \<le> a \<and> a < 0xE0 then
        (case bs of b # cs \<Rightarrow>
           if continuation b
           then map_option ((#) ((unat a - 0xC0) * 64 + payload6 b)) (from_utf8 cs) else None
         | _ \<Rightarrow> None)
      else if 0xE0 \<le> a \<and> a < 0xF0 then
        (case bs of b # c # cs \<Rightarrow>
           if continuation b \<and> continuation c \<and> (a = 0xE0 \<longrightarrow> 0xA0 \<le> b) \<and> (a = 0xED \<longrightarrow> b < 0xA0)
           then map_option ((#) (((unat a - 0xE0) * 64 + payload6 b) * 64 + payload6 c)) (from_utf8 cs)
           else None
         | _ \<Rightarrow> None)
      else if 0xF0 \<le> a \<and> a < 0xF5 then
        (case bs of b # c # d # cs \<Rightarrow>
           if continuation b \<and> continuation c \<and> continuation d
              \<and> (a = 0xF0 \<longrightarrow> 0x90 \<le> b) \<and> (a = 0xF4 \<longrightarrow> b < 0x90)
           then map_option ((#) ((((unat a - 0xF0) * 64 + payload6 b) * 64 + payload6 c) * 64 + payload6 d))
                  (from_utf8 cs)
           else None
         | _ \<Rightarrow> None)
      else None)"

definition is_whitespace :: "nat \<Rightarrow> bool" where
  "is_whitespace c = (9 \<le> c \<and> c \<le> 13 \<or> c = 32 \<or> c = 133 \<or> c = 160 \<or> c = 5760
     \<or> 8192 \<le> c \<and> c \<le> 8202 \<or> c = 8232 \<or> c = 8233 \<or> c = 8239 \<or> c = 8287 \<or> c = 12288)"

definition trim_start :: "ctext \<Rightarrow> ctext" where
  "trim_start t = dropWhile is_whitespace t"

definition trim :: "ctext \<Rightarrow> ctext" where
  "trim t = rev (dropWhile is_whitespace (rev (trim_start t)))"

definition strip_cr :: "ctext \<Rightarrow> ctext" where
  "strip_cr l = (if l \<noteq> [] \<and> last l = 13 then butlast l else l)"

function lines :: "ctext \<Rightarrow> ctext list" where
  "lines t = (if t = [] then [] else
     let l = takeWhile (\<lambda>c. c \<noteq> 10) t; rest = dropWhile (\<lambda>c. c \<noteq> 10) t in
     if rest = [] then [l] else strip_cr l # lines (tl rest))"
  by pat_completeness auto
termination
proof (relation "measure length")
  fix t :: ctext and l rest
  assume "rest = dropWhile (\<lambda>c. c \<noteq> 10) t" "rest \<noteq> []"
  then have "length (tl rest) < length rest" "length rest \<le> length t"
    by (simp_all add: length_dropWhile_le)
  then show "(tl rest, t) \<in> measure length" by simp
qed simp

declare lines.simps [simp del]

definition strip_prefix :: "string \<Rightarrow> ctext \<Rightarrow> ctext option" where
  "strip_prefix p t = (let q = codes p in
     if length q \<le> length t \<and> take (length q) t = q then Some (drop (length q) t) else None)"

definition ascii_lower_code :: "nat \<Rightarrow> nat" where
  "ascii_lower_code c = (if 65 \<le> c \<and> c \<le> 90 then c + 32 else c)"

definition is_ascii_hexdigit :: "nat \<Rightarrow> bool" where
  "is_ascii_hexdigit c = (48 \<le> c \<and> c \<le> 57 \<or> 65 \<le> c \<and> c \<le> 70 \<or> 97 \<le> c \<and> c \<le> 102)"

definition is_digit :: "nat \<Rightarrow> bool" where
  "is_digit c = (48 \<le> c \<and> c \<le> 57)"

fun split_first :: "ctext \<Rightarrow> ctext \<Rightarrow> (ctext \<times> ctext) option" where
  "split_first p [] = None"
| "split_first p (c # t) =
     (if length p \<le> length (c # t) \<and> take (length p) (c # t) = p
      then Some ([], drop (length p) (c # t))
      else map_option (\<lambda>(a, b). (c # a, b)) (split_first p t))"

definition digits_value :: "ctext \<Rightarrow> nat" where
  "digits_value ds = foldl (\<lambda>v d. 10 * v + (d - 48)) 0 ds"

text \<open>\<open>u64::from_str\<close>: an optional plus sign, digits, no overflow.\<close>

definition parse_u64 :: "ctext \<Rightarrow> u64 option" where
  "parse_u64 t = (let ds = (case t of [] \<Rightarrow> [] | c # cs \<Rightarrow> if c = 43 then cs else t) in
     if ds = [] \<or> \<not> list_all is_digit ds \<or> 2 ^ 64 \<le> digits_value ds then None
     else Some (of_nat (digits_value ds)))"

text \<open>
  \<open>f64::from_str\<close>: a sign, then \<open>inf\<close>, \<open>infinity\<close>, \<open>nan\<close> in any case, or a
  decimal number with an optional exponent, rounded to the nearest double.
\<close>

definition parse_exponent :: "ctext \<Rightarrow> int option" where
  "parse_exponent t =
     (case t of
        [] \<Rightarrow> Some 0
      | c # r \<Rightarrow>
          if c \<noteq> 101 \<and> c \<noteq> 69 then None
          else let neg = (r \<noteq> [] \<and> hd r = 45);
                   ds = (if r \<noteq> [] \<and> (hd r = 45 \<or> hd r = 43) then tl r else r)
               in if ds = [] \<or> \<not> list_all is_digit ds then None
                  else Some (if neg then - int (digits_value ds) else int (digits_value ds)))"

definition parse_decimal :: "ctext \<Rightarrow> rat option" where
  "parse_decimal t =
     (let whole = takeWhile is_digit t; r1 = dropWhile is_digit t;
          dotted = (r1 \<noteq> [] \<and> hd r1 = 46);
          frac = (if dotted then takeWhile is_digit (tl r1) else []);
          r2 = (if dotted then dropWhile is_digit (tl r1) else r1)
      in if whole = [] \<and> frac = [] then None
         else map_option (\<lambda>e.
             rat_of_nat (digits_value (whole @ frac))
               * (if int (length frac) \<le> e then 10 ^ nat (e - int (length frac))
                  else 1 / 10 ^ nat (int (length frac) - e)))
           (parse_exponent r2))"

definition parse_f64 :: "ctext \<Rightarrow> f64 option" where
  "parse_f64 t =
     (let neg = (t \<noteq> [] \<and> hd t = 45);
          u = (if t \<noteq> [] \<and> (hd t = 45 \<or> hd t = 43) then tl t else t);
          w = map ascii_lower_code u
      in if w = codes ''inf'' \<or> w = codes ''infinity'' then Some (F64Inf neg)
         else if w = codes ''nan'' then Some F64NaN
         else map_option (round_mag neg) (parse_decimal u))"

section \<open>Data\<close>

record HlsSegment =
  seg_reference :: ctext
  seg_duration :: f64
  seg_gap :: bool
  seg_discontinuity_sequence :: u64

record HlsPlaylist =
  hls_sequence :: u64
  hls_discontinuity_sequence :: u64
  hls_target_duration :: u64
  hls_segments :: "HlsSegment list"
  hls_finalized :: bool

record HlsStartupPlan =
  plan_bootstrap_position :: f64
  plan_codec_bootstrap :: bool
  plan_play_position :: f64
  plan_runway_end :: f64
  plan_duration :: f64

datatype HlsStart = Beginning | Live

record HlsTailFailure =
  tail_key :: "(u64 \<times> u64 \<times> ctext) option"
  tail_count :: u8

definition HLS_LIVE_STARTUP_BUFFER_SECONDS :: f64 where
  "HLS_LIVE_STARTUP_BUFFER_SECONDS = f64_of_nat 8"

definition MAX_STREAM_FEED_PAYLOAD_BYTES :: usize where
  "MAX_STREAM_FEED_PAYLOAD_BYTES = 16 * 1024 * 1024"

definition HLS_HEADER :: ctext where "HLS_HEADER = codes ''#EXTM3U''"
definition HLS_ENDLIST :: ctext where "HLS_ENDLIST = codes ''#EXT-X-ENDLIST''"
definition HLS_GAP :: ctext where "HLS_GAP = codes ''#EXT-X-GAP''"

section \<open>Tail failures\<close>

definition tail_failure_record :: "u64 \<Rightarrow> u64 \<Rightarrow> ctext \<Rightarrow> HlsTailFailure \<Rightarrow> bool \<times> HlsTailFailure" where
  "tail_failure_record snapshot sequence reference f =
     (let f' = (if tail_key f = Some (snapshot, sequence, reference)
                then f\<lparr>tail_count := saturating_add (tail_count f) 1\<rparr>
                else \<lparr>tail_key = Some (snapshot, sequence, reference), tail_count = 1\<rparr>)
      in (2 \<le> tail_count f', f'))"

definition tail_failure_clear :: "HlsTailFailure \<Rightarrow> HlsTailFailure" where
  "tail_failure_clear f = \<lparr>tail_key = None, tail_count = 0\<rparr>"

section \<open>Parsing\<close>

definition is_hls_text :: "ctext \<Rightarrow> bool" where
  "is_hls_text t =
     (let u = trim_start (case t of c # cs \<Rightarrow> if c = 0xFEFF then cs else t | [] \<Rightarrow> []) in
      case lines u of [] \<Rightarrow> False | line # _ \<Rightarrow> trim line = HLS_HEADER)"

definition is_hls_manifest :: "bytes \<Rightarrow> bool" where
  "is_hls_manifest bs = (case from_utf8 bs of None \<Rightarrow> False | Some t \<Rightarrow> is_hls_text t)"

definition is_hex_reference :: "ctext \<Rightarrow> bool" where
  "is_hex_reference v = ((length v = 64 \<or> length v = 128) \<and> list_all is_ascii_hexdigit v)"

definition trim_end_slashes :: "ctext \<Rightarrow> ctext" where
  "trim_end_slashes t = rev (dropWhile (\<lambda>c. c = 47) (rev t))"

definition after_last_slash :: "ctext \<Rightarrow> ctext" where
  "after_last_slash t = rev (takeWhile (\<lambda>c. c \<noteq> 47) (rev t))"

definition swarm_reference :: "ctext \<Rightarrow> ctext option" where
  "swarm_reference uri =
     (if uri \<noteq> trim uri then None
      else let candidate = trim_end_slashes (takeWhile (\<lambda>c. c \<noteq> 63 \<and> c \<noteq> 35) uri) in
        if is_hex_reference candidate then Some candidate
        else do {
          path \<leftarrow> (case split_first (codes ''://'') candidate of
                     Some (scheme, remainder) \<Rightarrow>
                       (let s = map ascii_lower_code scheme in
                        if s \<noteq> codes ''http'' \<and> s \<noteq> codes ''https'' then None
                        else if 47 \<in> set remainder then Some (dropWhile (\<lambda>c. c \<noteq> 47) remainder)
                        else None)
                   | None \<Rightarrow> Some candidate);
          let reference = after_last_slash path;
          if is_hex_reference reference then Some reference else None })"

record SegmentParse =
  sp_segments :: "HlsSegment list"
  sp_duration :: "f64 option"
  sp_gap :: bool
  sp_discontinuity :: bool
  sp_discontinuity_sequence :: u64

definition parse_extinf :: "ctext \<Rightarrow> f64 option" where
  "parse_extinf v = do {
     x \<leftarrow> parse_f64 (trim (takeWhile (\<lambda>c. c \<noteq> 44) v));
     if \<not> f64_is_finite x \<or> \<not> f64_lt f64_zero x then None else Some x }"

definition parse_segment_line :: "ctext \<Rightarrow> SegmentParse \<Rightarrow> SegmentParse option" where
  "parse_segment_line original s =
     (let line = trim original in
      case strip_prefix ''#EXTINF:'' line of
        Some v \<Rightarrow>
          if sp_duration s \<noteq> None then None
          else (case parse_extinf v of None \<Rightarrow> None | Some d \<Rightarrow> Some (s\<lparr>sp_duration := Some d\<rparr>))
      | None \<Rightarrow>
          if line = HLS_GAP then (if sp_duration s = None then None else Some (s\<lparr>sp_gap := True\<rparr>))
          else if line = codes ''#EXT-X-DISCONTINUITY'' then
            (if sp_discontinuity s then None
             else case checked_add (sp_discontinuity_sequence s) 1 of
                    None \<Rightarrow> None
                  | Some q \<Rightarrow> Some (s\<lparr>sp_discontinuity := True, sp_discontinuity_sequence := q\<rparr>))
          else if line = [] \<or> hd line = 35 then Some s
          else case sp_duration s of
                 None \<Rightarrow> Some s
               | Some d \<Rightarrow> (case swarm_reference line of
                     None \<Rightarrow> None
                   | Some r \<Rightarrow> Some (s\<lparr>sp_segments := sp_segments s @
                         [\<lparr>seg_reference = map ascii_lower_code r, seg_duration = d, seg_gap = sp_gap s,
                           seg_discontinuity_sequence = sp_discontinuity_sequence s\<rparr>],
                         sp_duration := None, sp_gap := False, sp_discontinuity := False\<rparr>)))"

fun parse_segment_loop :: "ctext list \<Rightarrow> SegmentParse \<Rightarrow> SegmentParse option" where
  "parse_segment_loop [] s = Some s"
| "parse_segment_loop (l # ls) s = Option.bind (parse_segment_line l s) (parse_segment_loop ls)"

definition parse_segment_lines :: "ctext \<Rightarrow> u64 \<Rightarrow> HlsSegment list option" where
  "parse_segment_lines text discontinuity_sequence =
     (case parse_segment_loop (lines text)
        \<lparr>sp_segments = [], sp_duration = None, sp_gap = False, sp_discontinuity = False,
         sp_discontinuity_sequence = discontinuity_sequence\<rparr> of
        None \<Rightarrow> None
      | Some s \<Rightarrow> if sp_duration s \<noteq> None \<or> sp_gap s then None else Some (sp_segments s))"

definition hls_has_terminal_endlist :: "ctext \<Rightarrow> bool" where
  "hls_has_terminal_endlist text =
     (case dropWhile (\<lambda>l. l = []) (map trim (rev (lines text))) of
        [] \<Rightarrow> False | l # _ \<Rightarrow> l = HLS_ENDLIST)"

record HeaderParse =
  hp_sequence :: "u64 option"
  hp_discontinuity_sequence :: "u64 option"
  hp_target_duration :: "u64 option"

definition parse_header_line :: "ctext \<Rightarrow> HeaderParse \<Rightarrow> HeaderParse option" where
  "parse_header_line original h =
     (let line = trim original in
      case strip_prefix ''#EXT-X-MEDIA-SEQUENCE:'' line of
        Some v \<Rightarrow> (case parse_u64 (trim v) of None \<Rightarrow> None
          | Some n \<Rightarrow> if hp_sequence h \<noteq> None then None else Some (h\<lparr>hp_sequence := Some n\<rparr>))
      | None \<Rightarrow> (case strip_prefix ''#EXT-X-DISCONTINUITY-SEQUENCE:'' line of
          Some v \<Rightarrow> (case parse_u64 (trim v) of None \<Rightarrow> None
            | Some n \<Rightarrow> if hp_discontinuity_sequence h \<noteq> None then None
                        else Some (h\<lparr>hp_discontinuity_sequence := Some n\<rparr>))
        | None \<Rightarrow> (case strip_prefix ''#EXT-X-TARGETDURATION:'' line of
            Some v \<Rightarrow> (case parse_u64 (trim v) of None \<Rightarrow> None
              | Some n \<Rightarrow> if hp_target_duration h \<noteq> None then None
                          else Some (h\<lparr>hp_target_duration := Some (max n 1)\<rparr>))
          | None \<Rightarrow> Some h)))"

fun parse_header_loop :: "ctext list \<Rightarrow> HeaderParse \<Rightarrow> HeaderParse option" where
  "parse_header_loop [] h = Some h"
| "parse_header_loop (l # ls) h = Option.bind (parse_header_line l h) (parse_header_loop ls)"

definition rounded_seconds :: "HlsSegment \<Rightarrow> u64" where
  "rounded_seconds segment = f64_as_u64 (f64_round (seg_duration segment))"

definition measured_target :: "HlsSegment list \<Rightarrow> u64" where
  "measured_target segments = foldr max (map rounded_seconds segments) 1"

definition option_or :: "'a \<Rightarrow> 'a option \<Rightarrow> 'a" where
  "option_or d x = (case x of None \<Rightarrow> d | Some v \<Rightarrow> v)"

definition parse_text :: "ctext \<Rightarrow> HlsPlaylist option" where
  "parse_text text = do {
     h \<leftarrow> parse_header_loop (lines text)
            \<lparr>hp_sequence = None, hp_discontinuity_sequence = None, hp_target_duration = None\<rparr>;
     let discontinuity_sequence = option_or 0 (hp_discontinuity_sequence h);
     segments \<leftarrow> parse_segment_lines text discontinuity_sequence;
     if segments = [] then None
     else Some \<lparr>hls_sequence = option_or 0 (hp_sequence h),
                hls_discontinuity_sequence = discontinuity_sequence,
                hls_target_duration = max (option_or (measured_target segments) (hp_target_duration h))
                                        (measured_target segments),
                hls_segments = segments,
                hls_finalized = hls_has_terminal_endlist text\<rparr> }"

definition parse_playlist :: "bytes \<Rightarrow> HlsPlaylist option" where
  "parse_playlist bs =
     (if MAX_STREAM_FEED_PAYLOAD_BYTES < length bs \<or> \<not> is_hls_manifest bs then None
      else Option.bind (from_utf8 bs) parse_text)"

section \<open>Startup plans\<close>

text \<open>\<open>Iterator::sum\<close> of doubles starts from negative zero.\<close>

definition sum_durations :: "HlsSegment list \<Rightarrow> f64" where
  "sum_durations segments = foldl f64_add (F64Fin True 0) (map seg_duration segments)"

definition playlist_duration :: "HlsPlaylist \<Rightarrow> f64" where
  "playlist_duration p = sum_durations (hls_segments p)"

definition segment_get :: "HlsSegment list \<Rightarrow> nat \<Rightarrow> HlsSegment option" where
  "segment_get segments i = (if i < length segments then Some (segments ! i) else None)"

definition beginning_startup_plan :: "HlsPlaylist \<Rightarrow> HlsStartupPlan option" where
  "beginning_startup_plan p = do {
     first \<leftarrow> position (\<lambda>segment. \<not> seg_gap segment) (hls_segments p);
     let play_position = sum_durations (take first (hls_segments p));
     let runway_end = f64_add play_position (seg_duration (hls_segments p ! first));
     let duration = playlist_duration p;
     if \<not> f64_is_finite play_position \<or> \<not> f64_is_finite runway_end \<or> \<not> f64_is_finite duration
        \<or> f64_le runway_end play_position
     then None
     else Some \<lparr>plan_bootstrap_position = play_position, plan_codec_bootstrap = False,
                plan_play_position = play_position, plan_runway_end = runway_end,
                plan_duration = duration\<rparr> }"

text \<open>The two loops that widen the runway around the anchor, forwards and then backwards.\<close>

function extend_forward :: "HlsSegment list \<Rightarrow> nat \<Rightarrow> f64 \<Rightarrow> nat \<times> f64" where
  "extend_forward segments last_index seconds =
     (if f64_lt seconds HLS_LIVE_STARTUP_BUFFER_SECONDS \<and> last_index + 1 < length segments
         \<and> \<not> seg_gap (segments ! (last_index + 1))
      then extend_forward segments (last_index + 1)
             (f64_add seconds (seg_duration (segments ! (last_index + 1))))
      else (last_index, seconds))"
  by pat_completeness auto
termination
  by (relation "measure (\<lambda>(segments, last_index, seconds). length segments - last_index)") auto

declare extend_forward.simps [simp del]

fun extend_backward :: "HlsSegment list \<Rightarrow> nat \<Rightarrow> f64 \<Rightarrow> nat \<times> f64" where
  "extend_backward segments 0 seconds = (0, seconds)"
| "extend_backward segments (Suc first) seconds =
     (if f64_lt seconds HLS_LIVE_STARTUP_BUFFER_SECONDS \<and> \<not> seg_gap (segments ! first)
      then extend_backward segments first (f64_add seconds (seg_duration (segments ! first)))
      else (Suc first, seconds))"

definition anchored_startup_plan ::
  "HlsPlaylist \<Rightarrow> u64 \<Rightarrow> ctext \<Rightarrow> (HlsStartupPlan \<times> usize) option" where
  "anchored_startup_plan p anchor_sequence anchor_reference = do {
     anchor \<leftarrow> map_option unat (checked_sub anchor_sequence (hls_sequence p));
     segment \<leftarrow> segment_get (hls_segments p) anchor;
     if seg_gap segment \<or> seg_reference segment \<noteq> anchor_reference then None
     else do {
       let (last_index, seconds0) = extend_forward (hls_segments p) anchor (seg_duration segment);
       let (first, seconds) = extend_backward (hls_segments p) anchor seconds0;
       if \<not> f64_is_finite seconds \<or> f64_lt seconds HLS_LIVE_STARTUP_BUFFER_SECONDS then None
       else do {
         plan0 \<leftarrow> beginning_startup_plan p;
         let play_position = sum_durations (take first (hls_segments p));
         let runway_end = sum_durations (take (last_index + 1) (hls_segments p));
         let plan = plan0\<lparr>plan_play_position := play_position, plan_runway_end := runway_end,
              plan_codec_bootstrap := hls_sequence p = 0
                \<and> f64_lt (plan_bootstrap_position plan0) play_position\<rparr>;
         if f64_is_finite runway_end \<and> f64_lt play_position runway_end
         then Some (plan, first) else None } } }"

definition startup_plan :: "HlsPlaylist \<Rightarrow> HlsStart \<Rightarrow> HlsStartupPlan option" where
  "startup_plan p start =
     (case start of
        Live \<Rightarrow> do {
          place \<leftarrow> rposition (\<lambda>segment. \<not> seg_gap segment) (hls_segments p);
          sequence \<leftarrow> (if unat (hls_sequence p) + place < 2 ^ 64
                       then Some (hls_sequence p + of_nat place) else None);
          map_option fst (anchored_startup_plan p sequence (seg_reference (hls_segments p ! place))) }
      | Beginning \<Rightarrow> beginning_startup_plan p)"

section \<open>Merging\<close>

definition same_payload :: "HlsSegment \<Rightarrow> HlsSegment \<Rightarrow> bool" where
  "same_payload a b = (seg_reference a = seg_reference b \<and> seg_duration a = seg_duration b
     \<and> seg_gap a = seg_gap b)"

definition same_media :: "HlsSegment \<Rightarrow> HlsSegment \<Rightarrow> bool" where
  "same_media a b = (same_payload a b \<and> seg_discontinuity_sequence a = seg_discontinuity_sequence b)"

text \<open>The sequence number after the last segment, checked against the width of the counter.\<close>

definition playlist_end :: "HlsPlaylist \<Rightarrow> nat option" where
  "playlist_end p = (let e = unat (hls_sequence p) + length (hls_segments p) in
     if e < 2 ^ 64 then Some e else None)"

definition overlap_matches :: "HlsPlaylist \<Rightarrow> HlsPlaylist \<Rightarrow> nat \<Rightarrow> bool" where
  "overlap_matches p candidate overlap_end =
     list_all (\<lambda>s. case (segment_get (hls_segments p) (s - unat (hls_sequence p)),
                        segment_get (hls_segments candidate) (s - unat (hls_sequence candidate))) of
                     (Some a, Some b) \<Rightarrow> same_media a b
                   | _ \<Rightarrow> False)
       [max (unat (hls_sequence p)) (unat (hls_sequence candidate))..<overlap_end]"

definition merge_extension :: "HlsPlaylist \<Rightarrow> HlsPlaylist \<Rightarrow> (usize \<times> usize) option" where
  "merge_extension p candidate = do {
     current_end \<leftarrow> playlist_end p;
     candidate_end \<leftarrow> playlist_end candidate;
     if current_end < unat (hls_sequence candidate) \<or> candidate_end < current_end then None
     else if \<not> overlap_matches p candidate (min current_end candidate_end) then None
     else let appended = candidate_end - current_end in
       if appended = 0 then Some (0, 0)
       else do {
         let first = current_end - unat (hls_sequence candidate);
         previous \<leftarrow> (if hls_segments p = [] then None
                      else Some (seg_discontinuity_sequence (last (hls_segments p))));
         next \<leftarrow> map_option seg_discontinuity_sequence (segment_get (hls_segments candidate) first);
         limit \<leftarrow> (if next < previous then Some 0 else checked_add previous 1);
         if next < previous \<or> limit < next then None else Some (appended, first) } }"

definition joins :: "HlsPlaylist \<Rightarrow> HlsPlaylist \<Rightarrow> bool" where
  "joins p candidate = (merge_extension p candidate \<noteq> None)"

definition merge_playlist :: "HlsPlaylist \<Rightarrow> HlsPlaylist \<Rightarrow> (usize \<times> HlsPlaylist) option" where
  "merge_playlist candidate p = do {
     (appended, first) \<leftarrow> merge_extension p candidate;
     let p1 = (if hls_sequence candidate < hls_sequence p
               then p\<lparr>hls_sequence := hls_sequence candidate,
                      hls_discontinuity_sequence := hls_discontinuity_sequence candidate,
                      hls_segments := hls_segments candidate\<rparr>
               else if appended \<noteq> 0
               then p\<lparr>hls_segments := hls_segments p @ drop first (hls_segments candidate)\<rparr>
               else p);
     Some (appended, p1\<lparr>hls_finalized := hls_finalized candidate,
       hls_target_duration := max (hls_target_duration p1) (hls_target_duration candidate)\<rparr>) }"

fun shift_discontinuities :: "u64 \<Rightarrow> HlsSegment list \<Rightarrow> HlsSegment list option" where
  "shift_discontinuities offset [] = Some []"
| "shift_discontinuities offset (c # cs) =
     (case checked_add (seg_discontinuity_sequence c) offset of
        None \<Rightarrow> None
      | Some q \<Rightarrow> map_option ((#) (c\<lparr>seg_discontinuity_sequence := q\<rparr>)) (shift_discontinuities offset cs))"

definition merge_segments ::
  "HlsSegment list \<Rightarrow> bool \<Rightarrow> HlsPlaylist \<Rightarrow> (usize \<times> HlsPlaylist) option" where
  "merge_segments candidates finalized p =
     (if hls_segments p = [] then None
      else let current_tail = last (hls_segments p) in do {
        overlap \<leftarrow> rposition (\<lambda>c. same_payload c current_tail) candidates;
        offset \<leftarrow> checked_sub (seg_discontinuity_sequence current_tail)
                    (seg_discontinuity_sequence (candidates ! overlap));
        shifted \<leftarrow> shift_discontinuities offset (drop overlap candidates);
        if \<not> same_media (hd shifted) current_tail then None
        else Some (length candidates - (overlap + 1),
          p\<lparr>hls_target_duration := foldl (\<lambda>t c. max (max t (rounded_seconds c)) 1)
               (hls_target_duration p) (tl shifted),
            hls_segments := hls_segments p @ tl shifted,
            hls_finalized := finalized\<rparr>) })"

definition merge_tail :: "bytes \<Rightarrow> HlsPlaylist \<Rightarrow> (usize \<times> HlsPlaylist) option" where
  "merge_tail bs p = do {
     text \<leftarrow> from_utf8 bs;
     candidates \<leftarrow> (case parse_segment_lines text 0 of
         Some segments \<Rightarrow>
           if segments \<noteq> [] then Some segments
           else (if 10 \<in> set text then parse_segment_lines (tl (dropWhile (\<lambda>c. c \<noteq> 10) text)) 0 else None)
       | None \<Rightarrow>
           (if 10 \<in> set text then parse_segment_lines (tl (dropWhile (\<lambda>c. c \<noteq> 10) text)) 0 else None));
     merge_segments candidates (hls_has_terminal_endlist text) p }"

definition mark_gap :: "u64 \<Rightarrow> ctext \<Rightarrow> HlsPlaylist \<Rightarrow> bool \<times> HlsPlaylist" where
  "mark_gap sequence reference p =
     (case checked_sub sequence (hls_sequence p) of
        None \<Rightarrow> (False, p)
      | Some place \<Rightarrow> (case segment_get (hls_segments p) (unat place) of
            None \<Rightarrow> (False, p)
          | Some segment \<Rightarrow>
              if seg_reference segment \<noteq> reference then (False, p)
              else (True, p\<lparr>hls_segments := (hls_segments p)[unat place := segment\<lparr>seg_gap := True\<rparr>]\<rparr>)))"

fun merge_all :: "HlsPlaylist \<Rightarrow> HlsPlaylist list \<Rightarrow> HlsPlaylist option" where
  "merge_all archive [] = Some archive"
| "merge_all archive (s # ss) =
     (case merge_playlist s archive of None \<Rightarrow> None | Some (_, archive') \<Rightarrow> merge_all archive' ss)"

definition reconstruct ::
  "(u64 \<times> HlsPlaylist) list \<Rightarrow> u64 \<Rightarrow> HlsPlaylist \<Rightarrow> HlsPlaylist option" where
  "reconstruct snapshots0 head_index head = do {
     let snapshots = sort_key fst (filter (\<lambda>(index, _). index < head_index) snapshots0);
     expected_end \<leftarrow> playlist_end head;
     let all_snapshots = map snd snapshots @ [head];
     if hls_sequence (hd all_snapshots) \<noteq> 0 then None
     else do {
       archive \<leftarrow> merge_all (hd all_snapshots) (tl all_snapshots);
       archive_end \<leftarrow> playlist_end archive;
       if archive_end = expected_end then Some archive else None } }"

end
