(* ===== verification/HlsMerge.thy ===== *)
theory HlsMerge
  imports Hls
begin

text \<open>
  What a follower may rely on when it holds a playlist of \<open>Hls\<close>.  The abstract view of a
  playlist is its timeline, the partial map from absolute media sequence numbers to segments;
  merging a later snapshot is the union of two timelines that agree where they overlap.  Every
  playlist obtained by parsing, merging and marking gaps is well formed.
\<close>

section \<open>Timelines\<close>

definition timeline :: "HlsPlaylist \<Rightarrow> nat \<rightharpoonup> HlsSegment" where
  "timeline p s = (if unat (hls_sequence p) \<le> s \<and> s < unat (hls_sequence p) + length (hls_segments p)
     then Some (hls_segments p ! (s - unat (hls_sequence p))) else None)"

lemma same_media_iff: "same_media a b \<longleftrightarrow> a = (b :: HlsSegment)"
  by (cases a; cases b) (auto simp: same_media_def same_payload_def)

lemma overlap_matches_timeline:
  assumes "e \<le> unat (hls_sequence p) + length (hls_segments p)"
    "e \<le> unat (hls_sequence c) + length (hls_segments c)"
  shows "overlap_matches p c e \<longleftrightarrow>
    (\<forall>s. unat (hls_sequence p) \<le> s \<longrightarrow> unat (hls_sequence c) \<le> s \<longrightarrow> s < e \<longrightarrow> timeline p s = timeline c s)"
  using assms
  by (auto simp: overlap_matches_def list_all_iff segment_get_def same_media_iff timeline_def)

lemma merge_extensionD:
  assumes "merge_extension p c = Some (appended, first)"
  shows "unat (hls_sequence c) \<le> unat (hls_sequence p) + length (hls_segments p)"
    "unat (hls_sequence c) + length (hls_segments c)
       = unat (hls_sequence p) + length (hls_segments p) + appended"
    "unat (hls_sequence c) + length (hls_segments c) < 2 ^ 64"
    "\<And>s. s \<in> dom (timeline p) \<Longrightarrow> s \<in> dom (timeline c) \<Longrightarrow> timeline p s = timeline c s"
    "appended \<noteq> 0 \<Longrightarrow> first = unat (hls_sequence p) + length (hls_segments p) - unat (hls_sequence c)"
    "appended \<noteq> 0 \<Longrightarrow> hls_segments p \<noteq> [] \<and> first < length (hls_segments c)
       \<and> seg_discontinuity_sequence (last (hls_segments p))
           \<le> seg_discontinuity_sequence (hls_segments c ! first)"
proof -
  let ?pe = "unat (hls_sequence p) + length (hls_segments p)"
    and ?ce = "unat (hls_sequence c) + length (hls_segments c)"
  have parts: "?pe < 2 ^ 64" "?ce < 2 ^ 64" "unat (hls_sequence c) \<le> ?pe" "?pe \<le> ?ce"
    "overlap_matches p c ?pe" "appended = ?ce - ?pe"
    "appended \<noteq> 0 \<longrightarrow> first = ?pe - unat (hls_sequence c) \<and> hls_segments p \<noteq> []
       \<and> first < length (hls_segments c)
       \<and> seg_discontinuity_sequence (last (hls_segments p))
           \<le> seg_discontinuity_sequence (hls_segments c ! first)"
    using assms
    by (auto simp: merge_extension_def playlist_end_def Let_def bind_eq_Some_conv min_def
        segment_get_def not_less split: if_splits)
  show "unat (hls_sequence c) \<le> ?pe" "?ce = ?pe + appended" "?ce < 2 ^ 64"
    using parts by simp_all
  show "appended \<noteq> 0 \<Longrightarrow> first = ?pe - unat (hls_sequence c)"
    "appended \<noteq> 0 \<Longrightarrow> hls_segments p \<noteq> [] \<and> first < length (hls_segments c)
       \<and> seg_discontinuity_sequence (last (hls_segments p))
           \<le> seg_discontinuity_sequence (hls_segments c ! first)"
    using parts(7) by blast+
  show "timeline p s = timeline c s" if "s \<in> dom (timeline p)" "s \<in> dom (timeline c)" for s
    using that overlap_matches_timeline [of ?pe p c] parts(4,5)
    by (auto simp: timeline_def split: if_splits)
qed


lemma merge_playlist_union:
  assumes "merge_playlist c p = Some (appended, p')"
  shows "timeline p' = timeline p ++ timeline c
    \<and> timeline p \<subseteq>\<^sub>m timeline p' \<and> timeline c \<subseteq>\<^sub>m timeline p'
    \<and> unat (hls_sequence p') + length (hls_segments p')
        = unat (hls_sequence p) + length (hls_segments p) + appended
    \<and> unat (hls_sequence p') = min (unat (hls_sequence p)) (unat (hls_sequence c))
    \<and> hls_finalized p' = hls_finalized c"
proof -
  obtain first where ext: "merge_extension p c = Some (appended, first)"
    using assms by (auto simp: merge_playlist_def bind_eq_Some_conv Let_def)
  note D = merge_extensionD [OF ext]
  have agree: "timeline p \<subseteq>\<^sub>m timeline p ++ timeline c"
  proof (unfold map_le_def, intro ballI)
    fix s assume "s \<in> dom (timeline p)"
    then show "timeline p s = (timeline p ++ timeline c) s"
      using D(4) [of s] by (cases "timeline c s") (auto simp: map_add_def)
  qed
  have p': "hls_sequence p' = (if hls_sequence c < hls_sequence p then hls_sequence c else hls_sequence p)"
    "hls_segments p' = (if hls_sequence c < hls_sequence p then hls_segments c
       else if appended \<noteq> 0 then hls_segments p @ drop first (hls_segments c) else hls_segments p)"
    "hls_finalized p' = hls_finalized c"
    using assms ext by (auto simp: merge_playlist_def Let_def)
  have timeline: "timeline p' = timeline p ++ timeline c"
  proof
    fix s
    show "timeline p' s = (timeline p ++ timeline c) s"
      using D(1,2) D(4) [of s] D(5,6)
      by (cases "hls_sequence c < hls_sequence p"; cases "appended = 0")
         (auto simp: timeline_def p' map_add_def word_less_nat_alt nth_append dom_def
           split: option.split if_splits)
  qed
  then show ?thesis
    using agree D(1,2,5) p' by (auto simp: word_less_nat_alt)
qed

text \<open>
  C20. Merging a snapshot into a held playlist is the union of their timelines: the two agree on
  every sequence number they share, nothing either of them holds is lost or changed, the result
  has no holes and ends where the snapshot ends, and the count that is reported is the number of
  segments after the old end.
\<close>

theorem merge_playlist_refines:
  assumes "merge_playlist c p = Some (appended, p')"
  shows "timeline p' = timeline p ++ timeline c
    \<and> timeline p \<subseteq>\<^sub>m timeline p' \<and> timeline c \<subseteq>\<^sub>m timeline p'
    \<and> unat (hls_sequence p') + length (hls_segments p')
        = unat (hls_sequence p) + length (hls_segments p) + appended
    \<and> unat (hls_sequence p') = min (unat (hls_sequence p)) (unat (hls_sequence c))
    \<and> hls_finalized p' = hls_finalized c"
  by (rule merge_playlist_union [OF assms])


definition demo_segment :: "nat \<Rightarrow> HlsSegment" where
  "demo_segment k = \<lparr>seg_reference = replicate 64 (48 + k), seg_duration = F64Fin False 2,
     seg_gap = False, seg_discontinuity_sequence = 0\<rparr>"

definition demo_playlist :: "u64 \<Rightarrow> nat list \<Rightarrow> HlsPlaylist" where
  "demo_playlist s ks = \<lparr>hls_sequence = s, hls_discontinuity_sequence = 0, hls_target_duration = 2,
     hls_segments = map demo_segment ks, hls_finalized = False\<rparr>"

theorem merge_playlist_refines_witness:
  "timeline (demo_playlist 3 [3, 4, 5]) 5 = Some (demo_segment 5)"
proof -
  have "merge_playlist (demo_playlist 4 [4, 5]) (demo_playlist 3 [3, 4])
      = Some (1, demo_playlist 3 [3, 4, 5])"
    by (simp add: merge_playlist_def merge_extension_def playlist_end_def overlap_matches_def
        demo_playlist_def segment_get_def same_media_iff checked_add_def demo_segment_def)
  from merge_playlist_refines [OF this] show ?thesis
    by (simp add: timeline_def demo_playlist_def map_add_def)
qed

section \<open>Well-formed playlists\<close>

definition segment_wf :: "HlsSegment \<Rightarrow> bool" where
  "segment_wf segment =
     (is_hex_reference (seg_reference segment)
      \<and> list_all (\<lambda>c. \<not> (65 \<le> c \<and> c \<le> 90)) (seg_reference segment)
      \<and> f64_is_finite (seg_duration segment) \<and> f64_lt f64_zero (seg_duration segment))"

definition playlist_wf :: "HlsPlaylist \<Rightarrow> bool" where
  "playlist_wf p =
     (hls_segments p \<noteq> []
      \<and> list_all segment_wf (hls_segments p)
      \<and> sorted (map seg_discontinuity_sequence (hls_segments p))
      \<and> 1 \<le> hls_target_duration p
      \<and> list_all (\<lambda>segment. rounded_seconds segment \<le> hls_target_duration p) (hls_segments p))"

lemma swarm_reference_hex: "swarm_reference uri = Some r \<Longrightarrow> is_hex_reference r"
  by (auto simp: swarm_reference_def Let_def bind_eq_Some_conv split: if_splits)

lemma is_hex_reference_lower:
  assumes "is_hex_reference r"
  shows "is_hex_reference (map ascii_lower_code r)"
    "list_all (\<lambda>c. \<not> (65 \<le> c \<and> c \<le> 90)) (map ascii_lower_code r)"
  using assms
  by (auto simp: is_hex_reference_def list_all_iff is_ascii_hexdigit_def ascii_lower_code_def)

definition parse_wf :: "SegmentParse \<Rightarrow> bool" where
  "parse_wf s = (list_all segment_wf (sp_segments s)
     \<and> sorted (map seg_discontinuity_sequence (sp_segments s))
     \<and> list_all (\<lambda>g. seg_discontinuity_sequence g \<le> sp_discontinuity_sequence s) (sp_segments s)
     \<and> (case sp_duration s of None \<Rightarrow> True
        | Some d \<Rightarrow> f64_is_finite d \<and> f64_lt f64_zero d))"

text \<open>The five ways a line can be consumed.\<close>

lemma parse_segment_line_cases:
  assumes "parse_segment_line l s = Some s'"
  obtains (duration) v d where "parse_extinf v = Some d" "s' = s\<lparr>sp_duration := Some d\<rparr>"
    | (gap) "s' = s\<lparr>sp_gap := True\<rparr>"
    | (discontinuity) q where "checked_add (sp_discontinuity_sequence s) 1 = Some q"
        "s' = s\<lparr>sp_discontinuity := True, sp_discontinuity_sequence := q\<rparr>"
    | (ignored) "s' = s"
    | (segment) d r where "sp_duration s = Some d" "swarm_reference (trim l) = Some r"
        "s' = s\<lparr>sp_segments := sp_segments s @
          [\<lparr>seg_reference = map ascii_lower_code r, seg_duration = d, seg_gap = sp_gap s,
            seg_discontinuity_sequence = sp_discontinuity_sequence s\<rparr>],
          sp_duration := None, sp_gap := False, sp_discontinuity := False\<rparr>"
proof (cases "strip_prefix ''#EXTINF:'' (trim l)")
  case (Some v)
  with assms obtain d where "parse_extinf v = Some d" "s' = s\<lparr>sp_duration := Some d\<rparr>"
    by (cases "parse_extinf v"; cases "sp_duration s") (simp_all add: parse_segment_line_def Let_def)
  then show thesis by (rule duration)
next
  case None
  have branches: "parse_segment_line l s =
      (if trim l = HLS_GAP then (if sp_duration s = None then None else Some (s\<lparr>sp_gap := True\<rparr>))
       else if trim l = codes ''#EXT-X-DISCONTINUITY'' then
         (if sp_discontinuity s then None
          else map_option (\<lambda>q. s\<lparr>sp_discontinuity := True, sp_discontinuity_sequence := q\<rparr>)
                 (checked_add (sp_discontinuity_sequence s) 1))
       else if trim l = [] \<or> hd (trim l) = 35 then Some s
       else case sp_duration s of None \<Rightarrow> Some s
         | Some d \<Rightarrow> map_option (\<lambda>r. s\<lparr>sp_segments := sp_segments s @
             [\<lparr>seg_reference = map ascii_lower_code r, seg_duration = d, seg_gap = sp_gap s,
               seg_discontinuity_sequence = sp_discontinuity_sequence s\<rparr>],
             sp_duration := None, sp_gap := False, sp_discontinuity := False\<rparr>) (swarm_reference (trim l)))"
    by (simp add: parse_segment_line_def Let_def None split: option.split)
  note step = assms [unfolded branches]
  consider "trim l = HLS_GAP" | "trim l \<noteq> HLS_GAP" "trim l = codes ''#EXT-X-DISCONTINUITY''"
    | "trim l \<noteq> HLS_GAP" "trim l \<noteq> codes ''#EXT-X-DISCONTINUITY''" "trim l = [] \<or> hd (trim l) = 35 \<or> sp_duration s = None"
    | d where "trim l \<noteq> HLS_GAP" "trim l \<noteq> codes ''#EXT-X-DISCONTINUITY''" "\<not> (trim l = [] \<or> hd (trim l) = 35)"
        "sp_duration s = Some d"
    by (metis not_None_eq)
  then show thesis
  proof cases
    case 1
    with step have "s' = s\<lparr>sp_gap := True\<rparr>" by (simp split: if_splits)
    then show thesis by (rule gap)
  next
    case 2
    with step obtain q where "checked_add (sp_discontinuity_sequence s) 1 = Some q"
      "s' = s\<lparr>sp_discontinuity := True, sp_discontinuity_sequence := q\<rparr>"
      by (auto split: if_splits)
    then show thesis by (rule discontinuity)
  next
    case 3
    with step have "s' = s" by (auto split: if_splits option.splits)
    then show thesis by (rule ignored)
  next
    case (4 d)
    with step obtain r where r: "swarm_reference (trim l) = Some r" by auto
    show thesis
      by (rule segment [OF 4(4) r]) (use step 4 r in simp)
  qed
qed

lemma parse_segment_line_wf:
  assumes "parse_wf s" "parse_segment_line l s = Some s'"
  shows "parse_wf s'"
  using assms(2)
proof (cases rule: parse_segment_line_cases)
  case (duration v d)
  then show ?thesis using assms(1) by (auto simp: parse_wf_def parse_extinf_def bind_eq_Some_conv split: if_splits)
next
  case (discontinuity q)
  then have "unat q = unat (sp_discontinuity_sequence s) + 1" by (simp add: rust_int)
  then have "x \<le> q" if "x \<le> sp_discontinuity_sequence s" for x
    using that by (simp add: word_le_nat_alt)
  then show ?thesis using assms(1) discontinuity by (auto simp: parse_wf_def list_all_iff)
next
  case (segment d r)
  then show ?thesis
    using assms(1) is_hex_reference_lower [OF swarm_reference_hex [OF segment(2)]]
    by (auto simp: parse_wf_def sorted_append list_all_iff segment_wf_def)
qed (use assms(1) in \<open>simp_all add: parse_wf_def\<close>)

lemma parse_segment_loop_wf:
  "parse_wf s \<Longrightarrow> parse_segment_loop ls s = Some s' \<Longrightarrow> parse_wf s'"
  by (induction ls arbitrary: s) (auto simp: bind_eq_Some_conv dest: parse_segment_line_wf)

lemma parse_segment_lines_wf:
  assumes "parse_segment_lines text d = Some segments"
  shows "list_all segment_wf segments \<and> sorted (map seg_discontinuity_sequence segments)"
proof -
  let ?s = "\<lparr>sp_segments = [], sp_duration = None, sp_gap = False, sp_discontinuity = False,
    sp_discontinuity_sequence = d\<rparr>"
  obtain s' where s': "parse_segment_loop (lines text) ?s = Some s'" "segments = sp_segments s'"
    using assms by (auto simp: parse_segment_lines_def split: option.splits if_splits)
  have "parse_wf ?s" by (simp add: parse_wf_def)
  from parse_segment_loop_wf [OF this s'(1)] show ?thesis using s'(2) by (simp add: parse_wf_def)
qed


lemma measured_target_le:
  "1 \<le> measured_target segments"
  "segment \<in> set segments \<Longrightarrow> rounded_seconds segment \<le> measured_target segments"
  unfolding measured_target_def by (induction segments) (auto simp: le_max_iff_disj)

lemma parse_playlist_wf:
  assumes "parse_playlist bs = Some p"
  shows "playlist_wf p"
proof -
  obtain body where "parse_text body = Some p"
    using assms by (auto simp: parse_playlist_def bind_eq_Some_conv split: if_splits)
  then obtain d t where segs: "parse_segment_lines body d = Some (hls_segments p)" "hls_segments p \<noteq> []"
    "hls_target_duration p = max t (measured_target (hls_segments p))"
    by (auto simp: parse_text_def Let_def bind_eq_Some_conv split: if_splits)
  then show ?thesis
    using parse_segment_lines_wf [OF segs(1)] measured_target_le(1) [of "hls_segments p"]
      measured_target_le(2) [of _ "hls_segments p"]
    by (auto simp: playlist_wf_def list_all_iff le_max_iff_disj)
qed

lemma sorted_le_last: "sorted xs \<Longrightarrow> x \<in> set xs \<Longrightarrow> x \<le> last xs"
  by (induction xs rule: rev_induct) (auto simp: sorted_append)

lemma sorted_drop_ge:
  assumes "sorted xs" "y \<in> set (drop k xs)" "k < length xs"
  shows "xs ! k \<le> y"
proof -
  obtain i where "i < length (drop k xs)" "y = drop k xs ! i"
    using assms(2) by (metis in_set_conv_nth)
  then show ?thesis using sorted_nth_mono [OF assms(1), of k "k + i"] by simp
qed

lemma sorted_join:
  assumes "sorted (map f xs)" "sorted (map f ys)" "xs \<noteq> []" "k < length ys" "f (last xs) \<le> f (ys ! k)"
  shows "sorted (map f (xs @ drop k ys))"
proof -
  have "f x \<le> f y" if "x \<in> set xs" "y \<in> set (drop k ys)" for x y
  proof -
    have "f x \<le> f (last xs)" using sorted_le_last [OF assms(1), of "f x"] that assms(3) by (simp add: last_map)
    also have "f (last xs) \<le> f (ys ! k)" by (rule assms(5))
    also have "f (ys ! k) \<le> f y"
      using sorted_drop_ge [OF assms(2), of "f y" k] that assms(4) by (simp add: drop_map)
    finally show ?thesis .
  qed
  moreover have "sorted (map f (drop k ys))" using assms(2) by (simp add: sorted_wrt_drop flip: drop_map)
  ultimately show ?thesis using assms(1) by (auto simp: sorted_append)
qed

lemma merge_playlist_wf:
  assumes "playlist_wf p" "playlist_wf c" "merge_playlist c p = Some (appended, p')"
  shows "playlist_wf p'"
proof -
  obtain first where ext: "merge_extension p c = Some (appended, first)"
    using assms(3) by (auto simp: merge_playlist_def bind_eq_Some_conv Let_def)
  have p': "hls_segments p' = (if hls_sequence c < hls_sequence p then hls_segments c
       else if appended \<noteq> 0 then hls_segments p @ drop first (hls_segments c) else hls_segments p)"
      "hls_target_duration p' = max (hls_target_duration p) (hls_target_duration c)"
    using assms(3) ext by (auto simp: merge_playlist_def Let_def)
  have "sorted (map seg_discontinuity_sequence (hls_segments p @ drop first (hls_segments c)))"
    if "appended \<noteq> 0"
    using merge_extensionD(6) [OF ext that] assms(1,2)
    by (intro sorted_join) (simp_all add: playlist_wf_def)
  then show ?thesis
    using assms(1,2) p' by (auto simp: playlist_wf_def list_all_iff le_max_iff_disj dest: in_set_dropD)
qed

lemma shift_discontinuities_shape:
  "shift_discontinuities offset cs = Some ds \<Longrightarrow>
     length ds = length cs
     \<and> list_all2 (\<lambda>c d. seg_reference d = seg_reference c \<and> seg_duration d = seg_duration c
         \<and> unat (seg_discontinuity_sequence d) = unat (seg_discontinuity_sequence c) + unat offset) cs ds"
  by (induction cs arbitrary: ds) (auto simp: rust_int split: option.splits)

lemma shifted_wf:
  "list_all2 (\<lambda>c d. seg_reference d = seg_reference c \<and> seg_duration d = seg_duration c \<and> P c d) cs ds \<Longrightarrow>
     list_all segment_wf cs \<Longrightarrow> list_all segment_wf ds"
  by (induction rule: list_all2_induct) (auto simp: segment_wf_def)

lemma target_fold:
  "t \<le> foldl (\<lambda>t c. max (max t (rounded_seconds c)) 1) t cs
   \<and> (\<forall>c \<in> set cs. rounded_seconds c \<le> foldl (\<lambda>t c. max (max t (rounded_seconds c)) 1) t cs)"
proof (induction cs arbitrary: t)
  case (Cons c cs)
  show ?case using Cons [of "max (max t (rounded_seconds c)) 1"] by auto
qed simp

lemma merge_segments_wf:
  assumes wf: "playlist_wf p" and cs: "list_all segment_wf cs" "sorted (map seg_discontinuity_sequence cs)"
    and merge: "merge_segments cs final p = Some (appended, p')"
  shows "playlist_wf p'"
proof -
  have "hls_segments p \<noteq> []" using wf by (simp add: playlist_wf_def)
  with merge obtain overlap offset ds where
    overlap: "rposition (\<lambda>c. same_payload c (last (hls_segments p))) cs = Some overlap"
    and ds: "shift_discontinuities offset (drop overlap cs) = Some ds"
    and join: "hd ds = last (hls_segments p)"
    and p': "hls_segments p' = hls_segments p @ tl ds"
      "hls_target_duration p' = foldl (\<lambda>t c. max (max t (rounded_seconds c)) 1) (hls_target_duration p) (tl ds)"
    by (auto simp: merge_segments_def Let_def bind_eq_Some_conv same_media_iff split: if_splits)
  note shape = shift_discontinuities_shape [OF ds]
  have "ds \<noteq> []" using conjunct1 [OF shape] rposition_SomeD(1) [OF overlap] by auto
  then have ds_eq: "ds = last (hls_segments p) # tl ds" using join by (cases ds) simp_all
  have "list_all segment_wf (drop overlap cs)"
    using cs(1) by (auto simp: list_all_iff dest: in_set_dropD)
  then have wf_ds: "list_all segment_wf ds" using shape by (elim conjE) (rule shifted_wf)
  have sorted_ds: "sorted (map seg_discontinuity_sequence ds)"
    unfolding sorted_iff_nth_mono
  proof (intro allI impI)
    fix i j assume ij: "i \<le> j" "j < length (map seg_discontinuity_sequence ds)"
    have "unat (seg_discontinuity_sequence (ds ! k))
        = unat (seg_discontinuity_sequence (cs ! (overlap + k))) + unat offset" if "k < length ds" for k
      using list_all2_nthD2 [OF conjunct2 [OF shape], of k] that conjunct1 [OF shape] by simp
    moreover have "seg_discontinuity_sequence (cs ! (overlap + i)) \<le> seg_discontinuity_sequence (cs ! (overlap + j))"
      using sorted_nth_mono [OF cs(2), of "overlap + i" "overlap + j"] ij conjunct1 [OF shape] by simp
    ultimately show "map seg_discontinuity_sequence ds ! i \<le> map seg_discontinuity_sequence ds ! j"
      using ij by (simp add: word_le_nat_alt)
  qed
  have "sorted (map seg_discontinuity_sequence (hls_segments p @ tl ds))"
  proof (cases "tl ds")
    case (Cons d rest)
    have "sorted (map seg_discontinuity_sequence (hls_segments p @ drop 1 ds))"
      using wf sorted_ds ds_eq Cons
      by (intro sorted_join) (auto simp: playlist_wf_def dest: arg_cong [of ds _ "map seg_discontinuity_sequence"])
    then show ?thesis by (simp add: drop_Suc)
  qed (use wf in \<open>simp add: playlist_wf_def\<close>)
  then show ?thesis
    using wf wf_ds p' target_fold [of "hls_target_duration p" "tl ds"] \<open>ds \<noteq> []\<close>
    by (auto simp: playlist_wf_def list_all_iff dest: list.set_sel(2) intro: order_trans)
qed

lemma mark_gap_wf:
  assumes "playlist_wf p" shows "playlist_wf (snd (mark_gap sequence reference p))"
proof -
  have "playlist_wf (p\<lparr>hls_segments := (hls_segments p)[i := (hls_segments p ! i)\<lparr>seg_gap := True\<rparr>]\<rparr>)"
    if "i < length (hls_segments p)" for i
  proof -
    have "map seg_discontinuity_sequence ((hls_segments p)[i := (hls_segments p ! i)\<lparr>seg_gap := True\<rparr>])
        = map seg_discontinuity_sequence (hls_segments p)"
      using that by (simp add: map_update list_update_same_conv)
    then show ?thesis
      using assms that
      by (auto simp: playlist_wf_def list_all_length nth_list_update segment_wf_def rounded_seconds_def)
  qed
  then show ?thesis
    using assms by (auto simp: mark_gap_def segment_get_def split: option.splits)
qed

text \<open>A playlist a follower can hold: parsed, then merged with others and marked.\<close>

inductive held_playlist :: "HlsPlaylist \<Rightarrow> bool" where
  parsed: "parse_playlist bs = Some p \<Longrightarrow> held_playlist p"
| merged: "held_playlist p \<Longrightarrow> held_playlist c \<Longrightarrow> merge_playlist c p = Some (k, p') \<Longrightarrow> held_playlist p'"
| tail: "held_playlist p \<Longrightarrow> merge_tail bs p = Some (k, p') \<Longrightarrow> held_playlist p'"
| gap: "held_playlist p \<Longrightarrow> held_playlist (snd (mark_gap sequence reference p))"

lemma merge_tail_wf:
  assumes "playlist_wf p" "merge_tail bs p = Some (k, p')"
  shows "playlist_wf p'"
proof -
  obtain body cs d e where "parse_segment_lines body d = Some cs" "merge_segments cs e p = Some (k, p')"
    using assms(2) by (auto simp: merge_tail_def bind_eq_Some_conv split: option.splits if_splits)
  then show ?thesis using merge_segments_wf [OF assms(1)] parse_segment_lines_wf by blast
qed

text \<open>
  C23. Every playlist a follower holds is well formed: it has a segment, every segment has a
  lower-case hexadecimal Swarm reference of one of the two lengths and a positive finite duration,
  discontinuity numbers never fall, and the target duration is at least one second and at least
  the rounded duration of every segment.
\<close>

theorem held_playlist_wf:
  "held_playlist p \<Longrightarrow> playlist_wf p"
  by (induction rule: held_playlist.induct)
     (auto intro: parse_playlist_wf merge_playlist_wf merge_tail_wf mark_gap_wf)

definition demo_string :: string where
  "demo_string = ''#EXTM3U'' @ [CHR 0x0A] @ ''#EXTINF:2,'' @ [CHR 0x0A] @ replicate 64 (CHR ''a'')"

definition demo_manifest :: bytes where
  "demo_manifest = map (\<lambda>c. of_nat (of_char c)) demo_string"

lemma from_utf8_ascii:
  "list_all (\<lambda>c. of_char c < (128 :: nat)) s \<Longrightarrow> from_utf8 (map (\<lambda>c. of_nat (of_char c)) s) = Some (codes s)"
proof (induction s)
  case (Cons c s)
  let ?n = "of_char c :: nat"
  have "?n < 128" using Cons.prems by simp
  then have "unat (of_nat ?n :: u8) = ?n" "(of_nat ?n :: u8) < 0x80"
    by (simp_all add: unat_of_nat word_less_nat_alt)
  then show ?case using Cons by (simp add: codes_def)
qed (simp add: codes_def)

lemma demo_lines: "lines (codes demo_string) = [codes ''#EXTM3U'', codes ''#EXTINF:2,'', replicate 64 97]"
  by (simp add: demo_string_def codes_def lines.simps strip_cr_def)

lemmas demo_text = strip_prefix_def codes_def Let_def trim_def trim_start_def is_whitespace_def
  HLS_HEADER_def HLS_GAP_def

lemma round_two: "round_mag False 2 = F64Fin False 2"
  by (simp add: round_mag_def ulp_of_def lead_exp_def ilog2.simps pow2i_def round_half_even_def Let_def)

lemma demo_extinf: "parse_extinf (codes ''2,'') = Some (F64Fin False 2)"
  by (simp add: demo_text parse_extinf_def parse_f64_def ascii_lower_code_def parse_decimal_def is_digit_def
      digits_value_def parse_exponent_def round_two f64_zero_def)

lemma demo_reference: "swarm_reference (replicate 64 97) = Some (replicate 64 97)"
  "trim (replicate 64 97) = replicate 64 97" "hd (replicate 64 (97 :: nat)) \<noteq> 35"
  "strip_prefix ''#EXTINF:'' (replicate 64 97) = None"
  "strip_prefix ''#EXT-X-MEDIA-SEQUENCE:'' (replicate 64 97) = None"
  "strip_prefix ''#EXT-X-DISCONTINUITY-SEQUENCE:'' (replicate 64 97) = None"
  "strip_prefix ''#EXT-X-TARGETDURATION:'' (replicate 64 97) = None"
  by (simp_all add: demo_text swarm_reference_def is_hex_reference_def trim_end_slashes_def list_all_iff
      is_ascii_hexdigit_def)

lemma demo_not_tag: "replicate 64 97 \<noteq> HLS_GAP" "replicate 64 97 \<noteq> codes ''#EXT-X-DISCONTINUITY''"
  by (auto simp: demo_text dest: arg_cong [of _ _ length])

lemma demo_header:
  "trim (codes ''#EXTM3U'') = HLS_HEADER" "codes ''#EXTM3U'' \<noteq> HLS_GAP" "HLS_HEADER \<noteq> HLS_GAP"
  "HLS_HEADER \<noteq> codes ''#EXT-X-DISCONTINUITY''" "hd HLS_HEADER = 35"
  "strip_prefix ''#EXTINF:'' HLS_HEADER = None"
  "strip_prefix ''#EXT-X-MEDIA-SEQUENCE:'' HLS_HEADER = None"
  "strip_prefix ''#EXT-X-DISCONTINUITY-SEQUENCE:'' HLS_HEADER = None"
  "strip_prefix ''#EXT-X-TARGETDURATION:'' HLS_HEADER = None"
  "trim (codes ''#EXTINF:2,'') = codes ''#EXTINF:2,''"
  "strip_prefix ''#EXTINF:'' (codes ''#EXTINF:2,'') = Some (codes ''2,'')"
  "strip_prefix ''#EXT-X-MEDIA-SEQUENCE:'' (codes ''#EXTINF:2,'') = None"
  "strip_prefix ''#EXT-X-DISCONTINUITY-SEQUENCE:'' (codes ''#EXTINF:2,'') = None"
  "strip_prefix ''#EXT-X-TARGETDURATION:'' (codes ''#EXTINF:2,'') = None"
  by (simp_all add: demo_text)

lemma demo_parses:
  "\<exists>p. parse_playlist demo_manifest = Some p \<and> hls_sequence p = 0 \<and> length (hls_segments p) = 1 \<and>
    \<not> seg_gap (hd (hls_segments p)) \<and> \<not> hls_finalized p"
proof -
  have utf8: "from_utf8 demo_manifest = Some (codes demo_string)"
    unfolding demo_manifest_def by (rule from_utf8_ascii) (simp add: demo_string_def list_all_iff)
  have trimmed: "trim_start (codes demo_string) = codes demo_string"
    by (simp add: trim_start_def demo_string_def codes_def is_whitespace_def)
  obtain c cs where c: "codes demo_string = c # cs" "c \<noteq> 0xFEFF"
    by (simp add: demo_string_def codes_def)
  have "is_hls_text (codes demo_string)"
    using trimmed demo_lines demo_header(1) c by (simp add: is_hls_text_def)
  then have hls: "is_hls_manifest demo_manifest"
    by (simp add: is_hls_manifest_def utf8)
  have segs: "\<exists>g. parse_segment_lines (codes demo_string) d = Some [g] \<and> \<not> seg_gap g" for d
    by (simp add: parse_segment_lines_def demo_lines parse_segment_line_def demo_header demo_not_tag demo_reference
        demo_extinf Let_def del: replicate.simps)
  have header: "parse_header_loop (lines (codes demo_string)) h = Some h" for h
    by (simp add: demo_lines parse_header_line_def demo_header demo_not_tag demo_reference Let_def
        del: replicate.simps)
  have open_ended: "\<not> hls_has_terminal_endlist (codes demo_string)"
    by (simp add: hls_has_terminal_endlist_def demo_lines demo_reference del: replicate.simps)
      (auto simp: HLS_ENDLIST_def codes_def dest: arg_cong [of _ _ length])
  obtain g where "parse_segment_lines (codes demo_string) 0 = Some [g]" "\<not> seg_gap g" using segs by blast
  then have "\<exists>p. parse_text (codes demo_string) = Some p \<and> hls_sequence p = 0 \<and> length (hls_segments p) = 1 \<and>
    \<not> seg_gap (hd (hls_segments p)) \<and> \<not> hls_finalized p"
    using open_ended by (simp add: parse_text_def header option_or_def Let_def)
  moreover have "length demo_manifest \<le> MAX_STREAM_FEED_PAYLOAD_BYTES"
    by (simp add: demo_manifest_def demo_string_def MAX_STREAM_FEED_PAYLOAD_BYTES_def)
  ultimately show ?thesis by (simp add: parse_playlist_def hls utf8)
qed

theorem held_playlist_wf_witness:
  "\<exists>p. held_playlist p \<and> playlist_wf p"
proof -
  obtain p where "parse_playlist demo_manifest = Some p" using demo_parses by blast
  then have "held_playlist p" by (rule held_playlist.parsed)
  then show ?thesis using held_playlist_wf by blast
qed

end
