(* ===== verification/Chunks.thy ===== *)
theory Chunks
  imports Conventions "HOL-Library.AList"
begin

text \<open>
  \<open>src/retrieval.rs\<close>, the chunk layer: verification of a reply, decryption and decoding of
  a chunk, the shard padding, and the cache of decoded chunks; with \<open>src/bzz_stream.rs\<close> and
  \<open>src/manifest.rs\<close>, the embedded roots of feed payloads.  Keccak and the curve are
  parameters.  \<open>limit\<close> is \<open>retrieve_decoded_chunk_cache_entries()\<close>, which the
  environment of the process sets.  The statistics counters are words whose addition wraps.
\<close>

section \<open>Data\<close>

record DecodedJoinChunk =
  jc_level :: RedundancyLevel
  jc_span :: u64
  jc_payload :: bytes

record CachedJoinChunk =
  cached_raw :: "bytes option"
  cached_decoded :: "DecodedJoinChunk option"
  cached_generation :: u64

record DecodedChunkCache =
  cc_chunks :: "(bytes \<times> CachedJoinChunk) list"
  cc_order :: "(bytes \<times> u64) list"
  cc_generation :: u64
  cc_hits :: u64
  cc_misses :: u64
  cc_inserts :: u64
  cc_evictions :: u64
  cc_hit_bytes :: u64

definition CHUNK_WITH_SPAN_SIZE :: usize where
  "CHUNK_WITH_SPAN_SIZE = SPAN_SIZE + CHUNK_SIZE"

definition MAX_MANIFEST_PAYLOAD_BYTES :: usize where
  "MAX_MANIFEST_PAYLOAD_BYTES = 17 * 1024 * 1024"

text \<open>
  The layout functions return for every span, which \<open>reference_layout_returns\<close> shows; their
  outer option is then always \<open>Some\<close>.
\<close>

definition returned :: "'a option option \<Rightarrow> 'a option" where
  "returned x = (case x of None \<Rightarrow> None | Some y \<Rightarrow> y)"

section \<open>Verification\<close>

definition verify_chunk_with ::
  "(bytes \<Rightarrow> bytes) \<Rightarrow> 'sig ecdsa \<Rightarrow> bytes \<Rightarrow> bytes \<Rightarrow> ChunkShape \<Rightarrow> bool \<Rightarrow> bool \<times> bool" where
  "verify_chunk_with keccak curve caddr cd expect verify =
     (case expect of
        Soc \<Rightarrow> let soc = valid_soc keccak curve cd caddr in (soc, soc)
      | Cac \<Rightarrow> if verify then (valid_cac keccak cd caddr, False)
               else (chunk_structurally_usable cd, False))"

section \<open>Decryption\<close>

definition chunk_address_parts :: "bytes \<Rightarrow> bytes \<times> bytes \<times> bool" where
  "chunk_address_parts chunk_address =
     (if length chunk_address = 64 then (take 32 chunk_address, drop 32 chunk_address, True)
      else (chunk_address, [], False))"

text \<open>Bytes beyond the mask are left as they are, as \<open>zip\<close> leaves them.\<close>

definition xor_mask :: "bytes \<Rightarrow> bytes \<Rightarrow> bytes" where
  "xor_mask segment mask_bytes = map2 (XOR) segment mask_bytes @ drop (length mask_bytes) segment"

definition segment_key :: "(bytes \<Rightarrow> bytes) \<Rightarrow> bytes \<Rightarrow> nat \<Rightarrow> bytes" where
  "segment_key keccak key counter =
     (case encryption_segment_key keccak key (word_of_nat counter) of Some k \<Rightarrow> k | None \<Rightarrow> [])"

fun xor_segments :: "(bytes \<Rightarrow> bytes) \<Rightarrow> bytes \<Rightarrow> nat \<Rightarrow> bytes list \<Rightarrow> bytes" where
  "xor_segments keccak key segment_index [] = []"
| "xor_segments keccak key segment_index (segment # rest) =
     xor_mask segment (segment_key keccak key segment_index)
       @ xor_segments keccak key (Suc segment_index) rest"

definition decrypt_join_chunk :: "(bytes \<Rightarrow> bytes) \<Rightarrow> bytes \<Rightarrow> bytes \<Rightarrow> bytes option" where
  "decrypt_join_chunk keccak raw key =
     (if length raw < SPAN_SIZE \<or> length key \<noteq> HASH_SIZE then None
      else Some (xor_mask (take SPAN_SIZE raw) (segment_key keccak key (CHUNK_SIZE div length key))
                 @ xor_segments keccak key 0 (chunks (length key) (drop SPAN_SIZE raw))))"

text \<open>
  The loop of \<open>decrypt\<close> that finds how many references an intermediate chunk holds.  A
  division by zero or an overflowing product would be a panic, the inner \<open>None\<close>; the outer
  one would mean that the loop does not end.
\<close>

definition div_ceil_u64 :: "u64 \<Rightarrow> u64 \<Rightarrow> u64" where
  "div_ceil_u64 a b = a div b + (if a mod b = 0 then 0 else 1)"

partial_function (option) carry_loop :: "u64 \<Rightarrow> u64 \<Rightarrow> u64 option option" where
  "carry_loop span_decrypted carry_span =
     (if carry_span = 0 then Some None
      else let carried = div_ceil_u64 span_decrypted carry_span in
        if carried \<le> 64 then Some (checked_mul carried 64)
        else (case checked_mul carry_span 64 of
                None \<Rightarrow> Some None
              | Some carry' \<Rightarrow> carry_loop span_decrypted carry'))"

declare carry_loop.simps [code]

definition normalised_span :: "u64 \<Rightarrow> u64 option option" where
  "normalised_span span_decrypted =
     (if unat span_decrypted \<le> CHUNK_SIZE then Some (Some span_decrypted)
      else carry_loop span_decrypted (word_of_nat CHUNK_SIZE))"

definition decrypt :: "(bytes \<Rightarrow> bytes) \<Rightarrow> bytes \<Rightarrow> bytes \<Rightarrow> bytes option option" where
  "decrypt keccak chunk encryption_key =
     (case decrypt_join_chunk keccak chunk encryption_key of
        None \<Rightarrow> Some (Some [])
      | Some decrypted \<Rightarrow>
          map_option (map_option (\<lambda>span.
              let decrypted_len = SPAN_SIZE + unat span in
              if length decrypted < decrypted_len then [] else take decrypted_len decrypted))
            (normalised_span (from_le_bytes (take SPAN_SIZE decrypted))))"

definition decode_retrieved_chunk ::
  "(bytes \<Rightarrow> bytes) \<Rightarrow> bytes \<Rightarrow> bool \<Rightarrow> bytes \<Rightarrow> bool \<Rightarrow> bytes option option" where
  "decode_retrieved_chunk keccak chunk soc encryption_key encrypted =
     (if encrypted then
        (if soc then
           (if length chunk < 97 then Some (Some [])
            else map_option (map_option (\<lambda>decrypted. if 8 \<le> length decrypted then decrypted else []))
                   (decrypt keccak (drop 97 chunk) encryption_key))
         else decrypt keccak chunk encryption_key)
      else Some (Some (if soc \<and> 97 + 8 \<le> length chunk then drop 97 chunk else chunk)))"

section \<open>Decoding\<close>

definition chunk_payload_len :: "u64 \<Rightarrow> RedundancyLevel \<Rightarrow> bool \<Rightarrow> usize option" where
  "chunk_payload_len span level encrypted =
     (if unat span \<le> CHUNK_SIZE then Some (unat span)
      else returned (encoded_reference_payload_len span level encrypted))"

definition canonical_plain_chunk :: "bytes \<Rightarrow> bool \<Rightarrow> DecodedJoinChunk option" where
  "canonical_plain_chunk plain encrypted = do {
     (level, span) \<leftarrow> decode_span plain;
     payload_len \<leftarrow> chunk_payload_len span level encrypted;
     chunk_len \<leftarrow> usize_checked_add SPAN_SIZE payload_len;
     if length plain < chunk_len then None
     else Some \<lparr>jc_level = level, jc_span = span, jc_payload = drop SPAN_SIZE (take chunk_len plain)\<rparr> }"

definition decode_shared_raw_join_chunk ::
  "(bytes \<Rightarrow> bytes) \<Rightarrow> bytes \<Rightarrow> bytes \<Rightarrow> DecodedJoinChunk option" where
  "decode_shared_raw_join_chunk keccak raw reference =
     (if length reference \<noteq> HASH_SIZE \<and> length reference \<noteq> ENCRYPTED_REFERENCE_SIZE then None
      else if \<not> (SPAN_SIZE \<le> length raw \<and> length raw \<le> CHUNK_WITH_SPAN_SIZE) then None
      else if length reference = ENCRYPTED_REFERENCE_SIZE
      then Option.bind (decrypt_join_chunk keccak raw (drop HASH_SIZE reference))
             (\<lambda>plain. canonical_plain_chunk plain True)
      else canonical_plain_chunk raw False)"

definition padded_rs_shard :: "bytes \<Rightarrow> bytes option" where
  "padded_rs_shard chunk =
     (if SPAN_SIZE \<le> length chunk \<and> length chunk \<le> CHUNK_WITH_SPAN_SIZE
      then Some (resize CHUNK_WITH_SPAN_SIZE 0 chunk) else None)"

section \<open>Embedded roots of feed payloads\<close>

record FeedPayloadRoot =
  fp_root :: DecodedJoinChunk
  fp_encrypted :: bool

definition manifest_payload_size_allowed :: "u64 \<Rightarrow> bool" where
  "manifest_payload_size_allowed sz = (unat sz \<le> MAX_MANIFEST_PAYLOAD_BYTES)"

definition embedded_join_root :: "bytes \<Rightarrow> bool \<Rightarrow> DecodedJoinChunk option" where
  "embedded_join_root data encrypted = do {
     (level, span) \<leftarrow> decode_span data;
     payload_len \<leftarrow> chunk_payload_len span level encrypted;
     stop \<leftarrow> usize_checked_add 8 payload_len;
     if length data \<noteq> stop then None
     else Some \<lparr>jc_level = level, jc_span = span, jc_payload = drop 8 (take stop data)\<rparr> }"

definition feed_root_as :: "bytes \<Rightarrow> bool \<Rightarrow> FeedPayloadRoot option" where
  "feed_root_as update encrypted = do {
     r \<leftarrow> embedded_join_root update encrypted;
     if manifest_payload_size_allowed (jc_span r)
     then Some \<lparr>fp_root = r, fp_encrypted = encrypted\<rparr> else None }"

definition decode_feed_payload_root :: "bytes \<Rightarrow> FeedPayloadRoot option" where
  "decode_feed_payload_root update =
     (case feed_root_as update False of Some r \<Rightarrow> Some r | None \<Rightarrow> feed_root_as update True)"

section \<open>The cache of decoded chunks\<close>

definition cache_default :: DecodedChunkCache where
  "cache_default = \<lparr>cc_chunks = [], cc_order = [], cc_generation = 0, cc_hits = 0, cc_misses = 0,
     cc_inserts = 0, cc_evictions = 0, cc_hit_bytes = 0\<rparr>"

definition order_entry_live :: "(bytes \<times> CachedJoinChunk) list \<Rightarrow> bytes \<times> u64 \<Rightarrow> bool" where
  "order_entry_live chs entry =
     (case map_of chs (fst entry) of None \<Rightarrow> False | Some e \<Rightarrow> cached_generation e = snd entry)"

definition compact_order_if_needed :: "usize \<Rightarrow> DecodedChunkCache \<Rightarrow> DecodedChunkCache" where
  "compact_order_if_needed limit cache =
     (if length (cc_order cache) < max (min (limit * 2) (usize_bound - 1)) 2 then cache
      else cache\<lparr>cc_order := filter (order_entry_live (cc_chunks cache)) (cc_order cache)\<rparr>)"

text \<open>The eviction loop takes one entry off the order per turn, so it recurses over the order.\<close>

fun evict_loop ::
  "usize \<Rightarrow> (bytes \<times> CachedJoinChunk) list \<Rightarrow> u64 \<Rightarrow> (bytes \<times> u64) list \<Rightarrow>
   (bytes \<times> CachedJoinChunk) list \<times> u64 \<times> (bytes \<times> u64) list" where
  "evict_loop limit chs evictions [] = (chs, evictions, [])"
| "evict_loop limit chs evictions (expired # order) =
     (if \<not> limit < length chs then (chs, evictions, expired # order)
      else if order_entry_live chs expired
      then evict_loop limit (AList.delete (fst expired) chs) (evictions + 1) order
      else evict_loop limit chs evictions order)"

definition finish_touch :: "usize \<Rightarrow> bytes \<Rightarrow> u64 \<Rightarrow> DecodedChunkCache \<Rightarrow> DecodedChunkCache" where
  "finish_touch limit reference generation cache =
     (let cache1 = compact_order_if_needed limit cache;
          (chs, evictions, order) = evict_loop limit (cc_chunks cache1) (cc_evictions cache1)
             (cc_order cache1 @ [(reference, generation)])
      in cache1\<lparr>cc_chunks := chs, cc_evictions := evictions, cc_order := order\<rparr>)"

definition cc_get_raw :: "usize \<Rightarrow> bytes \<Rightarrow> DecodedChunkCache \<Rightarrow> bytes option \<times> DecodedChunkCache" where
  "cc_get_raw limit reference cache0 =
     (let generation = cc_generation cache0 + 1; cache = cache0\<lparr>cc_generation := generation\<rparr> in
      case map_of (cc_chunks cache) reference of
        None \<Rightarrow> (None, cache\<lparr>cc_misses := cc_misses cache + 1\<rparr>)
      | Some e \<Rightarrow>
          (let raw = cached_raw e in
           (raw, finish_touch limit reference generation
              (cache\<lparr>cc_hits := cc_hits cache + 1,
                 cc_hit_bytes := cc_hit_bytes cache
                   + (case raw of None \<Rightarrow> 0 | Some r \<Rightarrow> word_of_nat (length r)),
                 cc_chunks := AList.update reference (e\<lparr>cached_generation := generation\<rparr>)
                   (cc_chunks cache)\<rparr>))))"

definition decode_entry :: "(bytes \<Rightarrow> bytes) \<Rightarrow> bytes \<Rightarrow> CachedJoinChunk \<Rightarrow> DecodedJoinChunk option" where
  "decode_entry keccak reference e =
     (case cached_decoded e of
        Some d \<Rightarrow> Some d
      | None \<Rightarrow> Option.bind (cached_raw e) (\<lambda>raw. decode_shared_raw_join_chunk keccak raw reference))"

definition cc_get_decoded ::
  "(bytes \<Rightarrow> bytes) \<Rightarrow> usize \<Rightarrow> bytes \<Rightarrow> bool \<Rightarrow> DecodedChunkCache \<Rightarrow>
   (DecodedJoinChunk \<times> bytes option) option \<times> DecodedChunkCache" where
  "cc_get_decoded keccak limit reference include_raw cache0 =
     (let generation = cc_generation cache0 + 1; cache = cache0\<lparr>cc_generation := generation\<rparr> in
      case map_of (cc_chunks cache) reference of
        None \<Rightarrow> (None, cache\<lparr>cc_misses := cc_misses cache + 1\<rparr>)
      | Some e \<Rightarrow>
          (let decoded = decode_entry keccak reference e;
               raw = (if include_raw then cached_raw e else None) in
           (map_option (\<lambda>d. (d, raw)) decoded, finish_touch limit reference generation
              (cache\<lparr>cc_hits := cc_hits cache + 1,
                 cc_hit_bytes := cc_hit_bytes cache
                   + (case decoded of None \<Rightarrow> 0 | Some d \<Rightarrow> word_of_nat (length (jc_payload d))),
                 cc_chunks := AList.update reference
                   (e\<lparr>cached_generation := generation, cached_decoded := decoded\<rparr>)
                   (cc_chunks cache)\<rparr>))))"

definition option_else :: "'a option \<Rightarrow> 'a option \<Rightarrow> 'a option" where
  "option_else a b = (case a of None \<Rightarrow> b | Some x \<Rightarrow> Some x)"

definition cc_insert ::
  "usize \<Rightarrow> bytes \<Rightarrow> bytes option \<Rightarrow> DecodedJoinChunk option \<Rightarrow> DecodedChunkCache \<Rightarrow> DecodedChunkCache" where
  "cc_insert limit reference raw decoded cache0 =
     (let generation = cc_generation cache0 + 1;
          cache = cache0\<lparr>cc_generation := generation, cc_inserts := cc_inserts cache0 + 1\<rparr>;
          e = (case map_of (cc_chunks cache) reference of
                 None \<Rightarrow> \<lparr>cached_raw = None, cached_decoded = None, cached_generation = 0\<rparr>
               | Some e \<Rightarrow> e)
      in finish_touch limit reference generation
           (cache\<lparr>cc_chunks := AList.update reference
              \<lparr>cached_raw = option_else (cached_raw e) raw,
               cached_decoded = option_else decoded (cached_decoded e),
               cached_generation = generation\<rparr> (cc_chunks cache)\<rparr>))"

definition cc_insert_raw :: "usize \<Rightarrow> bytes \<Rightarrow> bytes \<Rightarrow> DecodedChunkCache \<Rightarrow> DecodedChunkCache" where
  "cc_insert_raw limit reference raw = cc_insert limit reference (Some raw) None"

definition cc_insert_decoded ::
  "usize \<Rightarrow> bytes \<Rightarrow> DecodedJoinChunk \<Rightarrow> DecodedChunkCache \<Rightarrow> DecodedChunkCache" where
  "cc_insert_decoded limit reference chunk = cc_insert limit reference None (Some chunk)"

section \<open>Facts about decoding\<close>

lemma reference_layout_returns: "\<exists>r. reference_layout span level encrypted = Some r"
proof -
  have "2 \<le> unat (word_of_nat (max_shards level encrypted) :: u64)"
    using max_shards_bounds [of level encrypted] by (simp add: unat_of_nat)
  then obtain h where
    "branch_loop (word_of_nat (max_shards level encrypted)) span (word_of_nat CHUNK_SIZE) 1 = Some h"
    using branch_loop_spec [of "word_of_nat (max_shards level encrypted)" "word_of_nat CHUNK_SIZE" span 1]
    by (auto simp: sizes)
  then show ?thesis by (simp add: reference_layout_def)
qed

lemma encoded_reference_payload_len_returns:
  "\<exists>r. encoded_reference_payload_len span level encrypted = Some r"
  using reference_layout_returns [of span level encrypted]
  by (auto simp: encoded_reference_payload_len_def reference_count_def)

lemma length_xor_mask [simp]: "length (xor_mask segment mask_bytes) = length segment"
  by (simp add: xor_mask_def)

lemma xor_mask_Nil [simp]: "xor_mask segment mask_bytes = [] \<longleftrightarrow> segment = []"
  by (simp add: length_0_conv [symmetric] del: length_0_conv)

lemma xor_mask_nth:
  "i < length segment \<Longrightarrow> xor_mask segment mask_bytes ! i =
     (if i < length mask_bytes then segment ! i XOR mask_bytes ! i else segment ! i)"
  by (auto simp: xor_mask_def nth_append min_def)

lemma xor_mask_twice [simp]: "xor_mask (xor_mask segment mask_bytes) mask_bytes = segment"
  by (rule nth_equalityI) (auto simp: xor_mask_nth xor.assoc)

lemma length_xor_segments [simp]: "length (xor_segments keccak key i segments) = length (concat segments)"
  by (induction segments arbitrary: i) auto

lemma concat_chunks: "0 < n \<Longrightarrow> concat (chunks n xs) = xs"
  by (induction n xs rule: chunks.induct) (simp add: chunks.simps)

lemma chunks_append: "0 < n \<Longrightarrow> length a = n \<Longrightarrow> chunks n (a @ b) = a # chunks n b"
  by (subst chunks.simps) auto

lemma chunks_short: "0 < n \<Longrightarrow> a \<noteq> [] \<Longrightarrow> length a \<le> n \<Longrightarrow> chunks n a = [a]"
  by (subst chunks.simps) auto

lemma xor_segments_twice:
  "0 < n \<Longrightarrow> xor_segments keccak key i (chunks n (xor_segments keccak key i (chunks n xs))) = xs"
proof (induction n xs arbitrary: i rule: chunks.induct)
  case (1 n xs)
  show ?case
  proof (cases "xs = []")
    case False
    let ?a = "xor_mask (take n xs) (segment_key keccak key i)"
    let ?b = "xor_segments keccak key (Suc i) (chunks n (drop n xs))"
    have step: "xor_segments keccak key i (chunks n xs) = ?a @ ?b"
      using False "1.prems" by (subst chunks.simps) simp
    show ?thesis
    proof (cases "length xs \<le> n")
      case True
      then have "?b = []" and "chunks n ?a = [?a]" and "take n xs = xs"
        using False "1.prems" by (auto intro: chunks_short)
      then show ?thesis by (simp add: step)
    next
      case long: False
      then have "chunks n (?a @ ?b) = ?a # chunks n ?b" using "1.prems" by (intro chunks_append) auto
      then show ?thesis using "1.IH" [of "Suc i"] "1.prems" False by (simp add: step)
    qed
  qed simp
qed

lemma decrypt_join_chunk_Some:
  "decrypt_join_chunk keccak raw key = Some plain \<Longrightarrow>
     length plain = length raw \<and> decrypt_join_chunk keccak plain key = Some raw"
  by (auto simp: decrypt_join_chunk_def concat_chunks xor_segments_twice sizes split: if_splits)

lemma ceil_div_eq:
  assumes "0 < (b :: nat)" shows "(a + (b - 1)) div b = a div b + (if a mod b = 0 then 0 else 1)"
proof -
  have "a + (b - 1) = b * (a div b) + (a mod b + (b - 1))" by simp
  then have "(a + (b - 1)) div b = a div b + (a mod b + (b - 1)) div b"
    using assms by (metis div_mult_self4 add.commute not_less0)
  moreover have "(a mod b + (b - 1)) div b = (if a mod b = 0 then 0 else 1)"
  proof (cases "a mod b = 0")
    case False
    then obtain r where r: "a mod b = Suc r" by (cases "a mod b") auto
    moreover have "a mod b < b" using assms by simp
    ultimately have "a mod b + (b - 1) = r + b" "r < b" by linarith+
    moreover have "(r + b) div b = r div b + 1" using assms by (intro div_add_self2) simp
    ultimately show ?thesis using False by simp
  qed (use assms in simp)
  ultimately show ?thesis by simp
qed

lemma unat_div_ceil_u64:
  assumes "0 < unat b" shows "unat (div_ceil_u64 a b) = (unat a + (unat b - 1)) div unat b"
proof -
  have mod: "(a mod b = 0) = (unat a mod unat b = 0)"
    by (simp add: unat_mod [symmetric] unat_eq_zero)
  note ceil_div_eq [OF assms, of "unat a"]
  moreover have "unat a div unat b + 1 < 2 ^ 64 \<or> unat a mod unat b = 0"
  proof (cases "unat b = 1")
    case False
    then have "unat a div unat b \<le> unat a div 2" using assms by (intro div_le_mono2) auto
    moreover have "unat a div 2 \<le> 18446744073709551615 div 2" by (intro div_le_mono u64_le_max)
    ultimately show ?thesis by simp
  qed simp
  moreover have "unat a div unat b < 18446744073709551616"
    by (rule le_less_trans [OF div_le_dividend u64_bound])
  ultimately show ?thesis
    by (auto simp: div_ceil_u64_def mod unat_div unat_word_ariths)
qed

text \<open>Eight products at most: the carry span starts at one chunk and the span is a word.\<close>

definition carry :: "nat \<Rightarrow> nat" where
  "carry k = CHUNK_SIZE * 64 ^ k"

lemma carry_values: "k \<le> 8 \<Longrightarrow> 0 < carry k \<and> carry k < 2 ^ 64 \<and> carry (Suc k) = 64 * carry k"
proof -
  assume "k \<le> 8"
  then have "carry k \<le> carry 8" unfolding carry_def by (intro mult_le_mono2 power_increasing) auto
  then show ?thesis by (simp add: carry_def sizes)
qed

lemma ceil_le_iff:
  assumes "0 < (b :: nat)" shows "(a + (b - 1)) div b \<le> n \<longleftrightarrow> a \<le> n * b"
proof -
  have "(a + (b - 1)) div b \<le> n \<longleftrightarrow> a + (b - 1) < Suc n * b"
    using assms by (simp add: less_Suc_eq_le [symmetric] div_less_iff_less_mult)
  then show ?thesis using assms by auto
qed

lemma carry_loop_spec:
  assumes "k \<le> 8" "unat c = carry k"
  shows "\<exists>j \<ge> k. j \<le> 8 \<and> (\<forall>i \<ge> k. i < j \<longrightarrow> carry (Suc i) < unat span) \<and> unat span \<le> carry (Suc j) \<and>
    (\<exists>r. carry_loop span c = Some (Some r) \<and> unat r = 64 * ((unat span + (carry j - 1)) div carry j))"
  using assms
proof (induction "8 - k" arbitrary: k c rule: less_induct)
  case less
  note cv = carry_values [OF less.prems(1)]
  have c: "c \<noteq> 0" "unat (div_ceil_u64 span c) = (unat span + (carry k - 1)) div carry k"
    using less.prems(2) cv by (auto simp: unat_div_ceil_u64 unat_eq_zero [symmetric])
  have small: "div_ceil_u64 span c \<le> 64 \<longleftrightarrow> unat span \<le> carry (Suc k)"
    using ceil_le_iff [of "carry k" "unat span" 64] cv c(2) by (simp add: word_le_nat_alt)
  show ?case
  proof (cases "unat span \<le> carry (Suc k)")
    case True
    then have "unat (div_ceil_u64 span c) \<le> 64" using small by (simp add: word_le_nat_alt)
    then obtain r where r: "checked_mul (div_ceil_u64 span c) 64 = Some r"
      by (cases "checked_mul (div_ceil_u64 span c) 64") (auto simp: checked_mul_None)
    then have "unat r = 64 * ((unat span + (carry k - 1)) div carry k)"
      by (simp add: checked_mul_Some c(2))
    moreover have "carry_loop span c = Some (Some r)"
      using True small c(1) r by (subst carry_loop.simps) (simp add: Let_def)
    ultimately show ?thesis using True less.prems(1) by (intro exI [of _ k]) simp
  next
    case False
    have "k \<noteq> 8"
      using False u64_le_max [of span] by (auto simp: carry_def sizes simp del: u64_le_max)
    then have k: "Suc k \<le> 8" "8 - Suc k < 8 - k" using less.prems(1) by auto
    obtain c' where c': "checked_mul c 64 = Some c'"
      using carry_values [OF k(1)] cv less.prems(2)
      by (cases "checked_mul c 64") (auto simp: checked_mul_None)
    then have "unat c' = carry (Suc k)" using cv less.prems(2) by (simp add: checked_mul_Some)
    from less.hyps [OF k(2,1) this] obtain j r where
      j: "Suc k \<le> j" "j \<le> 8" "\<forall>i \<ge> Suc k. i < j \<longrightarrow> carry (Suc i) < unat span"
        "unat span \<le> carry (Suc j)" "carry_loop span c' = Some (Some r)"
        "unat r = 64 * ((unat span + (carry j - 1)) div carry j)" by blast
    have "carry_loop span c = Some (Some r)"
      using False small c(1) c' j(5) by (subst carry_loop.simps) (simp add: Let_def)
    moreover have "carry (Suc i) < unat span" if "k \<le> i" "i < j" for i
      using False j(3) that by (cases "i = k") auto
    ultimately show ?thesis using j by (intro exI [of _ j]) auto
  qed
qed

text \<open>The loop of \<open>decrypt\<close> computes the payload length of an unprotected encrypted chunk.\<close>

lemma carry_index:
  assumes "unat span \<le> carry (Suc j)" "\<forall>i < j. carry (Suc i) < unat span"
    "unat span \<le> carry (Suc h)" "carry h < unat span" "CHUNK_SIZE < unat span"
  shows "j = h"
proof (rule ccontr)
  have mono: "carry a \<le> carry b" if "a \<le> b" for a b
    unfolding carry_def using that by (intro mult_le_mono2 power_increasing) auto
  assume "j \<noteq> h"
  then consider "j < h" | "h < j" by linarith
  then show False
  proof cases
    case 1
    then show ?thesis using mono [of "Suc j" h] assms(1,4) by simp
  next
    case 2
    then show ?thesis using assms(2,3) by force
  qed
qed

lemma normalised_span_layout:
  assumes "unat span < 2 ^ 57"
  shows "\<exists>n. normalised_span span = Some (Some n) \<and> chunk_payload_len span Level_None True = Some (unat n) \<and>
    unat n \<le> CHUNK_SIZE"
proof (cases "unat span \<le> CHUNK_SIZE")
  case True
  then show ?thesis by (simp add: normalised_span_def chunk_payload_len_def)
next
  case False
  then have big: "CHUNK_SIZE < unat span" by simp
  from reference_layout_spec [OF big assms, of Level_None True] obtain layout h where
    l0: "reference_layout span Level_None True = Some (Some layout)"
      "unat (child_capacity layout) = CHUNK_SIZE * max_shards Level_None True ^ h"
      "unat (child_capacity layout) < unat span"
      "unat span \<le> unat (child_capacity layout) * max_shards Level_None True"
      "data_shards layout = (unat span + (unat (child_capacity layout) - 1)) div unat (child_capacity layout)"
      "parity_shards layout = parities Level_None (data_shards layout) True" by blast
  have "unat (child_capacity layout) = carry h" using l0(2) by (simp add: carry_def max_shards_value)
  with l0 have l: "reference_layout span Level_None True = Some (Some layout)"
      "unat (child_capacity layout) = carry h" "carry h < unat span" "unat span \<le> carry (Suc h)"
      "data_shards layout = (unat span + (carry h - 1)) div carry h" "parity_shards layout = 0"
    by (simp_all add: carry_def max_shards_value parities_def mult.commute mult.left_commute)
  obtain j r where j: "j \<le> 8" "\<forall>i < j. carry (Suc i) < unat span" "unat span \<le> carry (Suc j)"
      "carry_loop span (word_of_nat CHUNK_SIZE) = Some (Some r)"
      "unat r = 64 * ((unat span + (carry j - 1)) div carry j)"
    using carry_loop_spec [of 0 "word_of_nat CHUNK_SIZE" span] by (auto simp: carry_def sizes)
  have "j = h" using carry_index [OF j(3,2) l(4,3) big] .
  then have r: "unat r = data_shards layout * ENCRYPTED_REFERENCE_SIZE" using j(5) l(5) by (simp add: sizes)
  have "data_shards layout \<le> 64"
    using l(4,5) carry_values [OF j(1)] ceil_le_iff [of "carry h" "unat span" 64] \<open>j = h\<close> by simp
  then have "unat r \<le> CHUNK_SIZE" using r by (simp add: sizes)
  moreover have "encoded_reference_payload_len span Level_None True = Some (Some (unat r))"
    using l(1,6) r calculation
    by (simp add: encoded_reference_payload_len_def reference_count_def payload_len_Some
        data_reference_size_def usize_bound_def sizes)
  ultimately show ?thesis
    using False j(4) by (simp add: normalised_span_def chunk_payload_len_def returned_def)
qed


definition demo_plain :: bytes where
  "demo_plain = to_le_bytes 2 @ [7, 9, 0, 0]"


end
