(* ===== verification/ChunkCache.thy ===== *)
theory ChunkCache
  imports Chunks
begin

text \<open>
  The cache of decoded chunks is a bounded least-recently-used map.  The code keeps a queue of
  touches with generations, in which an entry is live when the chunk still has the generation of
  the touch, and evicts from the front of the queue; the abstract cache is the list of the live
  keys, least recently used first, with the contents.
\<close>

section \<open>Live entries\<close>

definition live_keys :: "(bytes \<times> CachedJoinChunk) list \<Rightarrow> (bytes \<times> u64) list \<Rightarrow> bytes list" where
  "live_keys chs order = map fst (filter (order_entry_live chs) order)"

definition queue_inv :: "(bytes \<times> CachedJoinChunk) list \<Rightarrow> (bytes \<times> u64) list \<Rightarrow> bool" where
  "queue_inv chs order \<longleftrightarrow> distinct (map fst chs) \<and> distinct (live_keys chs order) \<and>
     set (live_keys chs order) = fst ` set chs"

lemma live_keys_simps [simp]:
  "live_keys chs [] = []"
  "live_keys chs (e # order) = (if order_entry_live chs e then [fst e] else []) @ live_keys chs order"
  "live_keys chs (o1 @ o2) = live_keys chs o1 @ live_keys chs o2"
  by (auto simp: live_keys_def)

lemma length_live_keys:
  assumes "queue_inv chs order" shows "length (live_keys chs order) = length chs"
proof -
  have "length (live_keys chs order) = card (fst ` set chs)"
    using assms by (metis distinct_card queue_inv_def)
  also have "\<dots> = length chs"
    using assms by (metis distinct_card length_map list.set_map queue_inv_def)
  finally show ?thesis .
qed

lemma map_of_delete [simp]: "map_of (AList.delete k chs) = (map_of chs)(k := None)"
  by (rule AList.delete_conv')

lemma live_keys_delete:
  assumes "k \<notin> set (live_keys chs order)"
  shows "live_keys (AList.delete k chs) order = live_keys chs order"
  using assms
  by (induction order) (auto simp: order_entry_live_def split: if_splits option.splits)

lemma distinct_fst_delete: "distinct (map fst chs) \<Longrightarrow> distinct (map fst (AList.delete k chs))"
  by (simp add: AList.distinct_delete)

lemma length_delete:
  assumes "distinct (map fst chs)" "k \<in> fst ` set chs"
  shows "length (AList.delete k chs) = length chs - 1"
proof -
  have "length (AList.delete k chs) = card (fst ` set (AList.delete k chs))"
    using distinct_fst_delete [OF assms(1), of k] by (metis distinct_card length_map list.set_map)
  also have "fst ` set (AList.delete k chs) = fst ` set chs - {k}"
    using AList.delete_keys [of k chs] by (metis list.set_map set_removeAll)
  also have "card \<dots> = length chs - 1"
    using assms by (simp add: card_Diff_singleton) (metis distinct_card length_map list.set_map)
  finally show ?thesis .
qed

lemma evict_loop_spec:
  assumes "queue_inv chs order" "evict_loop limit chs ev order = (chs', ev', order')"
  shows "queue_inv chs' order' \<and> length chs' = min (length chs) limit \<and>
    live_keys chs' order' = drop (length chs - limit) (live_keys chs order) \<and>
    map_of chs' = map_of chs |` set (live_keys chs' order') \<and>
    length order' \<le> length order \<and> set order' \<subseteq> set order"
  using assms
proof (induction limit chs ev order rule: evict_loop.induct)
  case (1 limit chs ev)
  then show ?case by (auto simp: queue_inv_def)
next
  case (2 limit chs ev expired order)
  let ?old = "live_keys chs (expired # order)"
  note inv = "2.prems"(1) and len = length_live_keys [OF "2.prems"(1)]
  have "set ?old = dom (map_of chs)"
    using inv by (simp only: queue_inv_def dom_map_of_conv_image_fst)
  then have same: "map_of chs |` set ?old = map_of chs"
    by (auto simp: restrict_map_def fun_eq_iff domIff)
  consider "\<not> limit < length chs" | "limit < length chs" "order_entry_live chs expired"
    | "limit < length chs" "\<not> order_entry_live chs expired" by blast
  then show ?case
  proof cases
    case 1
    then show ?thesis using inv "2.prems"(2) same by auto
  next
    case 2
    let ?chs = "AList.delete (fst expired) chs"
    have fresh: "fst expired \<notin> set (live_keys chs order)" and mem: "fst expired \<in> fst ` set chs"
      using inv 2(2) by (auto simp: queue_inv_def)
    have keys: "live_keys ?chs order = live_keys chs order" using fresh by (rule live_keys_delete)
    have l: "length ?chs = length chs - 1" using inv mem by (simp add: queue_inv_def length_delete)
    have "fst ` set ?chs = fst ` set chs - {fst expired}"
      using AList.delete_keys [of "fst expired" chs] by (metis list.set_map set_removeAll)
    then have qi: "queue_inv ?chs order"
      using inv 2(2) fresh keys by (auto simp: queue_inv_def distinct_fst_delete)
    have "evict_loop limit ?chs (ev + 1) order = (chs', ev', order')" "\<not> \<not> limit < length chs"
      using 2 "2.prems"(2) by simp_all
    then have IH: "queue_inv chs' order'" "length chs' = min (length ?chs) limit"
        "live_keys chs' order' = drop (length ?chs - limit) (live_keys ?chs order)"
        "map_of chs' = map_of ?chs |` set (live_keys chs' order')"
        "length order' \<le> length order" "set order' \<subseteq> set order"
      using "2.IH"(1) [OF _ 2(2) qi] by blast+
    have "length chs - limit = Suc (length ?chs - limit)" using l 2(1) by simp
    moreover have "fst expired \<notin> set (live_keys chs' order')"
      using IH(3) keys fresh by (auto dest: in_set_dropD)
    then have "map_of chs' = map_of chs |` set (live_keys chs' order')"
      by (subst IH(4)) (auto simp: restrict_map_def fun_eq_iff)
    ultimately show ?thesis
      using IH(1,2,3,5,6) l 2 keys by auto
  next
    case 3
    then have "queue_inv chs order" using inv by (simp add: queue_inv_def)
    from "2.IH"(2) [OF _ 3(2) this] 3 "2.prems"(2) show ?thesis by auto
  qed
qed

section \<open>One touch\<close>

definition abs_keys :: "DecodedChunkCache \<Rightarrow> bytes list" where
  "abs_keys cache = live_keys (cc_chunks cache) (cc_order cache)"

definition order_bound :: "usize \<Rightarrow> nat" where
  "order_bound limit = max (min (limit * 2) (usize_bound - 1)) 2"

text \<open>
  The invariant between operations: the live keys are the cached ones, the cache and the queue
  are bounded, and no queued touch is newer than the current generation.
\<close>

definition cache_inv :: "usize \<Rightarrow> DecodedChunkCache \<Rightarrow> bool" where
  "cache_inv limit cache \<longleftrightarrow> queue_inv (cc_chunks cache) (cc_order cache) \<and>
     length (cc_chunks cache) \<le> limit \<and> length (cc_order cache) \<le> order_bound limit \<and>
     (\<forall>(k, g) \<in> set (cc_order cache). unat g \<le> unat (cc_generation cache))"

text \<open>The abstract touch: the key moves to the back and the oldest keys beyond the limit go.\<close>

definition lru_touch :: "usize \<Rightarrow> bytes \<Rightarrow> bytes list \<Rightarrow> bytes list" where
  "lru_touch limit k keys = (let keys' = removeAll k keys @ [k] in drop (length keys' - limit) keys')"

lemma live_keys_filter [simp]:
  "live_keys chs (filter (order_entry_live chs) order) = live_keys chs order"
  by (induction order) auto

lemma order_entry_live_update:
  "order_entry_live (AList.update k e chs) x =
     (if fst x = k then cached_generation e = snd x else order_entry_live chs x)"
  by (auto simp: order_entry_live_def AList.update_conv')

lemma live_keys_update:
  assumes "\<forall>(x, g) \<in> set order. g \<noteq> cached_generation e"
  shows "live_keys (AList.update k e chs) order = removeAll k (live_keys chs order)"
  using assms by (induction order) (auto simp: order_entry_live_update split: if_splits)

lemma length_filter_live:
  "length (filter (order_entry_live chs) order) = length (live_keys chs order)"
  by (simp add: live_keys_def)

lemma update_keys: "fst ` set (AList.update k e chs) = insert k (fst ` set chs)"
  using AList.dom_update [of k e chs] by (simp add: dom_map_of_conv_image_fst)

text \<open>Compaction keeps the live keys and leaves room for one more entry.\<close>

lemma compact_spec:
  fixes limit cache
  defines "c \<equiv> compact_order_if_needed limit cache"
  assumes "length (live_keys (cc_chunks cache) (cc_order cache)) \<le> limit"
    "length (cc_order cache) \<le> order_bound limit" "limit + 1 < usize_bound"
  shows "cc_chunks c = cc_chunks cache \<and> cc_generation c = cc_generation cache \<and>
    live_keys (cc_chunks cache) (cc_order c) = live_keys (cc_chunks cache) (cc_order cache) \<and>
    length (cc_order c) < order_bound limit \<and> set (cc_order c) \<subseteq> set (cc_order cache)"
proof (cases "length (cc_order cache) < order_bound limit")
  case True
  then show ?thesis by (simp add: c_def compact_order_if_needed_def order_bound_def)
next
  case False
  have "limit < order_bound limit" using assms(4) by (auto simp: order_bound_def)
  with False assms(2) show ?thesis
    by (auto simp: c_def compact_order_if_needed_def order_bound_def length_filter_live)
qed

lemma finish_touch_spec:
  assumes inv: "cache_inv limit cache" and room: "unat (cc_generation cache) + 1 < 2 ^ 64"
    and limit: "limit + 1 < usize_bound" and g: "g = cc_generation cache + 1" "cached_generation e = g"
    and c1: "cc_chunks c1 = AList.update k e (cc_chunks cache)" "cc_order c1 = cc_order cache"
      "cc_generation c1 = g"
  shows "cache_inv limit (finish_touch limit k g c1) \<and>
    abs_keys (finish_touch limit k g c1) = lru_touch limit k (abs_keys cache) \<and>
    map_of (cc_chunks (finish_touch limit k g c1)) =
      (map_of (cc_chunks cache))(k \<mapsto> e) |` set (abs_keys (finish_touch limit k g c1)) \<and>
    cc_generation (finish_touch limit k g c1) = g"
proof -
  let ?chs = "AList.update k e (cc_chunks cache)"
  let ?c2 = "compact_order_if_needed limit c1"
  have ug: "unat g = Suc (unat (cc_generation cache))"
    using room by (simp add: g(1) unat_word_ariths)
  have older: "\<forall>(x, h) \<in> set (cc_order cache). h \<noteq> cached_generation e"
    using inv ug by (auto simp: cache_inv_def g(2))
  note q = inv [unfolded cache_inv_def]
  have keys: "live_keys ?chs (cc_order cache) = removeAll k (abs_keys cache)"
    using live_keys_update [OF older] by (simp add: abs_keys_def)
  have "length (removeAll k (abs_keys cache)) \<le> limit"
    using q length_live_keys [of "cc_chunks cache" "cc_order cache"] length_removeAll_less_eq
    by (metis abs_keys_def order_trans)
  then have c2: "cc_chunks ?c2 = ?chs" "cc_generation ?c2 = g"
      "live_keys ?chs (cc_order ?c2) = removeAll k (abs_keys cache)"
      "length (cc_order ?c2) < order_bound limit" "set (cc_order ?c2) \<subseteq> set (cc_order cache)"
    using compact_spec [of c1 limit] q limit keys by (auto simp: c1)
  let ?order = "cc_order ?c2 @ [(k, g)]"
  have lk: "live_keys ?chs ?order = removeAll k (abs_keys cache) @ [k]"
    by (simp add: c2(3) order_entry_live_update g(2))
  have qi: "queue_inv ?chs ?order"
    unfolding queue_inv_def lk using q
    by (auto simp: queue_inv_def abs_keys_def update_keys AList.distinct_update distinct_removeAll)
  obtain chs ev order where ev: "evict_loop limit ?chs (cc_evictions ?c2) ?order = (chs, ev, order)"
    by (metis prod_cases3)
  note es = evict_loop_spec [OF qi ev]
  have ft: "cc_chunks (finish_touch limit k g c1) = chs" "cc_order (finish_touch limit k g c1) = order"
      "cc_generation (finish_touch limit k g c1) = g"
    using ev by (simp_all add: finish_touch_def Let_def c2)
  have "length ?chs = length (removeAll k (abs_keys cache) @ [k])"
    using length_live_keys [OF qi] unfolding lk by simp
  moreover have "live_keys chs order = drop (length ?chs - limit) (removeAll k (abs_keys cache) @ [k])"
    using es unfolding lk by (elim conjE)
  ultimately have "abs_keys (finish_touch limit k g c1) = lru_touch limit k (abs_keys cache)"
    by (simp only: abs_keys_def [of "finish_touch limit k g c1"] ft lru_touch_def Let_def)
  moreover have "\<forall>(x, h) \<in> set order. unat h \<le> unat g"
    using es c2(5) q ug by fastforce
  ultimately show ?thesis
    using es c2(4) by (auto simp: cache_inv_def ft abs_keys_def AList.update_conv')
qed

section \<open>Operations and the abstract cache\<close>

datatype CacheOp = GetRaw bytes | GetDecoded bytes bool | InsertRaw bytes bytes
  | InsertDecoded bytes DecodedJoinChunk

datatype CacheOut = NoOut | RawOut "bytes option" | DecodedOut "(DecodedJoinChunk \<times> bytes option) option"

fun cache_op ::
  "(bytes \<Rightarrow> bytes) \<Rightarrow> usize \<Rightarrow> CacheOp \<Rightarrow> DecodedChunkCache \<Rightarrow> CacheOut \<times> DecodedChunkCache" where
  "cache_op keccak limit (GetRaw r) c = apfst RawOut (cc_get_raw limit r c)"
| "cache_op keccak limit (GetDecoded r b) c = apfst DecodedOut (cc_get_decoded keccak limit r b c)"
| "cache_op keccak limit (InsertRaw r raw) c = (NoOut, cc_insert_raw limit r raw c)"
| "cache_op keccak limit (InsertDecoded r d) c = (NoOut, cc_insert_decoded limit r d c)"

type_synonym lru_content = "bytes option \<times> DecodedJoinChunk option"
type_synonym lru = "bytes list \<times> (bytes \<rightharpoonup> lru_content)"

definition lru_put :: "usize \<Rightarrow> bytes \<Rightarrow> lru_content \<Rightarrow> lru \<Rightarrow> lru" where
  "lru_put limit k v l =
     (let keys = lru_touch limit k (fst l) in (keys, (snd l)(k \<mapsto> v) |` set keys))"

definition lru_decode :: "(bytes \<Rightarrow> bytes) \<Rightarrow> bytes \<Rightarrow> lru_content \<Rightarrow> DecodedJoinChunk option" where
  "lru_decode keccak k v =
     option_else (snd v) (Option.bind (fst v) (\<lambda>raw. decode_shared_raw_join_chunk keccak raw k))"

definition lru_content_of :: "lru \<Rightarrow> bytes \<Rightarrow> lru_content" where
  "lru_content_of l k = (case snd l k of None \<Rightarrow> (None, None) | Some v \<Rightarrow> v)"

text \<open>A bounded map with a recency list: a hit touches the key, decoding is memoised.\<close>

fun lru_op :: "(bytes \<Rightarrow> bytes) \<Rightarrow> usize \<Rightarrow> CacheOp \<Rightarrow> lru \<Rightarrow> CacheOut \<times> lru" where
  "lru_op keccak limit (GetRaw r) l =
     (case snd l r of None \<Rightarrow> (RawOut None, l) | Some v \<Rightarrow> (RawOut (fst v), lru_put limit r v l))"
| "lru_op keccak limit (GetDecoded r b) l =
     (case snd l r of None \<Rightarrow> (DecodedOut None, l)
      | Some v \<Rightarrow> (DecodedOut (map_option (\<lambda>d. (d, if b then fst v else None)) (lru_decode keccak r v)),
                   lru_put limit r (fst v, lru_decode keccak r v) l))"
| "lru_op keccak limit (InsertRaw r raw) l =
     (NoOut, lru_put limit r (let v = lru_content_of l r in (option_else (fst v) (Some raw), snd v)) l)"
| "lru_op keccak limit (InsertDecoded r d) l =
     (NoOut, lru_put limit r (let v = lru_content_of l r in (fst v, Some d)) l)"

definition entry_content :: "CachedJoinChunk \<Rightarrow> lru_content" where
  "entry_content e = (cached_raw e, cached_decoded e)"

definition abs_cache :: "DecodedChunkCache \<Rightarrow> lru" where
  "abs_cache c = (abs_keys c, \<lambda>k. map_option entry_content (map_of (cc_chunks c) k))"

lemma abs_put:
  assumes "cache_inv limit cache" "unat (cc_generation cache) + 1 < 2 ^ 64" "limit + 1 < usize_bound"
    "cached_generation e = cc_generation cache + 1"
    "cc_chunks c1 = AList.update k e (cc_chunks cache)" "cc_order c1 = cc_order cache"
    "cc_generation c1 = cc_generation cache + 1"
  shows "cache_inv limit (finish_touch limit k (cc_generation cache + 1) c1) \<and>
    abs_cache (finish_touch limit k (cc_generation cache + 1) c1) =
      lru_put limit k (entry_content e) (abs_cache cache) \<and>
    cc_generation (finish_touch limit k (cc_generation cache + 1) c1) = cc_generation cache + 1"
  using finish_touch_spec [OF assms(1-3) refl assms(4-7)]
  by (auto simp: abs_cache_def lru_put_def Let_def restrict_map_def fun_eq_iff)

lemma option_else_None [simp]: "option_else None x = x" "option_else x None = x" "option_else (Some y) x = Some y"
  by (simp_all add: option_else_def split: option.split)

lemma cc_insert_refines:
  assumes "cache_inv limit c" "unat (cc_generation c) + 1 < 2 ^ 64" "limit + 1 < usize_bound"
  shows "cache_inv limit (cc_insert limit r raw decoded c) \<and>
    abs_cache (cc_insert limit r raw decoded c) =
      lru_put limit r (option_else (fst (lru_content_of (abs_cache c) r)) raw,
                       option_else decoded (snd (lru_content_of (abs_cache c) r))) (abs_cache c) \<and>
    cc_generation (cc_insert limit r raw decoded c) = cc_generation c + 1"
proof -
  let ?v = "lru_content_of (abs_cache c) r"
  let ?e = "\<lparr>cached_raw = option_else (fst ?v) raw, cached_decoded = option_else decoded (snd ?v),
              cached_generation = cc_generation c + 1\<rparr>"
  have "cc_insert limit r raw decoded c = finish_touch limit r (cc_generation c + 1)
      (c\<lparr>cc_generation := cc_generation c + 1, cc_inserts := cc_inserts c + 1,
         cc_chunks := AList.update r ?e (cc_chunks c)\<rparr>)"
    by (cases "map_of (cc_chunks c) r")
       (simp_all add: cc_insert_def lru_content_of_def abs_cache_def entry_content_def Let_def)
  then show ?thesis
    using abs_put [OF assms, of ?e "c\<lparr>cc_generation := cc_generation c + 1,
        cc_inserts := cc_inserts c + 1, cc_chunks := AList.update r ?e (cc_chunks c)\<rparr>" r]
    by (simp add: entry_content_def)
qed

text \<open>A hit: the entry keeps its raw chunk, gets the new generation and perhaps a decoded chunk.\<close>

lemma cache_hit:
  assumes "cache_inv limit c" "unat (cc_generation c) + 1 < 2 ^ 64" "limit + 1 < usize_bound"
    "c' = finish_touch limit r (cc_generation c + 1)
       (c\<lparr>cc_generation := cc_generation c + 1, cc_hits := hits, cc_hit_bytes := hit_bytes,
          cc_chunks := AList.update r e (cc_chunks c)\<rparr>)"
    "cached_generation e = cc_generation c + 1"
  shows "cache_inv limit c' \<and> abs_cache c' = lru_put limit r (cached_raw e, cached_decoded e) (abs_cache c) \<and>
    cc_generation c' = cc_generation c + 1"
  using abs_put [OF assms(1-3,5), of "c\<lparr>cc_generation := cc_generation c + 1, cc_hits := hits,
      cc_hit_bytes := hit_bytes, cc_chunks := AList.update r e (cc_chunks c)\<rparr>" r]
  by (simp add: assms(4) entry_content_def)

lemma cache_miss:
  assumes "cache_inv limit c" "unat (cc_generation c) + 1 < 2 ^ 64"
  shows "cache_inv limit (c\<lparr>cc_generation := cc_generation c + 1, cc_misses := m\<rparr>)"
    "abs_cache (c\<lparr>cc_generation := cc_generation c + 1, cc_misses := m\<rparr>) = abs_cache c"
  using assms by (auto simp: cache_inv_def abs_cache_def abs_keys_def unat_word_ariths)

lemma lru_decode_entry: "lru_decode keccak r (cached_raw e, cached_decoded e) = decode_entry keccak r e"
  by (simp add: lru_decode_def decode_entry_def option_else_def split: option.split)

lemma abs_lookup:
  "snd (abs_cache c) r = map_option (\<lambda>e. (cached_raw e, cached_decoded e)) (map_of (cc_chunks c) r)"
  by (cases "map_of (cc_chunks c) r") (simp_all add: abs_cache_def entry_content_def)

lemma cache_op_refines:
  assumes "cache_inv limit c" "unat (cc_generation c) + 1 < 2 ^ 64" "limit + 1 < usize_bound"
    "cache_op keccak limit op c = (out, c')"
  shows "lru_op keccak limit op (abs_cache c) = (out, abs_cache c') \<and> cache_inv limit c' \<and>
    cc_generation c' = cc_generation c + 1"
proof (cases op)
  case (GetRaw r)
  show ?thesis
  proof (cases "map_of (cc_chunks c) r")
    case None
    then show ?thesis
      using assms(4) GetRaw cache_miss [OF assms(1,2)] by (auto simp: cc_get_raw_def abs_lookup Let_def)
  next
    case (Some e)
    with assms(4) GetRaw have "out = RawOut (cached_raw e)"
      and c': "c' = finish_touch limit r (cc_generation c + 1)
        (c\<lparr>cc_generation := cc_generation c + 1, cc_hits := cc_hits c + 1,
           cc_hit_bytes := cc_hit_bytes c + (case cached_raw e of None \<Rightarrow> 0 | Some r \<Rightarrow> word_of_nat (length r)),
           cc_chunks := AList.update r (e\<lparr>cached_generation := cc_generation c + 1\<rparr>) (cc_chunks c)\<rparr>)"
      by (auto simp: cc_get_raw_def Let_def)
    then show ?thesis using cache_hit [OF assms(1-3) c'] GetRaw Some by (simp add: abs_lookup)
  qed
next
  case (GetDecoded r b)
  show ?thesis
  proof (cases "map_of (cc_chunks c) r")
    case None
    then show ?thesis
      using assms(4) GetDecoded cache_miss [OF assms(1,2)] by (auto simp: cc_get_decoded_def abs_lookup Let_def)
  next
    case (Some e)
    let ?d = "decode_entry keccak r e"
    from assms(4) GetDecoded Some have
      "out = DecodedOut (map_option (\<lambda>d. (d, if b then cached_raw e else None)) ?d)"
      and c': "c' = finish_touch limit r (cc_generation c + 1)
        (c\<lparr>cc_generation := cc_generation c + 1, cc_hits := cc_hits c + 1,
           cc_hit_bytes := cc_hit_bytes c + (case ?d of None \<Rightarrow> 0 | Some d \<Rightarrow> word_of_nat (length (jc_payload d))),
           cc_chunks := AList.update r (e\<lparr>cached_generation := cc_generation c + 1, cached_decoded := ?d\<rparr>)
             (cc_chunks c)\<rparr>)"
      by (auto simp: cc_get_decoded_def Let_def)
    then show ?thesis
      using cache_hit [OF assms(1-3) c'] GetDecoded Some by (simp add: abs_lookup lru_decode_entry)
  qed
next
  case (InsertRaw r raw)
  then show ?thesis
    using assms(4) cc_insert_refines [OF assms(1-3), of r "Some raw" None]
    by (auto simp: cc_insert_raw_def Let_def)
next
  case (InsertDecoded r d)
  then show ?thesis
    using assms(4) cc_insert_refines [OF assms(1-3), of r None "Some d"]
    by (auto simp: cc_insert_decoded_def Let_def)
qed

section \<open>Histories\<close>

fun run_cache ::
  "(bytes \<Rightarrow> bytes) \<Rightarrow> usize \<Rightarrow> CacheOp list \<Rightarrow> DecodedChunkCache \<Rightarrow> CacheOut list \<times> DecodedChunkCache" where
  "run_cache keccak limit [] c = ([], c)"
| "run_cache keccak limit (op # ops) c =
     (let (out, c1) = cache_op keccak limit op c; (outs, c2) = run_cache keccak limit ops c1 in (out # outs, c2))"

fun run_lru :: "(bytes \<Rightarrow> bytes) \<Rightarrow> usize \<Rightarrow> CacheOp list \<Rightarrow> lru \<Rightarrow> CacheOut list \<times> lru" where
  "run_lru keccak limit [] l = ([], l)"
| "run_lru keccak limit (op # ops) l =
     (let (out, l1) = lru_op keccak limit op l; (outs, l2) = run_lru keccak limit ops l1 in (out # outs, l2))"

lemma run_cache_refines:
  assumes "cache_inv limit c" "unat (cc_generation c) + length ops < 2 ^ 64" "limit + 1 < usize_bound"
    "run_cache keccak limit ops c = (outs, c')"
  shows "run_lru keccak limit ops (abs_cache c) = (outs, abs_cache c') \<and> cache_inv limit c' \<and>
    unat (cc_generation c') = unat (cc_generation c) + length ops"
  using assms
proof (induction ops arbitrary: c outs)
  case (Cons op ops)
  obtain out c1 where op: "cache_op keccak limit op c = (out, c1)" by (cases "cache_op keccak limit op c")
  obtain outs1 where run: "run_cache keccak limit ops c1 = (outs1, c')" "outs = out # outs1"
    using Cons.prems(4) op by (auto split: prod.splits)
  have room: "unat (cc_generation c) + 1 < 2 ^ 64" using Cons.prems(2) by simp
  note one = cache_op_refines [OF Cons.prems(1) room Cons.prems(3) op]
  then have gen: "unat (cc_generation c1) = unat (cc_generation c) + 1"
    using room by (simp add: unat_word_ariths)
  then show ?case using Cons.IH [OF _ _ Cons.prems(3) run(1)] Cons.prems(2) one run(2) by simp
qed simp

lemma cache_default_inv: "cache_inv limit cache_default"
  by (simp add: cache_inv_def cache_default_def queue_inv_def live_keys_def)

lemma abs_cache_default: "abs_cache cache_default = ([], Map.empty)"
  by (auto simp: abs_cache_def abs_keys_def cache_default_def)

text \<open>
  C21. The cache of decoded chunks refines a least-recently-used map: on every history of fewer
  than \<open>2 ^ 64\<close> lookups and insertions its answers are those of the abstract cache, in which a
  hit or an insertion moves the key to the back and the oldest keys beyond the limit are dropped,
  and neither the map nor the queue of touches outgrows its bound.
\<close>

theorem chunk_cache_refines:
  assumes "length ops < 2 ^ 64" "limit + 1 < usize_bound"
    and "run_cache keccak limit ops cache_default = (outs, c)"
  shows "run_lru keccak limit ops ([], Map.empty) = (outs, abs_cache c) \<and>
    length (cc_chunks c) \<le> limit \<and> length (cc_order c) \<le> max (2 * limit) 2"
proof -
  have "cc_generation cache_default = 0" by (simp add: cache_default_def)
  then have "run_lru keccak limit ops (abs_cache cache_default) = (outs, abs_cache c) \<and> cache_inv limit c"
    using run_cache_refines [OF cache_default_inv _ assms(2,3)] assms(1) by simp
  then show ?thesis by (auto simp: abs_cache_default cache_inv_def order_bound_def)
qed

theorem chunk_cache_refines_witness:
  "\<exists>c. run_cache (\<lambda>_. []) 1 [InsertRaw [1] [7], InsertRaw [2] [8], GetRaw [1], GetRaw [2]] cache_default
      = ([NoOut, NoOut, RawOut None, RawOut (Some [8])], c) \<and> length (cc_chunks c) \<le> 1"
proof -
  let ?ops = "[InsertRaw [1] [7], InsertRaw [2] [8], GetRaw [1], GetRaw [2]]"
  obtain outs c where run: "run_cache (\<lambda>_. []) 1 ?ops cache_default = (outs, c)" by fastforce
  have "run_lru (\<lambda>_. []) 1 ?ops ([], Map.empty) = (outs, abs_cache c) \<and>
      length (cc_chunks c) \<le> 1 \<and> length (cc_order c) \<le> max (2 * 1) 2"
    by (rule chunk_cache_refines [OF _ _ run]) (simp_all add: usize_bound_def)
  moreover have "fst (run_lru (\<lambda>_. []) 1 ?ops ([], Map.empty)) = [NoOut, NoOut, RawOut None, RawOut (Some [8])]"
    by (simp add: lru_put_def lru_touch_def lru_content_of_def Let_def)
  ultimately show ?thesis using run by auto
qed

lemma lru_touch_last: "k \<in> set (lru_touch limit k keys) \<longleftrightarrow> limit \<noteq> 0"
  by (cases limit) (simp_all add: lru_touch_def Let_def)

text \<open>
  The cache is the hand-over of decoded chunks, which works exactly when it has room: after
  any such history, a raw chunk remembered under a reference that is not cached is decoded by the
  next lookup of that reference if the limit is not zero, and is lost if it is.
\<close>

theorem chunk_cache_handoff:
  assumes "length ops + 1 < 2 ^ 64" "limit + 1 < usize_bound"
    and "run_cache keccak limit ops cache_default = (outs, c)" "map_of (cc_chunks c) reference = None"
  shows "fst (cc_get_decoded keccak limit reference True (cc_insert_raw limit reference raw c)) =
    (if limit = 0 then None
     else map_option (\<lambda>d. (d, Some raw)) (decode_shared_raw_join_chunk keccak raw reference))"
proof -
  have g0: "cc_generation cache_default = 0" by (simp add: cache_default_def)
  then have run: "cache_inv limit c" "unat (cc_generation c) = length ops"
    using run_cache_refines [OF cache_default_inv _ assms(2,3)] assms(1) by simp_all
  then have ins: "abs_cache (cc_insert_raw limit reference raw c) =
      lru_put limit reference (Some raw, None) (abs_cache c)"
    using cc_insert_refines [OF run(1) _ assms(2), of reference "Some raw" None] assms(1,4)
    by (simp add: cc_insert_raw_def lru_content_of_def abs_lookup)
  let ?c = "cc_insert_raw limit reference raw c"
  have "map_option (\<lambda>e. (cached_raw e, cached_decoded e)) (map_of (cc_chunks ?c) reference) =
      (if limit = 0 then None else Some (Some raw, None))"
    unfolding abs_lookup [symmetric] ins by (simp add: lru_put_def Let_def lru_touch_last restrict_map_def)
  then show ?thesis
    by (auto simp: cc_get_decoded_def Let_def decode_entry_def split: option.splits if_splits)
qed

theorem chunk_cache_handoff_witness:
  "fst (cc_get_decoded (\<lambda>_. []) 1 (replicate 32 1) True
     (cc_insert_raw 1 (replicate 32 1) (to_le_bytes 1 @ [7]) cache_default)) =
   Some (\<lparr>jc_level = Level_None, jc_span = 1, jc_payload = [7]\<rparr>, Some (to_le_bytes 1 @ [7]))"
proof -
  have span: "decode_span (to_le_bytes 1 @ [7]) = Some (Level_None, 1)"
    using le_bytes_top [of 1] by (simp add: decode_span_def nth_append sizes)
  have "decode_shared_raw_join_chunk (\<lambda>_. []) (to_le_bytes 1 @ [7]) (replicate 32 1) =
      Some \<lparr>jc_level = Level_None, jc_span = 1, jc_payload = [7]\<rparr>"
    using span
    by (simp add: decode_shared_raw_join_chunk_def canonical_plain_chunk_def chunk_payload_len_def
        CHUNK_WITH_SPAN_SIZE_def sizes usize_checked_add_def usize_bound_def)
  then show ?thesis
    using chunk_cache_handoff [of "[]" 1 "\<lambda>_. []" "[]" cache_default "replicate 32 1" "to_le_bytes 1 @ [7]"]
    by (simp add: usize_bound_def cache_default_def)
qed

end
