(* ===== verification/Join.thy ===== *)
theory Join
  imports Chunks
begin

text \<open>
  \<open>src/retrieval.rs\<close>, the reader of a byte range from a tree of chunks: the traversal of
  \<open>retrieve_data_range_from_root_with_prefix_cancellable\<close>, which walks pending nodes, starts
  at most four group fetches at a time and handles their events in the order of the channel.

  A group fetch (\<open>fetch_data_group_indices_streaming\<close>, the theory \<open>Group\<close>) is seen
  here through the trace it leaves on the channel: the children it emits, in order, and whether it
  ends with success.  Which traces are possible is the parameter \<open>group_trace\<close>; the events of
  different groups interleave freely.  \<open>memory\<close> says which output sizes the allocator grants.
  Cancellation can end the traversal between any two sections.
\<close>

section \<open>Data\<close>

record TraversalNode =
  tn_start :: u64
  tn_depth :: usize
  tn_chunk :: DecodedJoinChunk

record GroupTraversalContext =
  ctx_parent_start :: u64
  ctx_parent_span :: u64
  ctx_parent_depth :: usize
  ctx_child_capacity :: u64
  ctx_child_count :: usize

datatype GroupFetchEvent = Child GroupTraversalContext usize DecodedJoinChunk | Terminal bool

definition BEE_MAX_UPLOAD_TREE_LEVELS :: usize where
  "BEE_MAX_UPLOAD_TREE_LEVELS = 7"

definition RETRIEVE_DATA_GROUP_CONCURRENCY :: usize where
  "RETRIEVE_DATA_GROUP_CONCURRENCY = 4"

text \<open>The range, clamped to the span of the root, with the prefix of the output.\<close>

record JoinRequest =
  rq_start :: u64
  rq_end :: u64
  rq_encrypted :: bool
  rq_prefix :: bytes

type_synonym group_request = "bytes list \<times> bytes list \<times> bool \<times> usize list"
type_synonym group_trace = "(usize \<times> DecodedJoinChunk) list \<times> bool"

record GroupRun =
  gr_context :: GroupTraversalContext
  gr_emissions :: "(usize \<times> DecodedJoinChunk) list"
  gr_success :: bool

record JoinState =
  js_output :: bytes
  js_written :: u64
  js_pending :: "TraversalNode list"
  js_groups :: "GroupRun list"
  js_channel :: "GroupFetchEvent list"
  js_active :: usize
  js_result :: "bytes option option"

section \<open>Sections of the traversal\<close>

definition allocate_join_output :: "(usize \<Rightarrow> bool) \<Rightarrow> u64 \<Rightarrow> bytes \<Rightarrow> bytes option" where
  "allocate_join_output memory payload_bytes output_prefix = do {
     len \<leftarrow> usize_checked_add (length output_prefix) (unat payload_bytes);
     if memory len then Some (output_prefix @ replicate (unat payload_bytes) 0) else None }"

definition splice :: "bytes \<Rightarrow> usize \<Rightarrow> bytes \<Rightarrow> bytes" where
  "splice out destination source =
     take destination out @ source @ drop (destination + length source) out"

definition leaf_end :: "TraversalNode \<Rightarrow> u64 option" where
  "leaf_end node =
     Option.bind (checked_add (tn_start node) (jc_span (tn_chunk node))) (\<lambda>past_end. checked_sub past_end 1)"

definition copy_bytes ::
  "JoinRequest \<Rightarrow> TraversalNode \<Rightarrow> u64 \<Rightarrow> u64 \<Rightarrow> bytes \<Rightarrow> u64 \<Rightarrow> (bytes \<times> u64) option" where
  "copy_bytes rq node copy_start copy_end out written = do {
     source_start \<leftarrow> map_option unat (checked_sub copy_start (tn_start node));
     offset \<leftarrow> map_option unat (checked_sub copy_start (rq_start rq));
     destination_start \<leftarrow> usize_checked_add (length (rq_prefix rq)) offset;
     len0 \<leftarrow> checked_sub copy_end copy_start;
     len1 \<leftarrow> checked_add len0 1;
     source_end \<leftarrow> usize_checked_add source_start (unat len1);
     destination_end \<leftarrow> usize_checked_add destination_start (unat len1);
     if length out < destination_end \<or> length (jc_payload (tn_chunk node)) < source_end then None
     else do {
       written' \<leftarrow> checked_add written len1;
       Some (splice out destination_start
               (drop source_start (take source_end (jc_payload (tn_chunk node)))), written') } }"

definition leaf_copy :: "JoinRequest \<Rightarrow> TraversalNode \<Rightarrow> bytes \<Rightarrow> u64 \<Rightarrow> (bytes \<times> u64) option" where
  "leaf_copy rq node out written = do {
     last_byte \<leftarrow> leaf_end node;
     let copy_start = max (tn_start node) (rq_start rq);
     let copy_end = min last_byte (rq_end rq);
     if copy_start \<le> copy_end then copy_bytes rq node copy_start copy_end out written
     else Some (out, written) }"

definition expand_node ::
  "JoinRequest \<Rightarrow> TraversalNode \<Rightarrow> (GroupTraversalContext \<times> group_request) option" where
  "expand_node rq node = do {
     let chunk = tn_chunk node;
     layout \<leftarrow> returned (reference_layout (jc_span chunk) (jc_level chunk) (rq_encrypted rq));
     (data_references, parity_references) \<leftarrow>
       returned (split_references (jc_payload chunk) (jc_span chunk) (jc_level chunk) (rq_encrypted rq));
     if length data_references \<noteq> data_shards layout \<or> length parity_references \<noteq> parity_shards layout
     then None
     else do {
       let relative_start = saturating_sub (rq_start rq) (tn_start node);
       relative_end \<leftarrow> checked_sub (rq_end rq) (tn_start node);
       last_data_index \<leftarrow> usize_checked_sub (data_shards layout) 1;
       let first_index = min (unat (relative_start div child_capacity layout)) last_data_index;
       let last_index = min (unat (relative_end div child_capacity layout)) last_data_index;
       if last_index < first_index then None
       else Some (\<lparr>ctx_parent_start = tn_start node, ctx_parent_span = jc_span chunk,
                   ctx_parent_depth = tn_depth node, ctx_child_capacity = child_capacity layout,
                   ctx_child_count = data_shards layout\<rparr>,
                  data_references, parity_references, rq_encrypted rq, [first_index..<Suc last_index]) } }"

text \<open>The outer \<open>None\<close> fails the read; the inner one drops a child outside the range.\<close>

definition child_node ::
  "JoinRequest \<Rightarrow> GroupTraversalContext \<Rightarrow> usize \<Rightarrow> DecodedJoinChunk \<Rightarrow> TraversalNode option option" where
  "child_node rq ctx index chunk = do {
     child_offset \<leftarrow> checked_mul (ctx_child_capacity ctx) (word_of_nat index);
     child_start \<leftarrow> checked_add (ctx_parent_start ctx) child_offset;
     child_limit \<leftarrow> (if index + 1 = ctx_child_count ctx
                     then checked_sub (ctx_parent_span ctx) child_offset
                     else Some (ctx_child_capacity ctx));
     if child_limit < jc_span chunk then None
     else do {
       past_end \<leftarrow> checked_add child_start child_limit;
       child_end \<leftarrow> checked_sub past_end 1;
       Some (if child_start \<le> rq_end rq \<and> rq_start rq \<le> child_end
             then Some \<lparr>tn_start = child_start, tn_depth = ctx_parent_depth ctx + 1, tn_chunk = chunk\<rparr>
             else None) } }"

datatype PopOutcome = PopFail | PopLeaf bytes u64 | PopGroup GroupTraversalContext group_request

definition pop_node :: "JoinRequest \<Rightarrow> TraversalNode \<Rightarrow> JoinState \<Rightarrow> PopOutcome" where
  "pop_node rq node s =
     (if BEE_MAX_UPLOAD_TREE_LEVELS < tn_depth node then PopFail
      else if unat (jc_span (tn_chunk node)) \<le> CHUNK_SIZE
      then (case leaf_copy rq node (js_output s) (js_written s) of
              None \<Rightarrow> PopFail | Some (out, written) \<Rightarrow> PopLeaf out written)
      else (case expand_node rq node of
              None \<Rightarrow> PopFail | Some (ctx, request) \<Rightarrow> PopGroup ctx request))"

definition requested_len :: "JoinRequest \<Rightarrow> nat" where
  "requested_len rq = unat (rq_end rq) - unat (rq_start rq) + 1"

definition join_finish :: "JoinRequest \<Rightarrow> JoinState \<Rightarrow> bytes option" where
  "join_finish rq s = (if unat (js_written s) = requested_len rq then Some (js_output s) else None)"

definition recv_child ::
  "JoinRequest \<Rightarrow> GroupTraversalContext \<Rightarrow> usize \<Rightarrow> DecodedJoinChunk \<Rightarrow> JoinState \<Rightarrow> JoinState" where
  "recv_child rq ctx index chunk s =
     (case child_node rq ctx index chunk of
        None \<Rightarrow> s\<lparr>js_result := Some None\<rparr>
      | Some None \<Rightarrow> s
      | Some (Some node) \<Rightarrow> s\<lparr>js_pending := js_pending s @ [node]\<rparr>)"

definition recv_terminal :: "bool \<Rightarrow> JoinState \<Rightarrow> JoinState" where
  "recv_terminal success s =
     (case usize_checked_sub (js_active s) 1 of
        None \<Rightarrow> s\<lparr>js_result := Some None\<rparr>
      | Some active \<Rightarrow> if success then s\<lparr>js_active := active\<rparr>
                       else s\<lparr>js_active := active, js_result := Some None\<rparr>)"

section \<open>The traversal\<close>

inductive join_step ::
  "(group_request \<Rightarrow> group_trace \<Rightarrow> bool) \<Rightarrow> JoinRequest \<Rightarrow> JoinState \<Rightarrow> JoinState \<Rightarrow> bool"
  for group_trace rq where
  pop_fail: "js_result s = None \<Longrightarrow> js_pending s = node # rest \<Longrightarrow>
    length (js_groups s) < RETRIEVE_DATA_GROUP_CONCURRENCY \<Longrightarrow> pop_node rq node s = PopFail \<Longrightarrow>
    join_step group_trace rq s (s\<lparr>js_pending := rest, js_result := Some None\<rparr>)"
| pop_leaf: "js_result s = None \<Longrightarrow> js_pending s = node # rest \<Longrightarrow>
    length (js_groups s) < RETRIEVE_DATA_GROUP_CONCURRENCY \<Longrightarrow> pop_node rq node s = PopLeaf out written \<Longrightarrow>
    join_step group_trace rq s (s\<lparr>js_pending := rest, js_output := out, js_written := written\<rparr>)"
| pop_group: "js_result s = None \<Longrightarrow> js_pending s = node # rest \<Longrightarrow>
    length (js_groups s) < RETRIEVE_DATA_GROUP_CONCURRENCY \<Longrightarrow>
    pop_node rq node s = PopGroup ctx request \<Longrightarrow> group_trace request (emissions, success) \<Longrightarrow>
    join_step group_trace rq s
      (s\<lparr>js_pending := rest, js_active := js_active s + 1, js_groups := js_groups s @
           [\<lparr>gr_context = ctx, gr_emissions = emissions, gr_success = success\<rparr>]\<rparr>)"
| emit: "js_result s = None \<Longrightarrow> js_groups s = before @ g # after \<Longrightarrow>
    gr_emissions g = (index, chunk) # emissions \<Longrightarrow>
    join_step group_trace rq s
      (s\<lparr>js_groups := before @ g\<lparr>gr_emissions := emissions\<rparr> # after,
         js_channel := js_channel s @ [Child (gr_context g) index chunk]\<rparr>)"
| complete: "js_result s = None \<Longrightarrow> js_groups s = before @ g # after \<Longrightarrow> gr_emissions g = [] \<Longrightarrow>
    join_step group_trace rq s
      (s\<lparr>js_groups := before @ after, js_channel := js_channel s @ [Terminal (gr_success g)]\<rparr>)"
| recv_child: "js_result s = None \<Longrightarrow> js_channel s = Child ctx index chunk # channel \<Longrightarrow>
    join_step group_trace rq s (recv_child rq ctx index chunk (s\<lparr>js_channel := channel\<rparr>))"
| recv_terminal: "js_result s = None \<Longrightarrow> js_channel s = Terminal success # channel \<Longrightarrow>
    join_step group_trace rq s (recv_terminal success (s\<lparr>js_channel := channel\<rparr>))"
| finish: "js_result s = None \<Longrightarrow> js_pending s = [] \<Longrightarrow> js_active s = 0 \<Longrightarrow>
    join_step group_trace rq s (s\<lparr>js_result := Some (join_finish rq s)\<rparr>)"

text \<open>
  The head of the function: an empty range gives the prefix at once, an output that cannot be
  allocated fails, and otherwise the traversal starts at the root.
\<close>

definition join_start ::
  "(usize \<Rightarrow> bool) \<Rightarrow> DecodedJoinChunk \<Rightarrow> u64 \<Rightarrow> u64 \<Rightarrow> bool \<Rightarrow> bytes \<Rightarrow>
   bytes option + (JoinRequest \<times> JoinState)" where
  "join_start memory rootc payload_start payload_end_inclusive encrypted output_prefix =
     (if payload_end_inclusive < payload_start \<or> jc_span rootc \<le> payload_start
      then Inl (Some output_prefix)
      else let end_inclusive = min payload_end_inclusive (jc_span rootc - 1) in
        case Option.bind (checked_sub end_inclusive payload_start) (\<lambda>l. checked_add l 1) of
          None \<Rightarrow> Inl None
        | Some len \<Rightarrow>
            (case allocate_join_output memory len output_prefix of
               None \<Rightarrow> Inl None
             | Some out \<Rightarrow>
                 Inr (\<lparr>rq_start = payload_start, rq_end = end_inclusive, rq_encrypted = encrypted,
                       rq_prefix = output_prefix\<rparr>,
                      \<lparr>js_output = out, js_written = 0,
                       js_pending = [\<lparr>tn_start = 0, tn_depth = 0, tn_chunk = rootc\<rparr>],
                       js_groups = [], js_channel = [], js_active = 0, js_result = None\<rparr>)))"

text \<open>The outcomes of a range read.\<close>

inductive range_read ::
  "(group_request \<Rightarrow> group_trace \<Rightarrow> bool) \<Rightarrow> (usize \<Rightarrow> bool) \<Rightarrow> DecodedJoinChunk \<Rightarrow> u64 \<Rightarrow> u64 \<Rightarrow>
   bool \<Rightarrow> bytes \<Rightarrow> bytes option \<Rightarrow> bool"
  for group_trace memory rootc payload_start payload_end encrypted output_prefix where
  at_once: "join_start memory rootc payload_start payload_end encrypted output_prefix = Inl r \<Longrightarrow>
    range_read group_trace memory rootc payload_start payload_end encrypted output_prefix r"
| walked: "join_start memory rootc payload_start payload_end encrypted output_prefix = Inr (rq, s0) \<Longrightarrow>
    (join_step group_trace rq)\<^sup>*\<^sup>* s0 s \<Longrightarrow> js_result s = Some r \<Longrightarrow>
    range_read group_trace memory rootc payload_start payload_end encrypted output_prefix r"
| cancelled: "join_start memory rootc payload_start payload_end encrypted output_prefix = Inr (rq, s0) \<Longrightarrow>
    (join_step group_trace rq)\<^sup>*\<^sup>* s0 s \<Longrightarrow> js_result s = None \<Longrightarrow>
    range_read group_trace memory rootc payload_start payload_end encrypted output_prefix None"

end
