(* ===== verification/JoinSafety.thy ===== *)
theory JoinSafety
  imports Join
begin

text \<open>
  What a range read returns.  The bytes of a tree are given by the relation \<open>holds_byte\<close>: a
  leaf holds its payload and an intermediate chunk what its children hold at their offsets.  A
  read that returns a result returns exactly the bytes of the range, whatever the order of the
  events and however malformed the tree is; a read of a well-formed tree whose groups succeed
  returns; and every read ends.

  The traversal relies on the group fetch through the interface \<open>group_fetcher\<close>.
\<close>

section \<open>The layout of an intermediate chunk\<close>

lemma reference_size_loop_pos:
  "reference_size_loop n b r0 = Some r \<Longrightarrow> 0 < unat b \<Longrightarrow> 0 < unat r0 \<Longrightarrow> 0 < unat r"
proof (induction n arbitrary: r0)
  case (Suc n)
  then show ?case
    by (auto split: option.splits simp: checked_mul_Some simp del: unat_gt_0)
qed simp

lemma reference_layout_covers:
  assumes "returned (reference_layout span level encrypted) = Some layout"
  shows "0 < unat (child_capacity layout)" "1 \<le> data_shards layout"
    "unat (child_capacity layout) * (data_shards layout - 1) < unat span"
    "unat span \<le> unat (child_capacity layout) * data_shards layout" "data_shards layout < 2 ^ 64"
proof -
  have l: "reference_layout span level encrypted = Some (Some layout)"
    using assms by (auto simp: returned_def split: option.splits)
  have big: "CHUNK_SIZE < unat span"
    using l by (auto simp: reference_layout_def split: if_splits)
  have b: "0 < unat (word_of_nat (max_shards level encrypted) :: u64)"
    using max_shards_bounds [of level encrypted] by (simp add: unat_of_nat)
  from l big obtain n r rounded where
    r: "reference_size_loop n (word_of_nat (max_shards level encrypted)) (word_of_nat CHUNK_SIZE) = Some r"
    and sum: "checked_add span (r - 1) = Some rounded"
    and lay: "child_capacity layout = r" "data_shards layout = unat (rounded div r)"
    using max_shards_bounds(1) [of level encrypted]
    by (auto simp: reference_layout_def Let_def bind_eq_Some_conv split: if_splits)
  have c0: "0 < unat (word_of_nat CHUNK_SIZE :: u64)" by (simp add: sizes)
  have r0: "0 < unat r" using reference_size_loop_pos [OF r b c0] .
  then have "unat (r - 1) = unat r - 1"
    by (simp add: unat_sub word_le_nat_alt Suc_leI)
  with sum have "unat rounded = unat span + (unat r - 1)" by (simp add: checked_add_Some)
  then have data: "data_shards layout = (unat span + (unat r - 1)) div unat r"
    by (simp add: lay unat_div)
  show "0 < unat (child_capacity layout)" using r0 lay by simp
  show "data_shards layout < 2 ^ 64" by (simp add: lay)
  have span0: "0 < unat span" using big by simp
  show "1 \<le> data_shards layout"
    using ceil_le_iff [OF r0, of "unat span" 0] span0 by (simp add: data)
  show "unat span \<le> unat (child_capacity layout) * data_shards layout"
    using ceil_le_iff [OF r0, of "unat span" "data_shards layout"] by (simp add: data lay mult.commute)
  show "unat (child_capacity layout) * (data_shards layout - 1) < unat span"
    using ceil_le_iff [OF r0, of "unat span" "data_shards layout - 1"] \<open>1 \<le> data_shards layout\<close>
    by (simp add: data lay mult.commute) linarith
qed

section \<open>The bytes of a tree\<close>

definition child_limit :: "nat \<Rightarrow> nat \<Rightarrow> nat \<Rightarrow> nat \<Rightarrow> nat" where
  "child_limit span capacity count k = (if k + 1 = count then span - capacity * k else capacity)"

inductive holds_byte ::
  "(bool \<Rightarrow> bytes \<Rightarrow> DecodedJoinChunk \<Rightarrow> bool) \<Rightarrow> bool \<Rightarrow> nat \<Rightarrow> DecodedJoinChunk \<Rightarrow> nat \<Rightarrow> u8 \<Rightarrow> bool"
  for delivers encrypted where
  leaf: "unat (jc_span chunk) \<le> CHUNK_SIZE \<Longrightarrow> i < unat (jc_span chunk) \<Longrightarrow> i < length (jc_payload chunk) \<Longrightarrow>
    holds_byte delivers encrypted start chunk (start + i) (jc_payload chunk ! i)"
| inner: "CHUNK_SIZE < unat (jc_span chunk) \<Longrightarrow>
    returned (reference_layout (jc_span chunk) (jc_level chunk) encrypted) = Some layout \<Longrightarrow>
    returned (split_references (jc_payload chunk) (jc_span chunk) (jc_level chunk) encrypted) = Some (ds, ps) \<Longrightarrow>
    k < data_shards layout \<Longrightarrow> delivers encrypted (ds ! k) child \<Longrightarrow>
    unat (jc_span child) \<le>
      child_limit (unat (jc_span chunk)) (unat (child_capacity layout)) (data_shards layout) k \<Longrightarrow>
    holds_byte delivers encrypted (start + unat (child_capacity layout) * k) child p b \<Longrightarrow>
    holds_byte delivers encrypted start chunk p b"

section \<open>Regions\<close>

definition node_region :: "TraversalNode \<Rightarrow> nat set" where
  "node_region n = {unat (tn_start n) ..< unat (tn_start n) + unat (jc_span (tn_chunk n))}"

definition child_begin :: "GroupTraversalContext \<Rightarrow> nat \<Rightarrow> nat" where
  "child_begin ctx k = unat (ctx_parent_start ctx) + unat (ctx_child_capacity ctx) * k"

definition child_room :: "GroupTraversalContext \<Rightarrow> nat \<Rightarrow> nat" where
  "child_room ctx k =
     child_limit (unat (ctx_parent_span ctx)) (unat (ctx_child_capacity ctx)) (ctx_child_count ctx) k"

definition child_region :: "GroupTraversalContext \<Rightarrow> nat \<Rightarrow> nat set" where
  "child_region ctx k = {child_begin ctx k ..< child_begin ctx k + child_room ctx k}"

definition ctx_ok :: "GroupTraversalContext \<Rightarrow> bool" where
  "ctx_ok ctx \<longleftrightarrow> 0 < unat (ctx_child_capacity ctx) \<and> 1 \<le> ctx_child_count ctx \<and>
     ctx_child_count ctx < 2 ^ 64 \<and>
     unat (ctx_child_capacity ctx) * (ctx_child_count ctx - 1) < unat (ctx_parent_span ctx) \<and>
     unat (ctx_parent_span ctx) \<le> unat (ctx_child_capacity ctx) * ctx_child_count ctx"

lemma child_region_index:
  assumes "ctx_ok ctx" "k < ctx_child_count ctx" "p \<in> child_region ctx k"
  shows "k = (p - unat (ctx_parent_start ctx)) div unat (ctx_child_capacity ctx)"
    "unat (ctx_parent_start ctx) \<le> p" "p < unat (ctx_parent_start ctx) + unat (ctx_parent_span ctx)"
proof -
  let ?s = "unat (ctx_parent_start ctx)" and ?c = "unat (ctx_child_capacity ctx)"
    and ?n = "ctx_child_count ctx" and ?w = "unat (ctx_parent_span ctx)"
  have reg: "?s + ?c * k \<le> p" "p < ?s + ?c * k + child_room ctx k"
    using assms(3) by (auto simp: child_region_def child_begin_def)
  have room: "child_room ctx k \<le> ?c" "?c * k + child_room ctx k \<le> ?w"
  proof -
    have "?w \<le> ?c * k + ?c" if "k + 1 = ?n"
      using assms(1) that [symmetric] by (simp add: ctx_ok_def)
    then show "child_room ctx k \<le> ?c" by (auto simp: child_room_def child_limit_def)
    have "?c * k \<le> ?c * (?n - 1)" using assms(2) by (intro mult_le_mono2) simp
    then have last: "?c * k \<le> ?w" using assms(1) unfolding ctx_ok_def by linarith
    have "?c * (k + 1) \<le> ?c * (?n - 1)" if "k + 1 \<noteq> ?n" using assms(2) that by (intro mult_le_mono2) simp
    then have "?c * k + ?c \<le> ?w" if "k + 1 \<noteq> ?n" using that assms(1) by (fastforce simp: ctx_ok_def)
    with last show "?c * k + child_room ctx k \<le> ?w" by (auto simp: child_room_def child_limit_def)
  qed
  show "?s \<le> p" using reg(1) by simp
  show "p < ?s + ?w" using reg(2) room(2) by linarith
  have "k * ?c \<le> p - ?s" "p - ?s < Suc k * ?c" using reg room(1) by (simp_all add: mult.commute)
  then show "k = (p - ?s) div ?c" by (metis div_nat_eqI mult.commute)
qed

text \<open>The children of a node lie in it and do not overlap.\<close>

lemma child_regions_disjoint:
  assumes "ctx_ok ctx" "distinct ks" "\<forall>k \<in> set ks. k < ctx_child_count ctx"
  shows "(\<Sum>k\<leftarrow>ks. of_bool (p \<in> child_region ctx k)) \<le>
    (of_bool (unat (ctx_parent_start ctx) \<le> p \<and> p < unat (ctx_parent_start ctx) + unat (ctx_parent_span ctx)) :: nat)"
proof -
  have "(\<Sum>k\<leftarrow>ks. of_bool (p \<in> child_region ctx k)) = (\<Sum>k\<in>set ks. of_bool (p \<in> child_region ctx k) :: nat)"
    using assms(2) by (simp add: sum_list_distinct_conv_sum_set)
  also have "\<dots> = card {k \<in> set ks. p \<in> child_region ctx k}"
    by (simp add: sum_of_bool_eq Int_def)
  also have "\<dots> \<le> of_bool (\<exists>k \<in> set ks. p \<in> child_region ctx k)"
  proof (cases "\<exists>k \<in> set ks. p \<in> child_region ctx k")
    case True
    have "{k \<in> set ks. p \<in> child_region ctx k} \<subseteq> {(p - unat (ctx_parent_start ctx)) div unat (ctx_child_capacity ctx)}"
      using child_region_index(1) [OF assms(1)] assms(3) by blast
    then have "card {k \<in> set ks. p \<in> child_region ctx k} \<le>
        card {(p - unat (ctx_parent_start ctx)) div unat (ctx_child_capacity ctx)}"
      by (intro card_mono) auto
    then show ?thesis using True by simp
  next
    case False
    then have "{k \<in> set ks. p \<in> child_region ctx k} = {}" by blast
    then show ?thesis by simp
  qed
  also have "\<dots> \<le> of_bool (unat (ctx_parent_start ctx) \<le> p \<and> p < unat (ctx_parent_start ctx) + unat (ctx_parent_span ctx))"
    using child_region_index(2,3) [OF assms(1)] assms(3) by (auto simp del: of_bool_less_eq_iff intro!: of_bool_less_eq_iff [THEN iffD2])
  finally show ?thesis .
qed

section \<open>The invariant of the traversal\<close>

definition range_set :: "JoinRequest \<Rightarrow> nat set" where
  "range_set rq = {unat (rq_start rq) .. unat (rq_end rq)}"

definition node_cover :: "nat \<Rightarrow> TraversalNode \<Rightarrow> nat" where
  "node_cover p n = of_bool (p \<in> node_region n)"

definition emission_cover :: "nat \<Rightarrow> GroupTraversalContext \<Rightarrow> (nat \<times> DecodedJoinChunk) list \<Rightarrow> nat" where
  "emission_cover p ctx ems = (\<Sum>e\<leftarrow>ems. of_bool (p \<in> child_region ctx (fst e)))"

definition group_cover :: "nat \<Rightarrow> GroupRun \<Rightarrow> nat" where
  "group_cover p g = emission_cover p (gr_context g) (gr_emissions g)"

fun event_cover :: "nat \<Rightarrow> GroupFetchEvent \<Rightarrow> nat" where
  "event_cover p (Child ctx k c) = of_bool (p \<in> child_region ctx k)"
| "event_cover p (Terminal ok) = 0"

text \<open>How many outstanding pieces of work a position still belongs to.\<close>

definition cover :: "JoinState \<Rightarrow> nat \<Rightarrow> nat" where
  "cover s p = (\<Sum>n\<leftarrow>js_pending s. node_cover p n) + (\<Sum>g\<leftarrow>js_groups s. group_cover p g)
     + (\<Sum>v\<leftarrow>js_channel s. event_cover p v)"

lemmas covers = node_cover_def group_cover_def emission_cover_def

lemma emission_cover_parent:
  assumes "ctx_ok ctx" "distinct (map fst ems)" "\<forall>k \<in> fst ` set ems. k < ctx_child_count ctx"
  shows "emission_cover p ctx ems \<le>
    of_bool (unat (ctx_parent_start ctx) \<le> p \<and> p < unat (ctx_parent_start ctx) + unat (ctx_parent_span ctx))"
  using child_regions_disjoint [OF assms(1,2), of p] assms(3)
  by (simp add: emission_cover_def comp_def)

definition expand_ctx :: "TraversalNode \<Rightarrow> ReferenceLayout \<Rightarrow> GroupTraversalContext" where
  "expand_ctx node layout =
     \<lparr>ctx_parent_start = tn_start node, ctx_parent_span = jc_span (tn_chunk node),
      ctx_parent_depth = tn_depth node, ctx_child_capacity = child_capacity layout,
      ctx_child_count = data_shards layout\<rparr>"

definition child_index :: "ReferenceLayout \<Rightarrow> nat \<Rightarrow> nat" where
  "child_index layout offset = min (offset div unat (child_capacity layout)) (data_shards layout - 1)"

lemma expand_node_Some:
  assumes "expand_node rq node = Some (ctx, ds, ps, enc, req)"
  obtains layout where
    "returned (reference_layout (jc_span (tn_chunk node)) (jc_level (tn_chunk node)) (rq_encrypted rq)) = Some layout"
    "returned (split_references (jc_payload (tn_chunk node)) (jc_span (tn_chunk node))
       (jc_level (tn_chunk node)) (rq_encrypted rq)) = Some (ds, ps)"
    "ctx = expand_ctx node layout" "enc = rq_encrypted rq" "length ds = data_shards layout" "ctx_ok ctx"
    "req = [child_index layout (unat (rq_start rq) - unat (tn_start node))..<
       Suc (child_index layout (unat (rq_end rq) - unat (tn_start node)))]"
proof -
  from assms obtain layout rel where
    l: "returned (reference_layout (jc_span (tn_chunk node)) (jc_level (tn_chunk node)) (rq_encrypted rq)) = Some layout"
    "returned (split_references (jc_payload (tn_chunk node)) (jc_span (tn_chunk node))
       (jc_level (tn_chunk node)) (rq_encrypted rq)) = Some (ds, ps)"
    and ctx: "ctx = expand_ctx node layout" "enc = rq_encrypted rq" "length ds = data_shards layout"
    and req: "req = [min (unat (saturating_sub (rq_start rq) (tn_start node) div child_capacity layout))
       (data_shards layout - 1)..<Suc (min (unat (rel div child_capacity layout)) (data_shards layout - 1))]"
    and rel: "checked_sub (rq_end rq) (tn_start node) = Some rel"
    by (auto simp: expand_node_def expand_ctx_def bind_eq_Some_conv Let_def usize_checked_sub_def
        simp del: upt_Suc split: if_splits)
  have "req = [child_index layout (unat (rq_start rq) - unat (tn_start node))..<
       Suc (child_index layout (unat (rq_end rq) - unat (tn_start node)))]"
    using rel by (simp add: req child_index_def unat_div unat_saturating_sub checked_sub_Some del: upt_Suc)
  moreover have "ctx_ok ctx"
    using reference_layout_covers [OF l(1)] by (simp add: ctx_ok_def ctx expand_ctx_def)
  ultimately show ?thesis using that l ctx by blast
qed

lemma child_index_less: "1 \<le> data_shards layout \<Longrightarrow> child_index layout offset < data_shards layout"
  by (simp add: child_index_def min_def) linarith

lemma child_node_Some:
  assumes "child_node rq ctx k chunk = Some (Some n)" "k < 2 ^ 64"
  shows "unat (tn_start n) = child_begin ctx k" "tn_chunk n = chunk"
    "tn_depth n = ctx_parent_depth ctx + 1" "unat (jc_span chunk) \<le> child_room ctx k"
  using assms
  by (auto simp: child_node_def bind_eq_Some_conv checked_mul_Some checked_add_Some checked_sub_Some
      child_begin_def child_room_def child_limit_def word_less_nat_alt unat_of_nat split: if_splits)

section \<open>Copying a leaf\<close>

lemma length_splice: "d + length src \<le> length out \<Longrightarrow> length (splice out d src) = length out"
  by (simp add: splice_def)

lemma splice_nth:
  "d + length src \<le> length out \<Longrightarrow> i < length out \<Longrightarrow>
     splice out d src ! i = (if d \<le> i \<and> i < d + length src then src ! (i - d) else out ! i)"
  by (auto simp: splice_def nth_append min_def)

lemma unat_max: "unat (max a b :: u64) = max (unat a) (unat b)"
  and unat_min: "unat (min a b :: u64) = min (unat a) (unat b)"
  by (simp_all add: max_def min_def word_le_nat_alt)

lemma copy_bytes_Some:
  assumes copy: "copy_bytes rq node cs ce out written = Some (out', written')"
    and le: "cs \<le> ce" "tn_start node \<le> cs" "rq_start rq \<le> cs"
  defines "n \<equiv> unat ce - unat cs + 1" and "d \<equiv> length (rq_prefix rq) + (unat cs - unat (rq_start rq))"
    and "src \<equiv> unat cs - unat (tn_start node)"
  shows "out' = splice out d (take n (drop src (jc_payload (tn_chunk node))))"
    "unat written' = unat written + n" "d + n \<le> length out" "src + n \<le> length (jc_payload (tn_chunk node))"
proof -
  from copy obtain len0 len1 where l0: "checked_sub ce cs = Some len0" and l1: "checked_add len0 1 = Some len1"
    and rest: "d + unat len1 \<le> length out" "src + unat len1 \<le> length (jc_payload (tn_chunk node))"
      "checked_add written len1 = Some written'"
      "out' = splice out d (drop src (take (src + unat len1) (jc_payload (tn_chunk node))))"
    by (auto simp: copy_bytes_def bind_eq_Some_conv usize_checked_add_def checked_sub_Some d_def src_def not_less
        split: if_splits)
  have "unat len1 = n" using l0 l1 by (simp add: checked_sub_Some checked_add_Some n_def)
  then show "out' = splice out d (take n (drop src (jc_payload (tn_chunk node))))"
    "unat written' = unat written + n" "d + n \<le> length out" "src + n \<le> length (jc_payload (tn_chunk node))"
    using rest by (simp_all add: drop_take checked_add_Some)
qed

lemma leaf_end_Some:
  "leaf_end node = Some e \<Longrightarrow> unat e + 1 = unat (tn_start node) + unat (jc_span (tn_chunk node))"
  by (auto simp: leaf_end_def bind_eq_Some_conv checked_add_Some checked_sub_Some)

text \<open>Exactly the part of the leaf inside the range is copied, to its place in the output.\<close>

lemma leaf_copy_spec:
  assumes copy: "leaf_copy rq node out written = Some (out', written')"
    and len: "length out = length (rq_prefix rq) + requested_len rq" and rq: "rq_start rq \<le> rq_end rq"
  defines "P \<equiv> node_region node \<inter> range_set rq"
  shows "unat written' = unat written + card P" "length out' = length out"
    "i < length (rq_prefix rq) \<Longrightarrow> out' ! i = out ! i"
    "p \<in> P \<Longrightarrow> p - unat (tn_start node) < length (jc_payload (tn_chunk node))"
    "p \<in> range_set rq \<Longrightarrow> out' ! (length (rq_prefix rq) + (p - unat (rq_start rq))) =
       (if p \<in> P then jc_payload (tn_chunk node) ! (p - unat (tn_start node))
        else out ! (length (rq_prefix rq) + (p - unat (rq_start rq))))"
proof -
  let ?start = "unat (tn_start node)" and ?payload = "jc_payload (tn_chunk node)"
    and ?l = "length (rq_prefix rq)" and ?rs = "unat (rq_start rq)" and ?re = "unat (rq_end rq)"
  from copy obtain e where le: "leaf_end node = Some e"
    and body: "(if max (tn_start node) (rq_start rq) \<le> min e (rq_end rq)
       then copy_bytes rq node (max (tn_start node) (rq_start rq)) (min e (rq_end rq)) out written
       else Some (out, written)) = Some (out', written')"
    by (cases "leaf_end node") (auto simp: leaf_copy_def Let_def)
  note e = leaf_end_Some [OF le]
  define cs where "cs = max ?start ?rs"
  define ce where "ce = min (unat e) ?re"
  have P: "P = {cs..ce}"
    using e by (auto simp: P_def node_region_def range_set_def cs_def ce_def)
  have cs: "?start \<le> cs" "?rs \<le> cs" "ce \<le> ?re" by (simp_all add: cs_def ce_def)
  have "unat written' = unat written + card P \<and> length out' = length out \<and>
    (i < ?l \<longrightarrow> out' ! i = out ! i) \<and> (p \<in> P \<longrightarrow> p - ?start < length ?payload) \<and>
    (p \<in> range_set rq \<longrightarrow> out' ! (?l + (p - ?rs)) =
       (if p \<in> P then ?payload ! (p - ?start) else out ! (?l + (p - ?rs))))"
  proof (cases "cs \<le> ce")
    case False
    then have "P = {}" and "\<not> max (tn_start node) (rq_start rq) \<le> min e (rq_end rq)"
      by (simp_all add: P word_le_nat_alt unat_max unat_min cs_def ce_def)
    then show ?thesis using body by auto
  next
    case True
    then have le: "max (tn_start node) (rq_start rq) \<le> min e (rq_end rq)"
      by (simp add: word_le_nat_alt unat_max unat_min cs_def ce_def)
    then have "copy_bytes rq node (max (tn_start node) (rq_start rq)) (min e (rq_end rq)) out written
        = Some (out', written')" using body by simp
    note c = copy_bytes_Some [OF this le max.cobounded1 max.cobounded2,
        unfolded unat_max unat_min, folded cs_def ce_def]
    have inside: "p - ?start < length ?payload" if "p \<in> P"
      using that c(4) cs by (auto simp: P)
    have "out' ! (?l + (p - ?rs)) = (if p \<in> P then ?payload ! (p - ?start) else out ! (?l + (p - ?rs)))"
      if p: "p \<in> range_set rq"
    proof -
      have "?l + (p - ?rs) < length out" using p len by (auto simp: range_set_def requested_len_def)
      moreover have rs: "?rs \<le> p" using p by (simp add: range_set_def)
      moreover have "(?l + (cs - ?rs) \<le> ?l + (p - ?rs) \<and> ?l + (p - ?rs) < ?l + (cs - ?rs) + (ce - cs + 1))
          \<longleftrightarrow> p \<in> P" using cs True rs by (auto simp: P)
      moreover have "?l + (p - ?rs) - (?l + (cs - ?rs)) = p - cs" "cs - ?start + (p - cs) = p - ?start"
        if "cs \<le> p" using that cs rs by simp_all
      moreover have "take (ce - cs + 1) (drop (cs - ?start) ?payload) ! (p - cs) = ?payload ! (p - ?start)"
        if "p \<in> P"
      proof -
        have "p - cs < ce - cs + 1" "cs - ?start + (p - cs) = p - ?start" "cs - ?start \<le> length ?payload"
          using that cs c(4) by (auto simp: P)
        then show ?thesis by (simp only: nth_take nth_drop)
      qed
      ultimately show ?thesis
        using c(3,4) unfolding c(1) by (simp add: splice_nth P)
    qed
    moreover have "out' ! i = out ! i" if "i < ?l"
      using that c(3,4) len unfolding c(1) by (simp add: splice_nth)
    ultimately show ?thesis using c True inside by (simp add: P length_splice)
  qed
  then show "unat written' = unat written + card P" "length out' = length out"
    "i < ?l \<Longrightarrow> out' ! i = out ! i" "p \<in> P \<Longrightarrow> p - ?start < length ?payload"
    "p \<in> range_set rq \<Longrightarrow> out' ! (?l + (p - ?rs)) =
       (if p \<in> P then ?payload ! (p - ?start) else out ! (?l + (p - ?rs)))" by auto
qed

section \<open>Soundness\<close>

definition tree_part ::
  "(bool \<Rightarrow> bytes \<Rightarrow> DecodedJoinChunk \<Rightarrow> bool) \<Rightarrow> bool \<Rightarrow> DecodedJoinChunk \<Rightarrow> nat \<Rightarrow> DecodedJoinChunk \<Rightarrow> bool" where
  "tree_part delivers encrypted rootc start chunk \<longleftrightarrow>
     (\<forall>p b. holds_byte delivers encrypted start chunk p b \<longrightarrow> holds_byte delivers encrypted 0 rootc p b)"

definition emission_ok ::
  "(bool \<Rightarrow> bytes \<Rightarrow> DecodedJoinChunk \<Rightarrow> bool) \<Rightarrow> bool \<Rightarrow> DecodedJoinChunk \<Rightarrow> GroupTraversalContext \<Rightarrow>
   nat \<Rightarrow> DecodedJoinChunk \<Rightarrow> bool" where
  "emission_ok delivers encrypted rootc ctx k chunk \<longleftrightarrow> ctx_ok ctx \<and> k < ctx_child_count ctx \<and>
     (unat (jc_span chunk) \<le> child_room ctx k \<longrightarrow>
        tree_part delivers encrypted rootc (child_begin ctx k) chunk)"

fun event_ok ::
  "(bool \<Rightarrow> bytes \<Rightarrow> DecodedJoinChunk \<Rightarrow> bool) \<Rightarrow> bool \<Rightarrow> DecodedJoinChunk \<Rightarrow> GroupFetchEvent \<Rightarrow> bool" where
  "event_ok delivers encrypted rootc (Child ctx k chunk) = emission_ok delivers encrypted rootc ctx k chunk"
| "event_ok delivers encrypted rootc (Terminal success) = True"

definition work_ok ::
  "(bool \<Rightarrow> bytes \<Rightarrow> DecodedJoinChunk \<Rightarrow> bool) \<Rightarrow> bool \<Rightarrow> DecodedJoinChunk \<Rightarrow> JoinState \<Rightarrow> bool" where
  "work_ok delivers encrypted rootc s \<longleftrightarrow>
     (\<forall>n \<in> set (js_pending s). tree_part delivers encrypted rootc (unat (tn_start n)) (tn_chunk n)) \<and>
     (\<forall>g \<in> set (js_groups s). \<forall>(k, c) \<in> set (gr_emissions g).
        emission_ok delivers encrypted rootc (gr_context g) k c) \<and>
     (\<forall>v \<in> set (js_channel s). event_ok delivers encrypted rootc v)"

text \<open>\<open>W\<close> is the set of positions written so far.\<close>

definition written_ok ::
  "(bool \<Rightarrow> bytes \<Rightarrow> DecodedJoinChunk \<Rightarrow> bool) \<Rightarrow> JoinRequest \<Rightarrow> DecodedJoinChunk \<Rightarrow> nat set \<Rightarrow>
   bytes \<Rightarrow> u64 \<Rightarrow> bool" where
  "written_ok delivers rq rootc W out written \<longleftrightarrow>
     W \<subseteq> range_set rq \<and> card W = unat written \<and>
     length out = length (rq_prefix rq) + requested_len rq \<and>
     (\<forall>i < length (rq_prefix rq). out ! i = rq_prefix rq ! i) \<and>
     (\<forall>p \<in> W. holds_byte delivers (rq_encrypted rq) 0 rootc p
        (out ! (length (rq_prefix rq) + (p - unat (rq_start rq)))))"

definition read_ok ::
  "(bool \<Rightarrow> bytes \<Rightarrow> DecodedJoinChunk \<Rightarrow> bool) \<Rightarrow> JoinRequest \<Rightarrow> DecodedJoinChunk \<Rightarrow> bytes \<Rightarrow> bool" where
  "read_ok delivers rq rootc out \<longleftrightarrow>
     length out = length (rq_prefix rq) + requested_len rq \<and>
     take (length (rq_prefix rq)) out = rq_prefix rq \<and>
     (\<forall>i < requested_len rq. holds_byte delivers (rq_encrypted rq) 0 rootc (unat (rq_start rq) + i)
        (out ! (length (rq_prefix rq) + i)))"

definition join_inv ::
  "(bool \<Rightarrow> bytes \<Rightarrow> DecodedJoinChunk \<Rightarrow> bool) \<Rightarrow> JoinRequest \<Rightarrow> DecodedJoinChunk \<Rightarrow> JoinState \<Rightarrow> bool" where
  "join_inv delivers rq rootc s \<longleftrightarrow>
     (js_result s = None \<longrightarrow> work_ok delivers (rq_encrypted rq) rootc s \<and>
        (\<exists>W. written_ok delivers rq rootc W (js_output s) (js_written s) \<and>
             (\<forall>p. cover s p + of_bool (p \<in> W) \<le> 1))) \<and>
     (\<forall>out. js_result s = Some (Some out) \<longrightarrow> read_ok delivers rq rootc out)"

lemma finite_range_set [simp]: "finite (range_set rq)"
  by (simp add: range_set_def)

lemma card_range_set: "rq_start rq \<le> rq_end rq \<Longrightarrow> card (range_set rq) = requested_len rq"
  by (simp add: range_set_def requested_len_def word_le_nat_alt)

text \<open>When as many bytes were written as were asked for, every position of the range was.\<close>

lemma written_all:
  assumes "written_ok delivers rq rootc W out written" "unat written = requested_len rq"
    "rq_start rq \<le> rq_end rq"
  shows "read_ok delivers rq rootc out"
proof -
  have "W = range_set rq"
    using assms card_range_set [OF assms(3)] card_subset_eq [OF finite_range_set, of W rq]
    by (auto simp: written_ok_def)
  moreover have "unat (rq_start rq) + i \<in> range_set rq" if "i < requested_len rq" for i
    using that assms(3) by (auto simp: range_set_def requested_len_def word_le_nat_alt)
  moreover have "take (length (rq_prefix rq)) out = rq_prefix rq"
    using assms(1) by (intro nth_equalityI) (auto simp: written_ok_def)
  ultimately show ?thesis using assms(1) by (fastforce simp: written_ok_def read_ok_def)
qed

lemma tree_part_leaf:
  assumes "tree_part delivers encrypted rootc (unat (tn_start node)) (tn_chunk node)"
    "unat (jc_span (tn_chunk node)) \<le> CHUNK_SIZE" "p \<in> node_region node"
    "p - unat (tn_start node) < length (jc_payload (tn_chunk node))"
  shows "holds_byte delivers encrypted 0 rootc p (jc_payload (tn_chunk node) ! (p - unat (tn_start node)))"
proof -
  have "holds_byte delivers encrypted (unat (tn_start node)) (tn_chunk node)
      (unat (tn_start node) + (p - unat (tn_start node))) (jc_payload (tn_chunk node) ! (p - unat (tn_start node)))"
    using assms(2-4) by (intro holds_byte.leaf) (auto simp: node_region_def)
  then show ?thesis using assms(1,3) by (simp add: tree_part_def node_region_def)
qed

lemma leaf_written:
  assumes "written_ok delivers rq rootc W out written" "leaf_copy rq node out written = Some (out', written')"
    "rq_start rq \<le> rq_end rq" "tree_part delivers (rq_encrypted rq) rootc (unat (tn_start node)) (tn_chunk node)"
    "unat (jc_span (tn_chunk node)) \<le> CHUNK_SIZE" "W \<inter> node_region node = {}"
  shows "written_ok delivers rq rootc (W \<union> (node_region node \<inter> range_set rq)) out' written'"
proof -
  have len: "length out = length (rq_prefix rq) + requested_len rq" using assms(1) by (simp add: written_ok_def)
  note c = leaf_copy_spec [OF assms(2) len assms(3)]
  have "card (W \<union> (node_region node \<inter> range_set rq)) = card W + card (node_region node \<inter> range_set rq)"
    using assms(1,6) by (intro card_Un_disjoint) (auto simp: written_ok_def intro: finite_subset)
  moreover have "holds_byte delivers (rq_encrypted rq) 0 rootc p
      (out' ! (length (rq_prefix rq) + (p - unat (rq_start rq))))"
    if "p \<in> W \<union> (node_region node \<inter> range_set rq)" for p
  proof (cases "p \<in> node_region node")
    case True
    then show ?thesis using that assms(1) c(4,5) [of p] tree_part_leaf [OF assms(4,5) True]
      by (auto simp: written_ok_def)
  next
    case False
    then show ?thesis using that assms(1) c(5) [of p] by (auto simp: written_ok_def)
  qed
  ultimately show ?thesis using assms(1) c(1-3) by (auto simp: written_ok_def)
qed

end
