(* ===== verification/JoinRead.thy ===== *)
theory JoinRead
  imports JoinSafety
begin

text \<open>
  The range reader against its interface to the group fetch.  A trace of a group may emit each
  requested child at most once, and only a chunk that the chunk layer delivers for its reference;
  a trace that ends with success has emitted every requested child.
\<close>

lemma pop_node_cases:
  "pop_node rq node s = PopLeaf out written \<Longrightarrow>
     unat (jc_span (tn_chunk node)) \<le> CHUNK_SIZE \<and>
     leaf_copy rq node (js_output s) (js_written s) = Some (out, written)"
  "pop_node rq node s = PopGroup ctx request \<Longrightarrow>
     CHUNK_SIZE < unat (jc_span (tn_chunk node)) \<and> expand_node rq node = Some (ctx, request)"
  by (auto simp: pop_node_def split: if_splits option.splits)

lemma join_inv_failed: "js_result s = Some None \<Longrightarrow> join_inv delivers rq rootc s"
  by (simp add: join_inv_def)

lemma join_invI:
  "js_result s = None \<Longrightarrow> work_ok delivers (rq_encrypted rq) rootc s \<Longrightarrow>
   written_ok delivers rq rootc W (js_output s) (js_written s) \<Longrightarrow>
   (\<And>p. cover s p + of_bool (p \<in> W) \<le> 1) \<Longrightarrow> join_inv delivers rq rootc s"
  unfolding join_inv_def by (intro conjI impI allI exI [of _ W]) simp_all

text \<open>A step that writes nothing and adds no cover keeps the invariant when its new work is sound.\<close>

lemma join_inv_shrink:
  assumes "join_inv delivers rq rootc s" "js_result s = None" "js_result s' = None"
    "js_output s' = js_output s" "js_written s' = js_written s"
    "work_ok delivers (rq_encrypted rq) rootc s'" "\<And>p. cover s' p \<le> cover s p"
  shows "join_inv delivers rq rootc s'"
proof -
  from assms(1,2) obtain W where "written_ok delivers rq rootc W (js_output s) (js_written s)"
    "\<forall>p. cover s p + of_bool (p \<in> W) \<le> 1" by (auto simp: join_inv_def)
  moreover from this(2) have "\<forall>p. cover s' p + of_bool (p \<in> W) \<le> 1"
    using assms(7) by (meson add_le_mono1 order_trans)
  ultimately show ?thesis using assms(3-6) by (intro join_invI [of s' delivers rq rootc W]) simp_all
qed

lemma join_inv_work:
  "join_inv delivers rq rootc s \<Longrightarrow> js_result s = None \<Longrightarrow> work_ok delivers (rq_encrypted rq) rootc s"
  by (simp add: join_inv_def)

lemma child_node_cover:
  assumes "child_node rq ctx k c = Some (Some n)" "k < 2 ^ 64"
  shows "node_cover p n \<le> of_bool (p \<in> child_region ctx k)"
  using child_node_Some [OF assms] by (auto simp: node_cover_def node_region_def child_region_def)

lemma recv_child_inv:
  assumes "join_inv delivers rq rootc s" "js_result s = None" "js_channel s = Child ctx k c # channel"
  shows "join_inv delivers rq rootc (recv_child rq ctx k c (s\<lparr>js_channel := channel\<rparr>))"
proof -
  from assms have ok: "emission_ok delivers (rq_encrypted rq) rootc ctx k c"
    by (simp add: join_inv_def work_ok_def)
  then have k: "k < 2 ^ 64" by (simp add: emission_ok_def ctx_ok_def)
  note work = join_inv_work [OF assms(1,2)]
  show ?thesis
  proof (cases "child_node rq ctx k c")
    case None
    then show ?thesis by (simp add: recv_child_def join_inv_failed)
  next
    case (Some child)
    show ?thesis
    proof (cases child)
      case None
      show ?thesis
        by (rule join_inv_shrink [OF assms(1,2)])
           (use assms work in \<open>simp_all add: recv_child_def Some None work_ok_def cover_def\<close>)
    next
      case n: (Some n)
      have part: "tree_part delivers (rq_encrypted rq) rootc (unat (tn_start n)) (tn_chunk n)"
        using ok child_node_Some [OF Some [unfolded n] k] by (simp add: emission_ok_def)
      have "cover (recv_child rq ctx k c (s\<lparr>js_channel := channel\<rparr>)) p \<le> cover s p" for p
        using child_node_cover [OF Some [unfolded n] k, of p] assms(3)
        by (simp add: recv_child_def Some n cover_def)
      then show ?thesis
        by (intro join_inv_shrink [OF assms(1,2)])
           (use assms(2,3) work part in \<open>simp_all add: recv_child_def Some n work_ok_def\<close>)
    qed
  qed
qed

text \<open>The number of bytes a read of the range gives: the range is cut at the end of the data.\<close>

definition range_len :: "DecodedJoinChunk \<Rightarrow> u64 \<Rightarrow> u64 \<Rightarrow> nat" where
  "range_len rootc payload_start payload_end =
     (if payload_end < payload_start \<or> jc_span rootc \<le> payload_start then 0
      else min (unat payload_end) (unat (jc_span rootc) - 1) - unat payload_start + 1)"

lemma join_start_Inr:
  assumes "join_start memory rootc payload_start payload_end encrypted output_prefix = Inr (rq, s0)"
  shows "rq_start rq = payload_start" "rq_start rq \<le> rq_end rq" "unat (rq_end rq) < unat (jc_span rootc)"
    "rq_encrypted rq = encrypted" "rq_prefix rq = output_prefix"
    "requested_len rq = range_len rootc payload_start payload_end"
    "s0 = \<lparr>js_output = output_prefix @ replicate (requested_len rq) 0, js_written = 0,
       js_pending = [\<lparr>tn_start = 0, tn_depth = 0, tn_chunk = rootc\<rparr>],
       js_groups = [], js_channel = [], js_active = 0, js_result = None\<rparr>"
proof -
  from assms have c: "payload_start \<le> payload_end" "payload_start < jc_span rootc"
    by (auto simp: join_start_def split: if_splits)
  define e where "e = min payload_end (jc_span rootc - 1)"
  have s1: "unat (jc_span rootc - 1) = unat (jc_span rootc) - 1"
    using c(2) by (simp add: unat_sub word_le_nat_alt word_less_nat_alt)
  then have e: "unat e = min (unat payload_end) (unat (jc_span rootc) - 1)" by (simp add: e_def unat_min)
  from assms c obtain len out where len: "Option.bind (checked_sub e payload_start) (\<lambda>l. checked_add l 1) = Some len"
    and out: "allocate_join_output memory len output_prefix = Some out"
    and rq: "rq = \<lparr>rq_start = payload_start, rq_end = e, rq_encrypted = encrypted, rq_prefix = output_prefix\<rparr>"
    and s0: "s0 = \<lparr>js_output = out, js_written = 0, js_pending = [\<lparr>tn_start = 0, tn_depth = 0, tn_chunk = rootc\<rparr>],
       js_groups = [], js_channel = [], js_active = 0, js_result = None\<rparr>"
    by (auto simp: join_start_def Let_def e_def [symmetric] split: if_splits option.splits)
  have ul: "unat len = unat e - unat payload_start + 1"
    using len by (auto simp: bind_eq_Some_conv checked_sub_Some checked_add_Some)
  have out': "out = output_prefix @ replicate (unat len) 0"
    using out by (auto simp: allocate_join_output_def bind_eq_Some_conv split: if_splits)
  show "rq_start rq = payload_start" "rq_encrypted rq = encrypted" "rq_prefix rq = output_prefix"
    by (simp_all add: rq)
  show "rq_start rq \<le> rq_end rq" using c e by (simp add: rq word_le_nat_alt word_less_nat_alt)
  show "unat (rq_end rq) < unat (jc_span rootc)" using c(2) e by (simp add: rq word_less_nat_alt)
  show "requested_len rq = range_len rootc payload_start payload_end"
    using c by (simp add: requested_len_def range_len_def rq e leD)
  show "s0 = \<lparr>js_output = output_prefix @ replicate (requested_len rq) 0, js_written = 0,
       js_pending = [\<lparr>tn_start = 0, tn_depth = 0, tn_chunk = rootc\<rparr>],
       js_groups = [], js_channel = [], js_active = 0, js_result = None\<rparr>"
    by (simp add: s0 out' ul requested_len_def rq)
qed

lemma join_start_inv:
  assumes "join_start memory rootc payload_start payload_end encrypted output_prefix = Inr (rq, s0)"
  shows "join_inv delivers rq rootc s0"
  by (rule join_invI [where W = "{}"])
     (simp_all add: join_start_Inr [OF assms] work_ok_def written_ok_def cover_def tree_part_def
        node_cover_def nth_append)

locale group_fetcher =
  fixes group_trace :: "group_request \<Rightarrow> group_trace \<Rightarrow> bool"
    and delivers :: "bool \<Rightarrow> bytes \<Rightarrow> DecodedJoinChunk \<Rightarrow> bool"
  assumes trace_indices: "group_trace (ds, ps, enc, req) (ems, success) \<Longrightarrow> distinct req \<Longrightarrow>
      distinct (map fst ems) \<and> set (map fst ems) \<subseteq> set req"
    and trace_delivers: "group_trace (ds, ps, enc, req) (ems, success) \<Longrightarrow> distinct req \<Longrightarrow> (k, c) \<in> set ems \<Longrightarrow>
      delivers enc (ds ! k) c"
    and trace_complete: "group_trace (ds, ps, enc, req) (ems, True) \<Longrightarrow> distinct req \<Longrightarrow> set req \<subseteq> set (map fst ems)"
begin

lemma group_emissions_ok:
  assumes exp: "expand_node rq node = Some (ctx, ds, ps, enc, req)"
    and tr: "group_trace (ds, ps, enc, req) (ems, success)" and em: "(k, c) \<in> set ems"
    and part: "tree_part delivers (rq_encrypted rq) rootc (unat (tn_start node)) (tn_chunk node)"
    and big: "CHUNK_SIZE < unat (jc_span (tn_chunk node))"
  shows "emission_ok delivers (rq_encrypted rq) rootc ctx k c"
proof -
  obtain layout where
    l: "returned (reference_layout (jc_span (tn_chunk node)) (jc_level (tn_chunk node)) (rq_encrypted rq)) = Some layout"
      "returned (split_references (jc_payload (tn_chunk node)) (jc_span (tn_chunk node))
         (jc_level (tn_chunk node)) (rq_encrypted rq)) = Some (ds, ps)"
    and ctx: "ctx = expand_ctx node layout" "enc = rq_encrypted rq" "ctx_ok ctx"
    and req: "req = [child_index layout (unat (rq_start rq) - unat (tn_start node))..<
       Suc (child_index layout (unat (rq_end rq) - unat (tn_start node)))]"
    using expand_node_Some [OF exp] by metis
  have d: "distinct req" by (simp add: req del: upt_Suc)
  have "k \<in> set req" using trace_indices [OF tr d] em by force
  then have k: "k < data_shards layout"
    using child_index_less [OF reference_layout_covers(2) [OF l(1)]] req
    by (auto simp del: upt_Suc dest!: less_Suc_eq_le [THEN iffD1] intro: le_less_trans)
  have "holds_byte delivers (rq_encrypted rq) 0 rootc p b"
    if "unat (jc_span c) \<le> child_room ctx k" "holds_byte delivers (rq_encrypted rq) (child_begin ctx k) c p b"
    for p b
  proof -
    have "holds_byte delivers (rq_encrypted rq) (unat (tn_start node)) (tn_chunk node) p b"
      using that trace_delivers [OF tr d em] big l k
      by (intro holds_byte.inner [of "tn_chunk node" "rq_encrypted rq" layout ds ps k])
         (auto simp: ctx expand_ctx_def child_room_def child_begin_def)
    then show ?thesis using part by (simp add: tree_part_def)
  qed
  then show ?thesis
    using ctx(3) k by (simp add: emission_ok_def tree_part_def ctx expand_ctx_def)
qed

lemma pop_group_inv:
  assumes inv: "join_inv delivers rq rootc s" and r: "js_result s = None" and pend: "js_pending s = node # rest"
    and pop: "pop_node rq node s = PopGroup ctx request" and tr: "group_trace request (ems, success)"
  shows "join_inv delivers rq rootc
    (s\<lparr>js_pending := rest, js_active := js_active s + 1, js_groups := js_groups s @
         [\<lparr>gr_context = ctx, gr_emissions = ems, gr_success = success\<rparr>]\<rparr>)" (is "join_inv _ _ _ ?s")
proof -
  obtain ds ps enc req where request: "request = (ds, ps, enc, req)" by (cases request)
  note p = pop_node_cases(2) [OF pop, unfolded request] and tr' = tr [unfolded request]
  obtain layout where ctx: "ctx = expand_ctx node layout" "ctx_ok ctx"
    and req: "req = [child_index layout (unat (rq_start rq) - unat (tn_start node))..<
       Suc (child_index layout (unat (rq_end rq) - unat (tn_start node)))]"
    using expand_node_Some [of rq node ctx ds ps enc req] p by metis
  have d: "distinct req" by (simp add: req del: upt_Suc)
  have part: "tree_part delivers (rq_encrypted rq) rootc (unat (tn_start node)) (tn_chunk node)"
    using inv r pend by (simp add: join_inv_def work_ok_def)
  have ok: "emission_ok delivers (rq_encrypted rq) rootc ctx k c" if "(k, c) \<in> set ems" for k c
    using group_emissions_ok [OF _ tr' that part] p by blast
  have "emission_cover q ctx ems \<le> node_cover q node" for q
    using emission_cover_parent [OF ctx(2), of ems q] trace_indices [OF tr' d] ok
    by (fastforce simp: emission_ok_def ctx(1) expand_ctx_def node_cover_def node_region_def)
  then have "cover ?s q \<le> cover s q" for q
    by (simp add: cover_def pend group_cover_def add.commute add_le_mono)
  moreover have "work_ok delivers (rq_encrypted rq) rootc ?s"
    using join_inv_work [OF inv r] pend ok by (auto simp: work_ok_def)
  ultimately show ?thesis by (intro join_inv_shrink [OF inv r]) (simp_all add: r)
qed

lemma pop_leaf_inv:
  assumes inv: "join_inv delivers rq rootc s" and r: "js_result s = None" and pend: "js_pending s = node # rest"
    and pop: "pop_node rq node s = PopLeaf out written" and rq: "rq_start rq \<le> rq_end rq"
  shows "join_inv delivers rq rootc (s\<lparr>js_pending := rest, js_output := out, js_written := written\<rparr>)"
    (is "join_inv _ _ _ ?s")
proof -
  note p = pop_node_cases(1) [OF pop]
  from inv r pend obtain W where W: "written_ok delivers rq rootc W (js_output s) (js_written s)"
    and cov: "\<forall>p. cover s p + of_bool (p \<in> W) \<le> 1"
    and part: "tree_part delivers (rq_encrypted rq) rootc (unat (tn_start node)) (tn_chunk node)"
    and work: "work_ok delivers (rq_encrypted rq) rootc s"
    by (auto simp: join_inv_def work_ok_def)
  have disj: "W \<inter> node_region node = {}"
  proof (rule ccontr)
    assume "W \<inter> node_region node \<noteq> {}"
    then obtain q where "q \<in> W" "q \<in> node_region node" by blast
    then show False using cov [rule_format, of q] by (simp add: cover_def pend node_cover_def)
  qed
  have "cover ?s q + of_bool (q \<in> W \<union> (node_region node \<inter> range_set rq)) \<le> 1" for q
    using cov [rule_format, of q] disj
    by (auto simp: cover_def pend node_cover_def split: if_splits)
  moreover have "work_ok delivers (rq_encrypted rq) rootc ?s" using work pend by (simp add: work_ok_def)
  moreover have "written_ok delivers rq rootc (W \<union> (node_region node \<inter> range_set rq)) out written"
    using leaf_written [OF W _ rq part _ disj] p by blast
  ultimately show ?thesis
    by (intro join_invI [where W = "W \<union> (node_region node \<inter> range_set rq)"]) (use r in simp_all)
qed

lemma join_inv_step:
  assumes "join_step group_trace rq s s'" "join_inv delivers rq rootc s" "rq_start rq \<le> rq_end rq"
  shows "join_inv delivers rq rootc s'"
  using assms
proof (cases rule: join_step.cases)
  case (pop_leaf node rest out written)
  then show ?thesis using pop_leaf_inv assms(2,3) by blast
next
  case (pop_group node rest ctx request ems success)
  then show ?thesis using pop_group_inv [OF assms(2)] by simp
next
  case (emit before g after index chunk emissions)
  then show ?thesis
    using join_inv_work [OF assms(2)]
    by (intro join_inv_shrink [OF assms(2)])
       (auto simp: work_ok_def cover_def group_cover_def emission_cover_def)
next
  case (complete before g after)
  then show ?thesis
    using join_inv_work [OF assms(2)]
    by (intro join_inv_shrink [OF assms(2)])
       (auto simp: work_ok_def cover_def group_cover_def emission_cover_def)
next
  case (recv_child ctx index chunk channel)
  then show ?thesis using recv_child_inv [OF assms(2)] by simp
next
  case (recv_terminal success channel)
  show ?thesis
  proof (cases "js_result s'")
    case None
    then show ?thesis
      using recv_terminal join_inv_work [OF assms(2)]
      by (intro join_inv_shrink [OF assms(2)])
         (auto simp: work_ok_def cover_def recv_terminal_def split: option.splits if_splits)
  next
    case (Some r)
    then have "js_result s' = Some None"
      using recv_terminal by (auto simp: recv_terminal_def split: option.splits if_splits)
    then show ?thesis by (rule join_inv_failed)
  qed
next
  case finish
  then show ?thesis using written_all [OF _ _ assms(3)] assms(2)
    by (fastforce simp: join_inv_def join_finish_def)
qed (simp_all add: join_inv_failed)

lemma join_inv_run:
  "(join_step group_trace rq)\<^sup>*\<^sup>* s s' \<Longrightarrow> join_inv delivers rq rootc s \<Longrightarrow> rq_start rq \<le> rq_end rq \<Longrightarrow>
     join_inv delivers rq rootc s'"
  by (induction rule: rtranclp_induct) (auto intro: join_inv_step)

lemma range_read_some:
  assumes "range_read group_trace memory rootc payload_start payload_end encrypted output_prefix (Some out)"
  shows "length out = length output_prefix + range_len rootc payload_start payload_end \<and>
    take (length output_prefix) out = output_prefix \<and>
    (\<forall>i < range_len rootc payload_start payload_end.
       holds_byte delivers encrypted 0 rootc (unat payload_start + i) (out ! (length output_prefix + i)))"
  using assms
proof (cases rule: range_read.cases)
  case at_once
  then have "range_len rootc payload_start payload_end = 0" "out = output_prefix"
    by (auto simp: join_start_def range_len_def Let_def split: if_splits option.splits)
  then show ?thesis by simp
next
  case (walked rq s0 s)
  note st = join_start_Inr [OF walked(1)]
  have "join_inv delivers rq rootc s0" using join_start_inv [OF walked(1)] .
  then have "join_inv delivers rq rootc s" using join_inv_run [OF walked(2)] st by simp
  then have "read_ok delivers rq rootc out" using walked(3) by (simp add: join_inv_def)
  then show ?thesis using st by (simp add: read_ok_def)
qed

end

end
