(* ===== verification/RetrieveChunk.thy ===== *)
theory RetrieveChunk
  imports Network RetrievalConventions Chunks
begin

text \<open>
  \<open>src/retrieval.rs\<close>, the retrieval of one chunk: the choice of a peer, the attempts and
  their settlement, and the loop of \<open>retrieve_chunk\<close>.  Any number of retrievals run at a
  time over the shared accounts; an attempt is a task of its own that outlives the retrieval which
  started it.  A step is the code between two awaits, so the steps of different retrievals, of the
  attempts and of the rest of the node interleave freely.

  What the clock, the pause switch and the cancel token say is an argument of a step
  (\<open>Now\<close>), and so is what a peer answers to an attempt.  \<open>verify\<close> is
  \<open>verify_content_addresses()\<close>.  A hash map is iterated in any order and sorted by an
  unstable sort, so the candidates are any listing of the peers that is sorted by proximity.
\<close>

section \<open>Data\<close>

record RetrieveAttemptResult =
  ra_chunk :: bytes
  ra_valid :: bool
  ra_soc :: bool

text \<open>A reserved peer, with the retrieval (its number) for which the attempt runs.\<close>

record ReservedRetrievePeer =
  rp_peer :: PeerId
  rp_price :: u64
  rp_accounting :: AccountRef
  rp_session :: TransportConnectionSession

datatype WaitKind = WaitPromoted | WaitResult | WaitResumed | WaitHedge

text \<open>Where a retrieval is: at an await of the source, or at the head of its loop.\<close>

datatype RetrievePc =
    Head
  | PausedWait
  | SelectStart WaitKind
  | Selecting WaitKind "(PeerId \<times> u8) list"
  | Reserving WaitKind PeerId u8 AccountRef "(PeerId \<times> u8) list"
  | DropCandidate WaitKind AccountRef u64 "(PeerId \<times> u8) list"
  | RefuseSelected AccountRef u64 PeerId bool
  | RetryWait
  | Waiting WaitKind
  | Finished "(bytes \<times> bool) option"

record Retrieval =
  rt_caddr :: bytes
  rt_key :: bytes
  rt_encrypted :: bool
  rt_expect :: ChunkShape
  rt_admission :: "RetrieveAdmission option"
  rt_hedge_demand :: "u8 option"
  rt_skiplist :: "(PeerId \<times> bool) list"
  rt_attempt_count :: usize
  rt_error_count :: usize
  rt_in_flight :: usize
  rt_results :: "RetrieveAttemptResult list"
  rt_pc :: RetrievePc

record Now =
  now_generation_current :: bool
  now_paused :: bool
  now_hedge_due :: bool

definition RETRIEVE_CHUNK_MAX_ATTEMPT_ERRORS :: usize where
  "RETRIEVE_CHUNK_MAX_ATTEMPT_ERRORS = 20"

section \<open>Choosing a peer\<close>

definition candidate_list :: "bytes \<Rightarrow> (bytes \<rightharpoonup> PeerId) \<Rightarrow> (PeerId \<times> u8) list \<Rightarrow> bool" where
  "candidate_list caddr peers cands \<longleftrightarrow>
     (\<exists>overlays. distinct overlays \<and> set overlays = dom peers \<and>
        mset cands = mset (map (\<lambda>ov. (the (peers ov), get_proximity caddr ov)) overlays)) \<and>
     sorted_wrt (\<lambda>a b. snd b \<le> snd a) cands"

text \<open>
  One turn of the loop over the candidates up to the lock of the account: a skipped peer and a
  peer without an account are passed over.
\<close>

definition try_candidate :: "(PeerId \<rightharpoonup> AccountRef) \<Rightarrow> WaitKind \<Rightarrow> PeerId \<Rightarrow> u8 \<Rightarrow>
    (PeerId \<times> u8) list \<Rightarrow> Retrieval \<Rightarrow> Retrieval" where
  "try_candidate accounting kind peer proximity rest t =
     (if map_of (rt_skiplist t) peer \<noteq> None then t\<lparr>rt_pc := Selecting kind rest\<rparr>
      else let t' = t\<lparr>rt_skiplist := (peer, True) # rt_skiplist t\<rparr> in
        (case accounting peer of
           None \<Rightarrow> t'\<lparr>rt_pc := Selecting kind rest\<rparr>
         | Some account \<Rightarrow> t'\<lparr>rt_pc := Reserving kind peer proximity account rest\<rparr>))"

datatype Reservation = Overdrawn | Stale u64 Account | Reserved ReservedRetrievePeer Account

definition reserve_candidate ::
  "PhysicalConnectionMap \<Rightarrow> PeerId \<Rightarrow> u8 \<Rightarrow> AccountRef \<Rightarrow> Account \<Rightarrow> Reservation" where
  "reserve_candidate connections peer proximity account a =
     (let req_price = price proximity in
      case reserve req_price a of
        None \<Rightarrow> Overdrawn
      | Some (connection_id, a') \<Rightarrow>
          (case session_capture peer connection_id connections of
             None \<Rightarrow> Stale req_price a'
           | Some session \<Rightarrow> Reserved \<lparr>rp_peer = peer, rp_price = req_price, rp_accounting = account,
               rp_session = session\<rparr> a'))"

definition set_permanent :: "PeerId \<Rightarrow> bool \<Rightarrow> (PeerId \<times> bool) list \<Rightarrow> (PeerId \<times> bool) list" where
  "set_permanent peer permanent skiplist = AList.update peer permanent skiplist"

definition reset_overdraft :: "(PeerId \<times> bool) list \<Rightarrow> bool \<times> (PeerId \<times> bool) list" where
  "reset_overdraft skiplist =
     (let kept = filter snd skiplist in (length skiplist \<noteq> length kept, kept))"

section \<open>Attempts\<close>

definition failed_retrieve_attempt :: RetrieveAttemptResult where
  "failed_retrieve_attempt = \<lparr>ra_chunk = [], ra_valid = False, ra_soc = False\<rparr>"

definition record_retrieve_attempt_result ::
  "RetrieveAttemptResult \<Rightarrow> Retrieval \<Rightarrow> (bytes \<times> bool) option \<times> Retrieval" where
  "record_retrieve_attempt_result result t =
     (let t' = t\<lparr>rt_in_flight := rt_in_flight t - 1\<rparr> in
      if ra_valid result then (Some (ra_chunk result, ra_soc result), t')
      else (None, t'\<lparr>rt_error_count := rt_error_count t' + 1\<rparr>))"

definition settle_retrieve_attempt ::
  "(bytes \<Rightarrow> bytes) \<Rightarrow> 'sig ecdsa \<Rightarrow> bool \<Rightarrow> bool \<Rightarrow> bytes \<Rightarrow> u64 \<Rightarrow> bytes option \<Rightarrow> ChunkShape \<Rightarrow> Account \<Rightarrow>
   RetrieveAttemptResult \<times> Account" where
  "settle_retrieve_attempt keccak curve verify send_ok caddr req_price retrieve_result expect a =
     (case retrieve_result of
        Some chunk \<Rightarrow>
          (let (chunk_valid, soc) = verify_chunk_with keccak curve caddr chunk expect verify in
           if chunk_valid
           then (\<lparr>ra_chunk = chunk, ra_valid = True, ra_soc = soc\<rparr>, fst (apply_credit send_ok req_price a))
           else (failed_retrieve_attempt, fst (cancel_reserve req_price a)))
      | None \<Rightarrow> (failed_retrieve_attempt, fst (cancel_reserve req_price a)))"

text \<open>What came of the exchange: its deadline passed, or the handler answered.\<close>

datatype Exchange = DeadlinePassed | Handled "bytes option"

definition note_exchange :: "Exchange \<Rightarrow> RetrieveAdmission \<Rightarrow> RetrieveAdmission" where
  "note_exchange exchange admission =
     (case exchange of
        DeadlinePassed \<Rightarrow> record_physical_attempt_timeout admission
      | Handled (Some []) \<Rightarrow> record_confirmed_empty_physical_attempt admission
      | Handled _ \<Rightarrow> admission)"

definition exchange_result :: "Exchange \<Rightarrow> bytes option" where
  "exchange_result exchange = (case exchange of DeadlinePassed \<Rightarrow> None | Handled r \<Rightarrow> r)"

definition retrieve_attempt ::
  "(bytes \<Rightarrow> bytes) \<Rightarrow> 'sig ecdsa \<Rightarrow> bool \<Rightarrow> bool \<Rightarrow> Exchange \<Rightarrow> ReservedRetrievePeer \<Rightarrow> Retrieval \<Rightarrow> Account \<Rightarrow>
   Retrieval \<times> Account" where
  "retrieve_attempt keccak curve verify send_ok exchange selected t a =
     (let (result, a') = settle_retrieve_attempt keccak curve verify send_ok (rt_caddr t)
            (rp_price selected) (exchange_result exchange) (rt_expect t) a
      in (t\<lparr>rt_admission := map_option (note_exchange exchange) (rt_admission t),
            rt_results := rt_results t @ [result]\<rparr>, a'))"

section \<open>The loop\<close>

definition admission_current :: "Now \<Rightarrow> Retrieval \<Rightarrow> bool" where
  "admission_current now t = retrieve_admission_current (now_generation_current now) (rt_admission t)"

definition current_hedge_demand :: "Retrieval \<Rightarrow> RetrieveHedgeDemand" where
  "current_hedge_demand t = (case rt_hedge_demand t of None \<Rightarrow> Ordinary | Some d \<Rightarrow> hedge_current d)"

definition can_start_attempt :: "Retrieval \<Rightarrow> bool" where
  "can_start_attempt t \<longleftrightarrow> rt_attempt_count t < RETRIEVE_CHUNK_MAX_ATTEMPT_ERRORS \<and>
     (case rt_admission t of None \<Rightarrow> True | Some a \<Rightarrow> physical_attempt_available a)"

definition wait_kind :: "Now \<Rightarrow> Retrieval \<Rightarrow> WaitKind" where
  "wait_kind now t =
     (if current_hedge_demand t = DistinctShardManaged then WaitPromoted
      else if \<not> can_start_attempt t \<or> \<not> admission_current now t then WaitResult
      else if now_paused now then WaitResumed else WaitHedge)"

definition await_result :: "WaitKind \<Rightarrow> Retrieval \<Rightarrow> Retrieval" where
  "await_result kind t =
     (if rt_in_flight t = 0 then t\<lparr>rt_pc := Finished None\<rparr> else t\<lparr>rt_pc := Waiting kind\<rparr>)"

text \<open>A result from the channel: a success ends the loop, an error goes to \<open>next_pc\<close>.\<close>

definition take_result :: "RetrievePc \<Rightarrow> Retrieval \<Rightarrow> Retrieval" where
  "take_result next_pc t =
     (case rt_results t of
        [] \<Rightarrow> t
      | result # rest \<Rightarrow>
          (case record_retrieve_attempt_result result (t\<lparr>rt_results := rest\<rparr>) of
             (Some success, t') \<Rightarrow> t'\<lparr>rt_pc := Finished (Some success)\<rparr>
           | (None, t') \<Rightarrow> t'\<lparr>rt_pc := next_pc\<rparr>))"

definition loop_head :: "Now \<Rightarrow> Retrieval \<Rightarrow> Retrieval" where
  "loop_head now t =
     (if \<not> (rt_error_count t < RETRIEVE_CHUNK_MAX_ATTEMPT_ERRORS \<and>
            (rt_attempt_count t < RETRIEVE_CHUNK_MAX_ATTEMPT_ERRORS \<or> 0 < rt_in_flight t))
      then t\<lparr>rt_pc := Finished None\<rparr>
      else if 0 < rt_in_flight t \<and> rt_results t \<noteq> [] then take_result Head t
      else if \<not> admission_current now t \<and> rt_in_flight t = 0 then t\<lparr>rt_pc := Finished None\<rparr>
      else if now_paused now \<and> rt_in_flight t = 0 then t\<lparr>rt_pc := PausedWait\<rparr>
      else if can_start_attempt t \<and> \<not> now_paused now \<and> admission_current now t \<and>
              retrieve_attempt_start_allowed (current_hedge_demand t) (rt_in_flight t) (now_hedge_due now)
      then t\<lparr>rt_pc := SelectStart (wait_kind now t)\<rparr>
      else await_result (wait_kind now t) t)"

text \<open>
  The part after a peer was chosen: the attempt starts, or its reserve has to be given back.  The
  claim of a closed or spent admission fails; an open one is charged.
\<close>

definition claim_attempt :: "Retrieval \<Rightarrow> bool \<times> Retrieval" where
  "claim_attempt t =
     (case rt_admission t of
        None \<Rightarrow> (True, t)
      | Some a \<Rightarrow> (let (claimed, a') = try_claim_physical_attempt a in
                   (claimed, t\<lparr>rt_admission := Some a'\<rparr>)))"

definition start_attempt :: "Now \<Rightarrow> WaitKind \<Rightarrow> ReservedRetrievePeer \<Rightarrow> Retrieval \<Rightarrow> bool \<times> Retrieval" where
  "start_attempt now kind selected t =
     (let cancelled = \<not> admission_current now t;
          paused = (\<not> cancelled \<and> now_paused now);
          refuse = (\<lambda>t. (False, t\<lparr>rt_pc := RefuseSelected (rp_accounting selected) (rp_price selected)
                                    (rp_peer selected) paused\<rparr>))
      in if cancelled \<or> paused then refuse t
         else let (claimed, t') = claim_attempt t in
           if \<not> claimed then refuse t'
           else (True, await_result kind
                   (t'\<lparr>rt_attempt_count := rt_attempt_count t' + 1, rt_in_flight := rt_in_flight t' + 1\<rparr>)))"

definition refused :: "PeerId \<Rightarrow> bool \<Rightarrow> Retrieval \<Rightarrow> Retrieval" where
  "refused peer paused t =
     t\<lparr>rt_skiplist := AList.delete peer (rt_skiplist t),
       rt_pc := (if \<not> paused \<and> rt_in_flight t = 0 then Finished None else Head)\<rparr>"

definition no_candidate :: "Retrieval \<Rightarrow> Retrieval" where
  "no_candidate t =
     (let (changed, skiplist) = reset_overdraft (rt_skiplist t) in
      t\<lparr>rt_skiplist := skiplist,
        rt_pc := (if \<not> changed \<and> rt_in_flight t = 0 \<and> skiplist \<noteq> [] then Finished None else RetryWait)\<rparr>)"

text \<open>The end of \<open>retrieve_chunk\<close>: the chunk it returns, and the admission it marks.\<close>

definition retrieve_chunk_result :: "(bytes \<Rightarrow> bytes) \<Rightarrow> Retrieval \<Rightarrow> bytes option option" where
  "retrieve_chunk_result keccak t =
     (case rt_pc t of
        Finished None \<Rightarrow> Some (Some [])
      | Finished (Some (chunk, soc)) \<Rightarrow> decode_retrieved_chunk keccak chunk soc (rt_key t) (rt_encrypted t)
      | _ \<Rightarrow> None)"

definition returned_cac_of :: "Retrieval \<Rightarrow> bool" where
  "returned_cac_of t = (case rt_pc t of Finished (Some (chunk, soc)) \<Rightarrow> \<not> soc | _ \<Rightarrow> False)"

definition retrieve_start ::
  "bytes \<Rightarrow> ChunkShape \<Rightarrow> RetrieveAdmission option \<Rightarrow> u8 option \<Rightarrow> Retrieval" where
  "retrieve_start chunk_address expect admission hedge_demand =
     (let (caddr, key, encrypted) = chunk_address_parts chunk_address in
      \<lparr>rt_caddr = caddr, rt_key = key, rt_encrypted = encrypted, rt_expect = expect,
       rt_admission = admission, rt_hedge_demand = hedge_demand, rt_skiplist = [],
       rt_attempt_count = 0, rt_error_count = 0, rt_in_flight = 0, rt_results = [], rt_pc = Head\<rparr>)"

section \<open>Retrievals over shared accounts\<close>

text \<open>
  The attempts that run, each with the number of its retrieval.  An account changes under the rest
  of the node by refreshments, announced thresholds and sessions.
\<close>

record ChunkLayer =
  cl_world :: Wings
  cl_retrievals :: "Retrieval list"
  cl_attempts :: "(nat \<times> ReservedRetrievePeer) list"

inductive account_frame :: "Account option \<Rightarrow> Account option \<Rightarrow> bool" where
  same: "account_frame a a"
| created: "account_frame None (Some (new_peer_accounting peer))"
| refreshment: "apply_refreshment amount a = (a', r) \<Longrightarrow> account_frame (Some a) (Some a')"
| threshold: "account_frame (Some a) (Some (set_payment_threshold amount a))"
| session: "account_frame (Some a) (Some (a\<lparr>pa_connection_id := c\<rparr>))"
| refreshed: "account_frame (Some a) (Some (a\<lparr>pa_refreshment := time, pa_refresh_scheduled := b\<rparr>))"
| cleared: "account_frame (Some a) (Some (a\<lparr>pa_refreshment := time, pa_balance := 0, pa_refresh_scheduled := b\<rparr>))"

definition set_account :: "AccountRef \<Rightarrow> Account \<Rightarrow> Wings \<Rightarrow> Wings" where
  "set_account account a w = w\<lparr>account_store := (account_store w)(account \<mapsto> a)\<rparr>"

definition set_retrieval :: "nat \<Rightarrow> Retrieval \<Rightarrow> ChunkLayer \<Rightarrow> ChunkLayer" where
  "set_retrieval i t s = s\<lparr>cl_retrievals := (cl_retrievals s)[i := t]\<rparr>"

text \<open>What the admission and the demand of a retrieval may become from outside: closed, promoted.\<close>

datatype Outside = CloseAdmission | PromoteDemand RetrieveHedgeDemand

fun outside_change :: "Outside \<Rightarrow> Retrieval \<Rightarrow> Retrieval" where
  "outside_change CloseAdmission t = t\<lparr>rt_admission := map_option admission_close (rt_admission t)\<rparr>"
| "outside_change (PromoteDemand demand) t =
     t\<lparr>rt_hedge_demand := map_option (\<lambda>d. fst (hedge_promote demand d)) (rt_hedge_demand t)\<rparr>"

inductive chunk_step ::
  "(bytes \<Rightarrow> bytes) \<Rightarrow> 'sig ecdsa \<Rightarrow> bool \<Rightarrow> ChunkLayer \<Rightarrow> ChunkLayer \<Rightarrow> bool"
  for keccak curve verify where
  start: "chunk_step keccak curve verify s
    (s\<lparr>cl_retrievals := cl_retrievals s @ [retrieve_start chunk_address expect admission hedge_demand]\<rparr>)"
| head: "i < length (cl_retrievals s) \<Longrightarrow> t = cl_retrievals s ! i \<Longrightarrow> rt_pc t = Head \<Longrightarrow>
    chunk_step keccak curve verify s (set_retrieval i (loop_head now t) s)"
| paused: "i < length (cl_retrievals s) \<Longrightarrow> t = cl_retrievals s ! i \<Longrightarrow> rt_pc t = PausedWait \<Longrightarrow>
    chunk_step keccak curve verify s
      (set_retrieval i (t\<lparr>rt_pc := (if resumed then Head else Finished None)\<rparr>) s)"
| list_candidates: "i < length (cl_retrievals s) \<Longrightarrow> t = cl_retrievals s ! i \<Longrightarrow>
    rt_pc t = SelectStart kind \<Longrightarrow> candidate_list (rt_caddr t) (overlay_peers (cl_world s)) cands \<Longrightarrow>
    chunk_step keccak curve verify s (set_retrieval i (t\<lparr>rt_pc := Selecting kind cands\<rparr>) s)"
| look_up: "i < length (cl_retrievals s) \<Longrightarrow> t = cl_retrievals s ! i \<Longrightarrow>
    rt_pc t = Selecting kind ((peer, proximity) # rest) \<Longrightarrow>
    chunk_step keccak curve verify s
      (set_retrieval i (try_candidate (accounting_peers (cl_world s)) kind peer proximity rest t) s)"
| exhausted: "i < length (cl_retrievals s) \<Longrightarrow> t = cl_retrievals s ! i \<Longrightarrow>
    rt_pc t = Selecting kind [] \<Longrightarrow> chunk_step keccak curve verify s (set_retrieval i (no_candidate t) s)"
| overdrawn: "i < length (cl_retrievals s) \<Longrightarrow> t = cl_retrievals s ! i \<Longrightarrow>
    rt_pc t = Reserving kind peer proximity account rest \<Longrightarrow>
    account_store (cl_world s) account = Some a \<Longrightarrow>
    reserve_candidate (physical_connections (cl_world s)) peer proximity account a = Overdrawn \<Longrightarrow>
    chunk_step keccak curve verify s
      (set_retrieval i (t\<lparr>rt_skiplist := set_permanent peer False (rt_skiplist t),
                          rt_pc := Selecting kind rest\<rparr>) s)"
| stale: "i < length (cl_retrievals s) \<Longrightarrow> t = cl_retrievals s ! i \<Longrightarrow>
    rt_pc t = Reserving kind peer proximity account rest \<Longrightarrow>
    account_store (cl_world s) account = Some a \<Longrightarrow>
    reserve_candidate (physical_connections (cl_world s)) peer proximity account a = Stale amount a' \<Longrightarrow>
    chunk_step keccak curve verify s
      (set_retrieval i (t\<lparr>rt_pc := DropCandidate kind account amount rest\<rparr>)
         (s\<lparr>cl_world := set_account account a' (cl_world s)\<rparr>))"
| reserved: "i < length (cl_retrievals s) \<Longrightarrow> t = cl_retrievals s ! i \<Longrightarrow>
    rt_pc t = Reserving kind peer proximity account rest \<Longrightarrow>
    account_store (cl_world s) account = Some a \<Longrightarrow>
    reserve_candidate (physical_connections (cl_world s)) peer proximity account a = Reserved selected a' \<Longrightarrow>
    start_attempt now kind selected t = (started, t') \<Longrightarrow>
    chunk_step keccak curve verify s
      (set_retrieval i t' (s\<lparr>cl_world := set_account account a' (cl_world s),
         cl_attempts := cl_attempts s @ (if started then [(i, selected)] else [])\<rparr>))"
| drop_candidate: "i < length (cl_retrievals s) \<Longrightarrow> t = cl_retrievals s ! i \<Longrightarrow>
    rt_pc t = DropCandidate kind account amount rest \<Longrightarrow> account_store (cl_world s) account = Some a \<Longrightarrow>
    chunk_step keccak curve verify s
      (set_retrieval i (t\<lparr>rt_pc := Selecting kind rest\<rparr>)
         (s\<lparr>cl_world := set_account account (fst (cancel_reserve amount a)) (cl_world s)\<rparr>))"
| refuse: "i < length (cl_retrievals s) \<Longrightarrow> t = cl_retrievals s ! i \<Longrightarrow>
    rt_pc t = RefuseSelected account amount peer paused \<Longrightarrow> account_store (cl_world s) account = Some a \<Longrightarrow>
    chunk_step keccak curve verify s
      (set_retrieval i (refused peer paused t)
         (s\<lparr>cl_world := set_account account (fst (cancel_reserve amount a)) (cl_world s)\<rparr>))"
| retry_result: "i < length (cl_retrievals s) \<Longrightarrow> t = cl_retrievals s ! i \<Longrightarrow> rt_pc t = RetryWait \<Longrightarrow>
    rt_results t \<noteq> [] \<Longrightarrow> chunk_step keccak curve verify s (set_retrieval i (take_result RetryWait t) s)"
| retry_elapsed: "i < length (cl_retrievals s) \<Longrightarrow> t = cl_retrievals s ! i \<Longrightarrow> rt_pc t = RetryWait \<Longrightarrow>
    chunk_step keccak curve verify s (set_retrieval i (t\<lparr>rt_pc := Head\<rparr>) s)"
| wait_result: "i < length (cl_retrievals s) \<Longrightarrow> t = cl_retrievals s ! i \<Longrightarrow> rt_pc t = Waiting kind \<Longrightarrow>
    rt_results t \<noteq> [] \<Longrightarrow> chunk_step keccak curve verify s (set_retrieval i (take_result Head t) s)"
| wait_interrupted: "i < length (cl_retrievals s) \<Longrightarrow> t = cl_retrievals s ! i \<Longrightarrow> rt_pc t = Waiting kind \<Longrightarrow>
    kind \<noteq> WaitResult \<Longrightarrow> (kind = WaitPromoted \<longrightarrow> current_hedge_demand t = Ordinary) \<Longrightarrow>
    chunk_step keccak curve verify s (set_retrieval i (t\<lparr>rt_pc := Head\<rparr>) s)"
| settle: "cl_attempts s = before @ (i, selected) # after \<Longrightarrow> i < length (cl_retrievals s) \<Longrightarrow>
    account_store (cl_world s) (rp_accounting selected) = Some a \<Longrightarrow>
    retrieve_attempt keccak curve verify send_ok exchange selected (cl_retrievals s ! i) a = (t', a') \<Longrightarrow>
    chunk_step keccak curve verify s
      (set_retrieval i t' (s\<lparr>cl_world := set_account (rp_accounting selected) a' (cl_world s),
         cl_attempts := before @ after\<rparr>))"
| outside: "i < length (cl_retrievals s) \<Longrightarrow>
    chunk_step keccak curve verify s (set_retrieval i (outside_change change (cl_retrievals s ! i)) s)"
| node: "(\<And>account. account_frame (account_store (cl_world s) account) (account_store w' account)) \<Longrightarrow>
    chunk_step keccak curve verify s (s\<lparr>cl_world := w'\<rparr>)"

end
