(* ===== verification/RetrieveSafety.thy ===== *)
theory RetrieveSafety
  imports RetrieveChunk
begin

text \<open>
  Invariants of the chunk layer, over every interleaving of retrievals, attempts and the rest of
  the node: what a retrieval returns was verified, an account holds in reserve exactly the prices
  of the attempts that run on it, and a retrieval counts its attempts exactly.
\<close>

section \<open>Invariants\<close>

fun pc_held :: "AccountRef \<Rightarrow> RetrievePc \<Rightarrow> nat" where
  "pc_held r (DropCandidate kind account amount rest) = (if account = r then unat amount else 0)"
| "pc_held r (RefuseSelected account amount peer paused) = (if account = r then unat amount else 0)"
| "pc_held r _ = 0"

definition attempt_held :: "AccountRef \<Rightarrow> nat \<times> ReservedRetrievePeer \<Rightarrow> nat" where
  "attempt_held r x = (if rp_accounting (snd x) = r then unat (rp_price (snd x)) else 0)"

text \<open>What the attempts on an account, and the retrievals about to give back, hold of it.\<close>

definition layer_held :: "ChunkLayer \<Rightarrow> AccountRef \<Rightarrow> nat" where
  "layer_held s r = (\<Sum>x\<leftarrow>cl_attempts s. attempt_held r x) + (\<Sum>t\<leftarrow>cl_retrievals s. pc_held r (rt_pc t))"

fun match_reserve :: "Account option \<Rightarrow> nat \<Rightarrow> bool" where
  "match_reserve None h = (h = 0)"
| "match_reserve (Some a) h = (unat (pa_reserve a) = h)"

definition running :: "ChunkLayer \<Rightarrow> nat \<Rightarrow> nat" where
  "running s i = length (filter (\<lambda>x. fst x = i) (cl_attempts s))"

fun choosing :: "RetrievePc \<Rightarrow> bool" where
  "choosing (SelectStart kind) = True"
| "choosing (Selecting kind cands) = True"
| "choosing (Reserving kind peer proximity account rest) = True"
| "choosing (DropCandidate kind account amount rest) = True"
| "choosing _ = False"

definition verified ::
  "(bytes \<Rightarrow> bytes) \<Rightarrow> 'sig ecdsa \<Rightarrow> bool \<Rightarrow> Retrieval \<Rightarrow> bytes \<Rightarrow> bool \<Rightarrow> bool" where
  "verified keccak curve verify t chunk soc \<longleftrightarrow>
     verify_chunk_with keccak curve (rt_caddr t) chunk (rt_expect t) verify = (True, soc)"

definition retrieval_ok ::
  "(bytes \<Rightarrow> bytes) \<Rightarrow> 'sig ecdsa \<Rightarrow> bool \<Rightarrow> nat \<Rightarrow> Retrieval \<Rightarrow> bool" where
  "retrieval_ok keccak curve verify n t \<longleftrightarrow>
     rt_in_flight t = n + length (rt_results t) \<and>
     rt_error_count t + rt_in_flight t \<le> rt_attempt_count t \<and>
     rt_attempt_count t \<le> RETRIEVE_CHUNK_MAX_ATTEMPT_ERRORS \<and>
     (choosing (rt_pc t) \<longrightarrow> rt_attempt_count t < RETRIEVE_CHUNK_MAX_ATTEMPT_ERRORS) \<and>
     (\<forall>kind. rt_pc t = Waiting kind \<longrightarrow> 0 < rt_in_flight t) \<and>
     (\<forall>r \<in> set (rt_results t). ra_valid r \<longrightarrow> verified keccak curve verify t (ra_chunk r) (ra_soc r)) \<and>
     (\<forall>chunk soc. rt_pc t = Finished (Some (chunk, soc)) \<longrightarrow> verified keccak curve verify t chunk soc)"

definition layer_inv :: "(bytes \<Rightarrow> bytes) \<Rightarrow> 'sig ecdsa \<Rightarrow> bool \<Rightarrow> ChunkLayer \<Rightarrow> bool" where
  "layer_inv keccak curve verify s \<longleftrightarrow>
     (\<forall>r. match_reserve (account_store (cl_world s) r) (layer_held s r)) \<and>
     (\<forall>x \<in> set (cl_attempts s). fst x < length (cl_retrievals s)) \<and>
     (\<forall>i < length (cl_retrievals s). retrieval_ok keccak curve verify (running s i) (cl_retrievals s ! i))"

section \<open>Steps of one retrieval\<close>

lemmas retrieval_simps = retrieval_ok_def verified_def

lemma take_result_ok:
  assumes "retrieval_ok keccak curve verify n t" "rt_results t \<noteq> []" "\<not> choosing p" "\<forall>kind. p \<noteq> Waiting kind"
    "\<forall>x. p \<noteq> Finished (Some x)"
  shows "retrieval_ok keccak curve verify n (take_result p t)" "\<forall>r. pc_held r p = 0 \<Longrightarrow> pc_held r' (rt_pc (take_result p t)) = 0"
  using assms
  by (cases "rt_results t"; auto simp: retrieval_simps take_result_def record_retrieve_attempt_result_def Let_def)+

lemma await_result_ok:
  assumes "retrieval_ok keccak curve verify n t"
  shows "retrieval_ok keccak curve verify n (await_result kind t)" "pc_held r (rt_pc (await_result kind t)) = 0"
  using assms by (auto simp: retrieval_simps await_result_def)

lemma retrieval_ok_pc:
  assumes "retrieval_ok keccak curve verify n t" "\<not> choosing p \<or> choosing (rt_pc t)" "\<forall>kind. p \<noteq> Waiting kind"
    "\<forall>x. p \<noteq> Finished (Some x)"
  shows "retrieval_ok keccak curve verify n (t\<lparr>rt_pc := p\<rparr>)"
  using assms by (auto simp: retrieval_simps)

lemma loop_head_ok:
  assumes "retrieval_ok keccak curve verify n t"
  shows "retrieval_ok keccak curve verify n (loop_head now t)" "pc_held r (rt_pc (loop_head now t)) = 0"
proof -
  note e = take_result_ok [OF assms, of Head, simplified]
  note w = await_result_ok [OF assms]
  have select: "can_start_attempt t \<Longrightarrow> retrieval_ok keccak curve verify n (t\<lparr>rt_pc := SelectStart k\<rparr>)" for k
    using assms by (simp add: retrieval_simps can_start_attempt_def)
  show "retrieval_ok keccak curve verify n (loop_head now t)"
    using e(1) w(1) select by (auto simp: loop_head_def intro: retrieval_ok_pc [OF assms])
  show "pc_held r (rt_pc (loop_head now t)) = 0"
    using e(2) [of r] w(2) by (auto simp: loop_head_def)
qed

lemma try_candidate_ok:
  assumes "retrieval_ok keccak curve verify n t" "choosing (rt_pc t)"
  shows "retrieval_ok keccak curve verify n (try_candidate accounting kind peer proximity rest t)"
    "pc_held r (rt_pc (try_candidate accounting kind peer proximity rest t)) = 0"
  using assms by (auto simp: retrieval_simps try_candidate_def Let_def split: option.splits)

lemma no_candidate_ok:
  assumes "retrieval_ok keccak curve verify n t"
  shows "retrieval_ok keccak curve verify n (no_candidate t)" "pc_held r (rt_pc (no_candidate t)) = 0"
  using assms by (auto simp: retrieval_simps no_candidate_def reset_overdraft_def Let_def)

lemma outside_change_ok:
  assumes "retrieval_ok keccak curve verify n t"
  shows "retrieval_ok keccak curve verify n (outside_change c t)" "rt_pc (outside_change c t) = rt_pc t"
  using assms by (cases c; simp add: retrieval_simps)+

lemma claim_attempt_frame:
  "claim_attempt t = (b, t') \<Longrightarrow> \<exists>adm. t' = t\<lparr>rt_admission := adm\<rparr>"
  by (auto simp: claim_attempt_def split: option.splits prod.splits intro: exI [of _ "rt_admission t"])

lemma start_attempt_ok:
  assumes ok: "retrieval_ok keccak curve verify n t" and c: "choosing (rt_pc t)"
    and st: "start_attempt now kind selected t = (started, t')"
  shows "retrieval_ok keccak curve verify (if started then n + 1 else n) t'"
    "pc_held r (rt_pc t') + (if started then attempt_held r (i, selected) else 0) = attempt_held r (i, selected)"
proof -
  obtain b u where u: "claim_attempt t = (b, u)" by (cases "claim_attempt t")
  obtain adm where adm: "u = t\<lparr>rt_admission := adm\<rparr>" using claim_attempt_frame [OF u] by blast
  let ?t = "u\<lparr>rt_attempt_count := rt_attempt_count u + 1, rt_in_flight := rt_in_flight u + 1\<rparr>"
  have "retrieval_ok keccak curve verify (n + 1) (?t\<lparr>rt_pc := Head\<rparr>)"
    using ok c by (simp add: retrieval_simps adm)
  then have "retrieval_ok keccak curve verify (n + 1) (await_result kind ?t)"
    by (auto simp: retrieval_simps await_result_def)
  moreover have "pc_held r (rt_pc (await_result kind ?t)) = 0" by (simp add: await_result_def)
  moreover have "retrieval_ok keccak curve verify n (t\<lparr>rt_admission := adm, rt_pc := RefuseSelected a p q z\<rparr>)"
    "retrieval_ok keccak curve verify n (t\<lparr>rt_pc := RefuseSelected a p q z\<rparr>)"
    for a p q z using ok by (simp_all add: retrieval_simps)
  ultimately show "retrieval_ok keccak curve verify (if started then n + 1 else n) t'"
    "pc_held r (rt_pc t') + (if started then attempt_held r (i, selected) else 0) = attempt_held r (i, selected)"
    using st u by (auto simp: start_attempt_def adm attempt_held_def Let_def split: if_splits)
qed

lemma attempt_settle_ok:
  assumes "retrieval_ok keccak curve verify (Suc n) t"
    "retrieve_attempt keccak curve verify send_ok exchange selected t a = (t', a')"
  shows "retrieval_ok keccak curve verify n t'" "rt_pc t' = rt_pc t"
    "unat (pa_reserve a') = unat (pa_reserve a) - unat (rp_price selected)"
proof -
  obtain result a'' where st: "settle_retrieve_attempt keccak curve verify send_ok (rt_caddr t)
      (rp_price selected) (exchange_result exchange) (rt_expect t) a = (result, a'')"
    by (cases "settle_retrieve_attempt keccak curve verify send_ok (rt_caddr t)
      (rp_price selected) (exchange_result exchange) (rt_expect t) a")
  then have t': "t' = t\<lparr>rt_admission := map_option (note_exchange exchange) (rt_admission t),
      rt_results := rt_results t @ [result]\<rparr>" "a' = a''"
    using assms(2) by (simp_all add: retrieve_attempt_def)
  have "ra_valid result \<longrightarrow> verified keccak curve verify t (ra_chunk result) (ra_soc result)"
    using st by (auto simp: settle_retrieve_attempt_def verified_def failed_retrieve_attempt_def
        split: option.splits prod.splits if_splits)
  then show "retrieval_ok keccak curve verify n t'" "rt_pc t' = rt_pc t"
    using assms(1) by (auto simp: t' retrieval_simps)
  show "unat (pa_reserve a') = unat (pa_reserve a) - unat (rp_price selected)"
    using st unfolding t'
    by (cases "apply_credit send_ok (rp_price selected) a"; cases "cancel_reserve (rp_price selected) a")
       (auto simp: settle_retrieve_attempt_def account_ops split: option.splits prod.splits if_splits)
qed

section \<open>Steps of the layer\<close>

lemma sum_list_set:
  fixes f :: "'a \<Rightarrow> nat"
  assumes "i < length xs"
  shows "(\<Sum>x\<leftarrow>xs[i := y]. f x) + f (xs ! i) = (\<Sum>x\<leftarrow>xs. f x) + f y"
  using assms by (induction xs arbitrary: i) (auto split: nat.splits)

text \<open>A step that gives an account another amount and leaves the rest of the accounts alone.\<close>

lemma layer_inv_account:
  assumes inv: "layer_inv keccak curve verify s" and i: "i < length (cl_retrievals s)"
    and world: "\<And>r. r \<noteq> account \<Longrightarrow> account_store w' r = account_store (cl_world s) r"
    and ok: "retrieval_ok keccak curve verify n t'" "n = length (filter (\<lambda>x. fst x = i) attempts)"
    and att: "set attempts \<subseteq> set (cl_attempts s) \<union> {i} \<times> UNIV"
      "\<And>j. j \<noteq> i \<Longrightarrow> filter (\<lambda>x. fst x = j) attempts = filter (\<lambda>x. fst x = j) (cl_attempts s)"
    and other: "\<And>r. r \<noteq> account \<Longrightarrow> (\<Sum>x\<leftarrow>attempts. attempt_held r x) + pc_held r (rt_pc t')
       = (\<Sum>x\<leftarrow>cl_attempts s. attempt_held r x) + pc_held r (rt_pc (cl_retrievals s ! i))"
    and own: "\<And>h. match_reserve (account_store (cl_world s) account)
         (h + (\<Sum>x\<leftarrow>cl_attempts s. attempt_held account x) + pc_held account (rt_pc (cl_retrievals s ! i))) \<Longrightarrow>
       match_reserve (account_store w' account)
         (h + (\<Sum>x\<leftarrow>attempts. attempt_held account x) + pc_held account (rt_pc t'))"
  shows "layer_inv keccak curve verify
    (set_retrieval i t' (s\<lparr>cl_world := w', cl_attempts := attempts\<rparr>))" (is "layer_inv _ _ _ ?s")
proof -
  have held: "layer_held ?s r + pc_held r (rt_pc (cl_retrievals s ! i)) =
      (\<Sum>x\<leftarrow>attempts. attempt_held r x) + (\<Sum>t\<leftarrow>cl_retrievals s. pc_held r (rt_pc t)) + pc_held r (rt_pc t')" for r
    using sum_list_set [OF i, of "\<lambda>t. pc_held r (rt_pc t)" t'] by (simp add: layer_held_def set_retrieval_def)
  have before: "match_reserve (account_store (cl_world s) r) (layer_held s r)" for r
    using inv by (simp add: layer_inv_def)
  have "match_reserve (account_store w' r) (layer_held ?s r)" for r
  proof (cases "r = account")
    case False
    then have "layer_held ?s r = layer_held s r" using held [of r] other [of r] by (simp add: layer_held_def)
    then show ?thesis using before [of r] world [OF False] by simp
  next
    case True
    have le: "pc_held r (rt_pc (cl_retrievals s ! i)) \<le> (\<Sum>t\<leftarrow>cl_retrievals s. pc_held r (rt_pc t))"
      using i by (intro member_le_sum_list) auto
    then obtain h where h: "(\<Sum>t\<leftarrow>cl_retrievals s. pc_held r (rt_pc t)) = h + pc_held r (rt_pc (cl_retrievals s ! i))"
      by (metis le_iff_add add.commute)
    then have "layer_held s r = h + (\<Sum>x\<leftarrow>cl_attempts s. attempt_held r x) + pc_held r (rt_pc (cl_retrievals s ! i))"
      "layer_held ?s r = h + (\<Sum>x\<leftarrow>attempts. attempt_held r x) + pc_held r (rt_pc t')"
      using held [of r] by (simp_all add: layer_held_def)
    then show ?thesis using own [of h] before [of r] True by simp
  qed
  moreover have "retrieval_ok keccak curve verify (running ?s j) (cl_retrievals ?s ! j)"
    if "j < length (cl_retrievals s)" for j
    using inv that ok att(2) [of j]
    by (cases "j = i") (auto simp: layer_inv_def running_def set_retrieval_def)
  moreover have "\<forall>x \<in> set attempts. fst x < length (cl_retrievals s)"
    using att(1) inv i by (fastforce simp: layer_inv_def)
  ultimately show ?thesis by (simp add: layer_inv_def set_retrieval_def)
qed

lemma layer_inv_quiet:
  assumes "layer_inv keccak curve verify s" "i < length (cl_retrievals s)"
    "retrieval_ok keccak curve verify (running s i) t'" "\<And>r. pc_held r (rt_pc t') = pc_held r (rt_pc (cl_retrievals s ! i))"
  shows "layer_inv keccak curve verify (set_retrieval i t' s)"
proof -
  have "layer_inv keccak curve verify
      (set_retrieval i t' (s\<lparr>cl_world := cl_world s, cl_attempts := cl_attempts s\<rparr>))"
    by (rule layer_inv_account [OF assms(1,2) _ assms(3)]) (auto simp: assms(4) running_def)
  then show ?thesis by simp
qed

lemma layer_inv_retrieval:
  "layer_inv keccak curve verify s \<Longrightarrow> i < length (cl_retrievals s) \<Longrightarrow>
     retrieval_ok keccak curve verify (running s i) (cl_retrievals s ! i)"
  by (simp add: layer_inv_def)

lemma account_frame_reserve:
  "account_frame a a' \<Longrightarrow> match_reserve a h \<Longrightarrow> match_reserve a' h"
  by (induction rule: account_frame.induct)
     (auto simp: new_peer_accounting_def set_payment_threshold_def apply_refreshment_fields)

lemma layer_inv_step:
  assumes step: "chunk_step keccak curve verify s s'" and inv: "layer_inv keccak curve verify s"
  shows "layer_inv keccak curve verify s'"
  using step
proof (cases rule: chunk_step.cases)
  case (start chunk_address expect admission hedge_demand)
  have "running s (length (cl_retrievals s)) = 0" using inv by (auto simp: running_def layer_inv_def filter_empty_conv)
  then show ?thesis
    using inv
    by (auto simp: start layer_inv_def layer_held_def running_def nth_append retrieve_start_def retrieval_simps less_Suc_eq
        split: prod.splits)
next
  case (head i t now)
  then show ?thesis
    using loop_head_ok [OF layer_inv_retrieval [OF inv]] by (auto intro!: layer_inv_quiet [OF inv])
next
  case (paused i t resumed)
  then show ?thesis
    using retrieval_ok_pc [OF layer_inv_retrieval [OF inv]] by (auto intro!: layer_inv_quiet [OF inv])
next
  case (list_candidates i t kind cands)
  then show ?thesis
    using retrieval_ok_pc [OF layer_inv_retrieval [OF inv]] by (auto intro!: layer_inv_quiet [OF inv])
next
  case (look_up i t kind peer proximity rest)
  then show ?thesis
    using try_candidate_ok [OF layer_inv_retrieval [OF inv]] by (auto intro!: layer_inv_quiet [OF inv])
next
  case (exhausted i t kind)
  then show ?thesis
    using no_candidate_ok [OF layer_inv_retrieval [OF inv]] by (auto intro!: layer_inv_quiet [OF inv])
next
  case (overdrawn i t kind peer proximity account rest a)
  then show ?thesis
    using layer_inv_retrieval [OF inv, of i]
    by (auto intro!: layer_inv_quiet [OF inv] simp: retrieval_simps)
next
  case (stale i t kind peer proximity account rest a amount a')
  then have a': "unat (pa_reserve a') = unat (pa_reserve a) + unat amount"
    by (auto simp: reserve_candidate_def Let_def account_ops split: option.splits prod.splits)
  have "layer_inv keccak curve verify (set_retrieval i (t\<lparr>rt_pc := DropCandidate kind account amount rest\<rparr>)
      (s\<lparr>cl_world := set_account account a' (cl_world s), cl_attempts := cl_attempts s\<rparr>))"
    using stale a' layer_inv_retrieval [OF inv]
    by (intro layer_inv_account [OF inv, where account = account]) (auto simp: set_account_def running_def intro!: retrieval_ok_pc)
  then show ?thesis using stale by simp
next
  case (reserved i t kind peer proximity account rest a selected a' now started t')
  then have sel: "rp_accounting selected = account" "unat (pa_reserve a') = unat (pa_reserve a) + unat (rp_price selected)"
    by (auto simp: reserve_candidate_def Let_def account_ops split: option.splits prod.splits)
  have "choosing (rt_pc (cl_retrievals s ! i))" using reserved by simp
  note ok = start_attempt_ok [OF layer_inv_retrieval [OF inv reserved(2)] this, of now kind selected started t']
  have away: "pc_held r (rt_pc t') = 0" if "r \<noteq> account" for r
    using ok(2) [OF reserved(7) [unfolded reserved(3)], of r i] sel that by (simp add: attempt_held_def)
  show ?thesis
    unfolding reserved(1)
    using reserved sel ok(1) ok(2) [where i = i and r = account] away
    by (intro layer_inv_account [OF inv, where account = account])
       (auto simp: set_account_def running_def attempt_held_def)
next
  case (drop_candidate i t kind account amount rest a)
  obtain a' d where a': "cancel_reserve amount a = (a', d)" by (cases "cancel_reserve amount a")
  have "layer_inv keccak curve verify (set_retrieval i (t\<lparr>rt_pc := Selecting kind rest\<rparr>)
      (s\<lparr>cl_world := set_account account a' (cl_world s), cl_attempts := cl_attempts s\<rparr>))"
    using drop_candidate cancel_reserve_fields(1) [OF a'] layer_inv_retrieval [OF inv]
    by (intro layer_inv_account [OF inv, where account = account]) (auto simp: set_account_def running_def intro!: retrieval_ok_pc)
  then show ?thesis using drop_candidate a' by simp
next
  case (refuse i t account amount peer paused a)
  obtain a' d where a': "cancel_reserve amount a = (a', d)" by (cases "cancel_reserve amount a")
  have ok: "retrieval_ok keccak curve verify n (refused peer paused t)" "pc_held r (rt_pc (refused peer paused t)) = 0"
    if "retrieval_ok keccak curve verify n t" for n r using that by (auto simp: refused_def retrieval_simps)
  have "layer_inv keccak curve verify (set_retrieval i (refused peer paused t)
      (s\<lparr>cl_world := set_account account a' (cl_world s), cl_attempts := cl_attempts s\<rparr>))"
    using refuse cancel_reserve_fields(1) [OF a'] layer_inv_retrieval [OF inv] ok
    by (intro layer_inv_account [OF inv, where account = account]) (auto simp: set_account_def running_def)
  then show ?thesis using refuse a' by simp
next
  case (retry_result i t)
  then show ?thesis
    using take_result_ok [OF layer_inv_retrieval [OF inv], of i RetryWait] by (auto intro!: layer_inv_quiet [OF inv])
next
  case (retry_elapsed i t)
  then show ?thesis
    using retrieval_ok_pc [OF layer_inv_retrieval [OF inv]] by (auto intro!: layer_inv_quiet [OF inv])
next
  case (wait_result i t kind)
  then show ?thesis
    using take_result_ok [OF layer_inv_retrieval [OF inv], of i Head] by (auto intro!: layer_inv_quiet [OF inv])
next
  case (wait_interrupted i t kind)
  then show ?thesis
    using retrieval_ok_pc [OF layer_inv_retrieval [OF inv]] by (auto intro!: layer_inv_quiet [OF inv])
next
  case (settle before i selected after a send_ok exchange t' a')
  have "running s i = Suc (length (filter (\<lambda>x. fst x = i) (before @ after)))"
    using settle by (simp add: running_def)
  then have "retrieval_ok keccak curve verify (Suc (length (filter (\<lambda>x. fst x = i) (before @ after)))) (cl_retrievals s ! i)"
    using layer_inv_retrieval [OF inv settle(3)] by (simp only:)
  note ok = attempt_settle_ok [OF this settle(5)]
  show ?thesis
    unfolding settle(1)
    using settle ok by (intro layer_inv_account [OF inv, where account = "rp_accounting selected"])
       (auto simp: set_account_def attempt_held_def)
next
  case (outside i change)
  then show ?thesis
    using outside_change_ok [OF layer_inv_retrieval [OF inv]] by (auto intro!: layer_inv_quiet [OF inv])
next
  case (node w')
  then show ?thesis
    using inv account_frame_reserve by (fastforce simp: layer_inv_def layer_held_def running_def)
qed

definition layer_initial :: "ChunkLayer \<Rightarrow> bool" where
  "layer_initial s \<longleftrightarrow> cl_retrievals s = [] \<and> cl_attempts s = [] \<and>
     (\<forall>r. match_reserve (account_store (cl_world s) r) 0)"

lemma layer_inv_reachable:
  assumes "(chunk_step keccak curve verify)\<^sup>*\<^sup>* s0 s" "layer_initial s0"
  shows "layer_inv keccak curve verify s"
  using assms(1)
proof induction
  case base
  show ?case using assms(2) by (simp add: layer_inv_def layer_initial_def layer_held_def)
next
  case (step s s')
  then show ?case using layer_inv_step by blast
qed

section \<open>An example run\<close>

definition example_world :: Wings where
  "example_world =
     \<lparr>connected_peers = Map.empty, overlay_peers = [[] \<mapsto> 7], bootnodes = {}, accounting_peers = [7 \<mapsto> 0],
      ongoing_cheques = Map.empty, connection_attempts = Map.empty, connection_cooldowns = {},
      physical_connections = [7 \<mapsto> {3}], handshake_ready_connections = {}, canonical_identify_address = None,
      known_peers = Map.empty, delayed_peer_retries = Map.empty, rejected_duplicate_peers = Map.empty,
      dial_failures = 0, NEXT_CONNECTION_ATTEMPT_ID = 1, NEXT_PEER_RETRY_ID = 1,
      account_store = [0 \<mapsto> example_account], next_account = 1\<rparr>"

definition example_curve :: "unit ecdsa" where
  "example_curve = \<lparr>parse_signature = (\<lambda>_. None), normalize_s = (\<lambda>_. None),
     recover_from_prehash = (\<lambda>_ _ _. None), eip191_hash_message = (\<lambda>_. []), public_key_address = (\<lambda>_. [])\<rparr>"

definition example_layer :: ChunkLayer where
  "example_layer = \<lparr>cl_world = example_world, cl_retrievals = [], cl_attempts = []\<rparr>"

definition example_address :: bytes where
  "example_address = replicate 32 0"

definition example_keccak :: "bytes \<Rightarrow> bytes" where
  "example_keccak x = replicate 32 0"

definition example_chunk :: bytes where
  "example_chunk = replicate 8 0"

lemma example_chunk_valid: "valid_cac example_keccak example_chunk example_address"
proof -
  have "bmt_root example_keccak [] = Some (bmt_node example_keccak [] 6 0)"
    by (rule bmt_root_spec) (simp_all add: example_keccak_def)
  then show ?thesis
    by (simp add: valid_cac_def content_address_array_def example_chunk_def example_address_def sizes)
       (simp add: example_keccak_def)
qed

definition example_retrieval :: "bytes \<Rightarrow> ChunkShape \<Rightarrow> (PeerId \<times> bool) list \<Rightarrow> nat \<Rightarrow> RetrieveAttemptResult list \<Rightarrow> RetrievePc \<Rightarrow> Retrieval" where
  "example_retrieval address expect skiplist n results pc =
     (retrieve_start address expect None None)\<lparr>rt_skiplist := skiplist, rt_attempt_count := n, rt_in_flight := n,
        rt_results := results, rt_pc := pc\<rparr>"

definition example_selected :: ReservedRetrievePeer where
  "example_selected = \<lparr>rp_peer = 7, rp_price = 320000, rp_accounting = 0,
     rp_session = \<lparr>tcs_peer = 7, tcs_connection_id = 3\<rparr>\<rparr>"

definition example_waiting :: "bytes \<Rightarrow> ChunkShape \<Rightarrow> ChunkLayer" where
  "example_waiting address expect = \<lparr>cl_world = set_account 0 (example_account\<lparr>pa_reserve := 320000\<rparr>) example_world,
     cl_retrievals = [example_retrieval address expect [(7, True)] 1 [] (Waiting WaitHedge)],
     cl_attempts = [(0, example_selected)]\<rparr>"

definition example_now :: Now where
  "example_now = \<lparr>now_generation_current = True, now_paused = False, now_hedge_due = True\<rparr>"

lemma example_address_length: "length example_address = 32"
  by (simp add: example_address_def)

lemmas example_defs = example_layer_def example_retrieval_def example_now_def example_selected_def
  retrieve_start_def chunk_address_parts_def set_retrieval_def example_address_length

lemma example_initial: "layer_initial example_layer"
  by (simp add: layer_initial_def example_layer_def example_world_def example_account_def
      set_payment_threshold_def new_peer_accounting_def)

lemma example_candidates: "candidate_list address [[] \<mapsto> 7] [(7, 0)]"
  unfolding candidate_list_def
  by (intro conjI exI [of _ "[[]]"]) (simp_all add: get_proximity_def)

lemma example_reserve:
  "reserve_candidate [7 \<mapsto> {3}] 7 0 0 example_account =
     Reserved example_selected (example_account\<lparr>pa_reserve := 320000\<rparr>)"
proof -
  have "price 0 = 320000" by (simp add: price_def MAX_PO_def PO_PRICE_def saturating_sub_def)
  then show ?thesis
    by (simp add: reserve_candidate_def reserve_example session_capture_def session_is_current_def
        exclusive_physical_connection_def example_selected_def Let_def)
qed

lemma example_run:
  assumes "length address = 32"
  shows "(chunk_step keccak curve verify)\<^sup>*\<^sup>* example_layer (example_waiting address expect)"
proof -
  note len = assms
  let ?step = "chunk_step keccak curve verify"
  let ?s = "\<lambda>skiplist pc. example_layer\<lparr>cl_retrievals := [example_retrieval address expect skiplist 0 [] pc]\<rparr>"
  have "?step\<^sup>*\<^sup>* example_layer (?s [] Head)"
    using r_into_rtranclp [of ?step, OF chunk_step.start [of keccak curve verify example_layer address expect None None]]
    by (simp add: len example_defs)
  also have "?step (?s [] Head) (?s [] (SelectStart WaitHedge))"
    using chunk_step.head [of 0 "?s [] Head" "example_retrieval address expect [] 0 [] Head" keccak curve verify example_now]
    by (simp add: len example_defs loop_head_def RETRIEVE_CHUNK_MAX_ATTEMPT_ERRORS_def admission_current_def
        retrieve_admission_current_def can_start_attempt_def retrieve_attempt_start_allowed_def wait_kind_def
        current_hedge_demand_def)
  also (rtranclp.rtrancl_into_rtrancl) have "?step (?s [] (SelectStart WaitHedge)) (?s [] (Selecting WaitHedge [(7, 0)]))"
    using chunk_step.list_candidates [of 0 "?s [] (SelectStart WaitHedge)" "example_retrieval address expect [] 0 [] (SelectStart WaitHedge)"
        WaitHedge "[(7, 0)]" keccak curve verify] example_candidates
    by (simp add: len example_defs example_world_def)
  also (rtranclp.rtrancl_into_rtrancl) have "?step (?s [] (Selecting WaitHedge [(7, 0)])) (?s [(7, True)] (Reserving WaitHedge 7 0 0 []))"
    using chunk_step.look_up [of 0 "?s [] (Selecting WaitHedge [(7, 0)])"
        "example_retrieval address expect [] 0 [] (Selecting WaitHedge [(7, 0)])" WaitHedge 7 0 "[]" keccak curve verify]
    by (simp add: len example_defs example_world_def try_candidate_def)
  also (rtranclp.rtrancl_into_rtrancl) have "?step (?s [(7, True)] (Reserving WaitHedge 7 0 0 [])) (example_waiting address expect)"
    using chunk_step.reserved [of 0 "?s [(7, True)] (Reserving WaitHedge 7 0 0 [])"
        "example_retrieval address expect [(7, True)] 0 [] (Reserving WaitHedge 7 0 0 [])" WaitHedge 7 0 0 "[]" example_account
        example_selected "example_account\<lparr>pa_reserve := 320000\<rparr>" example_now True
        "example_retrieval address expect [(7, True)] 1 [] (Waiting WaitHedge)" keccak curve verify] example_reserve
    by (simp add: len example_defs example_world_def example_waiting_def start_attempt_def claim_attempt_def
        admission_current_def retrieve_admission_current_def await_result_def)
  finally (rtranclp.rtrancl_into_rtrancl) show ?thesis .
qed

lemma example_finish:
  assumes len: "length address = 32" and ok: "verify_chunk_with keccak curve address chunk expect verify = (True, soc)"
  shows "\<exists>s. (chunk_step keccak curve verify)\<^sup>*\<^sup>* (example_waiting address expect) s \<and> length (cl_retrievals s) = 1 \<and>
     rt_pc (cl_retrievals s ! 0) = Finished (Some (chunk, soc)) \<and>
     \<not> rt_encrypted (cl_retrievals s ! 0) \<and> rt_key (cl_retrievals s ! 0) = [] \<and>
     rt_caddr (cl_retrievals s ! 0) = address \<and> rt_expect (cl_retrievals s ! 0) = expect"
proof -
  let ?step = "chunk_step keccak curve verify"
  let ?r = "\<lparr>ra_chunk = chunk, ra_valid = True, ra_soc = soc\<rparr>"
  let ?a = "fst (apply_credit True 320000 (example_account\<lparr>pa_reserve := 320000\<rparr>))"
  let ?t = "example_retrieval address expect [(7, True)] 1 [?r] (Waiting WaitHedge)"
  let ?s = "\<lparr>cl_world = set_account 0 ?a (set_account 0 (example_account\<lparr>pa_reserve := 320000\<rparr>) example_world),
     cl_retrievals = [?t], cl_attempts = []\<rparr>"
  have "?step (example_waiting address expect) ?s"
    using chunk_step.settle [of "example_waiting address expect" "[]" 0 example_selected "[]"
        "example_account\<lparr>pa_reserve := 320000\<rparr>" keccak curve verify True "Handled (Some chunk)" ?t ?a]
    by (simp add: len ok example_defs example_waiting_def retrieve_attempt_def settle_retrieve_attempt_def exchange_result_def
        set_account_def)
  moreover have "?step ?s (set_retrieval 0 (take_result Head ?t) ?s)"
    by (rule chunk_step.wait_result [where kind = WaitHedge]) (simp_all add: example_retrieval_def)
  ultimately have "?step\<^sup>*\<^sup>* (example_waiting address expect) (set_retrieval 0 (take_result Head ?t) ?s)"
    by (meson converse_rtranclp_into_rtranclp r_into_rtranclp)
  then show ?thesis
    by (intro exI conjI, assumption)
       (simp_all add: len set_retrieval_def take_result_def example_retrieval_def record_retrieve_attempt_result_def
         retrieve_start_def chunk_address_parts_def)
qed

section \<open>Replies\<close>

text \<open>
  What the chunk service may answer to a request: nothing when the request is turned away, or what
  a retrieval returned, with the mark it left on its admission.  Content chunks and single-owner
  chunks are requested with their shape.
\<close>

definition dispatch_replies ::
  "(bytes \<Rightarrow> bytes) \<Rightarrow> 'sig ecdsa \<Rightarrow> bool \<Rightarrow> ChunkShape \<Rightarrow> bytes \<Rightarrow> bytes \<Rightarrow> bool \<Rightarrow> bool" where
  "dispatch_replies keccak curve verify expect address raw marked \<longleftrightarrow>
     raw = [] \<and> \<not> marked \<or>
     (\<exists>s0 s i. layer_initial s0 \<and> (chunk_step keccak curve verify)\<^sup>*\<^sup>* s0 s \<and> i < length (cl_retrievals s) \<and>
        (rt_caddr (cl_retrievals s ! i), rt_key (cl_retrievals s ! i), rt_encrypted (cl_retrievals s ! i))
          = chunk_address_parts address \<and>
        rt_expect (cl_retrievals s ! i) = expect \<and>
        retrieve_chunk_result keccak (cl_retrievals s ! i) = Some (Some raw) \<and>
        marked = returned_cac_of (cl_retrievals s ! i))"

definition chunk_replies ::
  "(bytes \<Rightarrow> bytes) \<Rightarrow> 'sig ecdsa \<Rightarrow> bool \<Rightarrow> bytes \<Rightarrow> bytes \<Rightarrow> bool \<Rightarrow> bool" where
  "chunk_replies keccak curve verify = dispatch_replies keccak curve verify Cac"

lemma dispatch_verified:
  assumes "dispatch_replies keccak curve verify expect address raw marked" "length address = HASH_SIZE"
  shows "raw = [] \<and> \<not> marked \<or>
    (\<exists>chunk soc. verify_chunk_with keccak curve address chunk expect verify = (True, soc) \<and> marked = (\<not> soc) \<and>
       raw = (if soc \<and> 97 + 8 \<le> length chunk then drop 97 chunk else chunk))"
proof -
  have "raw = [] \<and> \<not> marked \<or>
    (\<exists>chunk soc. verify_chunk_with keccak curve address chunk expect verify = (True, soc) \<and> marked = (\<not> soc) \<and>
       raw = (if soc \<and> 97 + 8 \<le> length chunk then drop 97 chunk else chunk))"
    if reach: "(chunk_step keccak curve verify)\<^sup>*\<^sup>* s0 s" "layer_initial s0" "i < length (cl_retrievals s)"
      and parts: "(rt_caddr t, rt_key t, rt_encrypted t) = chunk_address_parts address"
      and t: "rt_expect t = expect" "retrieve_chunk_result keccak t = Some (Some raw)" "marked = returned_cac_of t"
      "t = cl_retrievals s ! i" for s0 s i t
  proof -
    have ok: "verified keccak curve verify t chunk soc" if "rt_pc t = Finished (Some (chunk, soc))" for chunk soc
      using layer_inv_retrieval [OF layer_inv_reachable [OF reach(1,2)] reach(3)] that t(4)
      by (simp add: retrieval_ok_def)
    have addr: "rt_caddr t = address" "\<not> rt_encrypted t"
      using parts assms(2) by (simp_all add: chunk_address_parts_def sizes)
    consider "rt_pc t = Finished None" | chunk soc where "rt_pc t = Finished (Some (chunk, soc))"
      using t(2) by (auto simp: retrieve_chunk_result_def split: RetrievePc.splits option.splits)
    then show ?thesis
    proof cases
      case 1
      then show ?thesis using t(2,3) by (simp add: retrieve_chunk_result_def returned_cac_of_def)
    next
      case (2 chunk soc)
      have "raw = (if soc \<and> 97 + 8 \<le> length chunk then drop 97 chunk else chunk)" "marked = (\<not> soc)"
        using t(2,3) 2 addr(2) by (simp_all add: retrieve_chunk_result_def returned_cac_of_def decode_retrieved_chunk_def)
      moreover have "verify_chunk_with keccak curve address chunk expect verify = (True, soc)"
        using ok [OF 2] addr(1) t(1) by (simp add: verified_def)
      ultimately show ?thesis by blast
    qed
  qed
  then show ?thesis using assms(1) unfolding dispatch_replies_def by blast
qed

lemma chunk_replies_verified:
  assumes "chunk_replies keccak curve verify address raw marked" "length address = HASH_SIZE"
  shows "raw = [] \<and> \<not> marked \<or> fst (verify_chunk_with keccak curve address raw Cac verify)"
  using dispatch_verified [OF assms(1) [unfolded chunk_replies_def] assms(2)]
  by (auto simp: verify_chunk_with_def split: if_splits)

text \<open>What the users of the chunk service rely on.\<close>

locale chunk_service =
  fixes keccak :: "bytes \<Rightarrow> bytes" and verify :: bool and replies :: "bytes \<Rightarrow> bytes \<Rightarrow> bool \<Rightarrow> bool"
  assumes service_verified: "replies address raw marked \<Longrightarrow> length address = HASH_SIZE \<Longrightarrow>
    raw = [] \<and> \<not> marked \<or> (if verify then valid_cac keccak raw address else chunk_structurally_usable raw)"

interpretation retrieval: chunk_service keccak verify "chunk_replies keccak curve verify" for keccak curve verify
proof
  fix address raw marked
  assume "chunk_replies keccak curve verify address raw marked" "length address = HASH_SIZE"
  from chunk_replies_verified [OF this]
  show "raw = [] \<and> \<not> marked \<or> (if verify then valid_cac keccak raw address else chunk_structurally_usable raw)"
    by (auto simp: verify_chunk_with_def split: if_splits)
qed

text \<open>Conversely every chunk of the right shape can be the answer: one peer that has it is enough.\<close>

lemma dispatch_possible:
  assumes len: "length address = 32" and ok: "verify_chunk_with keccak curve address chunk expect verify = (True, soc)"
  shows "dispatch_replies keccak curve verify expect address
    (if soc \<and> 97 + 8 \<le> length chunk then drop 97 chunk else chunk) (\<not> soc)"
proof -
  obtain s where s: "(chunk_step keccak curve verify)\<^sup>*\<^sup>* (example_waiting address expect) s" "length (cl_retrievals s) = 1"
    "rt_pc (cl_retrievals s ! 0) = Finished (Some (chunk, soc))"
    "\<not> rt_encrypted (cl_retrievals s ! 0)" "rt_key (cl_retrievals s ! 0) = []"
    "rt_caddr (cl_retrievals s ! 0) = address" "rt_expect (cl_retrievals s ! 0) = expect"
    using example_finish [OF assms] by blast
  then show ?thesis
    unfolding dispatch_replies_def
    by (intro disjI2 exI [of _ example_layer] exI [of _ s] exI [of _ 0])
       (auto simp: len example_initial chunk_address_parts_def retrieve_chunk_result_def
         decode_retrieved_chunk_def returned_cac_of_def intro: rtranclp_trans [OF example_run [OF len]])
qed

lemma example_reply: "chunk_replies example_keccak curve True example_address example_chunk True"
  using dispatch_possible [OF example_address_length, of example_keccak curve example_chunk Cac True False]
  by (simp add: chunk_replies_def verify_chunk_with_def example_chunk_valid)

section \<open>Properties\<close>

text \<open>
  C14.  Whatever peers answer and however the steps interleave, a chunk that a retrieval returns
  passed the check of its shape against the address that was asked for.
\<close>

theorem retrieve_chunk_verified:
  assumes "(chunk_step keccak curve verify)\<^sup>*\<^sup>* s0 s" "layer_initial s0" "i < length (cl_retrievals s)"
    "rt_pc (cl_retrievals s ! i) = Finished (Some (chunk, soc))"
  shows "verify_chunk_with keccak curve (rt_caddr (cl_retrievals s ! i)) chunk
    (rt_expect (cl_retrievals s ! i)) verify = (True, soc)"
  using layer_inv_retrieval [OF layer_inv_reachable [OF assms(1,2)] assms(3)] assms(4)
  by (simp add: retrieval_simps)

theorem retrieve_chunk_verified_witness:
  "verify_chunk_with example_keccak example_curve example_address example_chunk Cac True = (True, False)"
proof -
  obtain s where s: "(chunk_step example_keccak example_curve True)\<^sup>*\<^sup>* (example_waiting example_address Cac) s"
    "length (cl_retrievals s) = 1" "rt_pc (cl_retrievals s ! 0) = Finished (Some (example_chunk, False))"
    "rt_caddr (cl_retrievals s ! 0) = example_address" "rt_expect (cl_retrievals s ! 0) = Cac"
    using example_finish [OF example_address_length, of example_keccak example_curve example_chunk Cac True False]
    by (auto simp: verify_chunk_with_def example_chunk_valid)
  show ?thesis
    using retrieve_chunk_verified [OF rtranclp_trans [OF example_run [OF example_address_length] s(1)] example_initial, of 0 example_chunk False] s by simp
qed

text \<open>
  C5.  No reserve leaks: at every moment the reserve of every account is the sum of the prices of
  the attempts running on it, plus what retrievals that refused a peer are about to give back.
\<close>

theorem reserve_is_running_attempts:
  assumes "(chunk_step keccak curve verify)\<^sup>*\<^sup>* s0 s" "layer_initial s0"
    "account_store (cl_world s) account = Some a"
  shows "unat (pa_reserve a) = (\<Sum>x\<leftarrow>cl_attempts s. attempt_held account x)
    + (\<Sum>t\<leftarrow>cl_retrievals s. pc_held account (rt_pc t))"
proof -
  have "match_reserve (account_store (cl_world s) account) (layer_held s account)"
    using layer_inv_reachable [OF assms(1,2)] by (simp add: layer_inv_def)
  then show ?thesis using assms(3) by (simp add: layer_held_def)
qed

theorem reserve_is_running_attempts_witness:
  "unat (pa_reserve (example_account\<lparr>pa_reserve := 320000\<rparr>)) =
     (\<Sum>x\<leftarrow>cl_attempts (example_waiting example_address Cac). attempt_held 0 x)
     + (\<Sum>t\<leftarrow>cl_retrievals (example_waiting example_address Cac). pc_held 0 (rt_pc t))"
  by (rule reserve_is_running_attempts [OF example_run [OF example_address_length, of "\<lambda>_. []" example_curve True Cac] example_initial])
     (simp add: example_waiting_def set_account_def)



end
