(* ===== verification/RawFetch.thy ===== *)
theory RawFetch
  imports ChunkCache RetrieveSafety
begin

text \<open>
  \<open>src/retrieval.rs\<close>, the raw fetches: one flight per chunk, shared by every caller that
  waits for it, which fills the cache of decoded chunks when it lands.  A flight's admission,
  demand and cache references are shared cells, so a flight holds a reference into a store.  A
  result channel is a number; what was sent on it is a list.
\<close>

section \<open>Data\<close>

record RawFetchResult =
  rr_index :: usize
  rr_chunk :: bytes
  rr_canonical_cac :: bool

record RawFetchKey =
  rk_runtime_scope :: usize
  rk_request_address :: bytes
  rk_expected_cac :: bytes
  rk_cancel_scope :: "(string \<times> u64) option"

record RawFetchWaiter =
  rw_index :: usize
  rw_result_chan :: nat

record RawFetchShared =
  rs_admission :: RetrieveAdmission
  rs_hedge_demand :: "u8 option"
  rs_cache_references :: "bytes list"

record RawFetches =
  rf_flights :: "(RawFetchKey, RawFetchWaiter, nat) SingleflightRegistry"
  rf_shared :: "nat \<Rightarrow> RawFetchShared"
  rf_next_shared :: nat
  rf_cache :: DecodedChunkCache
  rf_producers :: "(RawFetchKey \<times> u64) list"
  rf_results :: "nat \<Rightarrow> RawFetchResult list"

text \<open>What a queue of fetches is opened with: the runtime, the cancel token, the channel.\<close>

record RawFetchQueue =
  rfq_scope :: usize
  rfq_cancel :: "RetrieveCancelToken option"
  rfq_chan :: nat
  rfq_waiters :: "(RawFetchKey \<times> u64 \<times> u64) list"

section \<open>Operations\<close>

definition raw_fetch_key ::
  "usize \<Rightarrow> bytes \<Rightarrow> bytes \<Rightarrow> RetrieveCancelToken option \<Rightarrow> RawFetchKey" where
  "raw_fetch_key runtime_scope request_address expected_cac cancel =
     \<lparr>rk_runtime_scope = runtime_scope, rk_request_address = request_address,
      rk_expected_cac = expected_cac,
      rk_cancel_scope = map_option (\<lambda>c. (stream_key c, generation c)) cancel\<rparr>"

definition raw_fetch_shared :: "RetrieveHedgeDemand \<Rightarrow> RawFetchShared" where
  "raw_fetch_shared demand =
     \<lparr>rs_admission = new_with_attempt_limit (usize_bound - 1),
      rs_hedge_demand = (if demand = DistinctShardManaged then Some (hedge_new demand) else None),
      rs_cache_references = []\<rparr>"

definition remember_cache_reference :: "bytes option \<Rightarrow> RawFetchShared \<Rightarrow> RawFetchShared" where
  "remember_cache_reference reference shared =
     (case reference of
        None \<Rightarrow> shared
      | Some r \<Rightarrow> if r \<in> set (rs_cache_references shared) then shared
                  else shared\<lparr>rs_cache_references := rs_cache_references shared @ [r]\<rparr>)"

definition update_shared :: "nat \<Rightarrow> (RawFetchShared \<Rightarrow> RawFetchShared) \<Rightarrow> RawFetches \<Rightarrow> RawFetches" where
  "update_shared ref f s = s\<lparr>rf_shared := (rf_shared s)(ref := f (rf_shared s ref))\<rparr>"

definition close_shared :: "RawFetchShared \<Rightarrow> RawFetchShared" where
  "close_shared shared = shared\<lparr>rs_admission := admission_close (rs_admission shared)\<rparr>"

definition remove_raw_fetch_waiter ::
  "RawFetchKey \<Rightarrow> u64 \<Rightarrow> u64 \<Rightarrow> RawFetches \<Rightarrow> RawFetches" where
  "remove_raw_fetch_waiter key flight_id waiter_id s =
     (let (shared, flights') = remove_waiter key flight_id waiter_id (rf_flights s);
          s1 = s\<lparr>rf_flights := flights'\<rparr>
      in case shared of
           None \<Rightarrow> s1
         | Some ref \<Rightarrow>
             let s2 = update_shared ref close_shared s1
             in if claimed_physical_attempts (rs_admission (rf_shared s2 ref)) = Some 0
                then s2\<lparr>rf_flights := snd (flight_take key flight_id (rf_flights s2))\<rparr>
                else s2)"

fun close_waiters :: "(RawFetchKey \<times> u64 \<times> u64) list \<Rightarrow> RawFetches \<Rightarrow> RawFetches" where
  "close_waiters [] s = s"
| "close_waiters ((key, flight_id, waiter_id) # rest) s =
     close_waiters rest (remove_raw_fetch_waiter key flight_id waiter_id s)"

definition raw_fetch_close :: "RawFetchQueue \<Rightarrow> RawFetches \<Rightarrow> RawFetchQueue \<times> RawFetches" where
  "raw_fetch_close q s = (q\<lparr>rfq_waiters := []\<rparr>, close_waiters (rfq_waiters q) s)"

definition send_result :: "nat \<Rightarrow> RawFetchResult \<Rightarrow> RawFetches \<Rightarrow> RawFetches" where
  "send_result chan result s = s\<lparr>rf_results := (rf_results s)(chan := rf_results s chan @ [result])\<rparr>"

text \<open>
  The verdict on a chunk that a flight brought: what is delivered and whether it is the chunk that
  the key asks for.  \<open>marked\<close> is the mark of the flight's admission.
\<close>

definition usable :: "bytes \<Rightarrow> bool" where
  "usable chunk \<longleftrightarrow> SPAN_SIZE \<le> length chunk \<and> length chunk \<le> CHUNK_WITH_SPAN_SIZE"

definition flight_verdict ::
  "(bytes \<Rightarrow> bytes) \<Rightarrow> bool \<Rightarrow> bytes \<Rightarrow> bytes \<Rightarrow> bool \<Rightarrow> bytes \<Rightarrow> bytes \<times> bool" where
  "flight_verdict keccak verify request_address expected_cac marked chunk =
     (if usable chunk then chunk else [],
      usable chunk \<and>
        (length request_address = HASH_SIZE \<and> request_address = expected_cac \<and> marked
         \<or> \<not> verify \<or> valid_cac keccak chunk expected_cac))"

fun remember_all :: "usize \<Rightarrow> bytes list \<Rightarrow> bytes \<Rightarrow> DecodedChunkCache \<Rightarrow> DecodedChunkCache" where
  "remember_all limit [] raw c = c"
| "remember_all limit (reference # rest) raw c = remember_all limit rest raw (cc_insert_raw limit reference raw c)"

fun deliver_all :: "RawFetchWaiter list \<Rightarrow> bytes \<Rightarrow> bool \<Rightarrow> RawFetches \<Rightarrow> RawFetches" where
  "deliver_all [] chunk canonical s = s"
| "deliver_all (waiter # rest) chunk canonical s =
     deliver_all rest chunk canonical
       (send_result (rw_result_chan waiter)
          \<lparr>rr_index = rw_index waiter, rr_chunk = chunk, rr_canonical_cac = canonical\<rparr> s)"

definition complete_raw_fetch ::
  "(bytes \<Rightarrow> bytes) \<Rightarrow> bool \<Rightarrow> usize \<Rightarrow> RawFetchKey \<Rightarrow> u64 \<Rightarrow> bytes \<Rightarrow> RawFetches \<Rightarrow> bool \<times> RawFetches" where
  "complete_raw_fetch keccak verify limit key flight_id chunk s =
     (let (flight, flights') = flight_take key flight_id (rf_flights s) in
      case flight of
        None \<Rightarrow> (False, s\<lparr>rf_flights := flights'\<rparr>)
      | Some (ref, waiters) \<Rightarrow>
          let s1 = update_shared ref close_shared (s\<lparr>rf_flights := flights'\<rparr>);
              (delivered, canonical) = flight_verdict keccak verify (rk_request_address key)
                 (rk_expected_cac key) (returned_cac (rs_admission (rf_shared s1 ref))) chunk;
              s2 = (if canonical
                    then s1\<lparr>rf_cache := remember_all limit (rs_cache_references (rf_shared s1 ref))
                              delivered (rf_cache s1)\<rparr>
                    else s1)
          in (canonical, deliver_all waiters delivered canonical s2))"

text \<open>What a request leaves on the flight it joins.\<close>

definition noted ::
  "bytes option \<Rightarrow> RetrieveHedgeDemand \<Rightarrow> RawFetchShared \<Rightarrow> RawFetchShared" where
  "noted cache_reference demand shared = (remember_cache_reference cache_reference shared)
     \<lparr>rs_hedge_demand := map_option (\<lambda>d. fst (hedge_promote demand d)) (rs_hedge_demand shared)\<rparr>"

text \<open>\<open>send_ok\<close> says whether the chunk service still takes requests.\<close>

definition queue_drained_raw_chunk ::
  "(bytes \<Rightarrow> bytes) \<Rightarrow> bool \<Rightarrow> usize \<Rightarrow> bool \<Rightarrow> usize \<Rightarrow> bytes \<Rightarrow> bytes \<Rightarrow> bytes option \<Rightarrow>
   RetrieveHedgeDemand \<Rightarrow> RawFetchQueue \<Rightarrow> RawFetches \<Rightarrow> RawFetchQueue \<times> RawFetches" where
  "queue_drained_raw_chunk keccak verify limit send_ok index request_address expected_cac cache_reference demand q s =
     (let (cached, s0) =
            (case cache_reference of
               None \<Rightarrow> (None, s)
             | Some reference \<Rightarrow> (let (raw, c) = cc_get_raw limit reference (rf_cache s) in (raw, s\<lparr>rf_cache := c\<rparr>)))
      in case cached of
           Some chunk \<Rightarrow>
             (q, send_result (rfq_chan q) \<lparr>rr_index = index, rr_chunk = chunk, rr_canonical_cac = True\<rparr> s0)
         | None \<Rightarrow>
             let key = raw_fetch_key (rfq_scope q) request_address expected_cac (rfq_cancel q);
                 ref = rf_next_shared s0;
                 (registration, flights') = register key \<lparr>rw_index = index, rw_result_chan = rfq_chan q\<rparr> ref (rf_flights s0);
                 s1 = s0\<lparr>rf_flights := flights'\<rparr>;
                 s2 = (if leader registration
                       then s1\<lparr>rf_next_shared := Suc ref, rf_shared := (rf_shared s1)(ref := raw_fetch_shared demand)\<rparr>
                       else s1);
                 s3 = update_shared (reg_shared registration) (noted cache_reference demand) s2;
                 q' = q\<lparr>rfq_waiters := rfq_waiters q @ [(key, reg_flight_id registration, reg_waiter_id registration)]\<rparr>
             in if \<not> leader registration then (q', s3)
                else if \<not> send_ok
                then (q', snd (complete_raw_fetch keccak verify limit key (reg_flight_id registration) [] s3))
                else (q', s3\<lparr>rf_producers := rf_producers s3 @ [(key, reg_flight_id registration)]\<rparr>))"

definition queue_data_shard ::
  "(bytes \<Rightarrow> bytes) \<Rightarrow> bool \<Rightarrow> usize \<Rightarrow> bool \<Rightarrow> usize \<Rightarrow> bytes \<Rightarrow> RetrieveHedgeDemand \<Rightarrow> RawFetchQueue \<Rightarrow>
   RawFetches \<Rightarrow> RawFetchQueue \<times> RawFetches" where
  "queue_data_shard keccak verify limit send_ok index reference =
     queue_drained_raw_chunk keccak verify limit send_ok index (take HASH_SIZE reference)
       (take HASH_SIZE reference) (Some reference)"

definition queue_parity_shard ::
  "(bytes \<Rightarrow> bytes) \<Rightarrow> bool \<Rightarrow> usize \<Rightarrow> bool \<Rightarrow> usize \<Rightarrow> bytes \<Rightarrow> RetrieveHedgeDemand \<Rightarrow> RawFetchQueue \<Rightarrow>
   RawFetches \<Rightarrow> RawFetchQueue \<times> RawFetches" where
  "queue_parity_shard keccak verify limit send_ok index reference =
     queue_drained_raw_chunk keccak verify limit send_ok index reference reference None"

end
