(* ===== verification/CacheSound.thy ===== *)
theory CacheSound
  imports ChunkCache
begin

text \<open>
  What the cache of decoded chunks may hold: under a reference only raw chunks that the predicate
  \<open>good\<close> accepts for it, and what they decode to.  Every operation keeps this, whatever is
  evicted, so a hit is as good as a fetch.
\<close>

definition entry_sound :: "(bytes \<Rightarrow> bytes \<Rightarrow> bool) \<Rightarrow> (bytes \<Rightarrow> bytes) \<Rightarrow> bytes \<Rightarrow> CachedJoinChunk \<Rightarrow> bool" where
  "entry_sound good keccak reference e \<longleftrightarrow>
     (\<forall>raw. cached_raw e = Some raw \<longrightarrow> good reference raw) \<and>
     (\<forall>d. cached_decoded e = Some d \<longrightarrow>
        (\<exists>raw. good reference raw \<and> decode_shared_raw_join_chunk keccak raw reference = Some d))"

definition cache_sound :: "(bytes \<Rightarrow> bytes \<Rightarrow> bool) \<Rightarrow> (bytes \<Rightarrow> bytes) \<Rightarrow> DecodedChunkCache \<Rightarrow> bool" where
  "cache_sound good keccak c \<longleftrightarrow> (\<forall>(reference, e) \<in> set (cc_chunks c). entry_sound good keccak reference e)"

lemma cache_default_sound: "cache_sound good keccak cache_default"
  by (simp add: cache_sound_def cache_default_def)

lemma set_alist_update: "set (AList.update k v xs) \<subseteq> insert (k, v) (set xs)"
  by (induction xs) auto

lemma evict_loop_subset: "evict_loop limit chs evictions order = (chs', e, o') \<Longrightarrow> set chs' \<subseteq> set chs"
proof (induction limit chs evictions order rule: evict_loop.induct)
  case (2 limit chs evictions expired order)
  have "set (AList.delete (fst expired) chs) \<subseteq> set chs" by (auto simp: AList.delete_eq)
  with 2 show ?case by (auto split: if_splits)
qed simp

lemma finish_touch_subset: "set (cc_chunks (finish_touch limit r g c)) \<subseteq> set (cc_chunks c)"
  by (auto simp: finish_touch_def compact_order_if_needed_def Let_def split: prod.splits dest!: evict_loop_subset)

lemma cache_sound_touch:
  assumes "cache_sound good keccak c" "entry_sound good keccak r e" "cc_chunks c1 = AList.update r e (cc_chunks c)"
  shows "cache_sound good keccak (finish_touch limit r g c1)"
  using finish_touch_subset [of limit r g c1] set_alist_update [of r e "cc_chunks c"] assms
  by (fastforce simp: cache_sound_def)

lemma cache_sound_entry:
  "cache_sound good keccak c \<Longrightarrow> map_of (cc_chunks c) r = Some e \<Longrightarrow> entry_sound good keccak r e"
  by (auto simp: cache_sound_def dest: map_of_SomeD)

lemma cc_get_raw_sound:
  assumes "cache_sound good keccak c" "cc_get_raw limit r c = (out, c')"
  shows "cache_sound good keccak c'" "out = Some raw \<Longrightarrow> good r raw"
proof -
  have "cache_sound good keccak c' \<and> (out = Some raw \<longrightarrow> good r raw)"
  proof (cases "map_of (cc_chunks c) r")
    case None
    then show ?thesis using assms by (auto simp: cc_get_raw_def cache_sound_def Let_def)
  next
    case (Some e)
    note e = cache_sound_entry [OF assms(1) Some]
    then have "entry_sound good keccak r (e\<lparr>cached_generation := cc_generation c + 1\<rparr>)"
      by (simp add: entry_sound_def)
    note touch = cache_sound_touch [OF assms(1) this]
    have "out = cached_raw e" "cache_sound good keccak c'"
      using assms(2) Some by (auto simp: cc_get_raw_def Let_def intro: touch)
    then show ?thesis using e by (simp add: entry_sound_def)
  qed
  then show "cache_sound good keccak c'" "out = Some raw \<Longrightarrow> good r raw" by blast+
qed

lemma decode_entry_sound:
  "entry_sound good keccak r e \<Longrightarrow> decode_entry keccak r e = Some d \<Longrightarrow>
     \<exists>raw. good r raw \<and> decode_shared_raw_join_chunk keccak raw r = Some d"
  by (auto simp: entry_sound_def decode_entry_def bind_eq_Some_conv split: option.splits)

lemma cc_get_decoded_sound:
  assumes "cache_sound good keccak c" "cc_get_decoded keccak limit r b c = (out, c')"
  shows "cache_sound good keccak c'"
    "out = Some (d, raw') \<Longrightarrow> \<exists>raw. good r raw \<and> decode_shared_raw_join_chunk keccak raw r = Some d"
    "out = Some (d, Some x) \<Longrightarrow> good r x"
proof -
  have "cache_sound good keccak c' \<and> (\<forall>d raw'. out = Some (d, raw') \<longrightarrow>
      (\<exists>raw. good r raw \<and> decode_shared_raw_join_chunk keccak raw r = Some d) \<and>
      (\<forall>x. raw' = Some x \<longrightarrow> good r x))"
  proof (cases "map_of (cc_chunks c) r")
    case None
    then show ?thesis using assms by (auto simp: cc_get_decoded_def cache_sound_def Let_def)
  next
    case (Some e)
    note e = cache_sound_entry [OF assms(1) Some]
    then have "entry_sound good keccak r
        (e\<lparr>cached_generation := cc_generation c + 1, cached_decoded := decode_entry keccak r e\<rparr>)"
      using decode_entry_sound [OF e] by (simp add: entry_sound_def)
    note touch = cache_sound_touch [OF assms(1) this]
    have "out = map_option (\<lambda>d. (d, if b then cached_raw e else None)) (decode_entry keccak r e)"
      "cache_sound good keccak c'"
      using assms(2) Some by (auto simp: cc_get_decoded_def Let_def intro: touch)
    then show ?thesis using decode_entry_sound [OF e] e by (auto simp: entry_sound_def split: if_splits)
  qed
  then show "cache_sound good keccak c'"
    "out = Some (d, raw') \<Longrightarrow> \<exists>raw. good r raw \<and> decode_shared_raw_join_chunk keccak raw r = Some d"
    "out = Some (d, Some x) \<Longrightarrow> good r x" by blast+
qed

lemma cc_insert_sound:
  assumes "cache_sound good keccak c" "\<And>x. raw = Some x \<Longrightarrow> good r x"
    "\<And>d. decoded = Some d \<Longrightarrow> \<exists>x. good r x \<and> decode_shared_raw_join_chunk keccak x r = Some d"
  shows "cache_sound good keccak (cc_insert limit r raw decoded c)"
proof -
  have e: "entry_sound good keccak r e" if "map_of (cc_chunks c) r = Some e" for e
    using cache_sound_entry [OF assms(1) that] .
  show ?thesis
    unfolding cc_insert_def Let_def
    by (rule cache_sound_touch [OF assms(1)])
       (use e assms(2,3) in \<open>auto simp: entry_sound_def option_else_def split: option.splits\<close>)
qed

lemma cc_insert_raw_sound:
  "cache_sound good keccak c \<Longrightarrow> good r raw \<Longrightarrow> cache_sound good keccak (cc_insert_raw limit r raw c)"
  by (auto simp: cc_insert_raw_def intro: cc_insert_sound)

lemma cc_insert_decoded_sound:
  "cache_sound good keccak c \<Longrightarrow> good r raw \<Longrightarrow> decode_shared_raw_join_chunk keccak raw r = Some d \<Longrightarrow>
     cache_sound good keccak (cc_insert_decoded limit r d c)"
  by (auto simp: cc_insert_decoded_def intro!: cc_insert_sound)

end
