(* ===== verification/RawFetchSafety.thy ===== *)
theory RawFetchSafety
  imports RawFetch CacheSound
begin

text \<open>
  The raw fetches over every order of queueing, closing and landing: nothing enters the cache of
  decoded chunks under a reference unless it is a chunk of that reference, and a flight that lands
  answers each of its waiters once.
\<close>

section \<open>What is good for a reference\<close>

definition good_raw :: "(bytes \<Rightarrow> bytes) \<Rightarrow> bool \<Rightarrow> bytes \<Rightarrow> bytes \<Rightarrow> bool" where
  "good_raw keccak verify reference raw \<longleftrightarrow> (verify \<longrightarrow> valid_cac keccak raw (take HASH_SIZE reference))"

context chunk_service
begin

lemma flight_verdict_good:
  assumes "replies address chunk marked"
    "flight_verdict keccak verify address cac marked chunk = (delivered, True)" "take HASH_SIZE reference = cac"
  shows "good_raw keccak verify reference delivered"
proof -
  have d: "delivered = chunk" "usable chunk"
    "length address = HASH_SIZE \<and> address = cac \<and> marked \<or> \<not> verify \<or> valid_cac keccak chunk cac"
    using assms(2) by (auto simp: flight_verdict_def split: if_splits)
  moreover have "valid_cac keccak chunk cac" if "length address = HASH_SIZE" "address = cac" "marked" "verify"
    using service_verified [OF assms(1)] that by simp
  ultimately show ?thesis using assms(3) by (auto simp: good_raw_def)
qed

end

lemma remember_all_sound:
  "cache_sound good keccak c \<Longrightarrow> (\<And>r. r \<in> set rs \<Longrightarrow> good r raw) \<Longrightarrow>
     cache_sound good keccak (remember_all limit rs raw c)"
  by (induction rs arbitrary: c) (auto intro: cc_insert_raw_sound)

section \<open>Steps\<close>

definition mark_returned :: "RawFetchKey \<Rightarrow> bool \<Rightarrow> RawFetches \<Rightarrow> RawFetches" where
  "mark_returned key marked s =
     (case flights (rf_flights s) key of
        Some flight \<Rightarrow> if marked
          then update_shared (entry_shared flight)
                 (\<lambda>shared. shared\<lparr>rs_admission := record_returned_cac (rs_admission shared)\<rparr>) s
          else s
      | None \<Rightarrow> s)"

text \<open>
  The steps of the users of the raw fetches, over channels that satisfy \<open>chans\<close>; a producer
  ends with an answer of the chunk service.
\<close>

inductive raw_step ::
  "(bytes \<Rightarrow> bytes) \<Rightarrow> (bytes \<Rightarrow> bytes \<Rightarrow> bool \<Rightarrow> bool) \<Rightarrow> bool \<Rightarrow> usize \<Rightarrow> (nat \<Rightarrow> bool) \<Rightarrow>
   RawFetches \<Rightarrow> RawFetches \<Rightarrow> bool"
  for keccak replies verify limit chans where
  data: "chans (rfq_chan q) \<Longrightarrow> queue_data_shard keccak verify limit send_ok index reference demand q s = (q', s') \<Longrightarrow>
    raw_step keccak replies verify limit chans s s'"
| parity: "chans (rfq_chan q) \<Longrightarrow> queue_parity_shard keccak verify limit send_ok index reference demand q s = (q', s') \<Longrightarrow>
    raw_step keccak replies verify limit chans s s'"
| root: "chans (rfq_chan q) \<Longrightarrow> queue_drained_raw_chunk keccak verify limit send_ok index request_address (take HASH_SIZE reference)
      (Some reference) Ordinary q s = (q', s') \<Longrightarrow> raw_step keccak replies verify limit chans s s'"
| close: "raw_fetch_close q s = (q', s') \<Longrightarrow> raw_step keccak replies verify limit chans s s'"
| produce: "rf_producers s = before @ (key, flight_id) # after \<Longrightarrow>
    replies (rk_request_address key) chunk marked \<Longrightarrow>
    flights (rf_flights s) key = Some flight \<Longrightarrow> entry_flight_id flight = flight_id \<Longrightarrow>
    complete_raw_fetch keccak verify limit key flight_id chunk (mark_returned key marked s) = (canonical, s') \<Longrightarrow>
    raw_step keccak replies verify limit chans s (s'\<lparr>rf_producers := before @ after\<rparr>)"
| late: "rf_producers s = before @ (key, flight_id) # after \<Longrightarrow>
    (\<And>flight. flights (rf_flights s) key = Some flight \<Longrightarrow> entry_flight_id flight \<noteq> flight_id) \<Longrightarrow>
    complete_raw_fetch keccak verify limit key flight_id chunk s = (canonical, s') \<Longrightarrow>
    raw_step keccak replies verify limit chans s (s'\<lparr>rf_producers := before @ after\<rparr>)"
| claims: "flights (rf_flights s) key = Some flight \<Longrightarrow>
    try_claim_physical_attempt (rs_admission (rf_shared s (entry_shared flight))) = (b, admission) \<Longrightarrow>
    raw_step keccak replies verify limit chans s
      (update_shared (entry_shared flight) (\<lambda>shared. shared\<lparr>rs_admission := admission\<rparr>) s)"
| lookup: "cc_get_decoded keccak limit reference include_raw (rf_cache s) = (out, c) \<Longrightarrow>
    raw_step keccak replies verify limit chans s (s\<lparr>rf_cache := c\<rparr>)"
| remember_raw: "good_raw keccak verify reference raw \<Longrightarrow>
    raw_step keccak replies verify limit chans s (s\<lparr>rf_cache := cc_insert_raw limit reference raw (rf_cache s)\<rparr>)"
| remember_decoded: "good_raw keccak verify reference raw \<Longrightarrow>
    decode_shared_raw_join_chunk keccak raw reference = Some d \<Longrightarrow>
    raw_step keccak replies verify limit chans s (s\<lparr>rf_cache := cc_insert_decoded limit reference d (rf_cache s)\<rparr>)"

section \<open>Invariant\<close>

definition flight_ok :: "RawFetchKey \<Rightarrow> RawFetchShared \<Rightarrow> bool" where
  "flight_ok key shared \<longleftrightarrow> \<not> returned_cac (rs_admission shared) \<and>
     (\<forall>r \<in> set (rs_cache_references shared). take HASH_SIZE r = rk_expected_cac key)"

definition flights_ok :: "RawFetches \<Rightarrow> bool" where
  "flights_ok s \<longleftrightarrow>
     (\<forall>key e. flights (rf_flights s) key = Some e \<longrightarrow>
        entry_shared e < rf_next_shared s \<and> flight_ok key (rf_shared s (entry_shared e)) \<and>
        (\<forall>key' e'. flights (rf_flights s) key' = Some e' \<longrightarrow> entry_shared e' = entry_shared e \<longrightarrow> key' = key))"

definition raw_inv :: "(bytes \<Rightarrow> bytes) \<Rightarrow> bool \<Rightarrow> RawFetches \<Rightarrow> bool" where
  "raw_inv keccak verify s \<longleftrightarrow> cache_sound (good_raw keccak verify) keccak (rf_cache s) \<and> flights_ok s"

lemma update_shared_simps [simp]:
  "rf_flights (update_shared ref f s) = rf_flights s" "rf_cache (update_shared ref f s) = rf_cache s"
  "rf_next_shared (update_shared ref f s) = rf_next_shared s" "rf_producers (update_shared ref f s) = rf_producers s"
  "rf_results (update_shared ref f s) = rf_results s"
  "rf_shared (update_shared ref f s) = (rf_shared s)(ref := f (rf_shared s ref))"
  by (simp_all add: update_shared_def)

lemma send_result_simps [simp]:
  "rf_flights (send_result chan r s) = rf_flights s" "rf_cache (send_result chan r s) = rf_cache s"
  "rf_next_shared (send_result chan r s) = rf_next_shared s" "rf_shared (send_result chan r s) = rf_shared s"
  by (simp_all add: send_result_def)

lemma deliver_all_simps [simp]:
  "rf_flights (deliver_all ws chunk b s) = rf_flights s" "rf_cache (deliver_all ws chunk b s) = rf_cache s"
  "rf_next_shared (deliver_all ws chunk b s) = rf_next_shared s" "rf_shared (deliver_all ws chunk b s) = rf_shared s"
  by (induction ws chunk b s rule: deliver_all.induct) simp_all

lemma raw_inv_producers [simp]:
  "raw_inv keccak verify (s\<lparr>rf_producers := ps\<rparr>) = raw_inv keccak verify s"
  by (simp add: raw_inv_def flights_ok_def)

lemma flights_okD:
  "flights_ok s \<Longrightarrow> flights (rf_flights s) key = Some e \<Longrightarrow>
     entry_shared e < rf_next_shared s \<and> flight_ok key (rf_shared s (entry_shared e))"
  unfolding flights_ok_def by blast

lemma flights_ok_inj:
  "flights_ok s \<Longrightarrow> flights (rf_flights s) key = Some e \<Longrightarrow> flights (rf_flights s) key' = Some e' \<Longrightarrow>
     entry_shared e' = entry_shared e \<Longrightarrow> key' = key"
  unfolding flights_ok_def by blast

text \<open>Fewer flights, or waiters moved: the flights that stay keep their shared cell.\<close>

lemma flights_ok_mono:
  assumes "flights_ok s" "rf_next_shared s \<le> rf_next_shared s'"
    "\<And>key e. flights (rf_flights s') key = Some e \<Longrightarrow>
       \<exists>e0. flights (rf_flights s) key = Some e0 \<and> entry_shared e0 = entry_shared e \<and>
         (flight_ok key (rf_shared s (entry_shared e)) \<longrightarrow> flight_ok key (rf_shared s' (entry_shared e)))"
  shows "flights_ok s'"
  unfolding flights_ok_def
proof (intro allI impI conjI)
  fix key e assume e: "flights (rf_flights s') key = Some e"
  from assms(3) [OF this] obtain e0 where e0: "flights (rf_flights s) key = Some e0" "entry_shared e0 = entry_shared e"
    "flight_ok key (rf_shared s (entry_shared e)) \<longrightarrow> flight_ok key (rf_shared s' (entry_shared e))" by blast
  with flights_okD [OF assms(1) e0(1)]
  have ok: "entry_shared e < rf_next_shared s" "flight_ok key (rf_shared s (entry_shared e))" by simp_all
  show "entry_shared e < rf_next_shared s'" using ok(1) assms(2) by simp
  show "flight_ok key (rf_shared s' (entry_shared e))" using ok(2) e0(3) by blast
  fix key' e' assume "flights (rf_flights s') key' = Some e'" "entry_shared e' = entry_shared e"
  from assms(3) [OF this(1)] this(2) obtain e1 where "flights (rf_flights s) key' = Some e1" "entry_shared e1 = entry_shared e0"
    using e0(2) by auto
  then show "key' = key" using flights_ok_inj [OF assms(1) e0(1)] by blast
qed

lemma remove_waiter_flights:
  assumes "remove_waiter key flight_id waiter_id reg = (shared, reg')" "flights reg' k = Some e"
  shows "\<exists>e0. flights reg k = Some e0 \<and> entry_shared e0 = entry_shared e"
  using assms by (auto simp: remove_waiter_def Let_def split: option.splits if_splits)

lemma flight_take_flights:
  assumes "flight_take key flight_id reg = (r, reg')" "flights reg' k = Some e"
  shows "flights reg k = Some e"
  using assms by (auto simp: flight_take_def split: option.splits if_splits)

lemma flight_ok_close [simp]: "flight_ok key (close_shared shared) = flight_ok key shared"
  by (simp add: flight_ok_def close_shared_def admission_close_def)

lemma remove_raw_fetch_waiter_inv:
  assumes "raw_inv keccak verify s"
  shows "raw_inv keccak verify (remove_raw_fetch_waiter key flight_id waiter_id s)"
proof -
  obtain shared reg where r: "remove_waiter key flight_id waiter_id (rf_flights s) = (shared, reg)"
    by (cases "remove_waiter key flight_id waiter_id (rf_flights s)")
  have "flights_ok (remove_raw_fetch_waiter key flight_id waiter_id s)"
  proof (rule flights_ok_mono [of s])
    fix k e assume "flights (rf_flights (remove_raw_fetch_waiter key flight_id waiter_id s)) k = Some e"
    then have "flights reg k = Some e"
      using r flight_take_flights [of key flight_id reg]
      by (cases "flight_take key flight_id reg")
         (auto simp: remove_raw_fetch_waiter_def Let_def split: option.splits if_splits)
    from remove_waiter_flights [OF r this]
    show "\<exists>e0. flights (rf_flights s) k = Some e0 \<and> entry_shared e0 = entry_shared e \<and>
       (flight_ok k (rf_shared s (entry_shared e)) \<longrightarrow>
        flight_ok k (rf_shared (remove_raw_fetch_waiter key flight_id waiter_id s) (entry_shared e)))"
      using r by (auto simp: remove_raw_fetch_waiter_def Let_def split: option.splits)
  qed (use assms r in \<open>auto simp: raw_inv_def remove_raw_fetch_waiter_def Let_def split: option.splits\<close>)
  then show ?thesis
    using assms r by (auto simp: raw_inv_def remove_raw_fetch_waiter_def Let_def split: option.splits)
qed

lemma close_waiters_inv: "raw_inv keccak verify s \<Longrightarrow> raw_inv keccak verify (close_waiters ws s)"
  by (induction ws s rule: close_waiters.induct) (simp_all add: remove_raw_fetch_waiter_inv)

text \<open>Landing: the chunk may be remembered only where it belongs.\<close>

lemma complete_raw_fetch_inv:
  assumes sound: "cache_sound (good_raw keccak verify) keccak (rf_cache s)" and ok: "flights_ok (s\<lparr>rf_shared := sh\<rparr>)"
    and rest: "\<And>key' e. flights (rf_flights s) key' = Some e \<Longrightarrow> key' \<noteq> key \<Longrightarrow>
       rf_shared s (entry_shared e) = sh (entry_shared e)"
    and good: "\<And>e delivered r. flights (rf_flights s) key = Some e \<Longrightarrow>
       flight_verdict keccak verify (rk_request_address key) (rk_expected_cac key)
         (returned_cac (rs_admission (rf_shared s (entry_shared e)))) chunk = (delivered, True) \<Longrightarrow>
       r \<in> set (rs_cache_references (rf_shared s (entry_shared e))) \<Longrightarrow> good_raw keccak verify r delivered"
    and run: "complete_raw_fetch keccak verify limit key flight_id chunk s = (canonical, s')"
    and fl: "flights (rf_flights s) key = Some flight" "entry_flight_id flight = flight_id"
  shows "raw_inv keccak verify s'"
proof -
  let ?ref = "entry_shared flight"
  let ?s1 = "update_shared ?ref close_shared
    (s\<lparr>rf_flights := (rf_flights s)\<lparr>flights := (flights (rf_flights s))(key := None)\<rparr>\<rparr>)"
  obtain delivered where v: "flight_verdict keccak verify (rk_request_address key) (rk_expected_cac key)
      (returned_cac (rs_admission (rf_shared s ?ref))) chunk = (delivered, canonical)"
    and s': "s' = deliver_all (map snd (entry_waiters flight)) delivered canonical
      (if canonical then ?s1\<lparr>rf_cache := remember_all limit (rs_cache_references (rf_shared s ?ref)) delivered (rf_cache s)\<rparr>
       else ?s1)"
    using run fl
    by (auto simp: complete_raw_fetch_def flight_take_def Let_def close_shared_def admission_close_def split: prod.splits)
  have "cache_sound (good_raw keccak verify) keccak (rf_cache s')"
    using sound good [OF fl(1)] v by (auto simp: s' intro!: remember_all_sound)
  moreover have "flights_ok s'"
  proof (rule flights_ok_mono [OF ok])
    fix k e assume "flights (rf_flights s') k = Some e"
    then have k: "k \<noteq> key" "flights (rf_flights s) k = Some e" by (auto simp: s' split: if_splits)
    then show "\<exists>e0. flights (rf_flights (s\<lparr>rf_shared := sh\<rparr>)) k = Some e0 \<and> entry_shared e0 = entry_shared e \<and>
        (flight_ok k (rf_shared (s\<lparr>rf_shared := sh\<rparr>) (entry_shared e)) \<longrightarrow> flight_ok k (rf_shared s' (entry_shared e)))"
      using rest [OF k(2,1)] by (auto simp: s')
  qed (simp add: s')
  ultimately show ?thesis by (simp add: raw_inv_def)
qed

lemma deliver_all_results:
  "rf_results (deliver_all ws chunk b s) chan = rf_results s chan @
     map (\<lambda>w. \<lparr>rr_index = rw_index w, rr_chunk = chunk, rr_canonical_cac = b\<rparr>) (filter (\<lambda>w. rw_result_chan w = chan) ws)"
  by (induction ws chunk b s rule: deliver_all.induct) (simp_all add: send_result_def)

lemma complete_raw_fetch_effect:
  assumes "flights (rf_flights s) key = Some flight" "entry_flight_id flight = flight_id"
    "complete_raw_fetch keccak verify limit key flight_id chunk s = (canonical, s')"
  obtains delivered where
    "flight_verdict keccak verify (rk_request_address key) (rk_expected_cac key)
       (returned_cac (rs_admission (rf_shared s (entry_shared flight)))) chunk = (delivered, canonical)"
    "\<And>chan. rf_results s' chan = rf_results s chan @
       map (\<lambda>w. \<lparr>rr_index = rw_index w, rr_chunk = delivered, rr_canonical_cac = canonical\<rparr>)
         (filter (\<lambda>w. rw_result_chan w = chan) (map snd (entry_waiters flight)))"
    "flights (rf_flights s') = (flights (rf_flights s))(key := None)"
  using assms
  by (auto simp: complete_raw_fetch_def flight_take_def Let_def deliver_all_results close_shared_def admission_close_def
      split: prod.splits if_splits)

lemma complete_late:
  assumes "\<And>flight. flights (rf_flights s) key = Some flight \<Longrightarrow> entry_flight_id flight \<noteq> flight_id"
  shows "complete_raw_fetch keccak verify limit key flight_id chunk s = (False, s)"
  using assms by (auto simp: complete_raw_fetch_def flight_take_def split: option.splits)

lemma register_cases:
  assumes "register key waiter ref reg = (registration, reg')"
  shows "reg_key registration = key"
    "leader registration \<Longrightarrow> reg_shared registration = ref \<and> flights reg key = None \<and>
       (\<forall>k e. flights reg' k = Some e \<longrightarrow> (if k = key then entry_shared e = ref else flights reg k = Some e)) \<and>
       (\<exists>e. flights reg' key = Some e \<and> entry_flight_id e = reg_flight_id registration)"
    "\<not> leader registration \<Longrightarrow> \<exists>e0. flights reg key = Some e0 \<and> reg_shared registration = entry_shared e0 \<and>
       (\<forall>k e. flights reg' k = Some e \<longrightarrow> (\<exists>e1. flights reg k = Some e1 \<and> entry_shared e1 = entry_shared e))"
  using assms by (auto simp: register_def Let_def split: option.splits if_splits)

lemma flight_ok_remember:
  "flight_ok key shared \<Longrightarrow> (\<And>r. reference = Some r \<Longrightarrow> take HASH_SIZE r = rk_expected_cac key) \<Longrightarrow>
     flight_ok key ((remember_cache_reference reference shared)\<lparr>rs_hedge_demand := d\<rparr>)"
  by (auto simp: flight_ok_def remember_cache_reference_def split: option.splits)

lemma flight_ok_new: "flight_ok key (raw_fetch_shared demand)"
  by (simp add: flight_ok_def raw_fetch_shared_def new_with_attempt_limit_def with_attempts_remaining_def)

definition queued_leader ::
  "bytes option \<Rightarrow> RetrieveHedgeDemand \<Rightarrow> RawFetchKey \<Rightarrow> (RawFetchKey, RawFetchWaiter, nat) SingleflightRegistry \<Rightarrow>
   RawFetches \<Rightarrow> RawFetches" where
  "queued_leader cache_reference demand key reg s =
     update_shared (rf_next_shared s) (noted cache_reference demand)
       (s\<lparr>rf_flights := reg, rf_next_shared := Suc (rf_next_shared s),
          rf_shared := (rf_shared s)(rf_next_shared s := raw_fetch_shared demand)\<rparr>)"

definition queued_follower ::
  "bytes option \<Rightarrow> RetrieveHedgeDemand \<Rightarrow> nat \<Rightarrow> (RawFetchKey, RawFetchWaiter, nat) SingleflightRegistry \<Rightarrow>
   RawFetches \<Rightarrow> RawFetches" where
  "queued_follower cache_reference demand ref reg s =
     update_shared ref (noted cache_reference demand) (s\<lparr>rf_flights := reg\<rparr>)"

lemma queued_leader_inv:
  assumes inv: "raw_inv keccak verify s" and reg: "register key waiter (rf_next_shared s) (rf_flights s) = (registration, reg)"
    and lead: "leader registration" and belongs: "\<And>r. cache_reference = Some r \<Longrightarrow> take HASH_SIZE r = rk_expected_cac key"
  shows "raw_inv keccak verify (queued_leader cache_reference demand key reg s)"
proof -
  note r = register_cases(2) [OF reg lead]
  have old: "entry_shared e < rf_next_shared s \<and> flight_ok k (rf_shared s (entry_shared e))"
    if "flights reg k = Some e" "k \<noteq> key" for k e
    using r that flights_okD [of s k e] inv by (auto simp: raw_inv_def)
  have new: "flight_ok key (noted cache_reference demand (raw_fetch_shared demand))"
    unfolding noted_def by (rule flight_ok_remember [OF flight_ok_new belongs])
  have "flights_ok (queued_leader cache_reference demand key reg s)"
    unfolding flights_ok_def queued_leader_def
  proof (intro allI impI conjI, goal_cases)
    case (1 k e)
    then show ?case using r old [of k e] by (cases "k = key") auto
  next
    case (2 k e)
    then show ?case using r old [of k e] new by (cases "k = key") auto
  next
    case (3 k e k' e')
    then have f: "flights reg k = Some e" "flights reg k' = Some e'" by simp_all
    show ?case
    proof (cases "k = key \<or> k' = key")
      case True
      then show ?thesis using r f 3(3) old [OF f(1)] old [OF f(2)] by (metis less_irrefl)
    next
      case False
      then show ?thesis using r f 3(3) flights_ok_inj [of s k e k' e'] inv unfolding raw_inv_def by metis
    qed
  qed
  then show ?thesis using inv by (simp add: raw_inv_def queued_leader_def)
qed

lemma queued_follower_inv:
  assumes inv: "raw_inv keccak verify s" and reg: "register key waiter ref0 (rf_flights s) = (registration, reg)"
    and lead: "\<not> leader registration" and belongs: "\<And>r. cache_reference = Some r \<Longrightarrow> take HASH_SIZE r = rk_expected_cac key"
  shows "raw_inv keccak verify (queued_follower cache_reference demand (reg_shared registration) reg s)" (is "raw_inv _ _ ?s")
proof -
  obtain e0 where e0: "flights (rf_flights s) key = Some e0" "reg_shared registration = entry_shared e0"
    and kept: "\<And>k e. flights reg k = Some e \<Longrightarrow> \<exists>e1. flights (rf_flights s) k = Some e1 \<and> entry_shared e1 = entry_shared e"
    using register_cases(3) [OF reg lead] by blast
  have ok: "flights_ok s" using inv by (simp add: raw_inv_def)
  have "flights_ok ?s"
  proof (rule flights_ok_mono [OF ok])
    fix k e assume "flights (rf_flights ?s) k = Some e"
    then obtain e1 where e1: "flights (rf_flights s) k = Some e1" "entry_shared e1 = entry_shared e"
      using kept [of k e] by (auto simp: queued_follower_def)
    have "k = key" if "entry_shared e = entry_shared e0"
      using flights_ok_inj [OF ok e0(1) e1(1)] e1(2) that by simp
    then show "\<exists>e0. flights (rf_flights s) k = Some e0 \<and> entry_shared e0 = entry_shared e \<and>
        (flight_ok k (rf_shared s (entry_shared e)) \<longrightarrow> flight_ok k (rf_shared ?s (entry_shared e)))"
      using e1 e0(2) belongs by (auto simp: queued_follower_def noted_def intro!: flight_ok_remember)
  qed (simp add: queued_follower_def)
  then show ?thesis using inv by (simp add: raw_inv_def queued_follower_def)
qed

lemma queue_inv:
  assumes inv: "raw_inv keccak verify s"
    and belongs: "\<And>r. cache_reference = Some r \<Longrightarrow> take HASH_SIZE r = expected_cac"
    and run: "queue_drained_raw_chunk keccak verify limit send_ok index request_address expected_cac
      cache_reference demand q s = (q', s')"
  shows "raw_inv keccak verify s'"
proof -
  obtain cached s0 where s0: "(case cache_reference of None \<Rightarrow> (None, s)
      | Some reference \<Rightarrow> (let (raw, c) = cc_get_raw limit reference (rf_cache s) in (raw, s\<lparr>rf_cache := c\<rparr>))) = (cached, s0)"
    by fastforce
  have inv0: "raw_inv keccak verify s0"
    using inv s0 cc_get_raw_sound(1) by (fastforce simp: raw_inv_def flights_ok_def split: option.splits prod.splits)
  show ?thesis
  proof (cases cached)
    case (Some chunk)
    then show ?thesis
      using run s0 inv0 by (auto simp: queue_drained_raw_chunk_def raw_inv_def flights_ok_def)
  next
    case None
    define key where "key = raw_fetch_key (rfq_scope q) request_address expected_cac (rfq_cancel q)"
    define s1 where "s1 = s0\<lparr>rf_next_shared := Suc (rf_next_shared s0)\<rparr>"
    have key: "rk_expected_cac key = expected_cac" by (simp add: key_def raw_fetch_key_def)
    obtain registration reg where reg: "register key \<lparr>rw_index = index, rw_result_chan = rfq_chan q\<rparr>
        (rf_next_shared s0) (rf_flights s0) = (registration, reg)" by fastforce
    show ?thesis
    proof (cases "leader registration")
      case True
      let ?s = "queued_leader cache_reference demand key reg s0"
      have ok: "raw_inv keccak verify ?s"
        using queued_leader_inv [OF inv0 reg True] belongs key by simp
      note r = register_cases(2) [OF reg True]
      show ?thesis
      proof (cases send_ok)
        case True
        then have "\<exists>ps. s' = ?s\<lparr>rf_producers := ps\<rparr>"
          using run s0 None reg \<open>leader registration\<close> r unfolding queue_drained_raw_chunk_def
          by (auto simp: Let_def key_def [symmetric] queued_leader_def)
        then show ?thesis using ok by auto
      next
        case False
        obtain e where e: "flights reg key = Some e" "entry_flight_id e = reg_flight_id registration" using r by blast
        have s': "s' = snd (complete_raw_fetch keccak verify limit key (reg_flight_id registration) [] ?s)"
          using run s0 None reg \<open>leader registration\<close> r False unfolding queue_drained_raw_chunk_def
          by (auto simp: Let_def key_def [symmetric] queued_leader_def)
        have empty: "\<not> usable []" by (simp add: usable_def sizes)
        obtain b where c: "complete_raw_fetch keccak verify limit key (reg_flight_id registration) [] ?s = (b, s')"
          using s' by (metis prod.collapse)
        have fl: "flights (rf_flights ?s) key = Some e" using e by (simp add: queued_leader_def)
        have same: "?s\<lparr>rf_shared := rf_shared ?s\<rparr> = ?s" by simp
        show ?thesis
          using ok empty
          by (intro complete_raw_fetch_inv [where s = ?s and sh = "rf_shared ?s", OF _ _ _ _ c fl e(2)])
             (simp_all add: raw_inv_def flight_verdict_def same)
      qed
    next
      case False
      note r = register_cases(3) [OF reg False]
      then have "s' = queued_follower cache_reference demand (reg_shared registration) reg s0"
        using run s0 None reg False unfolding queue_drained_raw_chunk_def
        by (auto simp: Let_def key_def [symmetric] queued_follower_def)
      then show ?thesis using queued_follower_inv [OF inv0 reg False] belongs key by simp
    qed
  qed
qed

definition raw_initial :: RawFetches where
  "raw_initial = \<lparr>rf_flights = registry_default, rf_shared = (\<lambda>_. raw_fetch_shared Ordinary), rf_next_shared = 0,
     rf_cache = cache_default, rf_producers = [], rf_results = (\<lambda>_. [])\<rparr>"

context chunk_service
begin

lemma raw_inv_step:
  assumes "raw_step keccak replies verify limit chans s s'" "raw_inv keccak verify s"
  shows "raw_inv keccak verify s'"
  using assms
proof (cases rule: raw_step.cases)
  case (data q send_ok index reference demand q')
  then show ?thesis using queue_inv [OF assms(2), of "Some reference"] by (simp add: queue_data_shard_def)
next
  case (parity q send_ok index reference demand q')
  then show ?thesis using queue_inv [OF assms(2), of None] by (simp add: queue_parity_shard_def)
next
  case (root q send_ok index request_address reference q')
  then show ?thesis using queue_inv [OF assms(2), of "Some reference"] by simp
next
  case (close q q')
  then show ?thesis using close_waiters_inv [OF assms(2)] by (auto simp: raw_fetch_close_def)
next
  case (produce before key flight_id after chunk marked flight canonical s'')
  let ?s = "mark_returned key marked s"
  have ok: "flights_ok s" and sound: "cache_sound (good_raw keccak verify) keccak (rf_cache s)"
    using assms(2) by (simp_all add: raw_inv_def)
  note fl = flights_okD [OF ok produce(4)]
  have s: "rf_flights ?s = rf_flights s" "rf_cache ?s = rf_cache s" "rf_next_shared ?s = rf_next_shared s"
    "\<And>r. r \<noteq> entry_shared flight \<Longrightarrow> rf_shared ?s r = rf_shared s r"
    "rs_cache_references (rf_shared ?s (entry_shared flight)) = rs_cache_references (rf_shared s (entry_shared flight))"
    "returned_cac (rs_admission (rf_shared ?s (entry_shared flight))) = marked"
    using produce(4) fl by (auto simp: mark_returned_def record_returned_cac_def flight_ok_def)
  have "raw_inv keccak verify s''"
  proof (rule complete_raw_fetch_inv [where s = ?s and sh = "rf_shared s", OF _ _ _ _ produce(6)])
    show "flights_ok (?s\<lparr>rf_shared := rf_shared s\<rparr>)" using ok by (simp add: flights_ok_def s)
    show "rf_shared ?s (entry_shared e) = rf_shared s (entry_shared e)"
      if "flights (rf_flights ?s) key' = Some e" "key' \<noteq> key" for key' e
      using that flights_ok_inj [OF ok produce(4), of key' e] s(1,4) by auto
    show "good_raw keccak verify r delivered"
      if "flights (rf_flights ?s) key = Some e" "flight_verdict keccak verify (rk_request_address key)
        (rk_expected_cac key) (returned_cac (rs_admission (rf_shared ?s (entry_shared e)))) chunk = (delivered, True)"
        "r \<in> set (rs_cache_references (rf_shared ?s (entry_shared e)))" for e delivered r
      using that produce(4) s fl by (auto intro!: flight_verdict_good [OF produce(3)] simp: flight_ok_def)
  qed (use sound produce s in auto)
  then show ?thesis using produce(1) by simp
next
  case (late before key flight_id after chunk canonical s'')
  then have "s'' = s" using complete_late [OF late(3)] by simp
  then show ?thesis using assms(2) late(1) by simp
next
  case (claims key flight b admission)
  have ok: "flights_ok s" using assms(2) by (simp add: raw_inv_def)
  have "returned_cac admission = returned_cac (rs_admission (rf_shared s (entry_shared flight)))"
    using claims(3) by (auto simp: try_claim_physical_attempt_def admission_close_def Let_def split: option.splits if_splits)
  then have "flights_ok s'"
    using claims(1) by (intro flights_ok_mono [OF ok]) (auto simp: flight_ok_def)
  then show ?thesis using assms(2) claims(1) by (simp add: raw_inv_def)
next
  case (lookup reference include_raw out c)
  then show ?thesis
    using assms(2) cc_get_decoded_sound(1) by (fastforce simp: raw_inv_def flights_ok_def)
next
  case (remember_raw reference raw)
  then show ?thesis
    using assms(2) by (auto simp: raw_inv_def flights_ok_def intro: cc_insert_raw_sound)
next
  case (remember_decoded reference raw d)
  then show ?thesis
    using assms(2) by (auto simp: raw_inv_def flights_ok_def intro: cc_insert_decoded_sound)
qed

lemma raw_inv_reachable:
  assumes "(raw_step keccak replies verify limit chans)\<^sup>*\<^sup>* raw_initial s"
  shows "raw_inv keccak verify s"
  using assms
proof induction
  case base
  show ?case
    by (simp add: raw_inv_def flights_ok_def raw_initial_def cache_default_sound registry_default_def)
next
  case (step s s')
  then show ?case using raw_inv_step by blast
qed

end

section \<open>Properties\<close>


definition example_queue :: RawFetchQueue where
  "example_queue = \<lparr>rfq_scope = 0, rfq_cancel = None, rfq_chan = 0, rfq_waiters = []\<rparr>"

definition example_key :: RawFetchKey where
  "example_key = raw_fetch_key 0 example_address example_address None"

definition example_flight :: "(RawFetchWaiter, nat) SingleflightEntry" where
  "example_flight = \<lparr>entry_flight_id = 1, entry_shared = 0,
     entry_waiters = [(1, \<lparr>rw_index = 5, rw_result_chan = 0\<rparr>)]\<rparr>"

definition example_queued :: RawFetches where
  "example_queued = snd (queue_data_shard example_keccak True 1 True 5 example_address Ordinary example_queue raw_initial)"

lemma example_queued_flight:
  "flights (rf_flights example_queued) example_key = Some example_flight"
  "rf_producers example_queued = [(example_key, 1)]" "rf_cache example_queued = cache_default\<lparr>cc_generation := 1, cc_misses := 1\<rparr>"
  "rs_cache_references (rf_shared example_queued 0) = [example_address]"
  using example_address_length
  by (simp_all add: example_queued_def queue_data_shard_def queue_drained_raw_chunk_def raw_initial_def example_queue_def
      example_key_def example_flight_def cc_get_raw_def cache_default_def register_def registry_default_def
      next_nonzero_generation_def noted_def remember_cache_reference_def raw_fetch_shared_def sizes Let_def)

lemma example_landed:
  assumes "complete_raw_fetch example_keccak True 1 example_key 1 example_chunk
    (mark_returned example_key True example_queued) = (canonical, s')"
  shows "\<exists>e. map_of (cc_chunks (rf_cache s')) example_address = Some e \<and> cached_raw e = Some example_chunk"
proof -
  have "usable example_chunk" by (simp add: usable_def example_chunk_def CHUNK_WITH_SPAN_SIZE_def sizes)
  moreover have "rk_request_address example_key = example_address" "rk_expected_cac example_key = example_address"
    by (simp_all add: example_key_def raw_fetch_key_def)
  ultimately show ?thesis
    using assms example_chunk_valid
    by (auto simp: complete_raw_fetch_def flight_take_def mark_returned_def example_queued_flight example_flight_def
      flight_verdict_def close_shared_def cc_insert_raw_def cc_insert_def finish_touch_def compact_order_if_needed_def cache_default_def
      order_entry_live_def Let_def)
qed


text \<open>
  C27.  A flight that lands is gone and answers each of its waiters once, all with the same chunk
  and verdict; landing again changes nothing.
\<close>

theorem complete_raw_fetch_delivers:
  assumes "flights (rf_flights s) key = Some flight" "entry_flight_id flight = flight_id"
    "complete_raw_fetch keccak verify limit key flight_id chunk s = (canonical, s')"
  shows "\<exists>delivered.
    (\<forall>chan. rf_results s' chan = rf_results s chan @
       map (\<lambda>w. \<lparr>rr_index = rw_index w, rr_chunk = delivered, rr_canonical_cac = canonical\<rparr>)
         (filter (\<lambda>w. rw_result_chan w = chan) (map snd (entry_waiters flight)))) \<and>
    flights (rf_flights s') = (flights (rf_flights s))(key := None) \<and>
    complete_raw_fetch keccak verify limit key flight_id chunk' s' = (False, s')"
proof -
  obtain delivered where d: "\<And>chan. rf_results s' chan = rf_results s chan @
       map (\<lambda>w. \<lparr>rr_index = rw_index w, rr_chunk = delivered, rr_canonical_cac = canonical\<rparr>)
         (filter (\<lambda>w. rw_result_chan w = chan) (map snd (entry_waiters flight)))"
    "flights (rf_flights s') = (flights (rf_flights s))(key := None)"
    using complete_raw_fetch_effect [OF assms] by metis
  then have "complete_raw_fetch keccak verify limit key flight_id chunk' s' = (False, s')"
    by (intro complete_late) simp
  then show ?thesis using d by (intro exI [of _ delivered]) simp
qed

theorem complete_raw_fetch_delivers_witness:
  "\<exists>delivered canonical s'.
    complete_raw_fetch example_keccak True 1 example_key 1 [] example_queued = (canonical, s') \<and>
    rf_results s' 0 = rf_results example_queued 0 @
      [\<lparr>rr_index = 5, rr_chunk = delivered, rr_canonical_cac = canonical\<rparr>] \<and>
    complete_raw_fetch example_keccak True 1 example_key 1 example_chunk s' = (False, s')"
proof -
  obtain canonical s' where c: "complete_raw_fetch example_keccak True 1 example_key 1 [] example_queued = (canonical, s')"
    by fastforce
  show ?thesis
    using complete_raw_fetch_delivers [OF example_queued_flight(1) _ c, of example_chunk] c
    by (auto simp: example_flight_def)
qed

text \<open>
  C29.  A reply to the request for a dispersed replica is never the root chunk when verification is
  on: the request asks for a content chunk at the address of the replica, so a reply that passes
  has the replica's address as its content address and cannot have the root's as well.
\<close>

theorem replica_reply_never_canonical:
  assumes "chunk_replies keccak curve True replica chunk marked" "length replica = HASH_SIZE" "replica \<noteq> root_cac"
  shows "\<not> snd (flight_verdict keccak True replica root_cac marked chunk)"
proof -
  have "chunk = [] \<or> valid_cac keccak chunk replica"
    using chunk_replies_verified [OF assms(1,2)] by (auto simp: verify_chunk_with_def)
  then show ?thesis
    using assms(3) by (auto simp: flight_verdict_def usable_def valid_cac_def sizes split: option.splits)
qed

theorem replica_reply_never_canonical_witness:
  "\<not> snd (flight_verdict example_keccak True example_address (replicate 32 1) True example_chunk)"
proof -
  have "example_address \<noteq> replicate 32 1" by (simp add: example_address_def)
  then show ?thesis
    using replica_reply_never_canonical [OF example_reply [of example_curve]] example_address_length
    by (simp add: sizes)
qed

end
