(* ===== verification/Group.thy ===== *)
theory Group
  imports RawFetchSafety ReedSolomon Join
begin

text \<open>
  \<open>src/retrieval.rs\<close>, the fetch of a group of shards
  (\<open>fetch_data_group_indices_streaming\<close>): the requested children of one intermediate chunk
  are looked up in the cache or fetched, parity shards are asked for when results are late or bad,
  and what is still missing at the end is reconstructed.  The coordinator runs over the shared raw
  fetches; the code between two awaits is one step, and between steps the other users of the raw
  fetches act.  The clock is an argument of a step (the milliseconds since the fetch started, read
  twice in a turn), and so are the answers of the chunk service (\<open>replies\<close>).
\<close>

section \<open>Data\<close>

definition RETRIEVE_HEDGE_AFTER_MS :: u64 where "RETRIEVE_HEDGE_AFTER_MS = 1000"
definition RETRIEVE_RECOVERY_EXTRA_SHARDS :: usize where "RETRIEVE_RECOVERY_EXTRA_SHARDS = 2"
definition RETRIEVE_RECOVERY_PROGRESSIVE_BATCH :: usize where "RETRIEVE_RECOVERY_PROGRESSIVE_BATCH = 2"

datatype RequestedShardCache = DecodedAndRaw DecodedJoinChunk bytes | DecodedOnly DecodedJoinChunk | Miss

text \<open>What a group fetch runs with; the hash, the switch and the cache limit are the process's.\<close>

record GroupPlan =
  gp_keccak :: "bytes \<Rightarrow> bytes"
  gp_verify :: bool
  gp_limit :: usize
  gp_data :: "bytes list"
  gp_parity :: "bytes list"
  gp_requested :: "usize list"
  gp_rolling :: bool

datatype TimeoutAction = NextTurn | StartRecovery | MoreShards

datatype GroupPc = Loop | Await "TimeoutAction option" | Ended bool

record GroupState =
  gs_raw :: RawFetches
  gs_queue :: RawFetchQueue
  gs_dispatched_shards :: "bool list"
  gs_requested_ready :: "bool list"
  gs_received_shards :: "bytes option list"
  gs_authenticated_shards :: "bool list"
  gs_successes :: usize
  gs_dispatched :: usize
  gs_completed :: usize
  gs_recovery_dispatched :: bool
  gs_emitted :: "(usize \<times> DecodedJoinChunk) list"
  gs_pc :: GroupPc

definition data_count :: "GroupPlan \<Rightarrow> usize" where "data_count p = length (gp_data p)"
definition total_count :: "GroupPlan \<Rightarrow> usize" where "total_count p = length (gp_data p) + length (gp_parity p)"

definition group_end :: "bool \<Rightarrow> GroupState \<Rightarrow> GroupState" where
  "group_end success s = s\<lparr>gs_pc := Ended success\<rparr>"

definition emit_child :: "usize \<Rightarrow> DecodedJoinChunk \<Rightarrow> GroupState \<Rightarrow> GroupState" where
  "emit_child index chunk s = s\<lparr>gs_emitted := gs_emitted s @ [(index, chunk)]\<rparr>"

definition mark_ready :: "usize \<Rightarrow> GroupState \<Rightarrow> GroupState" where
  "mark_ready index s = s\<lparr>gs_requested_ready := (gs_requested_ready s)[index := True]\<rparr>"

text \<open>The results waiting on the channel of the group.\<close>

definition group_results :: "GroupState \<Rightarrow> RawFetchResult list" where
  "group_results s = rf_results (gs_raw s) (rfq_chan (gs_queue s))"

definition set_results :: "RawFetchResult list \<Rightarrow> GroupState \<Rightarrow> GroupState" where
  "set_results results s =
     s\<lparr>gs_raw := (gs_raw s)\<lparr>rf_results := (rf_results (gs_raw s))(rfq_chan (gs_queue s) := results)\<rparr>\<rparr>"

section \<open>Cache\<close>

definition get_cached :: "GroupPlan \<Rightarrow> bytes \<Rightarrow> bool \<Rightarrow> GroupState \<Rightarrow> (DecodedJoinChunk \<times> bytes option) option \<times> GroupState" where
  "get_cached p reference include_raw s =
     (let (out, c) = cc_get_decoded (gp_keccak p) (gp_limit p) reference include_raw (rf_cache (gs_raw s))
      in (out, s\<lparr>gs_raw := (gs_raw s)\<lparr>rf_cache := c\<rparr>\<rparr>))"

definition cached_decoded_chunk :: "GroupPlan \<Rightarrow> bytes \<Rightarrow> GroupState \<Rightarrow> DecodedJoinChunk option \<times> GroupState" where
  "cached_decoded_chunk p reference s = apfst (map_option fst) (get_cached p reference False s)"

definition remember_raw_chunk :: "GroupPlan \<Rightarrow> bytes \<Rightarrow> bytes \<Rightarrow> GroupState \<Rightarrow> GroupState" where
  "remember_raw_chunk p reference raw s =
     s\<lparr>gs_raw := (gs_raw s)\<lparr>rf_cache := cc_insert_raw (gp_limit p) reference raw (rf_cache (gs_raw s))\<rparr>\<rparr>"

definition requested_shard_cache :: "GroupPlan \<Rightarrow> bytes \<Rightarrow> GroupState \<Rightarrow> RequestedShardCache \<times> GroupState" where
  "requested_shard_cache p reference s =
     apfst (\<lambda>out. case out of
                None \<Rightarrow> Miss
              | Some (decoded, Some raw) \<Rightarrow> DecodedAndRaw decoded raw
              | Some (decoded, None) \<Rightarrow> DecodedOnly decoded)
       (get_cached p reference True s)"

section \<open>Dispatch\<close>

definition dispatch_shard :: "GroupPlan \<Rightarrow> bool \<Rightarrow> RetrieveHedgeDemand \<Rightarrow> usize \<Rightarrow> GroupState \<Rightarrow> GroupState" where
  "dispatch_shard p send_ok demand index s =
     (let (q, raw) =
        (if index < data_count p
         then queue_data_shard (gp_keccak p) (gp_verify p) (gp_limit p) send_ok index (gp_data p ! index) demand
                (gs_queue s) (gs_raw s)
         else queue_parity_shard (gp_keccak p) (gp_verify p) (gp_limit p) send_ok index
                (gp_parity p ! (index - data_count p)) demand (gs_queue s) (gs_raw s))
      in s\<lparr>gs_queue := q, gs_raw := raw, gs_dispatched_shards := (gs_dispatched_shards s)[index := True]\<rparr>)"

fun dispatch_shards :: "GroupPlan \<Rightarrow> bool \<Rightarrow> usize list \<Rightarrow> usize \<Rightarrow> GroupState \<Rightarrow> usize \<times> GroupState" where
  "dispatch_shards p send_ok [] limit s = (0, s)"
| "dispatch_shards p send_ok (index # rest) limit s =
     (if limit = 0 then (0, s)
      else if gs_dispatched_shards s ! index then dispatch_shards p send_ok rest limit s
      else apfst Suc (dispatch_shards p send_ok rest (limit - 1) (dispatch_shard p send_ok Ordinary index s)))"

definition dispatch_group_parity :: "GroupPlan \<Rightarrow> bool \<Rightarrow> usize \<Rightarrow> GroupState \<Rightarrow> usize \<times> GroupState" where
  "dispatch_group_parity p send_ok limit s = dispatch_shards p send_ok [data_count p..<total_count p] limit s"

definition dispatch_group_recovery :: "GroupPlan \<Rightarrow> bool \<Rightarrow> usize \<Rightarrow> GroupState \<Rightarrow> usize \<times> GroupState" where
  "dispatch_group_recovery p send_ok limit s =
     (let (count, s1) = dispatch_shards p send_ok [0..<data_count p] limit s;
          (more, s2) = dispatch_group_parity p send_ok (limit - count) s1
      in (count + more, s2))"

definition dispatch_one_rolling_group_parity :: "GroupPlan \<Rightarrow> bool \<Rightarrow> GroupState \<Rightarrow> GroupState option" where
  "dispatch_one_rolling_group_parity p send_ok s =
     map_option (\<lambda>index. dispatch_shard p send_ok DistinctShardManaged index s)
       (rolling_next_parity_index (data_count p) (gs_dispatched_shards s))"

definition recovery_top_up_count :: "usize \<Rightarrow> usize \<Rightarrow> usize \<Rightarrow> usize \<Rightarrow> usize" where
  "recovery_top_up_count width successes dispatched completed =
     (let active = dispatched - completed in
      min (width + RETRIEVE_RECOVERY_EXTRA_SHARDS) (usize_bound - 1) -
      min (successes + active) (usize_bound - 1))"

definition add_dispatched :: "usize \<times> GroupState \<Rightarrow> GroupState" where
  "add_dispatched x = (snd x)\<lparr>gs_dispatched := gs_dispatched (snd x) + fst x\<rparr>"

section \<open>Settling a result\<close>

definition decode_settled :: "GroupPlan \<Rightarrow> RawFetchResult \<Rightarrow> bytes \<Rightarrow> GroupState \<Rightarrow> (DecodedJoinChunk \<times> GroupState) option" where
  "decode_settled p result reference s =
     (if rr_canonical_cac result
      then (case cached_decoded_chunk p reference s of
              (Some chunk, s1) \<Rightarrow> Some (chunk, s1)
            | (None, s1) \<Rightarrow>
                (case cached_decoded_chunk p reference (remember_raw_chunk p reference (rr_chunk result) s1) of
                   (Some chunk, s2) \<Rightarrow> Some (chunk, s2)
                 | (None, s2) \<Rightarrow> None))
      else map_option (\<lambda>chunk. (chunk, s)) (decode_shared_raw_join_chunk (gp_keccak p) (rr_chunk result) reference))"

definition settle_data_group_result :: "GroupPlan \<Rightarrow> RawFetchResult \<Rightarrow> GroupState \<Rightarrow> (bool \<times> GroupState) option" where
  "settle_data_group_result p result s =
     (let index = rr_index result in
      if gp_rolling p \<and> \<not> index < total_count p then None
      else if rr_chunk result = [] \<or> \<not> (rr_canonical_cac result \<or> gp_parity p = []) then Some (False, s)
      else if \<not> index < total_count p then None
      else do {
        successes \<leftarrow> usize_checked_add (gs_successes s) 1;
        let s1 = s\<lparr>gs_received_shards := (gs_received_shards s)[index := Some (rr_chunk result)],
                   gs_authenticated_shards := (gs_authenticated_shards s)[index := rr_canonical_cac result],
                   gs_successes := successes\<rparr>;
        if index < data_count p \<and> index \<in> set (gp_requested p) \<and> \<not> gs_requested_ready s1 ! index
        then do {
          (chunk, s2) \<leftarrow> decode_settled p result (gp_data p ! index) s1;
          Some (True, mark_ready index (emit_child index chunk s2)) }
        else Some (True, s1) })"

definition complete_one :: "GroupState \<Rightarrow> GroupState option" where
  "complete_one s = map_option (\<lambda>n. s\<lparr>gs_completed := n\<rparr>) (usize_checked_add (gs_completed s) 1)"

definition settle_next :: "GroupPlan \<Rightarrow> RawFetchResult \<Rightarrow> GroupState \<Rightarrow> (bool \<times> GroupState) option" where
  "settle_next p result s = Option.bind (complete_one s) (settle_data_group_result p result)"

fun settle_all :: "GroupPlan \<Rightarrow> RawFetchResult list \<Rightarrow> GroupState \<Rightarrow> GroupState" where
  "settle_all p [] s = s"
| "settle_all p (result # rest) s =
     (case settle_next p result s of
        None \<Rightarrow> group_end False s
      | Some (_, s') \<Rightarrow> settle_all p rest s')"

section \<open>The end\<close>

fun remember_authenticated :: "GroupPlan \<Rightarrow> usize list \<Rightarrow> GroupState \<Rightarrow> GroupState" where
  "remember_authenticated p [] s = s"
| "remember_authenticated p (index # rest) s =
     remember_authenticated p rest
       (case gs_received_shards s ! index of
          Some raw \<Rightarrow> if gs_authenticated_shards s ! index then remember_raw_chunk p (gp_data p ! index) raw s else s
        | None \<Rightarrow> s)"

fun emit_reconstructed :: "GroupPlan \<Rightarrow> bytes option list \<Rightarrow> usize list \<Rightarrow> GroupState \<Rightarrow> GroupState" where
  "emit_reconstructed p shards [] s = group_end True s"
| "emit_reconstructed p shards (index # rest) s =
     (let reference = gp_data p ! index in
      case shards ! index of
        None \<Rightarrow> group_end False s
      | Some raw \<Rightarrow>
          if gp_verify p \<and> \<not> valid_cac (gp_keccak p) raw (take HASH_SIZE reference) then group_end False s
          else (case cached_decoded_chunk p reference (remember_raw_chunk p reference raw s) of
                  (None, s1) \<Rightarrow> group_end False s1
                | (Some chunk, s1) \<Rightarrow>
                    emit_reconstructed p (shards[index := None]) rest (emit_child index chunk s1)))"

definition missing_indices :: "GroupPlan \<Rightarrow> GroupState \<Rightarrow> usize list" where
  "missing_indices p s = filter (\<lambda>index. \<not> gs_requested_ready s ! index) (gp_requested p)"

definition close_group :: "GroupState \<Rightarrow> GroupState" where
  "close_group s = (let (q, raw) = raw_fetch_close (gs_queue s) (gs_raw s) in s\<lparr>gs_queue := q, gs_raw := raw\<rparr>)"

definition group_finish :: "GroupPlan \<Rightarrow> CodingMatrixCache \<Rightarrow> GroupState \<Rightarrow> GroupState" where
  "group_finish p matrices s0 =
     (let s = remember_authenticated p [0..<data_count p] s0; missing = missing_indices p s in
      if missing = [] then group_end True s
      else (case fst (reconstruct_data_indices
                   (map (\<lambda>chunk. Option.bind chunk padded_rs_shard) (gs_received_shards s)) (data_count p) missing matrices) of
              Ok shards \<Rightarrow> emit_reconstructed p shards missing s
            | _ \<Rightarrow> group_end False s))"

section \<open>The coordinator\<close>

definition all_requested_ready :: "GroupPlan \<Rightarrow> GroupState \<Rightarrow> bool" where
  "all_requested_ready p s \<longleftrightarrow> (\<forall>index \<in> set (gp_requested p). gs_requested_ready s ! index)"

definition group_terminal :: "GroupPlan \<Rightarrow> GroupState \<Rightarrow> bool" where
  "group_terminal p s \<longleftrightarrow> all_requested_ready p s \<or> gs_recovery_dispatched s \<and> data_count p \<le> gs_successes s"

definition parity_left :: "GroupPlan \<Rightarrow> GroupState \<Rightarrow> usize list" where
  "parity_left p s = filter (\<lambda>index. \<not> gs_dispatched_shards s ! index) [data_count p..<total_count p]"

definition rolling_turn :: "GroupPlan \<Rightarrow> bool \<Rightarrow> u64 \<Rightarrow> u64 \<Rightarrow> GroupState \<Rightarrow> GroupState" where
  "rolling_turn p send_ok elapsed1 elapsed2 s =
     (case usize_checked_sub (gs_dispatched s) (gs_completed s) of
        None \<Rightarrow> group_end False s
      | Some active \<Rightarrow>
          if rolling_parity_admission_count elapsed1 RETRIEVE_HEDGE_AFTER_MS False (data_count p) active
               (length (parity_left p s)) \<noteq> 0
          then (case dispatch_one_rolling_group_parity p send_ok s of
                  None \<Rightarrow> group_end False s
                | Some s' \<Rightarrow> (add_dispatched (1, s'))\<lparr>gs_recovery_dispatched := True\<rparr>)
          else if gs_completed s = gs_dispatched s \<and> RETRIEVE_HEDGE_AFTER_MS \<le> elapsed2 \<and> parity_left p s = []
          then group_end False s
          else s\<lparr>gs_pc := Await (if elapsed2 < RETRIEVE_HEDGE_AFTER_MS then Some NextTurn else None)\<rparr>)"

definition top_up :: "GroupPlan \<Rightarrow> bool \<Rightarrow> GroupState \<Rightarrow> GroupState" where
  "top_up p send_ok s =
     (let n = recovery_top_up_count (data_count p) (gs_successes s) (gs_dispatched s) (gs_completed s) in
      if gs_recovery_dispatched s \<and> 0 < n then add_dispatched (dispatch_group_recovery p send_ok n s) else s)"

definition plain_turn :: "GroupPlan \<Rightarrow> bool \<Rightarrow> GroupState \<Rightarrow> GroupState" where
  "plain_turn p send_ok s0 =
     (let s = top_up p send_ok s0 in
      if gs_completed s = gs_dispatched s
      then (if gs_recovery_dispatched s \<or> gp_parity p = [] then group_end False s
            else s\<lparr>gs_recovery_dispatched := True\<rparr>)
      else s\<lparr>gs_pc := Await
         (if \<not> gs_recovery_dispatched s then (if gp_parity p = [] then None else Some StartRecovery)
          else if False \<in> set (gs_dispatched_shards s) then Some MoreShards else None)\<rparr>)"

definition group_turn :: "GroupPlan \<Rightarrow> CodingMatrixCache \<Rightarrow> bool \<Rightarrow> u64 \<Rightarrow> u64 \<Rightarrow> GroupState \<Rightarrow> GroupState" where
  "group_turn p matrices send_ok elapsed1 elapsed2 s =
     (if gp_rolling p \<and> group_results s \<noteq> [] then settle_all p (group_results s) (set_results [] s)
      else if group_terminal p s then group_finish p matrices (close_group s)
      else if gp_rolling p then rolling_turn p send_ok elapsed1 elapsed2 s
      else plain_turn p send_ok s)"

definition group_timeout :: "GroupPlan \<Rightarrow> bool \<Rightarrow> TimeoutAction \<Rightarrow> GroupState \<Rightarrow> GroupState" where
  "group_timeout p send_ok action s0 =
     (let s = s0\<lparr>gs_pc := Loop\<rparr> in
      case action of
        NextTurn \<Rightarrow> s
      | StartRecovery \<Rightarrow>
          (if length (gp_requested p) = data_count p
           then add_dispatched (dispatch_group_parity p send_ok (usize_bound - 1) s) else s)
          \<lparr>gs_recovery_dispatched := True\<rparr>
      | MoreShards \<Rightarrow> add_dispatched (dispatch_group_recovery p send_ok RETRIEVE_RECOVERY_PROGRESSIVE_BATCH s))"

definition group_receive :: "GroupPlan \<Rightarrow> RawFetchResult \<Rightarrow> GroupState \<Rightarrow> GroupState" where
  "group_receive p result s0 =
     (let s = s0\<lparr>gs_pc := Loop\<rparr> in
      case settle_next p result s of
        None \<Rightarrow> group_end False s
      | Some (good, s') \<Rightarrow>
          if \<not> good \<and> \<not> gp_rolling p \<and> \<not> gs_recovery_dispatched s'
          then (if gp_parity p = [] then group_end False s' else s'\<lparr>gs_recovery_dispatched := True\<rparr>)
          else s')"

section \<open>The beginning\<close>

fun inspect_cache :: "GroupPlan \<Rightarrow> usize list \<Rightarrow> GroupState \<Rightarrow> (usize \<times> RequestedShardCache) list \<times> GroupState" where
  "inspect_cache p [] s = ([], s)"
| "inspect_cache p (index # rest) s =
     (let (cached, s1) = requested_shard_cache p (gp_data p ! index) s;
          (more, s2) = inspect_cache p rest s1
      in ((index, cached) # more, s2))"

definition count_cached :: "(RequestedShardCache \<Rightarrow> bool) \<Rightarrow> (usize \<times> RequestedShardCache) list \<Rightarrow> usize" where
  "count_cached f cached = length (filter (\<lambda>x. f (snd x)) cached)"

definition is_decoded_only :: "RequestedShardCache \<Rightarrow> bool" where
  "is_decoded_only c = (case c of DecodedOnly _ \<Rightarrow> True | _ \<Rightarrow> False)"

definition dispatch_initial :: "GroupPlan \<Rightarrow> bool \<Rightarrow> RetrieveHedgeDemand \<Rightarrow> usize \<Rightarrow> GroupState \<Rightarrow> GroupState" where
  "dispatch_initial p send_ok demand index s = add_dispatched (1, dispatch_shard p send_ok demand index s)"

fun start_inspected ::
  "GroupPlan \<Rightarrow> bool \<Rightarrow> (usize \<times> RequestedShardCache) list \<Rightarrow> GroupState \<Rightarrow> GroupState" where
  "start_inspected p send_ok [] s = s"
| "start_inspected p send_ok ((index, cached) # rest) s =
     start_inspected p send_ok rest
       (case cached of
          DecodedAndRaw decoded raw \<Rightarrow>
            (let s1 = mark_ready index (emit_child index decoded s) in
             if gp_rolling p
             then s1\<lparr>gs_received_shards := (gs_received_shards s1)[index := Some raw],
                     gs_authenticated_shards := (gs_authenticated_shards s1)[index := True],
                     gs_dispatched_shards := (gs_dispatched_shards s1)[index := True],
                     gs_successes := gs_successes s1 + 1\<rparr>
             else s1)
        | DecodedOnly decoded \<Rightarrow> mark_ready index (emit_child index decoded s)
        | Miss \<Rightarrow> dispatch_initial p send_ok (if gp_rolling p then DistinctShardManaged else Ordinary) index s)"

fun start_partial :: "GroupPlan \<Rightarrow> bool \<Rightarrow> usize list \<Rightarrow> GroupState \<Rightarrow> GroupState" where
  "start_partial p send_ok [] s = s"
| "start_partial p send_ok (index # rest) s =
     start_partial p send_ok rest
       (case cached_decoded_chunk p (gp_data p ! index) s of
          (Some chunk, s1) \<Rightarrow> mark_ready index (emit_child index chunk s1)
        | (None, s1) \<Rightarrow> dispatch_initial p send_ok Ordinary index s1)"

definition group_request_ok :: "group_request \<Rightarrow> bool" where
  "group_request_ok request = (case request of (ds, ps, encrypted, requested) \<Rightarrow>
     ds \<noteq> [] \<and> length ds + length ps \<le> 256 \<and>
     (\<forall>r \<in> set ds. length r = (if encrypted then ENCRYPTED_REFERENCE_SIZE else HASH_SIZE)) \<and>
     (\<forall>r \<in> set ps. length r = HASH_SIZE))"

definition group_state :: "RawFetches \<Rightarrow> RawFetchQueue \<Rightarrow> usize \<Rightarrow> usize \<Rightarrow> GroupState" where
  "group_state raw q width shards =
     \<lparr>gs_raw = raw, gs_queue = q, gs_dispatched_shards = replicate shards False,
      gs_requested_ready = replicate width False, gs_received_shards = replicate shards None,
      gs_authenticated_shards = replicate shards False, gs_successes = 0, gs_dispatched = 0, gs_completed = 0,
      gs_recovery_dispatched = False, gs_emitted = [], gs_pc = Loop\<rparr>"

text \<open>
  The start of the fetch: the plan it settles on and the state with which it enters its loop.  A
  requested index outside the data references would be a panic, \<open>None\<close>.
\<close>

definition group_start ::
  "(bytes \<Rightarrow> bytes) \<Rightarrow> bool \<Rightarrow> usize \<Rightarrow> bool \<Rightarrow> RawFetchQueue \<Rightarrow> RawFetches \<Rightarrow> group_request \<Rightarrow>
   (GroupPlan \<times> GroupState) option" where
  "group_start keccak verify limit send_ok q raw request = (case request of (ds, ps, encrypted, requested) \<Rightarrow>
     (let p = \<lparr>gp_keccak = keccak, gp_verify = verify, gp_limit = limit, gp_data = ds, gp_parity = ps,
               gp_requested = requested, gp_rolling = False\<rparr>;
          s = group_state raw q (data_count p) (total_count p)
      in if \<not> group_request_ok request then Some (p, group_end False s)
         else if \<exists>index \<in> set requested. \<not> index < length ds then None
         else if rolling_full_group_static_candidate (length requested) (length ds) (length ps)
         then (let (cached, s1) = inspect_cache p requested s;
                   p' = p\<lparr>gp_rolling := rolling_full_group_eligible (length requested) (length ds) (length ps)
                            (count_cached is_decoded_only cached) (count_cached (\<lambda>c. c = Miss) cached)\<rparr>
               in Some (p', start_inspected p' send_ok cached s1))
         else Some (p, start_partial p send_ok requested s)))"

section \<open>Runs\<close>

text \<open>
  The other users of the raw fetches have channels of their own.  With \<open>cancellable\<close> the
  token of the fetch may be withdrawn at any time.
\<close>

inductive group_step ::
  "(bytes \<Rightarrow> bytes \<Rightarrow> bool \<Rightarrow> bool) \<Rightarrow> bool \<Rightarrow> GroupPlan \<Rightarrow> GroupState \<Rightarrow> GroupState \<Rightarrow> bool"
  for replies cancellable p where
  turn: "gs_pc s = Loop \<Longrightarrow> cache_wf matrices \<Longrightarrow>
    group_step replies cancellable p s (group_turn p matrices send_ok elapsed1 elapsed2 s)"
| receive: "gs_pc s = Await action \<Longrightarrow> group_results s = result # rest \<Longrightarrow>
    group_step replies cancellable p s (group_receive p result (set_results rest s))"
| timeout: "gs_pc s = Await (Some action) \<Longrightarrow> group_results s = [] \<Longrightarrow>
    group_step replies cancellable p s (group_timeout p send_ok action s)"
| others: "(\<And>b. gs_pc s \<noteq> Ended b) \<Longrightarrow>
    raw_step (gp_keccak p) replies (gp_verify p) (gp_limit p) (\<lambda>chan. chan \<noteq> rfq_chan (gs_queue s)) (gs_raw s) raw \<Longrightarrow>
    group_step replies cancellable p s (s\<lparr>gs_raw := raw\<rparr>)"
| cancelled: "cancellable \<Longrightarrow> (\<And>b. gs_pc s \<noteq> Ended b) \<Longrightarrow>
    group_step replies cancellable p s (group_end False s)"

definition fresh_channel :: "nat \<Rightarrow> RawFetches \<Rightarrow> bool" where
  "fresh_channel chan raw \<longleftrightarrow> rf_results raw chan = [] \<and>
     (\<forall>key flight. flights (rf_flights raw) key = Some flight \<longrightarrow>
        (\<forall>(wid, w) \<in> set (entry_waiters flight). rw_result_chan w \<noteq> chan))"

text \<open>A group fetch over raw fetches in any state the node can have brought them to.\<close>

inductive fetch_data_group_indices_streaming ::
  "(bytes \<Rightarrow> bytes) \<Rightarrow> (bytes \<Rightarrow> bytes \<Rightarrow> bool \<Rightarrow> bool) \<Rightarrow> bool \<Rightarrow> usize \<Rightarrow> bool \<Rightarrow> group_request \<Rightarrow> group_trace \<Rightarrow> bool"
  for keccak replies verify limit cancellable where
  "(raw_step keccak replies verify limit (\<lambda>chan. True))\<^sup>*\<^sup>* raw_initial raw \<Longrightarrow>
   rfq_waiters q = [] \<Longrightarrow> fresh_channel (rfq_chan q) raw \<Longrightarrow>
   group_start keccak verify limit send_ok q raw request = Some (p, s0) \<Longrightarrow>
   (group_step replies cancellable p)\<^sup>*\<^sup>* s0 s \<Longrightarrow> gs_pc s = Ended success \<Longrightarrow>
   fetch_data_group_indices_streaming keccak replies verify limit cancellable request (gs_emitted s, success)"

end
