(* ===== verification/Channels.thy ===== *)
theory Channels
  imports RawFetchSafety
begin

text \<open>
  What a user of the raw fetches sees on its channel: for each fetch that it queued at most one
  result, which is the verdict of a flight on that fetch or a chunk from the cache.  \<open>keyof\<close>
  gives the key of the fetch with an index, \<open>pend\<close> the fetches still unanswered.
\<close>

section \<open>The invariant of a channel\<close>

definition result_ok :: "(bytes \<Rightarrow> bytes) \<Rightarrow> bool \<Rightarrow> RawFetchKey \<Rightarrow> RawFetchResult \<Rightarrow> bool" where
  "result_ok keccak verify key r \<longleftrightarrow>
     (rr_canonical_cac r \<longrightarrow> verify \<longrightarrow> valid_cac keccak (rr_chunk r) (rk_expected_cac key)) \<and>
     (rk_request_address key = rk_expected_cac key \<longrightarrow> length (rk_request_address key) = HASH_SIZE \<longrightarrow>
        rr_chunk r \<noteq> [] \<longrightarrow> rr_canonical_cac r)"

definition chan_waiters :: "nat \<Rightarrow> (u64 \<times> RawFetchWaiter) list \<Rightarrow> usize list" where
  "chan_waiters chan ws = map rw_index (filter (\<lambda>w. rw_result_chan w = chan) (map snd ws))"

definition chan_inv ::
  "(bytes \<Rightarrow> bytes) \<Rightarrow> bool \<Rightarrow> (nat \<Rightarrow> RawFetchKey) \<Rightarrow> nat set \<Rightarrow> nat \<Rightarrow> RawFetches \<Rightarrow> bool" where
  "chan_inv keccak verify keyof pend chan s \<longleftrightarrow>
     (\<forall>key flight. flights (rf_flights s) key = Some flight \<longrightarrow>
        distinct (chan_waiters chan (entry_waiters flight)) \<and>
        (\<forall>i \<in> set (chan_waiters chan (entry_waiters flight)).
           i \<in> pend \<and> key = keyof i \<and> i \<notin> rr_index ` set (rf_results s chan))) \<and>
     (\<forall>r \<in> set (rf_results s chan). rr_index r \<in> pend \<and> result_ok keccak verify (keyof (rr_index r)) r) \<and>
     distinct (map rr_index (rf_results s chan))"

lemma chan_inv_shrink:
  assumes "chan_inv keccak verify keyof pend chan s" "rf_results s' chan = rf_results s chan"
    "\<And>key flight. flights (rf_flights s') key = Some flight \<Longrightarrow> \<exists>flight0. flights (rf_flights s) key = Some flight0 \<and>
       mset (chan_waiters chan (entry_waiters flight)) \<subseteq># mset (chan_waiters chan (entry_waiters flight0))"
  shows "chan_inv keccak verify keyof pend chan s'"
proof -
  have d: "distinct ys \<and> set ys \<subseteq> set xs" if "distinct xs" "mset ys \<subseteq># mset xs" for xs ys :: "nat list"
  proof -
    have "count (mset ys) a \<le> 1" for a
      using that mset_subset_eq_count [of "mset ys" "mset xs" a] distinct_count_atmost_1 [of xs]
      by (metis (no_types, lifting) One_nat_def count_greater_zero_iff le_trans less_one linorder_not_le nat_le_linear order_refl zero_le)
    then show ?thesis
      using that set_mset_mono [OF that(2)] by (simp add: distinct_count_atmost_1 le_antisym le_Suc_eq flip: count_eq_zero_iff) 
  qed
  show ?thesis
    unfolding chan_inv_def
  proof (intro conjI allI impI ballI, goal_cases)
    case (1 key flight)
    then show ?case using assms(1) assms(3) [OF 1] d unfolding chan_inv_def by blast
  next
    case (2 key flight i)
    then show ?case using assms(1,2) assms(3) [OF 2(1)] d unfolding chan_inv_def by blast
  next
    case (3 key flight i)
    then show ?case using assms(1,2) assms(3) [OF 3(1)] d unfolding chan_inv_def by blast
  next
    case (4 key flight i)
    then show ?case using assms(1,2) assms(3) [OF 4(1)] d unfolding chan_inv_def by (metis subsetD)
  qed (use assms(1,2) in \<open>auto simp: chan_inv_def\<close>)
qed

lemma chan_inv_same:
  "chan_inv keccak verify keyof pend chan s \<Longrightarrow> rf_flights s' = rf_flights s \<Longrightarrow> rf_results s' = rf_results s \<Longrightarrow>
     chan_inv keccak verify keyof pend chan s'"
  by (simp add: chan_inv_def)

lemma chan_inv_pend: "chan_inv keccak verify keyof pend chan s \<Longrightarrow> pend \<subseteq> pend' \<Longrightarrow> chan_inv keccak verify keyof pend' chan s"
  unfolding chan_inv_def by blast

text \<open>A result that was read is no longer pending.\<close>

lemma chan_inv_take:
  assumes "chan_inv keccak verify keyof pend chan s" "rf_results s chan = taken @ rest"
    "rf_flights s' = rf_flights s" "rf_results s' chan = rest"
  shows "chan_inv keccak verify keyof (pend - rr_index ` set taken) chan s'"
  unfolding chan_inv_def assms(3,4)
proof (intro conjI allI impI ballI, goal_cases)
  case (1 key flight)
  then show ?case using assms(1) by (simp add: chan_inv_def)
next
  case (2 key flight i)
  then have "i \<in> pend" "i \<notin> rr_index ` set (taken @ rest)" using assms(1,2) by (auto simp: chan_inv_def)
  then show ?case by auto
next
  case (3 key flight i)
  then show ?case using assms(1) by (simp add: chan_inv_def)
next
  case (4 key flight i)
  then have "i \<notin> rr_index ` set (taken @ rest)" using assms(1,2) by (auto simp: chan_inv_def)
  then show ?case by auto
next
  case (5 r)
  have "distinct (map rr_index (taken @ rest))" using assms(1,2) by (simp add: chan_inv_def)
  then have "rr_index r \<notin> rr_index ` set taken" using 5 by auto
  moreover have "rr_index r \<in> pend" using 5 assms(1,2) by (simp add: chan_inv_def)
  ultimately show ?case by blast
next
  case (6 r)
  then show ?case using assms(1,2) by (simp add: chan_inv_def)
next
  case 7
  then show ?case using assms(1,2) by (simp add: chan_inv_def)
qed

section \<open>Closing\<close>

lemma mset_chan_waiters_swap_remove:
  "i < length ws \<Longrightarrow> mset (chan_waiters chan (swap_remove i ws)) \<subseteq># mset (chan_waiters chan ws)"
  unfolding chan_waiters_def
  by (simp add: mset_swap_remove image_mset_subseteq_mono multiset_filter_mono)

lemma remove_waiter_chan:
  assumes "remove_waiter key flight_id waiter_id reg = (shared, reg')" "flights reg' k = Some f"
  shows "\<exists>f0. flights reg k = Some f0 \<and> mset (chan_waiters chan (entry_waiters f)) \<subseteq># mset (chan_waiters chan (entry_waiters f0))"
proof (cases "k = key \<and> f \<noteq> the (flights reg key)")
  case False
  then show ?thesis
    using assms by (auto simp: remove_waiter_def Let_def split: option.splits if_splits)
next
  case True
  then obtain f0 pos where "flights reg key = Some f0" "f = f0\<lparr>entry_waiters := swap_remove pos (entry_waiters f0)\<rparr>"
    "pos < length (entry_waiters f0)"
    using assms by (auto simp: remove_waiter_def Let_def position_Some split: option.splits if_splits) metis
  then show ?thesis using True mset_chan_waiters_swap_remove by auto
qed

lemma remove_raw_fetch_waiter_results [simp]:
  "rf_results (remove_raw_fetch_waiter key flight_id waiter_id s) = rf_results s"
  by (auto simp: remove_raw_fetch_waiter_def Let_def split: prod.splits option.splits)

lemma remove_raw_fetch_waiter_chan:
  assumes "chan_inv keccak verify keyof pend chan s"
  shows "chan_inv keccak verify keyof pend chan (remove_raw_fetch_waiter key flight_id waiter_id s)"
proof (rule chan_inv_shrink [OF assms])
  fix k f assume f: "flights (rf_flights (remove_raw_fetch_waiter key flight_id waiter_id s)) k = Some f"
  obtain shared reg where r: "remove_waiter key flight_id waiter_id (rf_flights s) = (shared, reg)"
    by (cases "remove_waiter key flight_id waiter_id (rf_flights s)")
  have "flights reg k = Some f"
    using r f flight_take_flights [of key flight_id reg]
    by (cases "flight_take key flight_id reg")
       (auto simp: remove_raw_fetch_waiter_def Let_def split: option.splits if_splits)
  from remove_waiter_chan [OF r this]
  show "\<exists>f0. flights (rf_flights s) k = Some f0 \<and>
    mset (chan_waiters chan (entry_waiters f)) \<subseteq># mset (chan_waiters chan (entry_waiters f0))" .
qed simp

lemma close_waiters_chan:
  "chan_inv keccak verify keyof pend chan s \<Longrightarrow> chan_inv keccak verify keyof pend chan (close_waiters ws s)"
  by (induction ws s rule: close_waiters.induct) (simp_all add: remove_raw_fetch_waiter_chan)

section \<open>Landing\<close>

lemma complete_raw_fetch_chan:
  assumes inv: "chan_inv keccak verify keyof pend chan s"
    and fl: "flights (rf_flights s) key = Some flight" "entry_flight_id flight = flight_id"
    and run: "complete_raw_fetch keccak verify limit key flight_id chunk s = (canonical, s')"
    and ok: "\<And>delivered i. flight_verdict keccak verify (rk_request_address key) (rk_expected_cac key)
       (returned_cac (rs_admission (rf_shared s (entry_shared flight)))) chunk = (delivered, canonical) \<Longrightarrow>
       result_ok keccak verify key \<lparr>rr_index = i, rr_chunk = delivered, rr_canonical_cac = canonical\<rparr>"
  shows "chan_inv keccak verify keyof pend chan s'"
proof -
  obtain delivered where v: "flight_verdict keccak verify (rk_request_address key) (rk_expected_cac key)
       (returned_cac (rs_admission (rf_shared s (entry_shared flight)))) chunk = (delivered, canonical)"
    and res: "\<And>chan. rf_results s' chan = rf_results s chan @
       map (\<lambda>w. \<lparr>rr_index = rw_index w, rr_chunk = delivered, rr_canonical_cac = canonical\<rparr>)
         (filter (\<lambda>w. rw_result_chan w = chan) (map snd (entry_waiters flight)))"
    and fs: "flights (rf_flights s') = (flights (rf_flights s))(key := None)"
    using complete_raw_fetch_effect [OF fl run] by metis
  have new: "rf_results s' chan = rf_results s chan @
      map (\<lambda>i. \<lparr>rr_index = i, rr_chunk = delivered, rr_canonical_cac = canonical\<rparr>) (chan_waiters chan (entry_waiters flight))"
    by (simp add: res chan_waiters_def)
  have own: "distinct (chan_waiters chan (entry_waiters flight))"
    "\<And>i. i \<in> set (chan_waiters chan (entry_waiters flight)) \<Longrightarrow> i \<in> pend \<and> key = keyof i \<and> i \<notin> rr_index ` set (rf_results s chan)"
    using inv fl(1) by (auto simp: chan_inv_def)
  have "distinct (map rr_index (rf_results s' chan))"
    using inv own by (auto simp: new chan_inv_def comp_def)
  moreover have "rr_index r \<in> pend \<and> result_ok keccak verify (keyof (rr_index r)) r" if "r \<in> set (rf_results s' chan)" for r
    using that inv own ok [OF v] by (auto simp: new chan_inv_def)
  moreover have "distinct (chan_waiters chan (entry_waiters f)) \<and> (\<forall>i \<in> set (chan_waiters chan (entry_waiters f)).
      i \<in> pend \<and> k = keyof i \<and> i \<notin> rr_index ` set (rf_results s' chan))" if "flights (rf_flights s') k = Some f" for k f
  proof -
    have k: "k \<noteq> key" "flights (rf_flights s) k = Some f" using that by (auto simp: fs split: if_splits)
    then have "distinct (chan_waiters chan (entry_waiters f)) \<and> (\<forall>i \<in> set (chan_waiters chan (entry_waiters f)).
      i \<in> pend \<and> k = keyof i \<and> i \<notin> rr_index ` set (rf_results s chan))"
      using inv by (simp add: chan_inv_def)
    then show ?thesis using k(1) own(2) by (auto simp: new)
  qed
  ultimately show ?thesis by (simp add: chan_inv_def)
qed

section \<open>Queueing\<close>

lemma register_waiters:
  assumes "register key waiter ref reg = (registration, reg')" "flights reg' k = Some f"
  shows "\<exists>ws. entry_waiters f = ws @ (if k = key then [(reg_waiter_id registration, waiter)] else []) \<and>
    (case flights reg k of None \<Rightarrow> k = key \<and> ws = [] | Some f0 \<Rightarrow> ws = entry_waiters f0)"
  using assms by (auto simp: register_def Let_def split: option.splits if_splits)

lemma chan_waiters_append [simp]:
  "chan_waiters chan (ws @ ws') = chan_waiters chan ws @ chan_waiters chan ws'"
  "chan_waiters chan [(wid, w)] = (if rw_result_chan w = chan then [rw_index w] else [])"
  "chan_waiters chan [] = []"
  by (simp_all add: chan_waiters_def)

lemma chan_inv_register:
  assumes inv: "chan_inv keccak verify keyof pend chan s" and reg: "register key w ref (rf_flights s) = (registration, reg)"
    and new: "rw_result_chan w = chan \<Longrightarrow> rw_index w \<in> pend' \<and> rw_index w \<notin> pend \<and> key = keyof (rw_index w)"
    and pend: "pend \<subseteq> pend'" and s': "rf_flights s' = reg" "rf_results s' = rf_results s"
  shows "chan_inv keccak verify keyof pend' chan s'"
proof -
  have "distinct (chan_waiters chan (entry_waiters f)) \<and> (\<forall>i \<in> set (chan_waiters chan (entry_waiters f)).
      i \<in> pend' \<and> k = keyof i \<and> i \<notin> rr_index ` set (rf_results s' chan))" if "flights (rf_flights s') k = Some f" for k f
  proof -
    from that have "flights reg k = Some f" by (simp add: s')
    from register_waiters [OF reg this] obtain ws where
      ws: "entry_waiters f = ws @ (if k = key then [(reg_waiter_id registration, w)] else [])"
      "case flights (rf_flights s) k of None \<Rightarrow> k = key \<and> ws = [] | Some f0 \<Rightarrow> ws = entry_waiters f0" by blast
    have old: "distinct (chan_waiters chan ws) \<and> (\<forall>i \<in> set (chan_waiters chan ws).
        i \<in> pend \<and> k = keyof i \<and> i \<notin> rr_index ` set (rf_results s chan))"
      using inv ws(2) by (auto simp: chan_inv_def split: option.splits)
    have "rw_index w \<notin> rr_index ` set (rf_results s chan)" if "rw_result_chan w = chan"
      using new [OF that] inv by (auto simp: chan_inv_def)
    then show ?thesis using old new pend by (auto simp: ws(1) s')
  qed
  then show ?thesis using inv pend by (auto simp: chan_inv_def s')
qed

lemma chan_inv_send:
  assumes "chan_inv keccak verify keyof pend chan s"
    "c = chan \<Longrightarrow> rr_index r \<in> pend' \<and> rr_index r \<notin> pend \<and> result_ok keccak verify (keyof (rr_index r)) r" "pend \<subseteq> pend'"
  shows "chan_inv keccak verify keyof pend' chan (send_result c r s)"
proof (cases "c = chan")
  case False
  then show ?thesis
    using chan_inv_pend [OF assms(1,3)] by (simp add: chan_inv_def send_result_def)
next
  case True
  note r = assms(2) [OF True]
  have "rr_index r \<notin> rr_index ` set (rf_results s chan)" using r assms(1) by (auto simp: chan_inv_def)
  moreover have "rr_index r \<notin> set (chan_waiters chan (entry_waiters f))" if "flights (rf_flights s) k = Some f" for k f
    using r assms(1) that by (auto simp: chan_inv_def)
  ultimately show ?thesis
    using r assms(1,3) True by (auto simp: chan_inv_def send_result_def)
qed

context chunk_service
begin

lemma verdict_ok:
  assumes "replies (rk_request_address key) chunk marked"
    "flight_verdict keccak verify (rk_request_address key) (rk_expected_cac key) marked chunk = (delivered, canonical)"
  shows "result_ok keccak verify key \<lparr>rr_index = i, rr_chunk = delivered, rr_canonical_cac = canonical\<rparr>"
  using service_verified [OF assms(1)] assms(2)
  by (auto simp: flight_verdict_def result_ok_def split: if_splits)

end

lemma verdict_ok_empty:
  "flight_verdict keccak verify a c marked [] = (delivered, canonical) \<Longrightarrow>
     result_ok keccak verify key \<lparr>rr_index = i, rr_chunk = delivered, rr_canonical_cac = canonical\<rparr>"
  by (auto simp: flight_verdict_def result_ok_def usable_def sizes split: if_splits)

text \<open>A queued fetch: on our channel it becomes pending, on another one nothing changes for us.\<close>

lemma queue_chan:
  assumes raw: "raw_inv keccak verify s" and inv: "chan_inv keccak verify keyof pend chan s"
    and belongs: "\<And>r. cache_reference = Some r \<Longrightarrow> take HASH_SIZE r = expected_cac"
    and new: "rfq_chan q = chan \<Longrightarrow> index \<in> pend' \<and> index \<notin> pend \<and>
       keyof index = raw_fetch_key (rfq_scope q) request_address expected_cac (rfq_cancel q)"
    and pend: "pend \<subseteq> pend'"
    and run: "queue_drained_raw_chunk keccak verify limit send_ok index request_address expected_cac
      cache_reference demand q s = (q', s')"
  shows "chan_inv keccak verify keyof pend' chan s'"
    "rfq_chan q' = rfq_chan q \<and> rfq_scope q' = rfq_scope q \<and> rfq_cancel q' = rfq_cancel q"
proof -
  obtain cached s0 where s0: "(case cache_reference of None \<Rightarrow> (None, s)
      | Some reference \<Rightarrow> (let (raw, c) = cc_get_raw limit reference (rf_cache s) in (raw, s\<lparr>rf_cache := c\<rparr>))) = (cached, s0)"
    by fastforce
  have same: "rf_flights s0 = rf_flights s" "rf_results s0 = rf_results s"
    using s0 by (auto split: option.splits prod.splits)
  note inv0 = chan_inv_same [OF inv same]
  define key where "key = raw_fetch_key (rfq_scope q) request_address expected_cac (rfq_cancel q)"
  have key: "rk_expected_cac key = expected_cac" "rk_request_address key = request_address"
    by (simp_all add: key_def raw_fetch_key_def)
  have "chan_inv keccak verify keyof pend' chan s' \<and>
    rfq_chan q' = rfq_chan q \<and> rfq_scope q' = rfq_scope q \<and> rfq_cancel q' = rfq_cancel q"
  proof (cases cached)
    case (Some chunk)
    then obtain r c where r: "cache_reference = Some r" "cc_get_raw limit r (rf_cache s) = (Some chunk, c)"
      using s0 by (auto split: option.splits prod.splits)
    then have "good_raw keccak verify r chunk"
      using raw cc_get_raw_sound(2) unfolding raw_inv_def by blast
    then have "result_ok keccak verify key \<lparr>rr_index = index, rr_chunk = chunk, rr_canonical_cac = True\<rparr>"
      using belongs [OF r(1)] by (simp add: result_ok_def good_raw_def key)
    then show ?thesis
      using run s0 Some new unfolding queue_drained_raw_chunk_def
      by (auto simp: key_def intro!: chan_inv_send [OF inv0 _ pend])
  next
    case None
    obtain registration reg where reg: "register key \<lparr>rw_index = index, rw_result_chan = rfq_chan q\<rparr>
        (rf_next_shared s0) (rf_flights s0) = (registration, reg)" by fastforce
    have queued: "chan_inv keccak verify keyof pend' chan t" if "rf_flights t = reg" "rf_results t = rf_results s0" for t
      using chan_inv_register [OF inv0 reg _ pend that] new by (simp add: key_def)
    show ?thesis
    proof (cases "leader registration \<and> \<not> send_ok")
      case False
      then show ?thesis
        using run s0 None reg unfolding queue_drained_raw_chunk_def
        by (auto simp: Let_def key_def [symmetric] intro!: queued split: if_splits)
    next
      case True
      then obtain t where t: "s' = snd (complete_raw_fetch keccak verify limit key (reg_flight_id registration) [] t)"
        "rf_flights t = reg" "rf_results t = rf_results s0"
        and q': "rfq_chan q' = rfq_chan q \<and> rfq_scope q' = rfq_scope q \<and> rfq_cancel q' = rfq_cancel q"
        using run s0 None reg unfolding queue_drained_raw_chunk_def
        by (auto simp: Let_def key_def [symmetric])
      obtain f where f: "flights reg key = Some f" "entry_flight_id f = reg_flight_id registration"
        using register_cases(2) [OF reg] True by blast
      obtain b where c: "complete_raw_fetch keccak verify limit key (reg_flight_id registration) [] t = (b, s')"
        using t(1) by (metis prod.collapse)
      have "chan_inv keccak verify keyof pend' chan s'"
        by (rule complete_raw_fetch_chan [OF queued [OF t(2,3)] _ f(2) c]) (use f(1) t(2) verdict_ok_empty in auto)
      then show ?thesis using q' by simp
    qed
  qed
  then show "chan_inv keccak verify keyof pend' chan s'"
    "rfq_chan q' = rfq_chan q \<and> rfq_scope q' = rfq_scope q \<and> rfq_cancel q' = rfq_cancel q" by simp_all
qed

context chunk_service
begin

text \<open>The steps of the users of other channels.\<close>

lemma others_chan:
  assumes step: "raw_step keccak replies verify limit (\<lambda>c. c \<noteq> chan) s s'" and raw: "raw_inv keccak verify s"
    and inv: "chan_inv keccak verify keyof pend chan s"
  shows "chan_inv keccak verify keyof pend chan s'"
  using step
proof (cases rule: raw_step.cases)
  case (data q send_ok index reference demand q')
  then show ?thesis
    using queue_chan(1) [OF raw inv _ _ subset_refl data(2) [unfolded queue_data_shard_def]] by simp
next
  case (parity q send_ok index reference demand q')
  then show ?thesis
    using queue_chan(1) [OF raw inv _ _ subset_refl parity(2) [unfolded queue_parity_shard_def]] by simp
next
  case (root q send_ok index request_address reference q')
  then show ?thesis using queue_chan(1) [OF raw inv _ _ subset_refl root(2)] by simp
next
  case (close q q')
  then show ?thesis using close_waiters_chan [OF inv] by (auto simp: raw_fetch_close_def)
next
  case (produce before key flight_id after chunk marked flight canonical s'')
  let ?s = "mark_returned key marked s"
  have "flight_ok key (rf_shared s (entry_shared flight))"
    using flights_okD [of s key flight] raw produce(4) by (simp add: raw_inv_def)
  then have s: "rf_flights ?s = rf_flights s" "rf_results ?s = rf_results s"
    "returned_cac (rs_admission (rf_shared ?s (entry_shared flight))) = marked"
    using produce(4) by (auto simp: mark_returned_def record_returned_cac_def flight_ok_def)
  have "chan_inv keccak verify keyof pend chan s''"
    by (rule complete_raw_fetch_chan [OF chan_inv_same [OF inv s(1,2)] _ produce(5,6)])
       (use produce(3,4) s verdict_ok in auto)
  then show ?thesis using produce(1) by (auto intro: chan_inv_same)
next
  case (late before key flight_id after chunk canonical s'')
  then have "s'' = s" using complete_late [OF late(3)] by simp
  then show ?thesis using inv late(1) by (auto intro: chan_inv_same)
qed (auto intro: chan_inv_same [OF inv])

end

end
