(* ===== verification/GroupSafety.thy ===== *)
theory GroupSafety
  imports Group Channels
begin

text \<open>
  What a group fetch emits, over every run: each requested child at most once and only a chunk of
  its reference, and every requested child when the fetch ends with success.
\<close>

section \<open>The invariant\<close>

definition shard_ref :: "GroupPlan \<Rightarrow> nat \<Rightarrow> bytes" where
  "shard_ref p i = (if i < data_count p then gp_data p ! i else gp_parity p ! (i - data_count p))"

definition shard_key :: "GroupPlan \<Rightarrow> RawFetchQueue \<Rightarrow> nat \<Rightarrow> RawFetchKey" where
  "shard_key p q i =
     raw_fetch_key (rfq_scope q) (take HASH_SIZE (shard_ref p i)) (take HASH_SIZE (shard_ref p i)) (rfq_cancel q)"

text \<open>A chunk that decodes from something good for its reference.\<close>

definition decodes_to :: "(bytes \<Rightarrow> bytes) \<Rightarrow> bool \<Rightarrow> bytes \<Rightarrow> DecodedJoinChunk \<Rightarrow> bool" where
  "decodes_to keccak verify reference chunk \<longleftrightarrow>
     (\<exists>raw. good_raw keccak verify reference raw \<and> decode_shared_raw_join_chunk keccak raw reference = Some chunk)"

definition plan_ok :: "GroupPlan \<Rightarrow> bool" where
  "plan_ok p \<longleftrightarrow> (\<forall>r \<in> set (gp_data p). HASH_SIZE \<le> length r) \<and> (\<forall>r \<in> set (gp_parity p). length r = HASH_SIZE) \<and>
     distinct (gp_requested p) \<and> (\<forall>i \<in> set (gp_requested p). i < data_count p)"

definition chan_part :: "GroupPlan \<Rightarrow> nat set \<Rightarrow> GroupState \<Rightarrow> bool" where
  "chan_part p pend s \<longleftrightarrow> raw_inv (gp_keccak p) (gp_verify p) (gs_raw s) \<and>
     chan_inv (gp_keccak p) (gp_verify p) (shard_key p (gs_queue s)) pend (rfq_chan (gs_queue s)) (gs_raw s) \<and>
     length (gs_dispatched_shards s) = total_count p \<and> pend \<subseteq> {i. i < total_count p \<and> gs_dispatched_shards s ! i}"

definition shards_part :: "GroupPlan \<Rightarrow> GroupState \<Rightarrow> bool" where
  "shards_part p s \<longleftrightarrow> length (gs_received_shards s) = total_count p \<and> length (gs_authenticated_shards s) = total_count p \<and>
     (\<forall>i < total_count p. \<forall>raw. gs_received_shards s ! i = Some raw \<longrightarrow> gs_authenticated_shards s ! i \<longrightarrow>
        good_raw (gp_keccak p) (gp_verify p) (shard_ref p i) raw)"

definition emitted_part :: "GroupPlan \<Rightarrow> GroupState \<Rightarrow> bool" where
  "emitted_part p s \<longleftrightarrow> distinct (map fst (gs_emitted s)) \<and>
     (\<forall>(k, c) \<in> set (gs_emitted s). k \<in> set (gp_requested p) \<and>
        decodes_to (gp_keccak p) (gp_verify p) (gp_data p ! k) c)"

definition ready_part :: "GroupPlan \<Rightarrow> GroupState \<Rightarrow> bool" where
  "ready_part p s \<longleftrightarrow> length (gs_requested_ready s) = data_count p \<and>
     (\<forall>k < data_count p. gs_requested_ready s ! k \<longleftrightarrow> k \<in> fst ` set (gs_emitted s))"

definition group_inv :: "GroupPlan \<Rightarrow> GroupState \<Rightarrow> bool" where
  "group_inv p s \<longleftrightarrow> (\<exists>pend. chan_part p pend s) \<and> shards_part p s \<and> emitted_part p s \<and> ready_part p s"

lemmas group_parts = chan_part_def shards_part_def emitted_part_def ready_part_def

section \<open>Cache and shared state\<close>

definition with_cache :: "DecodedChunkCache \<Rightarrow> GroupState \<Rightarrow> GroupState" where
  "with_cache c s = s\<lparr>gs_raw := (gs_raw s)\<lparr>rf_cache := c\<rparr>\<rparr>"

lemma chan_part_cache:
  "chan_part p pend s \<Longrightarrow> cache_sound (good_raw (gp_keccak p) (gp_verify p)) (gp_keccak p) c \<Longrightarrow> chan_part p pend (with_cache c s)"
  by (auto simp: chan_part_def with_cache_def raw_inv_def flights_ok_def intro: chan_inv_same)

lemma group_inv_cache:
  "group_inv p s \<Longrightarrow> cache_sound (good_raw (gp_keccak p) (gp_verify p)) (gp_keccak p) c \<Longrightarrow> group_inv p (with_cache c s)"
  unfolding group_inv_def
  by (intro conjI; (elim conjE exE, rule exI, erule (1) chan_part_cache)?)
     (simp_all add: shards_part_def emitted_part_def ready_part_def with_cache_def)

lemma group_inv_sound: "group_inv p s \<Longrightarrow>
    cache_sound (good_raw (gp_keccak p) (gp_verify p)) (gp_keccak p) (rf_cache (gs_raw s))"
  by (auto simp: group_inv_def chan_part_def raw_inv_def)

lemma get_cached_ok:
  assumes inv: "group_inv p s" and run: "get_cached p reference b s = (out, s')"
  shows "group_inv p s'" "\<exists>c. s' = with_cache c s"
    "out = Some (d, raw) \<Longrightarrow> decodes_to (gp_keccak p) (gp_verify p) reference d"
    "out = Some (d, Some x) \<Longrightarrow> good_raw (gp_keccak p) (gp_verify p) reference x"
proof -
  obtain c where c: "cc_get_decoded (gp_keccak p) (gp_limit p) reference b (rf_cache (gs_raw s)) = (out, c)"
    and s': "s' = with_cache c s"
    using run by (auto simp: get_cached_def with_cache_def split: prod.splits)
  note sound = cc_get_decoded_sound [OF group_inv_sound [OF inv] c]
  show "group_inv p s'" using group_inv_cache [OF inv sound(1)] s' by simp
  show "\<exists>c. s' = with_cache c s" using s' by blast
  show "out = Some (d, raw) \<Longrightarrow> decodes_to (gp_keccak p) (gp_verify p) reference d"
    using sound(2) by (simp add: decodes_to_def)
  show "out = Some (d, Some x) \<Longrightarrow> good_raw (gp_keccak p) (gp_verify p) reference x" using sound(3) by simp
qed

lemma cached_decoded_chunk_ok:
  assumes inv: "group_inv p s" and run: "cached_decoded_chunk p reference s = (out, s')"
  shows "group_inv p s'" "\<exists>c. s' = with_cache c s"
    "out = Some d \<Longrightarrow> decodes_to (gp_keccak p) (gp_verify p) reference d"
proof -
  obtain o1 where g: "get_cached p reference False s = (o1, s')" and out: "out = map_option fst o1"
    using run by (cases "get_cached p reference False s") (simp add: cached_decoded_chunk_def)
  show "group_inv p s'" "\<exists>c. s' = with_cache c s" using get_cached_ok(1,2) [OF inv g] by simp_all
  show "out = Some d \<Longrightarrow> decodes_to (gp_keccak p) (gp_verify p) reference d"
    using get_cached_ok(3) [OF inv g] out by (cases o1) auto
qed

lemma remember_raw_chunk_ok:
  assumes inv: "group_inv p s" and good: "good_raw (gp_keccak p) (gp_verify p) reference raw"
  shows "group_inv p (remember_raw_chunk p reference raw s)" "\<exists>c. remember_raw_chunk p reference raw s = with_cache c s"
  using group_inv_cache [OF inv cc_insert_raw_sound [OF group_inv_sound [OF inv] good]]
  by (auto simp: remember_raw_chunk_def with_cache_def)

lemma with_cache_simps [simp]:
  "gs_queue (with_cache c s) = gs_queue s" "gs_dispatched_shards (with_cache c s) = gs_dispatched_shards s"
  "gs_requested_ready (with_cache c s) = gs_requested_ready s" "gs_received_shards (with_cache c s) = gs_received_shards s"
  "gs_authenticated_shards (with_cache c s) = gs_authenticated_shards s" "gs_successes (with_cache c s) = gs_successes s"
  "gs_dispatched (with_cache c s) = gs_dispatched s" "gs_completed (with_cache c s) = gs_completed s"
  "gs_recovery_dispatched (with_cache c s) = gs_recovery_dispatched s" "gs_emitted (with_cache c s) = gs_emitted s"
  "gs_pc (with_cache c s) = gs_pc s" "with_cache c' (with_cache c s) = with_cache c' s"
  by (simp_all add: with_cache_def)

text \<open>Counters and the program counter do not matter to the invariant.\<close>

lemma group_inv_counters [simp]:
  "group_inv p (s\<lparr>gs_pc := pc\<rparr>) = group_inv p s" "group_inv p (s\<lparr>gs_completed := n\<rparr>) = group_inv p s"
  "group_inv p (s\<lparr>gs_dispatched := n\<rparr>) = group_inv p s" "group_inv p (s\<lparr>gs_successes := n\<rparr>) = group_inv p s"
  "group_inv p (s\<lparr>gs_recovery_dispatched := b\<rparr>) = group_inv p s"
  by (simp_all add: group_inv_def group_parts)

lemma group_end_simps [simp]:
  "gs_emitted (group_end b s) = gs_emitted s" "gs_pc (group_end b s) = Ended b" "group_inv p (group_end b s) = group_inv p s"
  by (simp_all add: group_end_def)

lemma emit_ready_ok:
  assumes "group_inv p s" "k \<in> set (gp_requested p)" "k < data_count p" "\<not> gs_requested_ready s ! k"
    "decodes_to (gp_keccak p) (gp_verify p) (gp_data p ! k) c"
  shows "group_inv p (mark_ready k (emit_child k c s))"
  using assms by (auto simp: group_inv_def group_parts mark_ready_def emit_child_def nth_list_update)

section \<open>Dispatch\<close>

lemma shard_ref_take:
  assumes "plan_ok p" "i < total_count p"
  shows "i < data_count p \<Longrightarrow> shard_ref p i = gp_data p ! i"
    "\<not> i < data_count p \<Longrightarrow> shard_ref p i = gp_parity p ! (i - data_count p) \<and>
       take HASH_SIZE (gp_parity p ! (i - data_count p)) = gp_parity p ! (i - data_count p)"
    "length (take HASH_SIZE (shard_ref p i)) = HASH_SIZE"
  using assms by (auto simp: shard_ref_def plan_ok_def data_count_def total_count_def)

lemma dispatch_shard_chan:
  assumes ok: "plan_ok p" "i < total_count p" and part: "chan_part p pend s" and new: "\<not> gs_dispatched_shards s ! i"
  shows "chan_part p (insert i pend) (dispatch_shard p send_ok demand i s)"
    "\<exists>q raw. dispatch_shard p send_ok demand i s =
       s\<lparr>gs_queue := q, gs_raw := raw, gs_dispatched_shards := (gs_dispatched_shards s)[i := True]\<rparr>"
proof -
  let ?a = "take HASH_SIZE (shard_ref p i)" and ?ref = "if i < data_count p then Some (gp_data p ! i) else None"
  obtain q raw where run: "queue_drained_raw_chunk (gp_keccak p) (gp_verify p) (gp_limit p) send_ok i ?a ?a ?ref demand
      (gs_queue s) (gs_raw s) = (q, raw)" by fastforce
  have s': "dispatch_shard p send_ok demand i s =
      s\<lparr>gs_queue := q, gs_raw := raw, gs_dispatched_shards := (gs_dispatched_shards s)[i := True]\<rparr>"
    using run shard_ref_take(1,2) [OF ok]
    by (cases "i < data_count p") (simp_all add: dispatch_shard_def queue_data_shard_def queue_parity_shard_def)
  have raw: "raw_inv (gp_keccak p) (gp_verify p) (gs_raw s)"
    and inv: "chan_inv (gp_keccak p) (gp_verify p) (shard_key p (gs_queue s)) pend (rfq_chan (gs_queue s)) (gs_raw s)"
    and pend: "i \<notin> pend" using part new by (auto simp: chan_part_def)
  have belongs: "take HASH_SIZE r = ?a" if "?ref = Some r" for r
    using that shard_ref_take(1) [OF ok] by (auto split: if_splits)
  have q: "rfq_chan q = rfq_chan (gs_queue s) \<and> rfq_scope q = rfq_scope (gs_queue s) \<and> rfq_cancel q = rfq_cancel (gs_queue s)"
    and c: "chan_inv (gp_keccak p) (gp_verify p) (shard_key p (gs_queue s)) (insert i pend) (rfq_chan (gs_queue s)) raw"
    using queue_chan [OF raw inv belongs _ subset_insertI run] pend by (auto simp: shard_key_def)
  have "shard_key p q = shard_key p (gs_queue s)" using q by (simp add: shard_key_def [abs_def])
  moreover have "raw_inv (gp_keccak p) (gp_verify p) raw" using queue_inv [OF raw belongs run] .
  ultimately show "chan_part p (insert i pend) (dispatch_shard p send_ok demand i s)"
    using c q part ok(2) by (auto simp: s' chan_part_def nth_list_update)
  show "\<exists>q raw. dispatch_shard p send_ok demand i s =
       s\<lparr>gs_queue := q, gs_raw := raw, gs_dispatched_shards := (gs_dispatched_shards s)[i := True]\<rparr>"
    using s' by blast
qed

lemma dispatch_shard_inv:
  assumes "plan_ok p" "i < total_count p" "group_inv p s" "\<not> gs_dispatched_shards s ! i"
  shows "group_inv p (dispatch_shard p send_ok demand i s)"
proof -
  obtain pend where "chan_part p pend s" using assms(3) by (auto simp: group_inv_def)
  note d = dispatch_shard_chan [OF assms(1,2) this assms(4), of send_ok demand]
  obtain q raw where s': "dispatch_shard p send_ok demand i s =
      s\<lparr>gs_queue := q, gs_raw := raw, gs_dispatched_shards := (gs_dispatched_shards s)[i := True]\<rparr>" using d(2) by blast
  show ?thesis using d(1) assms(3) unfolding group_inv_def s' by (auto simp: shards_part_def emitted_part_def ready_part_def)
qed

lemma dispatch_shards_inv:
  assumes "plan_ok p" "\<forall>i \<in> set is. i < total_count p" "group_inv p s" "dispatch_shards p send_ok is limit s = (n, s')"
  shows "group_inv p s' \<and> gs_pc s' = gs_pc s \<and> gs_emitted s' = gs_emitted s"
  using assms
proof (induction p send_ok "is" limit s arbitrary: n rule: dispatch_shards.induct)
  case (2 p send_ok index rest limit s)
  show ?case
  proof (cases "limit = 0 \<or> gs_dispatched_shards s ! index")
    case True
    then show ?thesis using 2 by (auto split: if_splits)
  next
    case False
    let ?s = "dispatch_shard p send_ok Ordinary index s"
    have "gs_pc ?s = gs_pc s \<and> gs_emitted ?s = gs_emitted s"
      by (simp add: dispatch_shard_def Let_def split: prod.splits)
    moreover obtain m where m: "dispatch_shards p send_ok rest (limit - 1) ?s = (m, s')"
      using 2(6) False by (cases "dispatch_shards p send_ok rest (limit - 1) ?s") auto
    moreover have "group_inv p ?s" using 2(3-5) False by (intro dispatch_shard_inv) auto
    ultimately show ?thesis using 2(2) [of m] 2(3,4) False by auto
  qed
qed simp

section \<open>Results\<close>

definition good_result :: "GroupPlan \<Rightarrow> RawFetchResult \<Rightarrow> bool" where
  "good_result p r \<longleftrightarrow> rr_index r < total_count p \<and>
     (rr_chunk r \<noteq> [] \<longrightarrow> rr_canonical_cac r \<and> good_raw (gp_keccak p) (gp_verify p) (shard_ref p (rr_index r)) (rr_chunk r))"

lemma chan_part_result:
  assumes "plan_ok p" "chan_part p pend s" "r \<in> set (group_results s)"
  shows "good_result p r" "rr_index r \<in> pend"
proof -
  from assms(2,3) have r: "rr_index r \<in> pend" "result_ok (gp_keccak p) (gp_verify p) (shard_key p (gs_queue s) (rr_index r)) r"
    "rr_index r < total_count p"
    by (auto simp: chan_part_def chan_inv_def group_results_def)
  then show "good_result p r" "rr_index r \<in> pend"
    using shard_ref_take(3) [OF assms(1) r(3)]
    by (auto simp: good_result_def result_ok_def shard_key_def raw_fetch_key_def good_raw_def)
qed

lemma set_results_chan:
  assumes part: "chan_part p pend s" and res: "group_results s = taken @ rest"
  shows "chan_part p (pend - rr_index ` set taken) (set_results rest s)"
proof -
  let ?c = "rfq_chan (gs_queue s)"
  have inv: "chan_inv (gp_keccak p) (gp_verify p) (shard_key p (gs_queue s)) pend ?c (gs_raw s)"
    and r: "rf_results (gs_raw s) ?c = taken @ rest"
    using part res by (auto simp: chan_part_def group_results_def)
  have "chan_inv (gp_keccak p) (gp_verify p) (shard_key p (gs_queue s)) (pend - rr_index ` set taken) ?c
      ((gs_raw s)\<lparr>rf_results := (rf_results (gs_raw s))(?c := rest)\<rparr>)"
    by (rule chan_inv_take [OF inv r]) simp_all
  then show ?thesis
    using part by (auto simp: chan_part_def set_results_def raw_inv_def flights_ok_def)
qed

lemma set_results_simps [simp]:
  "gs_queue (set_results rs s) = gs_queue s" "gs_dispatched_shards (set_results rs s) = gs_dispatched_shards s"
  "gs_requested_ready (set_results rs s) = gs_requested_ready s" "gs_received_shards (set_results rs s) = gs_received_shards s"
  "gs_authenticated_shards (set_results rs s) = gs_authenticated_shards s" "gs_successes (set_results rs s) = gs_successes s"
  "gs_dispatched (set_results rs s) = gs_dispatched s" "gs_completed (set_results rs s) = gs_completed s"
  "gs_recovery_dispatched (set_results rs s) = gs_recovery_dispatched s" "gs_emitted (set_results rs s) = gs_emitted s"
  "gs_pc (set_results rs s) = gs_pc s"
  by (simp_all add: set_results_def)

lemma set_results_inv:
  assumes "group_inv p s" "group_results s = taken @ rest"
  shows "group_inv p (set_results rest s)"
  using assms set_results_chan [OF _ assms(2)]
  by (auto simp: group_inv_def shards_part_def emitted_part_def ready_part_def)

lemma decode_settled_ok:
  assumes inv: "group_inv p s" and good: "good_raw (gp_keccak p) (gp_verify p) reference (rr_chunk result)"
    and canonical: "rr_canonical_cac result" and run: "decode_settled p result reference s = Some (chunk, s')"
  shows "group_inv p s'" "\<exists>c. s' = with_cache c s" "decodes_to (gp_keccak p) (gp_verify p) reference chunk"
proof -
  obtain o1 s1 where one: "cached_decoded_chunk p reference s = (o1, s1)" by fastforce
  let ?s2 = "remember_raw_chunk p reference (rr_chunk result) s1"
  obtain o3 s3 where three: "cached_decoded_chunk p reference ?s2 = (o3, s3)" by fastforce
  note c1 = cached_decoded_chunk_ok [OF inv one]
  note c2 = remember_raw_chunk_ok [OF c1(1) good]
  note c3 = cached_decoded_chunk_ok [OF c2(1) three]
  have "(o1 = Some chunk \<and> s' = s1) \<or> (o3 = Some chunk \<and> s' = s3)"
    using run canonical one three by (auto simp: decode_settled_def split: option.splits)
  then show "group_inv p s'" "decodes_to (gp_keccak p) (gp_verify p) reference chunk"
    using c1(1,3) c3(1,3) by auto
  show "\<exists>c. s' = with_cache c s"
    using \<open>(o1 = Some chunk \<and> s' = s1) \<or> (o3 = Some chunk \<and> s' = s3)\<close> c1(2) c2(2) c3(2) by auto
qed

lemma received_ok:
  assumes "group_inv p s" "i < total_count p" "good_raw (gp_keccak p) (gp_verify p) (shard_ref p i) raw"
  shows "group_inv p (s\<lparr>gs_received_shards := (gs_received_shards s)[i := Some raw],
    gs_authenticated_shards := (gs_authenticated_shards s)[i := True]\<rparr>)"
proof -
  have "good_raw (gp_keccak p) (gp_verify p) (shard_ref p j) x"
    if "j < total_count p" "(gs_received_shards s)[i := Some raw] ! j = Some x" "(gs_authenticated_shards s)[i := True] ! j" for j x
    using that assms by (cases "j = i") (auto simp: group_inv_def shards_part_def)
  then show ?thesis using assms(1) by (simp add: group_inv_def group_parts)
qed

text \<open>
  Settling a good result keeps the invariant; an empty one changes nothing, another is received
  and counted, and a requested child becomes ready.
\<close>

lemma settle_ok:
  assumes inv: "group_inv p s" and ok: "plan_ok p" and good: "good_result p result"
    and run: "settle_data_group_result p result s = Some (b, s')"
  shows "group_inv p s'"
    "gs_queue s' = gs_queue s \<and> gs_dispatched_shards s' = gs_dispatched_shards s \<and> gs_dispatched s' = gs_dispatched s \<and>
     gs_completed s' = gs_completed s \<and> gs_recovery_dispatched s' = gs_recovery_dispatched s \<and> gs_pc s' = gs_pc s"
    "\<exists>c. gs_raw s' = (gs_raw s)\<lparr>rf_cache := c\<rparr>"
proof -
  have "group_inv p s' \<and> gs_queue s' = gs_queue s \<and> gs_dispatched_shards s' = gs_dispatched_shards s \<and>
     gs_dispatched s' = gs_dispatched s \<and> gs_completed s' = gs_completed s \<and>
     gs_recovery_dispatched s' = gs_recovery_dispatched s \<and> gs_pc s' = gs_pc s \<and> (\<exists>c. gs_raw s' = (gs_raw s)\<lparr>rf_cache := c\<rparr>)"
  proof (cases "rr_chunk result = []")
    case True
    then have "s' = s" using run by (auto simp: settle_data_group_result_def Let_def split: if_splits)
    then show ?thesis using inv by (auto intro: exI [of _ "rf_cache (gs_raw s)"])
  next
    case False
    let ?i = "rr_index result"
    define s1 where "s1 n = s\<lparr>gs_received_shards := (gs_received_shards s)[?i := Some (rr_chunk result)],
      gs_authenticated_shards := (gs_authenticated_shards s)[?i := True], gs_successes := n\<rparr>" for n
    have g: "rr_canonical_cac result" "good_raw (gp_keccak p) (gp_verify p) (shard_ref p ?i) (rr_chunk result)" "?i < total_count p"
      using good False by (auto simp: good_result_def)
    obtain n where add: "usize_checked_add (gs_successes s) 1 = Some n"
      using run False g by (cases "usize_checked_add (gs_successes s) 1") (auto simp: settle_data_group_result_def Let_def)
    have n: "(if ?i < data_count p \<and> ?i \<in> set (gp_requested p) \<and> \<not> gs_requested_ready s ! ?i
        then do { (chunk, s2) \<leftarrow> decode_settled p result (gp_data p ! ?i) (s1 n);
                  Some (True, mark_ready ?i (emit_child ?i chunk s2)) }
        else Some (True, s1 n)) = Some (b, s')"
      unfolding s1_def using run False g add by (simp add: settle_data_group_result_def Let_def split del: if_split)
    have inv1: "group_inv p (s1 n)"
      using received_ok [OF inv g(3,2)] by (simp add: s1_def)
    show ?thesis
    proof (cases "?i < data_count p \<and> ?i \<in> set (gp_requested p) \<and> \<not> gs_requested_ready s ! ?i")
      case False
      then have "s' = s1 n" using n by auto
      then show ?thesis using inv1 by (auto simp: s1_def intro: exI [of _ "rf_cache (gs_raw s)"])
    next
      case True
      then obtain chunk s2 where d: "decode_settled p result (gp_data p ! ?i) (s1 n) = Some (chunk, s2)"
        and s': "s' = mark_ready ?i (emit_child ?i chunk s2)"
        using n by (auto simp: bind_eq_Some_conv)
      have "shard_ref p ?i = gp_data p ! ?i" using True by (simp add: shard_ref_def)
      note e = decode_settled_ok [OF inv1 g(2) [unfolded this] g(1) d]
      obtain c where c: "s2 = with_cache c (s1 n)" using e(2) by blast
      have "group_inv p s'" unfolding s'
        by (rule emit_ready_ok [OF e(1)]) (use True e(3) in \<open>auto simp: c s1_def\<close>)
      then show ?thesis by (auto simp: s' c s1_def mark_ready_def emit_child_def with_cache_def)
    qed
  qed
  then show "group_inv p s'"
    "gs_queue s' = gs_queue s \<and> gs_dispatched_shards s' = gs_dispatched_shards s \<and> gs_dispatched s' = gs_dispatched s \<and>
     gs_completed s' = gs_completed s \<and> gs_recovery_dispatched s' = gs_recovery_dispatched s \<and> gs_pc s' = gs_pc s"
    "\<exists>c. gs_raw s' = (gs_raw s)\<lparr>rf_cache := c\<rparr>" by blast+
qed

lemma settle_next_ok:
  assumes "group_inv p s" "plan_ok p" "good_result p result" "settle_next p result s = Some (b, s')"
  shows "group_inv p s'" "gs_pc s' = gs_pc s" "gs_recovery_dispatched s' = gs_recovery_dispatched s"
proof -
  obtain n where n: "settle_data_group_result p result (s\<lparr>gs_completed := n\<rparr>) = Some (b, s')"
    using assms(4) by (auto simp: settle_next_def complete_one_def bind_eq_Some_conv)
  have "group_inv p (s\<lparr>gs_completed := n\<rparr>)" using assms(1) by simp
  from settle_ok [OF this assms(2,3) n]
  show "group_inv p s'" "gs_pc s' = gs_pc s" "gs_recovery_dispatched s' = gs_recovery_dispatched s" by simp_all
qed

lemma settle_all_ok:
  assumes "group_inv p s" "plan_ok p" "\<forall>r \<in> set results. good_result p r" "gs_pc s \<noteq> Ended True"
  shows "group_inv p (settle_all p results s) \<and> gs_pc (settle_all p results s) \<noteq> Ended True"
  using assms
proof (induction p results s rule: settle_all.induct)
  case (2 p result rest s)
  show ?case
  proof (cases "settle_next p result s")
    case None
    then show ?thesis using 2(2) by simp
  next
    case (Some x)
    obtain b s' where x: "x = (b, s')" by (cases x)
    have "group_inv p s'" "gs_pc s' = gs_pc s" using settle_next_ok [OF 2(2,3) _ Some [unfolded x]] 2(4) by simp_all
    then show ?thesis using 2 Some x by simp
  qed
qed simp

section \<open>Turns\<close>

lemma remember_authenticated_ok:
  assumes "group_inv p s" "\<forall>i \<in> set is. i < data_count p"
  shows "group_inv p (remember_authenticated p is s) \<and> (\<exists>c. remember_authenticated p is s = with_cache c s)"
  using assms
proof (induction "is" arbitrary: s)
  case Nil
  then show ?case by (auto simp: with_cache_def intro!: exI [of _ "rf_cache (gs_raw s)"])
next
  case (Cons i "is")
  let ?s = "case gs_received_shards s ! i of
      Some raw \<Rightarrow> if gs_authenticated_shards s ! i then remember_raw_chunk p (gp_data p ! i) raw s else s | None \<Rightarrow> s"
  have i: "i < total_count p" "shard_ref p i = gp_data p ! i"
    using Cons(3) by (auto simp: data_count_def total_count_def shard_ref_def)
  then have "good_raw (gp_keccak p) (gp_verify p) (gp_data p ! i) raw"
    if "gs_received_shards s ! i = Some raw" "gs_authenticated_shards s ! i" for raw
    using Cons(2) that by (auto simp: group_inv_def shards_part_def)
  then have "group_inv p ?s \<and> (\<exists>c. ?s = with_cache c s)"
    using Cons(2) remember_raw_chunk_ok [OF Cons(2)]
    by (auto simp: with_cache_def split: option.splits intro!: exI [of _ "rf_cache (gs_raw s)"])
  then show ?case using Cons(1) [of ?s] Cons(3) by auto
qed

text \<open>What holds when the fetch is over, with success or without.\<close>

definition end_inv :: "GroupPlan \<Rightarrow> GroupState \<Rightarrow> bool" where
  "end_inv p s \<longleftrightarrow> emitted_part p s \<and> (gs_pc s = Ended True \<longrightarrow> set (gp_requested p) \<subseteq> fst ` set (gs_emitted s))"

definition run_inv :: "GroupPlan \<Rightarrow> GroupState \<Rightarrow> bool" where
  "run_inv p s \<longleftrightarrow> (if \<exists>b. gs_pc s = Ended b then end_inv p s else group_inv p s)"

lemma run_invI: "group_inv p s \<Longrightarrow> gs_pc s \<noteq> Ended True \<Longrightarrow> run_inv p s"
  by (auto simp: run_inv_def end_inv_def group_inv_def)

lemma group_inv_emit:
  assumes "group_inv p s" "decodes_to (gp_keccak p) (gp_verify p) (gp_data p ! k) c" "k \<in> set (gp_requested p)"
    "k \<notin> fst ` set (gs_emitted s)"
  shows "emitted_part p (emit_child k c s)"
  using assms by (auto simp: group_inv_def emitted_part_def emit_child_def)

lemma emit_reconstructed_ok:
  assumes "emitted_part p s" "cache_sound (good_raw (gp_keccak p) (gp_verify p)) (gp_keccak p) (rf_cache (gs_raw s))"
    "distinct ks" "set ks \<subseteq> set (gp_requested p)" "set ks \<inter> fst ` set (gs_emitted s) = {}"
    "set (gp_requested p) \<subseteq> set ks \<union> fst ` set (gs_emitted s)"
  shows "end_inv p (emit_reconstructed p shards ks s) \<and> (\<exists>b. gs_pc (emit_reconstructed p shards ks s) = Ended b)"
  using assms
proof (induction ks arbitrary: shards s)
  case Nil
  then show ?case by (auto simp: end_inv_def emitted_part_def)
next
  case (Cons k ks)
  let ?ref = "gp_data p ! k"
  have failed: "end_inv p (group_end False t)" if "gs_emitted t = gs_emitted s" for t
    using Cons(2) that by (simp add: end_inv_def emitted_part_def)
  show ?case
  proof (cases "\<exists>raw chunk s1. shards ! k = Some raw \<and> \<not> (gp_verify p \<and> \<not> valid_cac (gp_keccak p) raw (take HASH_SIZE ?ref)) \<and>
      cached_decoded_chunk p ?ref (remember_raw_chunk p ?ref raw s) = (Some chunk, s1)")
    case False
    then show ?thesis
      by (auto simp: Let_def cached_decoded_chunk_def get_cached_def remember_raw_chunk_def intro!: failed
          split: option.splits prod.splits)
  next
    case True
    then obtain raw chunk s1 where sh: "shards ! k = Some raw" "good_raw (gp_keccak p) (gp_verify p) ?ref raw"
      and run: "cached_decoded_chunk p ?ref (remember_raw_chunk p ?ref raw s) = (Some chunk, s1)"
      by (auto simp: good_raw_def)
    then obtain r c where get: "cc_get_decoded (gp_keccak p) (gp_limit p) ?ref False
        (cc_insert_raw (gp_limit p) ?ref raw (rf_cache (gs_raw s))) = (Some (chunk, r), c)" and s1: "s1 = with_cache c s"
      by (auto simp: cached_decoded_chunk_def get_cached_def remember_raw_chunk_def with_cache_def split: prod.splits)
    note sound = cc_get_decoded_sound [OF cc_insert_raw_sound [OF Cons(3) sh(2)] get]
    have "decodes_to (gp_keccak p) (gp_verify p) ?ref chunk" using sound(2) by (simp add: decodes_to_def)
    then have "emitted_part p (emit_child k chunk s1)"
      using Cons(2,5,6) by (auto simp: emitted_part_def emit_child_def s1)
    then show ?thesis
      using Cons(1) [of "emit_child k chunk s1" "shards[k := None]"] Cons(4-) sound(1) sh run
      by (auto simp: Let_def s1 emit_child_def with_cache_def good_raw_def)
  qed
qed

lemma group_finish_ok:
  assumes inv: "group_inv p s" and ok: "plan_ok p"
  shows "end_inv p (group_finish p matrices s)" "\<exists>b. gs_pc (group_finish p matrices s) = Ended b"
proof -
  let ?s = "remember_authenticated p [0..<data_count p] s"
  have s: "group_inv p ?s" using remember_authenticated_ok [OF inv] by simp
  have missing: "set (missing_indices p ?s) = set (gp_requested p) - fst ` set (gs_emitted ?s)"
    "distinct (missing_indices p ?s)"
    using s ok by (auto simp: missing_indices_def group_inv_def ready_part_def plan_ok_def)
  have e: "emitted_part p ?s" using s by (simp add: group_inv_def)
  have "end_inv p (group_finish p matrices s) \<and> (\<exists>b. gs_pc (group_finish p matrices s) = Ended b)"
  proof (cases "missing_indices p ?s = []")
    case True
    then show ?thesis using missing e by (auto simp: group_finish_def Let_def end_inv_def emitted_part_def)
  next
    case False
    have "end_inv p (emit_reconstructed p shards (missing_indices p ?s) ?s) \<and>
        (\<exists>b. gs_pc (emit_reconstructed p shards (missing_indices p ?s) ?s) = Ended b)" for shards
      using emit_reconstructed_ok [OF e group_inv_sound [OF s] missing(2)] missing(1) by blast
    moreover have "end_inv p (group_end False ?s)" using e by (simp add: end_inv_def emitted_part_def)
    ultimately show ?thesis using False by (auto simp: group_finish_def Let_def split: outcome.splits)
  qed
  then show "end_inv p (group_finish p matrices s)" "\<exists>b. gs_pc (group_finish p matrices s) = Ended b" by simp_all
qed

lemma close_group_ok:
  assumes "group_inv p s" shows "group_inv p (close_group s)"
proof -
  obtain pend where part: "chan_part p pend s" using assms by (auto simp: group_inv_def)
  have key: "shard_key p ((gs_queue s)\<lparr>rfq_waiters := []\<rparr>) = shard_key p (gs_queue s)" by (simp add: shard_key_def [abs_def])
  have "chan_part p pend (close_group s)"
    using part close_waiters_inv close_waiters_chan
    by (auto simp: chan_part_def close_group_def raw_fetch_close_def key)
  then show ?thesis
    using assms by (auto simp: group_inv_def shards_part_def emitted_part_def ready_part_def close_group_def raw_fetch_close_def)
qed

lemma add_dispatched_simps [simp]:
  "group_inv p (add_dispatched (n, s)) = group_inv p s" "gs_pc (add_dispatched (n, s)) = gs_pc s"
  by (simp_all add: add_dispatched_def)

lemma dispatch_group_parity_ok:
  assumes "plan_ok p" "group_inv p s" "dispatch_group_parity p send_ok limit s = (n, s')"
  shows "group_inv p s' \<and> gs_pc s' = gs_pc s"
  using dispatch_shards_inv [OF assms(1) _ assms(2) assms(3) [unfolded dispatch_group_parity_def]] by simp

lemma dispatch_group_recovery_ok:
  assumes ok: "plan_ok p" and inv: "group_inv p s" and run: "dispatch_group_recovery p send_ok limit s = (n, s')"
  shows "group_inv p s' \<and> gs_pc s' = gs_pc s"
proof -
  obtain n1 s1 where one: "dispatch_shards p send_ok [0..<data_count p] limit s = (n1, s1)" by fastforce
  obtain n2 where two: "dispatch_group_parity p send_ok (limit - n1) s1 = (n2, s')"
    using run one by (auto simp: dispatch_group_recovery_def split: prod.splits)
  have "group_inv p s1 \<and> gs_pc s1 = gs_pc s"
    using dispatch_shards_inv [OF ok _ inv one] by (auto simp: data_count_def total_count_def)
  then show ?thesis using dispatch_group_parity_ok [OF ok _ two] by simp
qed

lemma rolling_next_parity_index_Some:
  "rolling_next_parity_index n ds = Some i \<Longrightarrow> n \<le> i \<and> i < length ds \<and> \<not> ds ! i"
  by (auto simp: rolling_next_parity_index_def find_Some_iff)

lemma rolling_turn_ok:
  assumes ok: "plan_ok p" and inv: "group_inv p s" and pc: "gs_pc s \<noteq> Ended True"
  shows "group_inv p (rolling_turn p send_ok e1 e2 s) \<and> gs_pc (rolling_turn p send_ok e1 e2 s) \<noteq> Ended True"
proof -
  have "group_inv p s' \<and> gs_pc s' = gs_pc s" if s': "dispatch_one_rolling_group_parity p send_ok s = Some s'" for s'
  proof -
    obtain i where i: "i < length (gs_dispatched_shards s)" "\<not> gs_dispatched_shards s ! i"
      and s': "s' = dispatch_shard p send_ok DistinctShardManaged i s"
      using s' rolling_next_parity_index_Some by (auto simp: dispatch_one_rolling_group_parity_def)
    have "length (gs_dispatched_shards s) = total_count p" using inv by (auto simp: group_inv_def chan_part_def)
    then show ?thesis
      using dispatch_shard_inv [OF ok _ inv i(2)] i(1)
      by (auto simp: s' dispatch_shard_def Let_def split: prod.splits)
  qed
  then show ?thesis using inv pc by (auto simp: rolling_turn_def split: option.splits)
qed

lemma plain_turn_ok:
  assumes ok: "plan_ok p" and inv: "group_inv p s" and pc: "gs_pc s \<noteq> Ended True"
  shows "group_inv p (plain_turn p send_ok s) \<and> gs_pc (plain_turn p send_ok s) \<noteq> Ended True"
proof -
  obtain n s' where d: "dispatch_group_recovery p send_ok
      (recovery_top_up_count (data_count p) (gs_successes s) (gs_dispatched s) (gs_completed s)) s = (n, s')" by fastforce
  have "group_inv p (top_up p send_ok s) \<and> gs_pc (top_up p send_ok s) = gs_pc s"
    using dispatch_group_recovery_ok [OF ok inv d] inv by (simp add: top_up_def Let_def d)
  then show ?thesis using pc by (auto simp: plain_turn_def Let_def)
qed

lemma group_turn_ok:
  assumes ok: "plan_ok p" and inv: "group_inv p s" and pc: "gs_pc s = Loop"
  shows "run_inv p (group_turn p matrices send_ok e1 e2 s)"
proof -
  obtain pend where part: "chan_part p pend s" using inv by (auto simp: group_inv_def)
  have "\<forall>r \<in> set (group_results s). good_result p r" using chan_part_result [OF ok part] by blast
  moreover have "group_inv p (set_results [] s)" using set_results_inv [OF inv, of "group_results s"] by simp
  ultimately have "group_inv p (settle_all p (group_results s) (set_results [] s)) \<and>
      gs_pc (settle_all p (group_results s) (set_results [] s)) \<noteq> Ended True"
    using settle_all_ok [OF _ ok] pc by simp
  moreover have "run_inv p (group_finish p matrices (close_group s))"
    using group_finish_ok [OF close_group_ok [OF inv] ok, of matrices] by (auto simp: run_inv_def)
  ultimately show ?thesis
    using rolling_turn_ok [OF ok inv] plain_turn_ok [OF ok inv] pc by (auto simp: group_turn_def intro: run_invI)
qed

lemma group_timeout_ok:
  assumes ok: "plan_ok p" and inv: "group_inv p s"
  shows "run_inv p (group_timeout p send_ok action s)"
proof -
  let ?s = "s\<lparr>gs_pc := Loop\<rparr>"
  have s: "group_inv p ?s" using inv by simp
  have "run_inv p ((add_dispatched (dispatch_group_parity p send_ok limit ?s))\<lparr>gs_recovery_dispatched := True\<rparr>)" for limit
    using dispatch_group_parity_ok [OF ok s] by (cases "dispatch_group_parity p send_ok limit ?s") (auto intro!: run_invI)
  moreover have "run_inv p (add_dispatched (dispatch_group_recovery p send_ok limit ?s))" for limit
    using dispatch_group_recovery_ok [OF ok s] by (cases "dispatch_group_recovery p send_ok limit ?s") (auto intro!: run_invI)
  ultimately show ?thesis using s by (auto simp: group_timeout_def Let_def intro: run_invI split: TimeoutAction.splits)
qed

lemma group_receive_ok:
  assumes ok: "plan_ok p" and inv: "group_inv p s" and res: "group_results s = result # rest"
  shows "run_inv p (group_receive p result (set_results rest s))"
proof -
  obtain pend where part: "chan_part p pend s" using inv by (auto simp: group_inv_def)
  have good: "good_result p result" using chan_part_result [OF ok part] res by simp
  have s: "group_inv p ((set_results rest s)\<lparr>gs_pc := Loop\<rparr>)" using set_results_inv [OF inv, of "[result]" rest] res by simp
  show ?thesis
    using settle_next_ok(1,2) [OF s ok good] s
    by (auto simp: group_receive_def Let_def intro!: run_invI split: option.splits)
qed

section \<open>The start\<close>

fun cached_ok :: "GroupPlan \<Rightarrow> usize \<times> RequestedShardCache \<Rightarrow> bool" where
  "cached_ok p (i, DecodedAndRaw d raw) = (decodes_to (gp_keccak p) (gp_verify p) (gp_data p ! i) d \<and>
     good_raw (gp_keccak p) (gp_verify p) (gp_data p ! i) raw)"
| "cached_ok p (i, DecodedOnly d) = decodes_to (gp_keccak p) (gp_verify p) (gp_data p ! i) d"
| "cached_ok p (i, Miss) = True"

lemma inspect_cache_ok:
  assumes "group_inv p s" "inspect_cache p is s = (cs, s')"
  shows "group_inv p s' \<and> (\<exists>c. s' = with_cache c s) \<and> map fst cs = is \<and> (\<forall>x \<in> set cs. cached_ok p x)"
  using assms
proof (induction p "is" s arbitrary: cs s' rule: inspect_cache.induct)
  case (1 p s)
  then show ?case by (auto simp: with_cache_def intro!: exI [of _ "rf_cache (gs_raw s)"])
next
  case (2 p i rest s)
  obtain out s1 where g: "get_cached p (gp_data p ! i) True s = (out, s1)" by fastforce
  let ?c = "case out of None \<Rightarrow> Miss | Some (decoded, Some raw) \<Rightarrow> DecodedAndRaw decoded raw
      | Some (decoded, None) \<Rightarrow> DecodedOnly decoded"
  have one: "requested_shard_cache p (gp_data p ! i) s = (?c, s1)" by (simp add: requested_shard_cache_def g)
  obtain more where two: "inspect_cache p rest s1 = (more, s')" and cs: "cs = (i, ?c) # more"
    using 2(3) one by (auto split: prod.splits)
  note c = get_cached_ok [OF 2(2) g]
  have "cached_ok p (i, ?c)" using c(3,4) by (auto split: option.splits)
  then show ?case using 2(1) [OF one [symmetric] refl c(1) two] c(2) cs by auto
qed

lemma dispatch_initial_inv:
  assumes "plan_ok p" "i < data_count p" "group_inv p s" "\<not> gs_dispatched_shards s ! i"
  shows "group_inv p (dispatch_initial p send_ok demand i s)"
    "gs_requested_ready (dispatch_initial p send_ok demand i s) = gs_requested_ready s"
    "gs_dispatched_shards (dispatch_initial p send_ok demand i s) = (gs_dispatched_shards s)[i := True]"
    "gs_pc (dispatch_initial p send_ok demand i s) = gs_pc s"
  using assms dispatch_shard_inv [OF assms(1) _ assms(3,4), of send_ok demand]
  by (auto simp: dispatch_initial_def total_count_def data_count_def)
     (simp_all add: add_dispatched_def dispatch_shard_def Let_def split: prod.splits)

lemma dispatched_mark_ok:
  assumes "group_inv p s" shows "group_inv p (s\<lparr>gs_dispatched_shards := (gs_dispatched_shards s)[i := True]\<rparr>)"
proof -
  obtain pend where "chan_part p pend s" using assms by (auto simp: group_inv_def)
  moreover have "xs ! x \<Longrightarrow> xs[i := True] ! x" for xs and x :: nat
    by (cases "i < length xs"; cases "x = i") (simp_all add: list_update_beyond not_less)
  ultimately have "chan_part p pend (s\<lparr>gs_dispatched_shards := (gs_dispatched_shards s)[i := True]\<rparr>)"
    by (auto simp: chan_part_def)
  then show ?thesis using assms by (auto simp: group_inv_def shards_part_def emitted_part_def ready_part_def)
qed

definition untouched :: "GroupPlan \<Rightarrow> GroupState \<Rightarrow> nat set \<Rightarrow> bool" where
  "untouched p s is \<longleftrightarrow> (\<forall>i \<in> is. i \<in> set (gp_requested p) \<and> i < data_count p \<and>
     \<not> gs_requested_ready s ! i \<and> \<not> gs_dispatched_shards s ! i)"

lemma start_inspected_ok:
  assumes "plan_ok p" "group_inv p s" "distinct (map fst cs)" "untouched p s (fst ` set cs)" "\<forall>x \<in> set cs. cached_ok p x"
    "gs_pc s = Loop"
  shows "group_inv p (start_inspected p send_ok cs s) \<and> gs_pc (start_inspected p send_ok cs s) = Loop"
  using assms
proof (induction cs arbitrary: s)
  case (Cons x cs)
  obtain i c where x: "x = (i, c)" by (cases x)
  have i: "i \<in> set (gp_requested p)" "i < data_count p" "\<not> gs_requested_ready s ! i" "\<not> gs_dispatched_shards s ! i"
    "i \<notin> fst ` set cs"
    using Cons(4,5) x by (auto simp: untouched_def)
  have rest: "untouched p t (fst ` set cs)"
    if "gs_requested_ready t = (gs_requested_ready s) \<or> gs_requested_ready t = (gs_requested_ready s)[i := True]"
      "gs_dispatched_shards t = gs_dispatched_shards s \<or> gs_dispatched_shards t = (gs_dispatched_shards s)[i := True]" for t
    using Cons(5) i(5) that x by (auto simp: untouched_def) (metis i(5) image_eqI nth_list_update_neq fst_conv)+
  note IH = Cons(1) [OF Cons(2)]
  show ?case
  proof (cases c)
    case (DecodedAndRaw d raw)
    let ?s = "mark_ready i (emit_child i d s)"
    have s: "group_inv p ?s" using emit_ready_ok [OF Cons(3) i(1-3)] Cons(6) x DecodedAndRaw by simp
    have good: "i < total_count p" "good_raw (gp_keccak p) (gp_verify p) (shard_ref p i) raw"
      using i(2) Cons(6) x DecodedAndRaw by (auto simp: shard_ref_def total_count_def data_count_def)
    have "group_inv p (?s\<lparr>gs_received_shards := (gs_received_shards ?s)[i := Some raw],
        gs_authenticated_shards := (gs_authenticated_shards ?s)[i := True],
        gs_dispatched_shards := (gs_dispatched_shards ?s)[i := True]\<rparr>)"
      using dispatched_mark_ok [OF received_ok [OF s good], of i] by simp
    then show ?thesis
      using IH [OF s] IH [of "?s\<lparr>gs_received_shards := (gs_received_shards ?s)[i := Some raw],
        gs_authenticated_shards := (gs_authenticated_shards ?s)[i := True],
        gs_dispatched_shards := (gs_dispatched_shards ?s)[i := True], gs_successes := gs_successes ?s + 1\<rparr>"]
        Cons(4,6,7) x DecodedAndRaw rest by (auto simp: Let_def mark_ready_def emit_child_def)
  next
    case (DecodedOnly d)
    let ?s = "mark_ready i (emit_child i d s)"
    have s: "group_inv p ?s" using emit_ready_ok [OF Cons(3) i(1-3)] Cons(6) x DecodedOnly by simp
    then show ?thesis
      using IH [OF s] Cons(4,6,7) x DecodedOnly rest by (auto simp: mark_ready_def emit_child_def)
  next
    case Miss
    then show ?thesis
      using IH [OF dispatch_initial_inv(1) [OF Cons(2) i(2) Cons(3) i(4)]] dispatch_initial_inv(2-) [OF Cons(2) i(2) Cons(3) i(4)]
        Cons(4,6,7) x rest by auto
  qed
qed simp

lemma start_partial_ok:
  assumes "plan_ok p" "group_inv p s" "distinct is" "untouched p s (set is)" "gs_pc s = Loop"
  shows "group_inv p (start_partial p send_ok is s) \<and> gs_pc (start_partial p send_ok is s) = Loop"
  using assms
proof (induction "is" arbitrary: s)
  case (Cons i "is")
  obtain out s1 where g: "cached_decoded_chunk p (gp_data p ! i) s = (out, s1)" by fastforce
  note c = cached_decoded_chunk_ok [OF Cons(3) g]
  have i: "i \<in> set (gp_requested p)" "i < data_count p" "\<not> gs_requested_ready s1 ! i" "\<not> gs_dispatched_shards s1 ! i"
    "gs_pc s1 = Loop" "i \<notin> set is"
    using Cons(4-6) c(2) by (auto simp: untouched_def)
  have rest: "untouched p t (set is)"
    if "gs_requested_ready t = (gs_requested_ready s1) \<or> gs_requested_ready t = (gs_requested_ready s1)[i := True]"
      "gs_dispatched_shards t = gs_dispatched_shards s1 \<or> gs_dispatched_shards t = (gs_dispatched_shards s1)[i := True]" for t
    using Cons(4,5) that i(6) c(2) by (auto simp: untouched_def) (metis nth_list_update_neq)+
  note IH = Cons(1) [OF Cons(2)]
  show ?case
  proof (cases out)
    case None
    then show ?thesis
      using IH [OF dispatch_initial_inv(1) [OF Cons(2) i(2) c(1) i(4)]] dispatch_initial_inv(2-) [OF Cons(2) i(2) c(1) i(4)]
        Cons(4) g rest i(5) by auto
  next
    case (Some d)
    have s: "group_inv p (mark_ready i (emit_child i d s1))" using emit_ready_ok [OF c(1) i(1-3)] c(3) Some by simp
    then show ?thesis
      using IH [OF s] Cons(4) g rest i(5) Some by (auto simp: mark_ready_def emit_child_def)
  qed
qed simp

lemma plan_rolling_simps [simp]:
  "group_inv (p\<lparr>gp_rolling := b\<rparr>) s = group_inv p s" "plan_ok (p\<lparr>gp_rolling := b\<rparr>) = plan_ok p"
  "cached_ok (p\<lparr>gp_rolling := b\<rparr>) x = cached_ok p x" "untouched (p\<lparr>gp_rolling := b\<rparr>) s is = untouched p s is"
proof -
  have "data_count (p\<lparr>gp_rolling := b\<rparr>) = data_count p" "total_count (p\<lparr>gp_rolling := b\<rparr>) = total_count p"
    "shard_ref (p\<lparr>gp_rolling := b\<rparr>) = shard_ref p" "shard_key (p\<lparr>gp_rolling := b\<rparr>) = shard_key p"
    by (auto simp: data_count_def total_count_def shard_ref_def shard_key_def fun_eq_iff)
  then show "group_inv (p\<lparr>gp_rolling := b\<rparr>) s = group_inv p s" "plan_ok (p\<lparr>gp_rolling := b\<rparr>) = plan_ok p"
    "cached_ok (p\<lparr>gp_rolling := b\<rparr>) x = cached_ok p x" "untouched (p\<lparr>gp_rolling := b\<rparr>) s is = untouched p s is"
    by (simp_all add: group_inv_def group_parts plan_ok_def untouched_def, cases "(p, x)" rule: cached_ok.cases, auto)
qed

lemma group_state_inv:
  assumes "raw_inv (gp_keccak p) (gp_verify p) raw" "fresh_channel (rfq_chan q) raw"
  shows "group_inv p (group_state raw q (data_count p) (total_count p))"
proof -
  have "chan_waiters (rfq_chan q) (entry_waiters flight) = []" if "flights (rf_flights raw) key = Some flight" for key flight
    using assms(2) that by (fastforce simp: fresh_channel_def chan_waiters_def filter_empty_conv)
  then have "chan_part p {} (group_state raw q (data_count p) (total_count p))"
    using assms by (auto simp: chan_part_def chan_inv_def group_state_def fresh_channel_def)
  then show ?thesis
    by (auto simp: group_inv_def shards_part_def emitted_part_def ready_part_def group_state_def)
qed

lemma group_start_ok:
  assumes raw: "raw_inv keccak verify raw" "fresh_channel (rfq_chan q) raw" and d: "distinct requested"
    and run: "group_start keccak verify limit send_ok q raw (ds, ps, encrypted, requested) = Some (p, s)"
  shows "run_inv p s" "group_request_ok (ds, ps, encrypted, requested) \<Longrightarrow> plan_ok p \<and> gs_pc s = Loop"
    "\<not> group_request_ok (ds, ps, encrypted, requested) \<Longrightarrow> gs_pc s = Ended False"
    "gp_keccak p = keccak" "gp_verify p = verify" "gp_limit p = limit" "gp_data p = ds" "gp_parity p = ps" "gp_requested p = requested"
proof -
  define p0 where "p0 = \<lparr>gp_keccak = keccak, gp_verify = verify, gp_limit = limit, gp_data = ds, gp_parity = ps,
    gp_requested = requested, gp_rolling = False\<rparr>"
  define s0 where "s0 = group_state raw q (data_count p0) (total_count p0)"
  have inv: "group_inv p0 s0" unfolding s0_def by (rule group_state_inv) (use raw in \<open>simp_all add: p0_def\<close>)
  have fields: "gp_keccak p0 = keccak" "gp_verify p0 = verify" "gp_limit p0 = limit" "gp_data p0 = ds" "gp_parity p0 = ps"
    "gp_requested p0 = requested" by (simp_all add: p0_def)
  note start = run [unfolded group_start_def prod.case, folded p0_def, unfolded Let_def, folded s0_def]
  have all: "run_inv p s \<and> (group_request_ok (ds, ps, encrypted, requested) \<longrightarrow> plan_ok p \<and> gs_pc s = Loop) \<and>
    (\<not> group_request_ok (ds, ps, encrypted, requested) \<longrightarrow> gs_pc s = Ended False) \<and>
    gp_keccak p = keccak \<and> gp_verify p = verify \<and> gp_limit p = limit \<and> gp_data p = ds \<and> gp_parity p = ps \<and> gp_requested p = requested"
  proof (cases "group_request_ok (ds, ps, encrypted, requested)")
    case False
    then have "p = p0" "s = group_end False s0" using start by auto
    then show ?thesis using inv False fields by (auto simp: run_inv_def end_inv_def group_inv_def emitted_part_def)
  next
    case True
    then have range: "\<forall>i \<in> set requested. i < length ds" using start by (auto split: if_splits)
    have ok: "plan_ok p0"
      using True range d fields by (auto simp: plan_ok_def group_request_ok_def data_count_def sizes split: if_splits)
    have fresh: "untouched p0 (with_cache c s0) (set requested)" for c
      using range by (auto simp: untouched_def s0_def group_state_def data_count_def total_count_def fields)
    then have fresh0: "untouched p0 s0 (set requested)" by (auto simp: untouched_def)
    have pc: "gs_pc s0 = Loop" by (simp add: s0_def group_state_def)
    show ?thesis
    proof (cases "rolling_full_group_static_candidate (length requested) (length ds) (length ps)")
      case False
      then have ps: "p = p0" "s = start_partial p0 send_ok requested s0" using start True range by auto
      have "group_inv p s \<and> gs_pc s = Loop" using start_partial_ok [OF ok inv d fresh0 pc] ps by simp
      then show ?thesis using True fields ok by (auto simp: ps(1) intro: run_invI)
    next
      case rolling: True
      obtain cached s1 where c: "inspect_cache p0 requested s0 = (cached, s1)" by fastforce
      note i = inspect_cache_ok [OF inv c]
      obtain b where ps: "p = p0\<lparr>gp_rolling := b\<rparr>" "s = start_inspected p send_ok cached s1"
        using start True range rolling c by auto
      obtain cc where cc: "s1 = with_cache cc s0" using i by blast
      have "group_inv p s \<and> gs_pc s = Loop"
        using start_inspected_ok [of p s1 cached send_ok] ok i d fresh [of cc] pc ps by (auto simp: cc simp flip: set_map)
      then show ?thesis using True fields ok by (auto simp: ps(1) intro: run_invI)
    qed
  qed
  then show "run_inv p s" "group_request_ok (ds, ps, encrypted, requested) \<Longrightarrow> plan_ok p \<and> gs_pc s = Loop"
    "\<not> group_request_ok (ds, ps, encrypted, requested) \<Longrightarrow> gs_pc s = Ended False"
    "gp_keccak p = keccak" "gp_verify p = verify" "gp_limit p = limit" "gp_data p = ds" "gp_parity p = ps" "gp_requested p = requested"
    by simp_all
qed

section \<open>Runs\<close>

lemma ended_stuck:
  assumes "group_step replies cancellable p s s'" shows "gs_pc s \<noteq> Ended b"
  using assms by (cases rule: group_step.cases) auto

context chunk_service
begin

lemma run_inv_step:
  assumes step: "group_step replies cancellable p s s'" and inv: "run_inv p s" and ok: "plan_ok p"
    and env: "gp_keccak p = keccak" "gp_verify p = verify"
  shows "run_inv p s'"
proof -
  have live: "\<And>b. gs_pc s \<noteq> Ended b" using ended_stuck [OF step] .
  then have g: "group_inv p s" using inv by (simp add: run_inv_def)
  from step show ?thesis
  proof (cases rule: group_step.cases)
    case (turn matrices send_ok elapsed1 elapsed2)
    then show ?thesis using group_turn_ok [OF ok g] by simp
  next
    case (receive action result rest)
    then show ?thesis using group_receive_ok [OF ok g] by simp
  next
    case (timeout action send_ok)
    then show ?thesis using group_timeout_ok [OF ok g] by simp
  next
    case (others raw)
    obtain pend where part: "chan_part p pend s" using g by (auto simp: group_inv_def)
    then have "chan_part p pend (s\<lparr>gs_raw := raw\<rparr>)"
      using others raw_inv_step others_chan env by (auto simp: chan_part_def)
    then have "group_inv p (s\<lparr>gs_raw := raw\<rparr>)"
      using g by (auto simp: group_inv_def shards_part_def emitted_part_def ready_part_def)
    then show ?thesis using others live by (auto intro: run_invI)
  next
    case cancelled
    then show ?thesis using g by (auto intro: run_invI)
  qed
qed

lemma group_fetch_inv:
  assumes "fetch_data_group_indices_streaming keccak replies verify limit cancellable (ds, ps, enc, req) (ems, success)"
    "distinct req"
  obtains p s where "gp_keccak p = keccak" "gp_verify p = verify" "gp_data p = ds" "gp_requested p = req"
    "end_inv p s" "gs_emitted s = ems" "gs_pc s = Ended success"
  using assms(1)
proof (cases rule: fetch_data_group_indices_streaming.cases)
  case (1 raw q send_ok p s0 s)
  have raw: "raw_inv keccak verify raw" using raw_inv_reachable [OF 1(2)] .
  note start = group_start_ok [OF raw 1(4) assms(2) 1(5)]
  have "run_inv p s"
    using 1(6)
  proof induction
    case base
    show ?case using start(1) .
  next
    case (step s s')
    have "group_request_ok (ds, ps, enc, req)"
    proof (rule ccontr)
      assume "\<not> group_request_ok (ds, ps, enc, req)"
      then have "gs_pc s0 = Ended False" using start(3) by blast
      then have "s = s0" using step(1) ended_stuck by (metis converse_rtranclpE)
      then show False using ended_stuck [OF step(2)] \<open>gs_pc s0 = Ended False\<close> by simp
    qed
    then show ?case using run_inv_step [OF step(2,3)] start(2,4,5) by blast
  qed
  then show ?thesis using that [of p s] start(4,5,7,9) 1(1,7) by (auto simp: run_inv_def)
qed

end

text \<open>The contract of the group fetch towards the range reader.\<close>

definition deliverable :: "(bytes \<Rightarrow> bytes) \<Rightarrow> bool \<Rightarrow> bool \<Rightarrow> bytes \<Rightarrow> DecodedJoinChunk \<Rightarrow> bool" where
  "deliverable keccak verify encrypted reference chunk \<longleftrightarrow> decodes_to keccak verify reference chunk"

end
