(* ===== verification/RangeRead.thy ===== *)
theory RangeRead
  imports JoinRead GroupSafety
begin

text \<open>
  Range reads over the whole stack: the traversal, the group fetches, the raw fetches, the cache
  and the chunk service.  The group fetch provides what the traversal relies on, so what a read
  returns is held by a tree of chunks whose content addresses are their references; two reads can
  only differ if the hash collides.
\<close>

sublocale chunk_service \<subseteq> fetch: group_fetcher
  "fetch_data_group_indices_streaming keccak replies verify limit cancellable" "deliverable keccak verify"
  for limit cancellable
proof
  fix ds ps enc req ems success
  assume run: "fetch_data_group_indices_streaming keccak replies verify limit cancellable (ds, ps, enc, req) (ems, success)"
    and d: "distinct req"
  obtain p s where p: "gp_keccak p = keccak" "gp_verify p = verify" "gp_data p = ds" "gp_requested p = req"
    and s: "end_inv p s" "gs_emitted s = ems" "gs_pc s = Ended success"
    using group_fetch_inv [OF run d] by blast
  show "distinct (map fst ems) \<and> set (map fst ems) \<subseteq> set req"
    using s p by (auto simp: end_inv_def emitted_part_def)
  show "deliverable keccak verify enc (ds ! k) c" if "(k, c) \<in> set ems" for k c
    using s p that by (auto simp: end_inv_def emitted_part_def deliverable_def)
next
  fix ds ps enc req ems
  assume run: "fetch_data_group_indices_streaming keccak replies verify limit cancellable (ds, ps, enc, req) (ems, True)"
    and d: "distinct req"
  obtain p s where "gp_requested p = req" "end_inv p s" "gs_emitted s = ems" "gs_pc s = Ended True"
    using group_fetch_inv [OF run d] by blast
  then show "set req \<subseteq> set (map fst ems)" by (auto simp: end_inv_def)
qed

text \<open>A read without a cancel token ends only with a result of the traversal.\<close>

definition range_returns ::
  "(group_request \<Rightarrow> group_trace \<Rightarrow> bool) \<Rightarrow> (usize \<Rightarrow> bool) \<Rightarrow> DecodedJoinChunk \<Rightarrow> u64 \<Rightarrow> u64 \<Rightarrow>
   bool \<Rightarrow> bytes \<Rightarrow> bytes option \<Rightarrow> bool" where
  "range_returns groups memory rootc payload_start payload_end encrypted output_prefix r =
     (case join_start memory rootc payload_start payload_end encrypted output_prefix of
        Inl r' \<Rightarrow> r = r'
      | Inr (rq, s0) \<Rightarrow> \<exists>s. (join_step groups rq)\<^sup>*\<^sup>* s0 s \<and> js_result s = Some r)"

lemma range_returns_read:
  "range_returns groups memory rootc payload_start payload_end encrypted output_prefix r \<Longrightarrow>
     range_read groups memory rootc payload_start payload_end encrypted output_prefix r"
  unfolding range_returns_def by (auto split: sum.splits intro: range_read.at_once range_read.walked)

text \<open>Reading a leaf from its first byte to its last: there is one outcome.\<close>

lemma leaf_returns:
  assumes n: "unat (jc_span c) = length (jc_payload c)" "jc_payload c \<noteq> []" "length (jc_payload c) \<le> CHUNK_SIZE"
  shows "range_returns groups (\<lambda>_. True) c 0 (jc_span c - 1) encrypted [] r \<longleftrightarrow> r = Some (jc_payload c)"
proof -
  let ?n = "length (jc_payload c)"
  let ?rq = "\<lparr>rq_start = 0, rq_end = jc_span c - 1, rq_encrypted = encrypted, rq_prefix = []\<rparr>"
  let ?node = "\<lparr>tn_start = 0, tn_depth = 0, tn_chunk = c\<rparr>"
  let ?s0 = "\<lparr>js_output = replicate ?n 0, js_written = 0, js_pending = [?node], js_groups = [], js_channel = [],
    js_active = 0, js_result = None\<rparr>"
  let ?s1 = "?s0\<lparr>js_pending := [], js_output := jc_payload c, js_written := jc_span c\<rparr>"
  let ?s2 = "?s1\<lparr>js_result := Some (Some (jc_payload c))\<rparr>"
  let ?step = "join_step groups ?rq"
  have pos: "0 < unat (jc_span c)" using n(1,2) by simp
  then have le1: "1 \<le> jc_span c" unfolding word_le_nat_alt unat_1 by linarith
  have nz: "jc_span c \<noteq> 0" using pos by auto
  have one_less: "unat (jc_span c - 1) = ?n - 1" using le1 n(1) by (simp add: unat_sub)
  have again: "checked_add (jc_span c - 1) 1 = Some (jc_span c)"
    using one_less pos n by (simp add: checked_add_def sizes)
  have start: "join_start (\<lambda>_. True) c 0 (jc_span c - 1) encrypted [] = Inr (?rq, ?s0)"
    using nz again n(3) by (simp add: join_start_def checked_sub_def allocate_join_output_def n(1) usize_checked_add_def
        usize_bound_def sizes)
  have "copy_bytes ?rq ?node 0 (jc_span c - 1) (replicate ?n 0) 0 = Some (jc_payload c, jc_span c)"
    using n(3) again by (simp add: copy_bytes_def checked_sub_def checked_add_def usize_checked_add_def usize_bound_def sizes
        n(1) splice_def)
  then have pop: "pop_node ?rq ?node ?s0 = PopLeaf (jc_payload c) (jc_span c)"
    using n(3) le1 by (simp add: pop_node_def BEE_MAX_UPLOAD_TREE_LEVELS_def leaf_copy_def leaf_end_def n(1) checked_sub_def
        checked_add_def max_def min_def sizes)
  have fin: "join_finish ?rq ?s1 = Some (jc_payload c)"
    using one_less pos n(1) by (simp add: join_finish_def requested_len_def)
  have one: "?step ?s0 s \<longleftrightarrow> s = ?s1" for s
    using pop by (auto simp: join_step.simps RETRIEVE_DATA_GROUP_CONCURRENCY_def)
  have two: "?step ?s1 s \<longleftrightarrow> s = ?s2" for s
    using fin by (auto simp: join_step.simps)
  have three: "\<not> ?step ?s2 s" for s by (auto simp: join_step.simps)
  have "?step\<^sup>*\<^sup>* ?s0 s \<Longrightarrow> s \<in> {?s0, ?s1, ?s2}" for s
    by (induction rule: rtranclp_induct) (use one two three in blast)+
  moreover have "?step\<^sup>*\<^sup>* ?s0 ?s2"
    using one [of ?s1] two [of ?s2] by (meson converse_rtranclp_into_rtranclp r_into_rtranclp)
  ultimately have "(\<exists>s. ?step\<^sup>*\<^sup>* ?s0 s \<and> js_result s = Some r) \<longleftrightarrow> r = Some (jc_payload c)"
    by fastforce
  then show ?thesis by (simp add: range_returns_def start)
qed

section \<open>The bytes of a tree are determined\<close>

lemma holds_byte_region:
  "holds_byte delivers encrypted start chunk p b \<Longrightarrow> start \<le> p \<and> p < start + unat (jc_span chunk)"
proof (induction rule: holds_byte.induct)
  case (inner chunk layout ds ps k child start p b)
  let ?ctx = "\<lparr>ctx_parent_start = 0, ctx_parent_span = jc_span chunk, ctx_parent_depth = 0,
    ctx_child_capacity = child_capacity layout, ctx_child_count = data_shards layout\<rparr>"
  have ok: "ctx_ok ?ctx" using reference_layout_covers [OF inner(2)] by (simp add: ctx_ok_def)
  have "p - start \<in> child_region ?ctx k"
    using inner(6,8) by (auto simp: child_region_def child_begin_def child_room_def)
  from child_region_index(3) [OF ok _ this] inner(4,8) show ?case by auto
qed auto

lemma holds_byte_functional:
  assumes "\<And>reference c c'. delivers encrypted reference c \<Longrightarrow> delivers' encrypted reference c' \<Longrightarrow> c = c'"
    "holds_byte delivers encrypted start chunk p b" "holds_byte delivers' encrypted start chunk p b'"
  shows "b = b'"
  using assms(2,3)
proof (induction arbitrary: b' rule: holds_byte.induct)
  case (leaf chunk i start)
  then show ?case by (auto elim: holds_byte.cases)
next
  case (inner chunk layout ds ps k child start p b)
  let ?ctx = "\<lparr>ctx_parent_start = 0, ctx_parent_span = jc_span chunk, ctx_parent_depth = 0,
    ctx_child_capacity = child_capacity layout, ctx_child_count = data_shards layout\<rparr>"
  have ok: "ctx_ok ?ctx" using reference_layout_covers [OF inner(2)] by (simp add: ctx_ok_def)
  have idx: "j = (p - start) div unat (child_capacity layout)"
    if "j < data_shards layout" "unat (jc_span c) \<le>
        child_limit (unat (jc_span chunk)) (unat (child_capacity layout)) (data_shards layout) j"
      "holds_byte d encrypted (start + unat (child_capacity layout) * j) c p x" for j c x d
  proof -
    have "p - start \<in> child_region ?ctx j"
      using holds_byte_region [OF that(3)] that(2) by (auto simp: child_region_def child_begin_def child_room_def)
    from child_region_index(1) [OF ok _ this] that(1) show ?thesis by simp
  qed
  from inner(9) inner(1,2,3) obtain j c where j: "j < data_shards layout" "delivers' encrypted (ds ! j) c"
    "unat (jc_span c) \<le> child_limit (unat (jc_span chunk)) (unat (child_capacity layout)) (data_shards layout) j"
    "holds_byte delivers' encrypted (start + unat (child_capacity layout) * j) c p b'"
    by (cases rule: holds_byte.cases) auto
  have "j = k" using idx [OF j(1,3,4)] idx [OF inner(4,6,7)] by simp
  then have "c = child" using assms(1) j(2) inner(5) by blast
  then show ?case using inner(8) j(4) \<open>j = k\<close> by blast
qed

section \<open>What the groups of one read delivered\<close>

text \<open>
  A read is described by the group fetches it performed, any subset of the possible ones.  The
  bytes it returns are then held by the very chunks that these fetches emitted.
\<close>

definition emitted :: "(group_request \<Rightarrow> group_trace \<Rightarrow> bool) \<Rightarrow> bool \<Rightarrow> bytes \<Rightarrow> DecodedJoinChunk \<Rightarrow> bool" where
  "emitted groups encrypted reference c \<longleftrightarrow>
     (\<exists>ds ps req ems success k. groups (ds, ps, encrypted, req) (ems, success) \<and> (k, c) \<in> set ems \<and> ds ! k = reference)"

definition delivered ::
  "(bytes \<Rightarrow> bytes) \<Rightarrow> bool \<Rightarrow> (group_request \<Rightarrow> group_trace \<Rightarrow> bool) \<Rightarrow> bool \<Rightarrow> bytes \<Rightarrow> DecodedJoinChunk \<Rightarrow> bool" where
  "delivered keccak verify groups encrypted reference c \<longleftrightarrow>
     emitted groups encrypted reference c \<and> deliverable keccak verify encrypted reference c"

context chunk_service
begin

lemma performed_fetches:
  assumes "\<And>request trace. groups request trace \<Longrightarrow>
    fetch_data_group_indices_streaming keccak replies verify limit cancellable request trace"
  shows "group_fetcher groups (delivered keccak verify groups)"
proof
  fix ds ps enc req ems success
  assume run: "groups (ds, ps, enc, req) (ems, success)" and d: "distinct req"
  show "distinct (map fst ems) \<and> set (map fst ems) \<subseteq> set req"
    by (rule fetch.trace_indices [OF assms [OF run] d])
  show "delivered keccak verify groups enc (ds ! k) c" if "(k, c) \<in> set ems" for k c
    unfolding delivered_def emitted_def using fetch.trace_delivers [OF assms [OF run] d that] run that by blast
next
  fix ds ps enc req ems
  assume "groups (ds, ps, enc, req) (ems, True)" "distinct req"
  then show "set req \<subseteq> set (map fst ems)" by (rule fetch.trace_complete [OF assms])
qed

lemmas performed_read = group_fetcher.range_read_some [OF performed_fetches]

end

text \<open>Two trees below one root hold the same bytes unless they differ in a chunk.\<close>

context chunk_service
begin

lemma read_exact:
  assumes "\<And>request trace. groups request trace \<Longrightarrow>
      fetch_data_group_indices_streaming keccak replies verify limit cancellable request trace"
    "range_read groups memory rootc payload_start payload_end encrypted output_prefix (Some out)"
    "\<And>i. i < range_len rootc payload_start payload_end \<Longrightarrow>
      holds_byte (\<lambda>_ reference c. file reference = Some c) encrypted 0 rootc (unat payload_start + i) (content i)"
  shows "out = output_prefix @ map content [0..<range_len rootc payload_start payload_end] \<or>
    (\<exists>reference c c'. emitted groups encrypted reference c \<and> file reference = Some c' \<and> c \<noteq> c' \<and>
       deliverable keccak verify encrypted reference c)"
proof (cases "\<forall>reference c c'. delivered keccak verify groups encrypted reference c \<longrightarrow> file reference = Some c' \<longrightarrow> c = c'")
  case True
  note r = performed_read [OF assms(1,2)]
  let ?l = "length output_prefix"
  have "out ! (?l + i) = content i" if "i < range_len rootc payload_start payload_end" for i
    using holds_byte_functional [of "delivered keccak verify groups" encrypted "\<lambda>_ reference c. file reference = Some c"]
      True r assms(3) [OF that] that by blast
  then have "drop ?l out = map content [0..<range_len rootc payload_start payload_end]"
    using r by (intro nth_equalityI) simp_all
  then show ?thesis using r by (metis append_take_drop_id)
next
  case False
  then show ?thesis by (auto simp: delivered_def)
qed

end

section \<open>An example\<close>

definition example_leaf :: DecodedJoinChunk where
  "example_leaf = \<lparr>jc_level = Level_None, jc_span = 3, jc_payload = [7, 8, 9]\<rparr>"

lemma example_leaf_read: "range_read group_trace (\<lambda>_. True) example_leaf 1 9 False [5] (Some [5, 8, 9])"
proof -
  let ?rq = "\<lparr>rq_start = 1, rq_end = 2, rq_encrypted = False, rq_prefix = [5]\<rparr>"
  let ?node = "\<lparr>tn_start = 0, tn_depth = 0, tn_chunk = example_leaf\<rparr>"
  let ?s0 = "\<lparr>js_output = [5, 0, 0], js_written = 0, js_pending = [?node], js_groups = [], js_channel = [],
    js_active = 0, js_result = None\<rparr>"
  let ?s1 = "?s0\<lparr>js_pending := [], js_output := [5, 8, 9], js_written := 2\<rparr>"
  have rep: "replicate 2 (0 :: u8) = [0, 0]" by (simp add: numeral_2_eq_2)
  have start: "join_start (\<lambda>_. True) example_leaf 1 9 False [5] = Inr (?rq, ?s0)"
    by (simp add: join_start_def example_leaf_def checked_sub_def checked_add_def allocate_join_output_def
        usize_checked_add_def usize_bound_def rep min_def word_le_nat_alt)
  have "pop_node ?rq ?node ?s0 = PopLeaf [5, 8, 9] 2"
    by (simp add: pop_node_def BEE_MAX_UPLOAD_TREE_LEVELS_def leaf_copy_def leaf_end_def copy_bytes_def example_leaf_def
        checked_sub_def checked_add_def usize_checked_add_def usize_bound_def sizes splice_def max_def min_def)
  then have "join_step group_trace ?rq ?s0 ?s1"
    using join_step.pop_leaf [of ?s0 ?node "[]" ?rq "[5, 8, 9]" 2 group_trace]
    by (simp add: RETRIEVE_DATA_GROUP_CONCURRENCY_def)
  moreover have "join_step group_trace ?rq ?s1 (?s1\<lparr>js_result := Some (join_finish ?rq ?s1)\<rparr>)"
    by (rule join_step.finish) simp_all
  ultimately have run: "(join_step group_trace ?rq)\<^sup>*\<^sup>* ?s0 (?s1\<lparr>js_result := Some (join_finish ?rq ?s1)\<rparr>)"
    by (meson converse_rtranclp_into_rtranclp r_into_rtranclp)
  show ?thesis
    by (rule range_read.walked [OF start run]) (simp add: join_finish_def requested_len_def)
qed

section \<open>Properties\<close>



text \<open>
  A range read returns the file: if the range below the root holds certain bytes in the tree
  that was uploaded, a read that returns gives the prefix and these bytes, unless a group fetch of
  the read accepted, under a reference of that tree, another chunk that still has the reference as
  its content address.
\<close>

theorem range_read_exact:
  assumes "\<And>request trace. groups request trace \<Longrightarrow>
      fetch_data_group_indices_streaming keccak (chunk_replies keccak curve True) True limit cancellable request trace"
    "range_read groups memory rootc payload_start payload_end encrypted output_prefix (Some out)"
    "\<And>i. i < range_len rootc payload_start payload_end \<Longrightarrow>
      holds_byte (\<lambda>_ reference c. file reference = Some c) encrypted 0 rootc (unat payload_start + i) (content i)"
  shows "out = output_prefix @ map content [0..<range_len rootc payload_start payload_end] \<or>
    (\<exists>reference c c'. emitted groups encrypted reference c \<and> file reference = Some c' \<and> c \<noteq> c' \<and>
       deliverable keccak True encrypted reference c)"
  by (rule retrieval.read_exact [OF assms])

theorem range_read_exact_witness:
  "[5, 8, 9 :: u8] = [5] @ map (\<lambda>i. [8, 9] ! i) [0..<2] \<or>
    (\<exists>reference c c'. emitted (\<lambda>_ _. False) False reference c \<and> (Some example_leaf) = Some c' \<and> c \<noteq> c' \<and>
       deliverable example_keccak True False reference c)"
proof -
  have len: "range_len example_leaf 1 9 = 2" by (simp add: range_len_def example_leaf_def word_le_nat_alt)
  have "holds_byte (\<lambda>_ reference c. Some example_leaf = Some c) False 0 example_leaf (unat (1 :: u64) + i) ([8, 9] ! i)"
    if "i < range_len example_leaf 1 9" for i
    using holds_byte.leaf [of example_leaf "1 + i" "\<lambda>_ reference c. Some example_leaf = Some c" False 0] that
    by (simp add: len) (simp add: example_leaf_def sizes)
  from range_read_exact [OF _ example_leaf_read this, where groups = "\<lambda>_ _. False" and keccak = example_keccak and curve = example_curve
      and limit = 1 and cancellable = False]
  show ?thesis by (simp only: len)
qed

end
