(* ===== verification/FeedFetch.thy ===== *)
theory FeedFetch
  imports Feed RangeRead "HOL-Library.Sublist"
begin

text \<open>
  Feed updates over the network: the probe of one index and the search for the newest update
  (\<open>retrieval.rs\<close>), and the payload behind an update (\<open>bzz_stream.rs\<close>).  A probe answers
  with whatever the chunk service replied to the request for a single-owner chunk; a payload is
  read through the range reader.  An update that a probe finds was signed by the owner of the feed
  for exactly the probed index, whether or not content addresses are verified.
\<close>

section \<open>Probing one index\<close>

text \<open>
  What becomes of the request: it could not be sent, its answer was dropped, or it was answered,
  with the single-owner chunk that a retrieval returned or with nothing when the request was turned
  away or the retrieval failed.
\<close>

datatype ProbeAnswer = NotSent | Dropped | Answered "bytes option"

definition answer_payload :: "(bytes \<Rightarrow> bytes) \<Rightarrow> bytes option \<Rightarrow> bytes" where
  "answer_payload keccak retrieved =
     (case retrieved of
        None \<Rightarrow> []
      | Some soc \<Rightarrow> (case decode_retrieved_chunk keccak soc True [] False of Some (Some payload) \<Rightarrow> payload | _ \<Rightarrow> []))"

definition get_feed_probe_chunk :: "(bytes \<Rightarrow> bytes) \<Rightarrow> ProbeAnswer \<Rightarrow> bytes FeedProbe" where
  "get_feed_probe_chunk keccak a =
     (case a of
        NotSent \<Rightarrow> Transient
      | Dropped \<Rightarrow> Transient
      | Answered retrieved \<Rightarrow>
          (let payload = answer_payload keccak retrieved in if payload \<noteq> [] then Found payload else Missing))"

text \<open>
  The network a feed is read over: the hash and the curve, the decoder of hexadecimal text, and
  what happened during the run: what became of the requests for an address the group fetches
  that were performed and the allocations that were granted.  The first two are subsets of what the
  lower layers allow.
\<close>

record 'sig feed_net =
  fn_keccak :: "bytes \<Rightarrow> bytes"
  fn_curve :: "'sig ecdsa"
  fn_hex :: "string \<Rightarrow> bytes option"
  fn_answers :: "bytes \<Rightarrow> ProbeAnswer \<Rightarrow> bool"
  fn_groups :: "group_request \<Rightarrow> group_trace \<Rightarrow> bool"
  fn_memory :: "usize \<Rightarrow> bool"

definition probe_feed_update_status ::
  "'sig feed_net \<Rightarrow> string \<Rightarrow> string \<Rightarrow> u64 \<Rightarrow> bytes FeedProbe \<Rightarrow> bool" where
  "probe_feed_update_status net owner topic index p =
     (let address = get_feed_address (fn_keccak net) (fn_hex net) owner topic index in
      if length address \<noteq> 32 then p = Missing
      else \<exists>a. fn_answers net address a \<and> p = get_feed_probe_chunk (fn_keccak net) a)"

section \<open>The newest update\<close>

text \<open>Updates seen early are offered to a channel of a fixed capacity, which may refuse some.\<close>

definition seek_feed_frontier ::
  "'sig feed_net \<Rightarrow> string \<Rightarrow> string \<Rightarrow> bool \<Rightarrow> (u64 \<times> bytes) option \<times> u64 \<Rightarrow> (u64 \<times> bytes) list \<Rightarrow> bool" where
  "seek_feed_frontier net owner topic early_updates r observed \<longleftrightarrow>
     (\<exists>env obs. valid_env env \<and> (\<forall>t index. probe_feed_update_status net owner topic index (answer env t index)) \<and>
        seek_sequence_feed_frontier_inner env early_updates = Some (r, obs) \<and>
        (if early_updates then subseq observed obs else observed = []))"

definition seek_latest_feed_update_indexed_observing_positive ::
  "'sig feed_net \<Rightarrow> string \<Rightarrow> string \<Rightarrow> bool \<Rightarrow> (u64 \<times> bytes) option \<Rightarrow> (u64 \<times> bytes) list \<Rightarrow> bool" where
  "seek_latest_feed_update_indexed_observing_positive net owner topic early_updates r observed \<longleftrightarrow>
     (\<exists>frontier. seek_feed_frontier net owner topic early_updates frontier observed \<and> r = fst frontier)"

definition seek_latest_feed_update_indexed ::
  "'sig feed_net \<Rightarrow> string \<Rightarrow> string \<Rightarrow> (u64 \<times> bytes) option \<Rightarrow> bool" where
  "seek_latest_feed_update_indexed net owner topic r \<longleftrightarrow>
     seek_latest_feed_update_indexed_observing_positive net owner topic False r []"

section \<open>The payload behind an update\<close>

text \<open>These reads carry no cancel token.\<close>

definition retrieve_data_range_from_root ::
  "'sig feed_net \<Rightarrow> DecodedJoinChunk \<Rightarrow> u64 \<Rightarrow> u64 \<Rightarrow> bool \<Rightarrow> bytes option \<Rightarrow> bool" where
  "retrieve_data_range_from_root net rootc payload_start payload_end encrypted r =
     range_returns (fn_groups net) (fn_memory net) rootc payload_start payload_end encrypted [] r"

lemma retrieve_data_range_is_read:
  "retrieve_data_range_from_root net rootc payload_start payload_end encrypted r \<Longrightarrow>
     range_read (fn_groups net) (fn_memory net) rootc payload_start payload_end encrypted [] r"
  unfolding retrieve_data_range_from_root_def by (rule range_returns_read)

text \<open>The last check of both readers: a result of the wrong length is refused.\<close>

definition of_length :: "nat \<Rightarrow> bytes option \<Rightarrow> bytes option" where
  "of_length n r = (case r of None \<Rightarrow> None | Some bs \<Rightarrow> if length bs = n then Some bs else None)"

definition retrieve_feed_payload ::
  "'sig feed_net \<Rightarrow> FeedPayloadRoot \<Rightarrow> usize \<Rightarrow> bytes option \<Rightarrow> bool" where
  "retrieve_feed_payload net payload maximum_payload_bytes r =
     (let total_len = jc_span (fp_root payload) in
      if maximum_payload_bytes < unat total_len then r = None
      else if total_len = 0 then r = Some []
      else \<exists>bs. retrieve_data_range_from_root net (fp_root payload) 0 (total_len - 1) (fp_encrypted payload) bs \<and>
             r = of_length (unat total_len) bs)"

definition tail_start :: "u64 \<Rightarrow> usize \<Rightarrow> u64" where
  "tail_start total_len maximum_tail_bytes = saturating_sub total_len (word_of_nat (min maximum_tail_bytes CHUNK_SIZE))"

definition retrieve_feed_payload_tail ::
  "'sig feed_net \<Rightarrow> FeedPayloadRoot \<Rightarrow> usize \<Rightarrow> bytes option \<Rightarrow> bool" where
  "retrieve_feed_payload_tail net payload maximum_tail_bytes r =
     (let total_len = jc_span (fp_root payload); start = tail_start total_len maximum_tail_bytes in
      if total_len = 0 \<or> maximum_tail_bytes = 0 then r = None
      else (case Option.bind (checked_sub (total_len - 1) start) (\<lambda>n. checked_add n 1) of
              None \<Rightarrow> r = None
            | Some expected_len \<Rightarrow>
                \<exists>bs. retrieve_data_range_from_root net (fp_root payload) start (total_len - 1) (fp_encrypted payload) bs \<and>
                  r = of_length (unat expected_len) bs))"

section \<open>Updates are signed\<close>

text \<open>What the lower layers allow.\<close>

definition net_allowed :: "bool \<Rightarrow> usize \<Rightarrow> 'sig feed_net \<Rightarrow> bool" where
  "net_allowed verify limit net \<longleftrightarrow>
     (\<forall>address soc. fn_answers net address (Answered (Some soc)) \<longrightarrow>
        (\<exists>s0 s i. layer_initial s0 \<and> (chunk_step (fn_keccak net) (fn_curve net) verify)\<^sup>*\<^sup>* s0 s \<and>
           i < length (cl_retrievals s) \<and> rt_caddr (cl_retrievals s ! i) = address \<and> rt_expect (cl_retrievals s ! i) = Soc \<and>
           rt_pc (cl_retrievals s ! i) = Finished (Some (soc, True)))) \<and>
     (\<forall>request trace. fn_groups net request trace \<longrightarrow>
        fetch_data_group_indices_streaming (fn_keccak net) (chunk_replies (fn_keccak net) (fn_curve net) verify)
          verify limit False request trace)"

text \<open>
  The signature of a single-owner chunk is that of the feed's owner over the identifier of the
  index and the content address of the update it carries.
\<close>

definition signed_update :: "'sig feed_net \<Rightarrow> string \<Rightarrow> string \<Rightarrow> u64 \<Rightarrow> bytes \<Rightarrow> bool" where
  "signed_update net owner topic index soc \<longleftrightarrow>
     (\<exists>owner_bytes topic_bytes wrapped.
        fn_hex net (strip_hex_prefix owner) = Some owner_bytes \<and> fn_hex net (strip_hex_prefix topic) = Some topic_bytes \<and>
        content_address_array (fn_keccak net) (drop 97 soc) = Some wrapped \<and>
        take 32 soc = sequence_feed_id_with (fn_keccak net) topic_bytes index \<and>
        recover_address (fn_curve net) (take 65 (drop 32 soc)) (fn_keccak net (take 32 soc @ wrapped)) = Some owner_bytes)"

text \<open>
  The other way for a chunk to sit at the address of an update: its identifier and its signer hash
  to the address although they are not those of the feed.
\<close>

definition forged_update :: "'sig feed_net \<Rightarrow> string \<Rightarrow> string \<Rightarrow> u64 \<Rightarrow> bytes \<Rightarrow> bool" where
  "forged_update net owner topic index soc \<longleftrightarrow>
     (\<exists>owner_bytes topic_bytes signer.
        fn_hex net (strip_hex_prefix owner) = Some owner_bytes \<and> fn_hex net (strip_hex_prefix topic) = Some topic_bytes \<and>
        take 32 soc @ signer \<noteq> sequence_feed_id_with (fn_keccak net) topic_bytes index @ owner_bytes \<and>
        fn_keccak net (take 32 soc @ signer) = fn_keccak net (sequence_feed_id_with (fn_keccak net) topic_bytes index @ owner_bytes) \<and>
        (\<exists>wrapped. recover_address (fn_curve net) (take 65 (drop 32 soc)) (fn_keccak net (take 32 soc @ wrapped)) = Some signer))"

lemma valid_soc_signer:
  assumes "valid_soc keccak curve soc address"
  obtains wrapped signer where "97 + SPAN_SIZE \<le> length soc" "content_address_array keccak (drop 97 soc) = Some wrapped"
    "recover_address curve (take 65 (drop 32 soc)) (keccak (take 32 soc @ wrapped)) = Some signer"
    "address = keccak (take 32 soc @ signer)"
  using assms by (auto simp: valid_soc_def Let_def split: if_splits option.splits)

lemma answer_valid_soc:
  assumes "net_allowed verify limit net" "fn_answers net address (Answered (Some soc))"
  shows "valid_soc (fn_keccak net) (fn_curve net) soc address"
proof -
  from assms obtain s0 s i where r: "layer_initial s0" "(chunk_step (fn_keccak net) (fn_curve net) verify)\<^sup>*\<^sup>* s0 s"
    "i < length (cl_retrievals s)" "rt_caddr (cl_retrievals s ! i) = address" "rt_expect (cl_retrievals s ! i) = Soc"
    "rt_pc (cl_retrievals s ! i) = Finished (Some (soc, True))"
    unfolding net_allowed_def by blast
  then show ?thesis
    using layer_inv_retrieval [OF layer_inv_reachable [OF r(2,1)] r(3)]
    by (auto simp: retrieval_simps verify_chunk_with_def Let_def)
qed

lemma get_feed_address_parts:
  assumes "get_feed_address keccak hex owner topic index \<noteq> []"
  obtains owner_bytes topic_bytes where "hex (strip_hex_prefix owner) = Some owner_bytes" "length owner_bytes = 20"
    "hex (strip_hex_prefix topic) = Some topic_bytes"
    "get_feed_address keccak hex owner topic index = keccak (sequence_feed_id_with keccak topic_bytes index @ owner_bytes)"
  using assms by (auto simp: get_feed_address_def sequence_feed_address_def split: option.splits if_splits)

lemma found_is_signed:
  assumes net: "net_allowed verify limit net" and hash: "\<And>x. length (fn_keccak net x) = 32"
    and probe: "probe_feed_update_status net owner topic index (Found update)"
  shows "\<exists>soc. fn_answers net (get_feed_address (fn_keccak net) (fn_hex net) owner topic index) (Answered (Some soc)) \<and>
    update = drop 97 soc \<and>
    (signed_update net owner topic index soc \<or> forged_update net owner topic index soc)"
proof -
  let ?a = "get_feed_address (fn_keccak net) (fn_hex net) owner topic index"
  from probe obtain answer where ans: "length ?a = 32" "fn_answers net ?a answer"
    "Found update = get_feed_probe_chunk (fn_keccak net) answer"
    by (auto simp: probe_feed_update_status_def Let_def split: if_splits)
  then obtain retrieved where retrieved: "answer = Answered retrieved" "update = answer_payload (fn_keccak net) retrieved" "update \<noteq> []"
    by (cases answer) (auto simp: get_feed_probe_chunk_def Let_def split: if_splits)
  then obtain soc where a: "length ?a = 32" "fn_answers net ?a (Answered (Some soc))"
    "update = answer_payload (fn_keccak net) (Some soc)"
    using ans(1,2) by (cases retrieved) (auto simp: answer_payload_def)
  obtain wrapped signer where v: "97 + SPAN_SIZE \<le> length soc" "content_address_array (fn_keccak net) (drop 97 soc) = Some wrapped"
    "recover_address (fn_curve net) (take 65 (drop 32 soc)) (fn_keccak net (take 32 soc @ wrapped)) = Some signer"
    "?a = fn_keccak net (take 32 soc @ signer)"
    using valid_soc_signer [OF answer_valid_soc [OF net a(2)]] by blast
  have update: "update = drop 97 soc" using a(3) v(1) by (simp add: answer_payload_def decode_retrieved_chunk_def sizes)
  have "?a \<noteq> []" using a(1) by auto
  then obtain owner_bytes topic_bytes where f: "fn_hex net (strip_hex_prefix owner) = Some owner_bytes"
    "fn_hex net (strip_hex_prefix topic) = Some topic_bytes"
    "?a = fn_keccak net (sequence_feed_id_with (fn_keccak net) topic_bytes index @ owner_bytes)"
    by (rule get_feed_address_parts)
  have len: "length (take 32 soc) = length (sequence_feed_id_with (fn_keccak net) topic_bytes index)"
    using v(1) by (simp add: sequence_feed_id_with_def hash sizes)
  have "signed_update net owner topic index soc \<or> forged_update net owner topic index soc"
  proof (cases "take 32 soc @ signer = sequence_feed_id_with (fn_keccak net) topic_bytes index @ owner_bytes")
    case True
    then have "take 32 soc = sequence_feed_id_with (fn_keccak net) topic_bytes index" "signer = owner_bytes"
      using len by simp_all
    then show ?thesis using f v unfolding signed_update_def by blast
  next
    case False
    then show ?thesis using f v unfolding forged_update_def by metis
  qed
  then show ?thesis using a(2) update by blast
qed

lemma latest_found:
  assumes "seek_latest_feed_update_indexed net owner topic (Some (index, update))"
  shows "probe_feed_update_status net owner topic index (Found update)"
proof -
  from assms obtain env obs nxt where e: "valid_env env"
    "\<forall>t index. probe_feed_update_status net owner topic index (answer env t index)"
    "seek_sequence_feed_frontier_inner env False = Some ((Some (index, update), nxt), obs)"
    unfolding seek_latest_feed_update_indexed_def seek_latest_feed_update_indexed_observing_positive_def seek_feed_frontier_def
    by (metis prod.collapse)
  then have "confirmed env (index, update)"
    using seek_returns_confirmed [OF e(1), of False] by auto
  then show ?thesis using e(2) by (auto simp: confirmed_def) metis
qed

section \<open>Payloads\<close>

text \<open>The bytes are those of the payload from a position to its end.\<close>

definition payload_suffix :: "bool \<Rightarrow> 'sig feed_net \<Rightarrow> FeedPayloadRoot \<Rightarrow> nat \<Rightarrow> bytes \<Rightarrow> bool" where
  "payload_suffix verify net payload start bs \<longleftrightarrow>
     start + length bs = unat (jc_span (fp_root payload)) \<and>
     (\<forall>i < length bs. holds_byte (delivered (fn_keccak net) verify (fn_groups net)) (fp_encrypted payload) 0 (fp_root payload)
        (start + i) (bs ! i))"

lemma read_suffix:
  assumes "net_allowed verify limit net" "retrieve_data_range_from_root net (fp_root payload) start (jc_span (fp_root payload) - 1)
      (fp_encrypted payload) (Some bs)" "start < jc_span (fp_root payload)"
  shows "payload_suffix verify net payload (unat start) bs"
proof -
  let ?r = "fp_root payload"
  from assms(1) have groups: "\<And>request trace. fn_groups net request trace \<Longrightarrow>
      fetch_data_group_indices_streaming (fn_keccak net) (chunk_replies (fn_keccak net) (fn_curve net) verify)
        verify limit False request trace"
    unfolding net_allowed_def by blast
  note read = retrieve_data_range_is_read [OF assms(2)]
  have "unat start < unat (jc_span ?r)" using assms(3) by (simp add: word_less_nat_alt)
  moreover from this have "unat (jc_span ?r - 1) = unat (jc_span ?r) - 1"
    by (subst unat_sub) (simp_all add: word_le_nat_alt)
  ultimately have "unat start + range_len ?r start (jc_span ?r - 1) = unat (jc_span ?r)"
    by (auto simp: range_len_def word_le_nat_alt word_less_nat_alt)
  then show ?thesis
    using retrieval.performed_read [OF groups read] by (simp add: payload_suffix_def)
qed

lemma whole_payload:
  assumes "net_allowed verify limit net" "retrieve_feed_payload net payload maximum (Some bs)"
  shows "payload_suffix verify net payload 0 bs"
proof (cases "jc_span (fp_root payload) = 0")
  case True
  then show ?thesis using assms(2) by (auto simp: retrieve_feed_payload_def payload_suffix_def Let_def split: if_splits)
next
  case False
  then have "retrieve_data_range_from_root net (fp_root payload) 0 (jc_span (fp_root payload) - 1) (fp_encrypted payload) (Some bs)"
    using assms(2) by (auto simp: retrieve_feed_payload_def of_length_def Let_def split: if_splits option.splits)
  from read_suffix [OF assms(1) this] False show ?thesis by (simp add: word_neq_0_conv)
qed

lemma tail_start_less:
  assumes "n \<noteq> 0" "m \<noteq> 0" shows "tail_start n m < n"
proof -
  have "min m CHUNK_SIZE < 2 ^ 64" "min m CHUNK_SIZE \<noteq> 0" using assms(2) by (simp_all add: sizes min_def)
  then have "unat (word_of_nat (min m CHUNK_SIZE) :: u64) \<noteq> 0" by (simp add: unat_of_nat)
  moreover have "unat n \<noteq> 0" using assms(1) by (simp add: unat_eq_0)
  ultimately show ?thesis
    unfolding tail_start_def word_less_nat_alt unat_saturating_sub by simp
qed

lemma payload_tail:
  assumes "net_allowed verify limit net" "retrieve_feed_payload_tail net payload maximum (Some bs)"
  shows "payload_suffix verify net payload (unat (tail_start (jc_span (fp_root payload)) maximum)) bs"
proof -
  from assms(2) have "jc_span (fp_root payload) \<noteq> 0" "maximum \<noteq> 0"
    "retrieve_data_range_from_root net (fp_root payload) (tail_start (jc_span (fp_root payload)) maximum)
       (jc_span (fp_root payload) - 1) (fp_encrypted payload) (Some bs)"
    by (auto simp: retrieve_feed_payload_tail_def of_length_def Let_def split: if_splits option.splits)
  then show ?thesis using read_suffix [OF assms(1)] tail_start_less by blast
qed

end
