(* ===== verification/StreamFollow.thy ===== *)
theory StreamFollow
  imports HlsMerge FeedFetch
begin

text \<open>
  \<open>src/stream_follow.rs\<close>: following a live stream.  The follower task and the player share
  the state of the stream; each section between two awaits is one step.  Waiting is for a
  notification of the event \<open>changed\<close>, which is counted here.  The hash set of gaps is a set,
  and what iterates over it takes the order of iteration as an argument.  Clocks are free: a rest
  may end with or without a new search, and waiting may end with the time limit.  Log lines and the
  text of errors are left out.
\<close>

section \<open>Data\<close>

definition FEED_FOLLOW_AHEAD :: nat where "FEED_FOLLOW_AHEAD = 4"
definition FEED_TAIL_PROBE_BYTES :: usize where "FEED_TAIL_PROBE_BYTES = 4 * 1024"
definition FEED_INLINE_PAYLOAD_BYTES :: usize where "FEED_INLINE_PAYLOAD_BYTES = 4 * 1024"

record RawFeedPayload =
  rfp_index :: u64
  rfp_bytes :: bytes

datatype FeedPayloadProbe =
  PayloadFound RawFeedPayload
| PayloadDeferred u64 FeedPayloadRoot
| PayloadMissing
| PayloadTransient

record LiveState =
  ls_playlist :: HlsPlaylist
  ls_index :: u64
  ls_skipped :: u64
  ls_gaps :: "(u64 \<times> ctext) set"
  ls_tail_failure :: HlsTailFailure

record LiveFeed =
  lf_state :: LiveState
  lf_changed :: nat

definition live_start :: "u64 \<Rightarrow> HlsPlaylist \<Rightarrow> LiveFeed" where
  "live_start index playlist =
     \<lparr>lf_state = \<lparr>ls_playlist = playlist, ls_index = index, ls_skipped = 0, ls_gaps = {},
        ls_tail_failure = \<lparr>tail_key = None, tail_count = 0\<rparr>\<rparr>, lf_changed = 0\<rparr>"

section \<open>What the player sees\<close>

fun mark_gaps :: "(u64 \<times> ctext) list \<Rightarrow> HlsPlaylist \<Rightarrow> HlsPlaylist" where
  "mark_gaps [] p = p"
| "mark_gaps ((sequence, reference) # gaps) p = mark_gaps gaps (snd (mark_gap sequence reference p))"

definition snapshot :: "(u64 \<times> ctext) list \<Rightarrow> LiveState \<Rightarrow> HlsPlaylist" where
  "snapshot order state = mark_gaps order (ls_playlist state)"

datatype SegmentLook = Gone | Ready HlsSegment | NotYet

definition segment_look :: "u64 \<Rightarrow> LiveState \<Rightarrow> SegmentLook" where
  "segment_look sequence state =
     (let playlist = ls_playlist state in
      if sequence < hls_sequence playlist then Gone
      else case segment_get (hls_segments playlist) (unat (sequence - hls_sequence playlist)) of
             Some segment \<Rightarrow>
               Ready (if (sequence, seg_reference segment) \<in> ls_gaps state then segment\<lparr>seg_gap := True\<rparr> else segment)
           | None \<Rightarrow> if hls_finalized playlist then Gone else NotYet)"

text \<open>The loop looks at the state it starts with and at the one after every notification.\<close>

fun segment_at :: "u64 \<Rightarrow> LiveState list \<Rightarrow> HlsSegment option option" where
  "segment_at sequence [] = None"
| "segment_at sequence (state # states) =
     (case segment_look sequence state of
        Gone \<Rightarrow> Some None
      | Ready segment \<Rightarrow> Some (Some segment)
      | NotYet \<Rightarrow> segment_at sequence states)"

definition playable_at :: "LiveState \<Rightarrow> nat \<times> HlsSegment \<Rightarrow> bool" where
  "playable_at state = (\<lambda>(offset, segment). \<not> seg_gap segment \<and>
     (case checked_add (hls_sequence (ls_playlist state)) (word_of_nat offset) of
        None \<Rightarrow> False | Some sequence \<Rightarrow> (sequence, seg_reference segment) \<notin> ls_gaps state))"

definition live_sequence :: "LiveState \<Rightarrow> u64 option" where
  "live_sequence state = do {
     (offset, _) \<leftarrow> find (playable_at state) (rev (enumerate 0 (hls_segments (ls_playlist state))));
     checked_add (hls_sequence (ls_playlist state)) (word_of_nat offset) }"

definition record_body_failure :: "u64 \<Rightarrow> ctext \<Rightarrow> LiveFeed \<Rightarrow> bool \<times> LiveFeed" where
  "record_body_failure sequence reference feed =
     (let state = lf_state feed;
          (strike, failure) = tail_failure_record (ls_index state) sequence reference (ls_tail_failure state)
      in if \<not> strike then (False, feed\<lparr>lf_state := state\<lparr>ls_tail_failure := failure\<rparr>\<rparr>)
         else (True, feed\<lparr>lf_state := state\<lparr>ls_tail_failure := tail_failure_clear failure,
                  ls_gaps := {g \<in> insert (sequence, reference) (ls_gaps state). hls_sequence (ls_playlist state) \<le> fst g}\<rparr>,
                lf_changed := lf_changed feed + 1\<rparr>))"

section \<open>Applying updates\<close>

definition apply_with ::
  "u64 \<Rightarrow> (HlsPlaylist \<Rightarrow> (usize \<times> HlsPlaylist) option) \<Rightarrow> LiveFeed \<Rightarrow> usize option \<times> LiveFeed" where
  "apply_with index merge feed =
     (let state = lf_state feed in
      case merge (ls_playlist state) of
        None \<Rightarrow> (None, feed)
      | Some (appended, playlist) \<Rightarrow>
          (Some appended, feed\<lparr>lf_state := state\<lparr>ls_playlist := playlist, ls_index := max (ls_index state) index\<rparr>,
             lf_changed := lf_changed feed + 1\<rparr>))"

definition apply_playlist :: "u64 \<Rightarrow> HlsPlaylist \<Rightarrow> LiveFeed \<Rightarrow> usize option \<times> LiveFeed" where
  "apply_playlist index candidate = apply_with index (merge_playlist candidate)"

definition apply_payload :: "u64 \<Rightarrow> bytes \<Rightarrow> LiveFeed \<Rightarrow> usize option \<times> LiveFeed" where
  "apply_payload index bs feed =
     (case parse_playlist bs of None \<Rightarrow> (None, feed) | Some playlist \<Rightarrow> apply_playlist index playlist feed)"

definition finish_stream :: "LiveFeed \<Rightarrow> LiveFeed" where
  "finish_stream feed =
     feed\<lparr>lf_state := (lf_state feed)\<lparr>ls_playlist := (ls_playlist (lf_state feed))\<lparr>hls_finalized := True\<rparr>\<rparr>,
          lf_changed := lf_changed feed + 1\<rparr>"

definition reanchor :: "u64 \<Rightarrow> HlsPlaylist \<Rightarrow> LiveFeed \<Rightarrow> LiveFeed" where
  "reanchor index candidate feed =
     (let state = lf_state feed;
          previous_end = saturating_add (hls_sequence (ls_playlist state)) (word_of_nat (length (hls_segments (ls_playlist state))))
      in feed\<lparr>lf_state := state\<lparr>
             ls_skipped := saturating_add (ls_skipped state) (saturating_sub (hls_sequence candidate) previous_end),
             ls_playlist := candidate, ls_index := index\<rparr>,
           lf_changed := lf_changed feed + 1\<rparr>)"

definition recover_frontier :: "u64 \<Rightarrow> (u64 \<times> HlsPlaylist) option \<Rightarrow> LiveFeed \<Rightarrow> bool \<times> LiveFeed" where
  "recover_frontier head_index newest feed =
     (case newest of
        None \<Rightarrow> (False, feed)
      | Some (index, candidate) \<Rightarrow>
          if index < head_index then (False, feed)
          else if index = head_index then
            (if \<not> hls_finalized candidate \<or> hls_finalized (ls_playlist (lf_state feed)) then (False, feed)
             else (True, finish_stream feed))
          else (case apply_playlist index candidate feed of
                  (Some _, feed') \<Rightarrow> (True, feed')
                | (None, _) \<Rightarrow> (True, reanchor index candidate feed)))"

section \<open>Asking the network\<close>

definition feed_probe :: "'sig feed_net \<Rightarrow> string \<Rightarrow> string \<Rightarrow> u64 \<Rightarrow> FeedPayloadProbe \<Rightarrow> bool" where
  "feed_probe net owner topic index r \<longleftrightarrow>
     (\<exists>status. probe_feed_update_status net owner topic index status \<and>
        (case status of
           Missing \<Rightarrow> r = PayloadMissing
         | Transient \<Rightarrow> r = PayloadTransient
         | Found update \<Rightarrow>
             (case decode_feed_payload_root update of
                None \<Rightarrow> r = PayloadTransient
              | Some payload \<Rightarrow>
                  if FEED_INLINE_PAYLOAD_BYTES < unat (jc_span (fp_root payload)) then r = PayloadDeferred index payload
                  else \<exists>bs. retrieve_feed_payload net payload FEED_INLINE_PAYLOAD_BYTES bs \<and>
                         r = (case bs of Some b \<Rightarrow> PayloadFound \<lparr>rfp_index = index, rfp_bytes = b\<rparr>
                                       | None \<Rightarrow> PayloadTransient))))"

text \<open>The newest update, read and parsed: shared by joining and by the recovery of the frontier.\<close>

definition frontier_candidate :: "'sig feed_net \<Rightarrow> string \<Rightarrow> string \<Rightarrow> (u64 \<times> HlsPlaylist) option \<Rightarrow> bool" where
  "frontier_candidate net owner topic r \<longleftrightarrow>
     (\<exists>latest. seek_latest_feed_update_indexed net owner topic latest \<and>
        (case latest of
           None \<Rightarrow> r = None
         | Some (index, update) \<Rightarrow>
             (case decode_feed_payload_root update of
                None \<Rightarrow> r = None
              | Some payload \<Rightarrow>
                  \<exists>bs. retrieve_feed_payload net payload MAX_STREAM_FEED_PAYLOAD_BYTES bs \<and>
                    r = Option.bind bs (\<lambda>b. map_option (Pair index) (parse_playlist b)))))"

inductive discover_edge :: "'sig feed_net \<Rightarrow> string \<Rightarrow> string \<Rightarrow> (u64 \<times> HlsPlaylist) option \<Rightarrow> bool"
  for net owner topic where
  discovered: "frontier_candidate net owner topic (Some edge) \<Longrightarrow> discover_edge net owner topic (Some edge)"
| timed_out: "frontier_candidate net owner topic None \<Longrightarrow> discover_edge net owner topic None"
| retried: "frontier_candidate net owner topic None \<Longrightarrow> discover_edge net owner topic r \<Longrightarrow>
    discover_edge net owner topic r"

section \<open>The follower task\<close>

record FollowPass =
  pass_head :: u64
  pass_offset :: nat
  pass_progressed :: bool
  pass_skipped_missing_index :: bool

datatype FollowPc =
  Turn
| Probing FollowPass
| TailOf u64 FeedPayloadRoot FollowPass
| WholeOf u64 FeedPayloadRoot FollowPass
| Resting
| Seeking u64
| Returned

definition end_pass :: "FollowPass \<Rightarrow> FollowPc" where
  "end_pass p = (if pass_progressed p then Turn else Resting)"

definition probe_target :: "FollowPass \<Rightarrow> u64 option" where
  "probe_target p = checked_add (pass_head p) (word_of_nat (pass_offset p))"

definition next_probe :: "FollowPass \<Rightarrow> FollowPc" where
  "next_probe p =
     (if FEED_FOLLOW_AHEAD < pass_offset p then end_pass p
      else if probe_target p = None then Returned else Probing p)"

definition begin_turn :: "LiveFeed \<Rightarrow> FollowPc" where
  "begin_turn feed =
     (if hls_finalized (ls_playlist (lf_state feed)) then Returned
      else next_probe \<lparr>pass_head = ls_index (lf_state feed), pass_offset = 1, pass_progressed = False,
             pass_skipped_missing_index = False\<rparr>)"

definition after_apply :: "usize option \<Rightarrow> FollowPass \<Rightarrow> FollowPc" where
  "after_apply applied p =
     (case applied of
        None \<Rightarrow> end_pass p
      | Some _ \<Rightarrow> next_probe (p\<lparr>pass_offset := pass_offset p + 1, pass_progressed := True\<rparr>))"

definition after_missing :: "FollowPass \<Rightarrow> FollowPc" where
  "after_missing p =
     (if pass_skipped_missing_index p then end_pass p
      else next_probe (p\<lparr>pass_offset := pass_offset p + 1, pass_skipped_missing_index := True\<rparr>))"

definition after_probe :: "FollowPass \<Rightarrow> FeedPayloadProbe \<Rightarrow> LiveFeed \<Rightarrow> FollowPc \<times> LiveFeed" where
  "after_probe p r feed =
     (case r of
        PayloadFound payload \<Rightarrow>
          (let (applied, feed') = apply_payload (rfp_index payload) (rfp_bytes payload) feed in (after_apply applied p, feed'))
      | PayloadDeferred index root_chunk \<Rightarrow> (TailOf index root_chunk p, feed)
      | PayloadMissing \<Rightarrow> (after_missing p, feed)
      | PayloadTransient \<Rightarrow> (after_missing p, feed))"

text \<open>The two sections of \<open>apply_deferred\<close>: the tail first, then the whole payload.\<close>

definition after_tail ::
  "u64 \<Rightarrow> FeedPayloadRoot \<Rightarrow> FollowPass \<Rightarrow> bytes option \<Rightarrow> LiveFeed \<Rightarrow> FollowPc \<times> LiveFeed" where
  "after_tail index root_chunk p tail feed =
     (case tail of
        None \<Rightarrow> (WholeOf index root_chunk p, feed)
      | Some bs \<Rightarrow>
          (case apply_with index (merge_tail bs) feed of
             (None, _) \<Rightarrow> (WholeOf index root_chunk p, feed)
           | (Some appended, feed') \<Rightarrow> (after_apply (Some appended) p, feed')))"

definition after_whole :: "u64 \<Rightarrow> FollowPass \<Rightarrow> bytes option \<Rightarrow> LiveFeed \<Rightarrow> FollowPc \<times> LiveFeed" where
  "after_whole index p whole feed =
     (case whole of
        None \<Rightarrow> (after_apply None p, feed)
      | Some bs \<Rightarrow> (let (applied, feed') = apply_payload index bs feed in (after_apply applied p, feed')))"

inductive follow_step ::
  "'sig feed_net \<Rightarrow> string \<Rightarrow> string \<Rightarrow> FollowPc \<times> LiveFeed \<Rightarrow> FollowPc \<times> LiveFeed \<Rightarrow> bool"
  for net owner topic where
  turn: "follow_step net owner topic (Turn, feed) (begin_turn feed, feed)"
| probed: "probe_target p = Some index \<Longrightarrow> feed_probe net owner topic index r \<Longrightarrow>
    follow_step net owner topic (Probing p, feed) (after_probe p r feed)"
| tail_read: "retrieve_feed_payload_tail net root_chunk FEED_TAIL_PROBE_BYTES tail \<Longrightarrow>
    follow_step net owner topic (TailOf index root_chunk p, feed) (after_tail index root_chunk p tail feed)"
| whole_read: "retrieve_feed_payload net root_chunk MAX_STREAM_FEED_PAYLOAD_BYTES whole \<Longrightarrow>
    follow_step net owner topic (WholeOf index root_chunk p, feed) (after_whole index p whole feed)"
| rested: "follow_step net owner topic (Resting, feed) (if due then Seeking (ls_index (lf_state feed)) else Turn, feed)"
| sought: "frontier_candidate net owner topic newest \<Longrightarrow>
    follow_step net owner topic (Seeking head_index, feed) (Turn, snd (recover_frontier head_index newest feed))"
| failed_body: "follow_step net owner topic (pc, feed) (pc, snd (record_body_failure sequence reference feed))"

section \<open>Joining\<close>

datatype JoinError = NoReadableUpdate | FinalizedTooShort | NoStartupRunway

definition F64_EPSILON :: f64 where
  "F64_EPSILON = F64Fin False (1 / 2 ^ 52)"

fun offset_loop :: "HlsSegment list \<Rightarrow> f64 \<Rightarrow> nat \<Rightarrow> f64 \<Rightarrow> nat option" where
  "offset_loop [] offset ith elapsed = None"
| "offset_loop (segment # segments) offset ith elapsed =
     (if f64_lt (f64_add offset F64_EPSILON) (f64_add elapsed (seg_duration segment)) then Some ith
      else offset_loop segments offset (ith + 1) (f64_add elapsed (seg_duration segment)))"

definition sequence_at_offset :: "HlsPlaylist \<Rightarrow> f64 \<Rightarrow> u64" where
  "sequence_at_offset playlist offset =
     (case offset_loop (hls_segments playlist) offset 0 f64_zero of
        Some ith \<Rightarrow> word_of_nat ith
      | None \<Rightarrow> word_of_nat (length (hls_segments playlist) - 1))"

record LiveJoin =
  join_start_sequence :: u64
  join_feed_index :: u64
  join_plan :: HlsStartupPlan

definition runway_look :: "LiveState \<Rightarrow> (JoinError + LiveJoin) option" where
  "runway_look state =
     (let playlist = ls_playlist state in
      case startup_plan playlist Live of
        Some plan \<Rightarrow>
          Some (Inr \<lparr>join_start_sequence = saturating_add (hls_sequence playlist) (sequence_at_offset playlist (plan_play_position plan)),
                 join_feed_index = ls_index state, join_plan = plan\<rparr>)
      | None \<Rightarrow> if hls_finalized playlist then Some (Inl FinalizedTooShort) else None)"

text \<open>The wait for a runway looks after every notification until the time limit.\<close>

fun await_runway :: "LiveState list \<Rightarrow> JoinError + LiveJoin" where
  "await_runway [] = Inl NoStartupRunway"
| "await_runway (state # states) = (case runway_look state of Some r \<Rightarrow> r | None \<Rightarrow> await_runway states)"

text \<open>What a task that waits for notifications looks at during a run: the first state and later ones.\<close>

inductive watched :: "'sig feed_net \<Rightarrow> string \<Rightarrow> string \<Rightarrow> FollowPc \<times> LiveFeed \<Rightarrow> LiveState list \<Rightarrow> bool"
  for net owner topic where
  first_look: "watched net owner topic c [lf_state (snd c)]"
| next_look: "(follow_step net owner topic)\<^sup>*\<^sup>* c c' \<Longrightarrow> watched net owner topic c' states \<Longrightarrow>
    watched net owner topic c (lf_state (snd c) # states)"

inductive live_join :: "'sig feed_net \<Rightarrow> string \<Rightarrow> string \<Rightarrow> JoinError + LiveJoin \<Rightarrow> bool"
  for net owner topic where
  nothing: "discover_edge net owner topic None \<Longrightarrow> live_join net owner topic (Inl NoReadableUpdate)"
| joined: "discover_edge net owner topic (Some (index, playlist)) \<Longrightarrow>
    watched net owner topic (Turn, live_start index playlist) states \<Longrightarrow>
    live_join net owner topic (await_runway states)"

end
