(* ===== verification/RootFetch.thy ===== *)
theory RootFetch
  imports RangeRead
begin

text \<open>
  \<open>src/retrieval.rs\<close>, the root of a file: the fetch of its chunk together with its dispersed
  replicas, in batches that grow, and the joined readers that begin with it.  The clock is free: a
  wait with requests left may end with a time-out whenever no result is there.
\<close>

section \<open>Data\<close>

record RootPlan =
  rp_keccak :: "bytes \<Rightarrow> bytes"
  rp_verify :: bool
  rp_limit :: usize
  rp_reference :: bytes
  rp_requests :: "bytes list"

datatype RootPc = RootLoop | RootAwait bool | RootEnded "(bytes \<times> bool) option"

record RootState =
  ro_raw :: RawFetches
  ro_queue :: RawFetchQueue
  ro_next :: usize
  ro_dispatched :: usize
  ro_completed :: usize
  ro_next_batch :: usize
  ro_pc :: RootPc

definition root_cac :: "bytes \<Rightarrow> bytes" where
  "root_cac reference = take HASH_SIZE reference"

text \<open>The addresses to ask for; the outer option is a panic.\<close>

definition root_requests :: "(bytes \<Rightarrow> bytes) \<Rightarrow> bytes \<Rightarrow> bytes list option option" where
  "root_requests keccak reference =
     (if length reference < HASH_SIZE then Some None
      else map_option (map_option (\<lambda>rs. root_cac reference # map replica_address rs))
             (replicas (root_cac reference) Paranoid (bee_replica_address keccak)))"

section \<open>Batches\<close>

definition queue_root :: "RootPlan \<Rightarrow> bool \<Rightarrow> usize \<Rightarrow> RootState \<Rightarrow> RootState" where
  "queue_root p send_ok index s =
     (let (q, raw) = queue_drained_raw_chunk (rp_keccak p) (rp_verify p) (rp_limit p) send_ok index (rp_requests p ! index)
            (root_cac (rp_reference p)) (Some (rp_reference p)) Ordinary (ro_queue s) (ro_raw s)
      in s\<lparr>ro_queue := q, ro_raw := raw, ro_next := ro_next s + 1, ro_dispatched := ro_dispatched s + 1\<rparr>)"

definition queue_root_batch :: "RootPlan \<Rightarrow> bool \<Rightarrow> usize \<Rightarrow> RootState \<Rightarrow> RootState" where
  "queue_root_batch p send_ok batch s =
     (let ending = min (min (ro_next s + batch) (usize_bound - 1)) (length (rp_requests p))
      in fold (queue_root p send_ok) [ro_next s..<ending] s)"

definition next_root_batch :: "RootPlan \<Rightarrow> bool \<Rightarrow> RootState \<Rightarrow> RootState" where
  "next_root_batch p send_ok s =
     (let s' = queue_root_batch p send_ok (ro_next_batch s) s
      in s'\<lparr>ro_next_batch := min (ro_next_batch s' * 2) (usize_bound - 1)\<rparr>)"

text \<open>Every return drops the queue, which closes it.\<close>

definition root_end :: "(bytes \<times> bool) option \<Rightarrow> RootState \<Rightarrow> RootState" where
  "root_end r s = (let (q, raw) = raw_fetch_close (ro_queue s) (ro_raw s)
     in s\<lparr>ro_queue := q, ro_raw := raw, ro_pc := RootEnded r\<rparr>)"

definition root_start :: "RootPlan \<Rightarrow> bool \<Rightarrow> RawFetchQueue \<Rightarrow> RawFetches \<Rightarrow> RootState" where
  "root_start p send_ok q raw =
     queue_root_batch p send_ok (min (length (rp_requests p)) 3)
       \<lparr>ro_raw = raw, ro_queue = q, ro_next = 0, ro_dispatched = 0, ro_completed = 0, ro_next_batch = 2, ro_pc = RootLoop\<rparr>"

definition root_turn :: "RootPlan \<Rightarrow> bool \<Rightarrow> RootState \<Rightarrow> RootState" where
  "root_turn p send_ok s =
     (if ro_completed s = ro_dispatched s \<and> ro_next s = length (rp_requests p) then root_end None s
      else (let s' = (if ro_completed s = ro_dispatched s then next_root_batch p send_ok s else s)
            in s'\<lparr>ro_pc := RootAwait (ro_next s' < length (rp_requests p))\<rparr>))"

definition root_accepts :: "RawFetchResult \<Rightarrow> bool" where
  "root_accepts r \<longleftrightarrow> rr_chunk r \<noteq> [] \<and> (rr_index r = 0 \<or> rr_canonical_cac r)"

definition root_receive :: "RawFetchResult \<Rightarrow> RootState \<Rightarrow> RootState" where
  "root_receive r s =
     (let s' = s\<lparr>ro_completed := ro_completed s + 1\<rparr>
      in if root_accepts r then root_end (Some (rr_chunk r, rr_canonical_cac r)) s' else s'\<lparr>ro_pc := RootLoop\<rparr>)"

definition root_results :: "RootState \<Rightarrow> RawFetchResult list" where
  "root_results s = rf_results (ro_raw s) (rfq_chan (ro_queue s))"

definition set_root_results :: "RawFetchResult list \<Rightarrow> RootState \<Rightarrow> RootState" where
  "set_root_results results s =
     s\<lparr>ro_raw := (ro_raw s)\<lparr>rf_results := (rf_results (ro_raw s))(rfq_chan (ro_queue s) := results)\<rparr>\<rparr>"

section \<open>Runs\<close>

inductive root_step :: "(bytes \<Rightarrow> bytes \<Rightarrow> bool \<Rightarrow> bool) \<Rightarrow> bool \<Rightarrow> RootPlan \<Rightarrow> RootState \<Rightarrow> RootState \<Rightarrow> bool"
  for replies cancellable p where
  turn: "ro_pc s = RootLoop \<Longrightarrow> root_step replies cancellable p s (root_turn p send_ok s)"
| receive: "ro_pc s = RootAwait hedged \<Longrightarrow> root_results s = result # rest \<Longrightarrow>
    root_step replies cancellable p s (root_receive result (set_root_results rest s))"
| timeout: "ro_pc s = RootAwait True \<Longrightarrow> root_results s = [] \<Longrightarrow>
    root_step replies cancellable p s ((next_root_batch p send_ok s)\<lparr>ro_pc := RootLoop\<rparr>)"
| others: "(\<And>r. ro_pc s \<noteq> RootEnded r) \<Longrightarrow>
    raw_step (rp_keccak p) replies (rp_verify p) (rp_limit p) (\<lambda>chan. chan \<noteq> rfq_chan (ro_queue s)) (ro_raw s) raw \<Longrightarrow>
    root_step replies cancellable p s (s\<lparr>ro_raw := raw\<rparr>)"
| cancelled: "cancellable \<Longrightarrow> (\<And>r. ro_pc s \<noteq> RootEnded r) \<Longrightarrow>
    root_step replies cancellable p s (root_end None s)"

definition root_plan :: "(bytes \<Rightarrow> bytes) \<Rightarrow> bool \<Rightarrow> usize \<Rightarrow> bytes \<Rightarrow> bytes list \<Rightarrow> RootPlan" where
  "root_plan keccak verify limit reference requests =
     \<lparr>rp_keccak = keccak, rp_verify = verify, rp_limit = limit, rp_reference = reference, rp_requests = requests\<rparr>"

text \<open>From the raw fetches as they are when it begins to its result and the raw fetches it leaves.\<close>

inductive retrieve_raw_root ::
  "(bytes \<Rightarrow> bytes) \<Rightarrow> (bytes \<Rightarrow> bytes \<Rightarrow> bool \<Rightarrow> bool) \<Rightarrow> bool \<Rightarrow> usize \<Rightarrow> bool \<Rightarrow> bytes \<Rightarrow> RawFetches \<Rightarrow>
   (bytes \<times> bool) option \<Rightarrow> RawFetches \<Rightarrow> bool"
  for keccak replies verify limit cancellable reference where
  no_requests: "root_requests keccak reference = Some None \<Longrightarrow>
    retrieve_raw_root keccak replies verify limit cancellable reference raw None raw"
| withdrawn: "cancellable \<Longrightarrow> retrieve_raw_root keccak replies verify limit cancellable reference raw None raw"
| walked: "root_requests keccak reference = Some (Some requests) \<Longrightarrow> rfq_waiters q = [] \<Longrightarrow> fresh_channel (rfq_chan q) raw \<Longrightarrow>
    (root_step replies cancellable (root_plan keccak verify limit reference requests))\<^sup>*\<^sup>*
      (root_start (root_plan keccak verify limit reference requests) send_ok q raw) s \<Longrightarrow>
    ro_pc s = RootEnded r \<Longrightarrow> retrieve_raw_root keccak replies verify limit cancellable reference raw r (ro_raw s)"

section \<open>The decoded root\<close>

definition cached_root :: "(bytes \<Rightarrow> bytes) \<Rightarrow> usize \<Rightarrow> bytes \<Rightarrow> DecodedChunkCache \<Rightarrow> DecodedJoinChunk option \<times> DecodedChunkCache" where
  "cached_root keccak limit reference c = apfst (map_option fst) (cc_get_decoded keccak limit reference False c)"

text \<open>What is done with a chunk that was fetched.\<close>

definition decode_root ::
  "(bytes \<Rightarrow> bytes) \<Rightarrow> usize \<Rightarrow> bytes \<Rightarrow> bytes \<times> bool \<Rightarrow> DecodedChunkCache \<Rightarrow> DecodedJoinChunk option \<times> DecodedChunkCache" where
  "decode_root keccak limit reference = (\<lambda>(raw, canonical_cac) c.
     (let (hit, c') = (if canonical_cac then cached_root keccak limit reference c else (None, c)) in
      case hit of
        Some rootc \<Rightarrow> (Some rootc, c')
      | None \<Rightarrow>
          (case decode_shared_raw_join_chunk keccak raw reference of
             None \<Rightarrow> (None, c')
           | Some rootc \<Rightarrow> (Some rootc, if canonical_cac then cc_insert_decoded limit reference rootc c' else c'))))"

inductive retrieve_decoded_data_root ::
  "(bytes \<Rightarrow> bytes) \<Rightarrow> (bytes \<Rightarrow> bytes \<Rightarrow> bool \<Rightarrow> bool) \<Rightarrow> bool \<Rightarrow> usize \<Rightarrow> bool \<Rightarrow> bytes \<Rightarrow> RawFetches \<Rightarrow>
   DecodedJoinChunk option \<Rightarrow> RawFetches \<Rightarrow> bool"
  for keccak replies verify limit cancellable reference raw where
  wrong_length: "length reference \<noteq> HASH_SIZE \<Longrightarrow> length reference \<noteq> ENCRYPTED_REFERENCE_SIZE \<Longrightarrow>
    retrieve_decoded_data_root keccak replies verify limit cancellable reference raw None raw"
| withdrawn_early: "cancellable \<Longrightarrow> retrieve_decoded_data_root keccak replies verify limit cancellable reference raw None raw"
| hit: "length reference = HASH_SIZE \<or> length reference = ENCRYPTED_REFERENCE_SIZE \<Longrightarrow>
    cached_root keccak limit reference (rf_cache raw) = (Some rootc, c) \<Longrightarrow>
    retrieve_decoded_data_root keccak replies verify limit cancellable reference raw (Some rootc) (raw\<lparr>rf_cache := c\<rparr>)"
| failed: "length reference = HASH_SIZE \<or> length reference = ENCRYPTED_REFERENCE_SIZE \<Longrightarrow>
    cached_root keccak limit reference (rf_cache raw) = (None, c) \<Longrightarrow>
    retrieve_raw_root keccak replies verify limit cancellable reference (raw\<lparr>rf_cache := c\<rparr>) None raw' \<Longrightarrow>
    retrieve_decoded_data_root keccak replies verify limit cancellable reference raw None raw'"
| withdrawn_late: "cancellable \<Longrightarrow> length reference = HASH_SIZE \<or> length reference = ENCRYPTED_REFERENCE_SIZE \<Longrightarrow>
    cached_root keccak limit reference (rf_cache raw) = (None, c) \<Longrightarrow>
    retrieve_raw_root keccak replies verify limit cancellable reference (raw\<lparr>rf_cache := c\<rparr>) r raw' \<Longrightarrow>
    retrieve_decoded_data_root keccak replies verify limit cancellable reference raw None raw'"
| fetched: "length reference = HASH_SIZE \<or> length reference = ENCRYPTED_REFERENCE_SIZE \<Longrightarrow>
    cached_root keccak limit reference (rf_cache raw) = (None, c) \<Longrightarrow>
    retrieve_raw_root keccak replies verify limit cancellable reference (raw\<lparr>rf_cache := c\<rparr>) (Some found) raw' \<Longrightarrow>
    decode_root keccak limit reference found (rf_cache raw') = (rootc, c') \<Longrightarrow>
    retrieve_decoded_data_root keccak replies verify limit cancellable reference raw rootc (raw'\<lparr>rf_cache := c'\<rparr>)"

section \<open>Joined readers\<close>

text \<open>
  The readers of a whole file, over what happened during the read: the roots that were fetched and
  the groups.  They carry no cancel token.
\<close>

definition retrieve_data_joined ::
  "(bytes \<Rightarrow> DecodedJoinChunk option \<Rightarrow> bool) \<Rightarrow> (group_request \<Rightarrow> group_trace \<Rightarrow> bool) \<Rightarrow> (usize \<Rightarrow> bool) \<Rightarrow>
   bytes \<Rightarrow> bool \<Rightarrow> bytes \<Rightarrow> bool" where
  "retrieve_data_joined roots groups memory data_address include_span_prefix out \<longleftrightarrow>
     (\<exists>fetched. roots data_address fetched \<and>
        (case fetched of
           None \<Rightarrow> out = []
         | Some rootc \<Rightarrow>
             (let total_len = jc_span rootc;
                  output_prefix = (if include_span_prefix then to_le_bytes total_len else [])
              in if total_len = 0 then out = output_prefix
                 else \<exists>r. range_returns groups memory rootc 0 (total_len - 1)
                            (length data_address = ENCRYPTED_REFERENCE_SIZE) output_prefix r \<and>
                        out = (case r of None \<Rightarrow> [] | Some payload \<Rightarrow> payload))))"

definition retrieve_data ::
  "(bytes \<Rightarrow> DecodedJoinChunk option \<Rightarrow> bool) \<Rightarrow> (group_request \<Rightarrow> group_trace \<Rightarrow> bool) \<Rightarrow> (usize \<Rightarrow> bool) \<Rightarrow>
   bytes \<Rightarrow> bytes \<Rightarrow> bool" where
  "retrieve_data roots groups memory data_address out = retrieve_data_joined roots groups memory data_address True out"

definition retrieve_data_payload ::
  "(bytes \<Rightarrow> DecodedJoinChunk option \<Rightarrow> bool) \<Rightarrow> (group_request \<Rightarrow> group_trace \<Rightarrow> bool) \<Rightarrow> (usize \<Rightarrow> bool) \<Rightarrow>
   bytes \<Rightarrow> bytes \<Rightarrow> bool" where
  "retrieve_data_payload roots groups memory data_address out =
     retrieve_data_joined roots groups memory data_address False out"

end
