(* ===== verification/Viewer.thy ===== *)
theory Viewer
  imports StreamFollow RootFetch
begin

text \<open>
  \<open>src/viewer.rs\<close>: the public interface of the client.  Owners, topics and references are
  text that a user types; the hex crate's decoder and encoder are parameters.  The texts of errors
  are left out, their cases are kept.  What a call asks of the network is described by the net of
  the feed and by the roots that were fetched.
\<close>

section \<open>Data\<close>

definition SEGMENT_BODY_ATTEMPTS :: usize where "SEGMENT_BODY_ATTEMPTS = 6"
definition SEGMENT_BODY_RETRY_DELAY_MS :: u64 where "SEGMENT_BODY_RETRY_DELAY_MS = 75"

record StreamSegment =
  ss_sequence :: u64
  ss_reference :: ctext
  ss_duration :: f64
  ss_gap :: bool
  ss_discontinuity_sequence :: u64

record StreamPlaylist =
  spl_feed_index :: u64
  spl_sequence :: u64
  spl_target_duration :: u64
  spl_finalized :: bool
  spl_discontinuity_sequence :: u64
  spl_segments :: "StreamSegment list"

datatype ViewerError =
  InvalidOwner
| InvalidReference
| NotRetrieved
| NoFeedUpdate
| NotReadable u64
| PayloadNotRetrieved u64
| NotAPlaylist
| SegmentIsGap u64
| SegmentFailed u64 ViewerError
| JoinFailed JoinError

text \<open>What is kept of a joined stream besides the feed itself.\<close>

record LiveStream =
  lv_start_sequence :: u64
  lv_joined_at :: u64
  lv_runway_seconds :: f64

definition stream_segment :: "u64 \<Rightarrow> HlsSegment \<Rightarrow> StreamSegment" where
  "stream_segment sequence segment =
     \<lparr>ss_sequence = sequence, ss_reference = seg_reference segment, ss_duration = seg_duration segment,
      ss_gap = seg_gap segment, ss_discontinuity_sequence = seg_discontinuity_sequence segment\<rparr>"

definition stream_playlist :: "u64 \<Rightarrow> HlsPlaylist \<Rightarrow> StreamPlaylist" where
  "stream_playlist feed_index playlist =
     \<lparr>spl_feed_index = feed_index, spl_sequence = hls_sequence playlist, spl_target_duration = hls_target_duration playlist,
      spl_finalized = hls_finalized playlist, spl_discontinuity_sequence = hls_discontinuity_sequence playlist,
      spl_segments = map (\<lambda>(offset, segment). stream_segment (saturating_add (hls_sequence playlist) (word_of_nat offset)) segment)
        (enumerate 0 (hls_segments playlist))\<rparr>"

definition stream_duration :: "StreamPlaylist \<Rightarrow> f64" where
  "stream_duration playlist = foldl f64_add (F64Fin True 0) (map ss_duration (spl_segments playlist))"

section \<open>Names\<close>

text \<open>
  Text of ASCII characters only, as the hex crate sees it; it refuses any other text.
\<close>

definition ascii_text :: "ctext \<Rightarrow> string option" where
  "ascii_text t = (if list_all (\<lambda>c. c < 128) t then Some (map char_of t) else None)"

definition to_utf8_code :: "nat \<Rightarrow> bytes" where
  "to_utf8_code c =
     (if c < 0x80 then [word_of_nat c]
      else if c < 0x800 then [word_of_nat (0xC0 + c div 64), word_of_nat (0x80 + c mod 64)]
      else if c < 0x10000 then
        [word_of_nat (0xE0 + c div 4096), word_of_nat (0x80 + c div 64 mod 64), word_of_nat (0x80 + c mod 64)]
      else [word_of_nat (0xF0 + c div 262144), word_of_nat (0x80 + c div 4096 mod 64), word_of_nat (0x80 + c div 64 mod 64),
            word_of_nat (0x80 + c mod 64)])"

definition to_utf8 :: "ctext \<Rightarrow> bytes" where
  "to_utf8 t = concat (map to_utf8_code t)"

definition decode_hex_text :: "(string \<Rightarrow> bytes option) \<Rightarrow> ctext \<Rightarrow> bytes option" where
  "decode_hex_text hex_decode t = Option.bind (ascii_text t) (\<lambda>s. hex_decode (strip_hex_prefix s))"

definition normalize_feed_topic ::
  "(bytes \<Rightarrow> bytes) \<Rightarrow> (string \<Rightarrow> bytes option) \<Rightarrow> (bytes \<Rightarrow> string) \<Rightarrow> ctext \<Rightarrow> string" where
  "normalize_feed_topic keccak hex_decode hex_encode topic =
     (let trimmed = trim topic in
      case decode_hex_text hex_decode trimmed of
        Some bs \<Rightarrow> if length bs = 32 then hex_encode bs else hex_encode (keccak (to_utf8 trimmed))
      | None \<Rightarrow> hex_encode (keccak (to_utf8 trimmed)))"

definition lower_char :: "char \<Rightarrow> char" where
  "lower_char c = char_of (ascii_lower_code (of_char c))"

definition normalize_feed_owner :: "ctext \<Rightarrow> ViewerError + string" where
  "normalize_feed_owner owner =
     (case ascii_text (trim owner) of
        None \<Rightarrow> Inl InvalidOwner
      | Some s \<Rightarrow>
          (let lowered = map lower_char (strip_hex_prefix s) in
           if length lowered \<noteq> 40 \<or> \<not> list_all (\<lambda>c. is_ascii_hexdigit (of_char c)) lowered then Inl InvalidOwner
           else Inr lowered))"

section \<open>Reading\<close>

definition retrieve_payload ::
  "'sig feed_net \<Rightarrow> (bytes \<Rightarrow> DecodedJoinChunk option \<Rightarrow> bool) \<Rightarrow> ctext \<Rightarrow> (ViewerError + bytes) \<Rightarrow> bool" where
  "retrieve_payload net roots address r =
     (case decode_hex_text (fn_hex net) (trim address) of
        None \<Rightarrow> r = Inl InvalidReference
      | Some reference \<Rightarrow>
          \<exists>bs. retrieve_data_payload roots (fn_groups net) (fn_memory net) reference bs \<and>
               r = (if bs = [] then Inl NotRetrieved else Inr bs))"

text \<open>One attempt after the other; the delays between them are left out.\<close>

inductive segment_attempts ::
  "'sig feed_net \<Rightarrow> (bytes \<Rightarrow> DecodedJoinChunk option \<Rightarrow> bool) \<Rightarrow> StreamSegment \<Rightarrow> usize \<Rightarrow> (ViewerError + bytes \<times> usize) \<Rightarrow> bool"
  for net roots segment where
  success: "attempt < SEGMENT_BODY_ATTEMPTS \<Longrightarrow> retrieve_payload net roots (ss_reference segment) (Inr bs) \<Longrightarrow>
    segment_attempts net roots segment attempt (Inr (bs, attempt + 1))"
| again: "attempt + 1 < SEGMENT_BODY_ATTEMPTS \<Longrightarrow> retrieve_payload net roots (ss_reference segment) (Inl e) \<Longrightarrow>
    segment_attempts net roots segment (attempt + 1) r \<Longrightarrow> segment_attempts net roots segment attempt r"
| given_up: "attempt + 1 = SEGMENT_BODY_ATTEMPTS \<Longrightarrow> retrieve_payload net roots (ss_reference segment) (Inl e) \<Longrightarrow>
    segment_attempts net roots segment attempt (Inl (SegmentFailed (ss_sequence segment) e))"

definition fetch_segment_reporting ::
  "'sig feed_net \<Rightarrow> (bytes \<Rightarrow> DecodedJoinChunk option \<Rightarrow> bool) \<Rightarrow> StreamSegment \<Rightarrow> (ViewerError + bytes \<times> usize) \<Rightarrow> bool" where
  "fetch_segment_reporting net roots segment r =
     (if ss_gap segment then r = Inl (SegmentIsGap (ss_sequence segment)) else segment_attempts net roots segment 0 r)"

definition fetch_segment ::
  "'sig feed_net \<Rightarrow> (bytes \<Rightarrow> DecodedJoinChunk option \<Rightarrow> bool) \<Rightarrow> StreamSegment \<Rightarrow> (ViewerError + bytes) \<Rightarrow> bool" where
  "fetch_segment net roots segment r =
     (\<exists>r'. fetch_segment_reporting net roots segment r' \<and> r = map_sum id fst r')"

definition resolve_feed ::
  "'sig feed_net \<Rightarrow> (bytes \<Rightarrow> string) \<Rightarrow> ctext \<Rightarrow> ctext \<Rightarrow> (ViewerError + u64 \<times> bytes) \<Rightarrow> bool" where
  "resolve_feed net hex_encode owner topic r =
     (case normalize_feed_owner owner of
        Inl e \<Rightarrow> r = Inl e
      | Inr owner \<Rightarrow>
          \<exists>latest. seek_latest_feed_update_indexed net owner (normalize_feed_topic (fn_keccak net) (fn_hex net) hex_encode topic) latest \<and>
            (case latest of
               None \<Rightarrow> r = Inl NoFeedUpdate
             | Some (index, update) \<Rightarrow>
                 (case decode_feed_payload_root update of
                    None \<Rightarrow> r = Inl (NotReadable index)
                  | Some payload \<Rightarrow>
                      \<exists>bs. retrieve_feed_payload net payload MAX_STREAM_FEED_PAYLOAD_BYTES bs \<and>
                        r = (case bs of None \<Rightarrow> Inl (PayloadNotRetrieved index) | Some b \<Rightarrow> Inr (index, b)))))"

definition viewer_playlist ::
  "'sig feed_net \<Rightarrow> (bytes \<Rightarrow> string) \<Rightarrow> ctext \<Rightarrow> ctext \<Rightarrow> (ViewerError + StreamPlaylist) \<Rightarrow> bool" where
  "viewer_playlist net hex_encode owner topic r =
     (\<exists>resolved. resolve_feed net hex_encode owner topic resolved \<and>
        (case resolved of
           Inl e \<Rightarrow> r = Inl e
         | Inr (index, bs) \<Rightarrow>
             (case parse_playlist bs of None \<Rightarrow> r = Inl NotAPlaylist | Some p \<Rightarrow> r = Inr (stream_playlist index p))))"

section \<open>Live streams\<close>

definition live_stream :: "LiveJoin \<Rightarrow> LiveStream" where
  "live_stream j =
     \<lparr>lv_start_sequence = join_start_sequence j, lv_joined_at = join_feed_index j,
      lv_runway_seconds = f64_sub (plan_runway_end (join_plan j)) (plan_play_position (join_plan j))\<rparr>"

definition watch_live ::
  "'sig feed_net \<Rightarrow> (bytes \<Rightarrow> string) \<Rightarrow> ctext \<Rightarrow> ctext \<Rightarrow> (ViewerError + LiveStream) \<Rightarrow> bool" where
  "watch_live net hex_encode owner topic r =
     (case normalize_feed_owner owner of
        Inl e \<Rightarrow> r = Inl e
      | Inr owner \<Rightarrow>
          \<exists>j. live_join net owner (normalize_feed_topic (fn_keccak net) (fn_hex net) hex_encode topic) j \<and>
              r = map_sum JoinFailed live_stream j)"

text \<open>The segment with a sequence number, over the states at which the caller is woken.\<close>

definition live_segment :: "u64 \<Rightarrow> LiveState list \<Rightarrow> StreamSegment option option" where
  "live_segment sequence states = map_option (map_option (stream_segment sequence)) (segment_at sequence states)"

definition live_playlist :: "(u64 \<times> ctext) list \<Rightarrow> LiveState \<Rightarrow> StreamPlaylist" where
  "live_playlist order state = stream_playlist (ls_index state) (snapshot order state)"

definition stream_body_failure :: "StreamSegment \<Rightarrow> LiveFeed \<Rightarrow> bool \<times> LiveFeed" where
  "stream_body_failure segment feed = record_body_failure (ss_sequence segment) (ss_reference segment) feed"

end
