(* ===== verification/Player.thy ===== *)
theory Player
  imports Viewer
begin

text \<open>
  \<open>src/main.rs\<close>: the command line, the wait for peers and the two players.  Text is code
  points, durations are nanoseconds.  Readings of the clock, the stop signal, the outcome of writing a file and
  whether log lines are evaluated are inputs of the steps; the metrics and log lines themselves and
  the pause that keeps a live player from running ahead are left out, except that the test for
  MPEG-TS is evaluated by a log line.  The bodies a player hands to its output directory, if there
  is one, are listed as written, the last one also when the file cannot be written.  An index out of
  range and the overflow of a counter are panics.
\<close>

section \<open>Command line\<close>

definition WATCH_MINIMUM_PEERS :: u64 where "WATCH_MINIMUM_PEERS = 25"
definition WATCH_PEER_TIMEOUT_MS :: u64 where "WATCH_PEER_TIMEOUT_MS = 60000"
definition PEER_UP_TIMEOUT_MS :: u64 where "PEER_UP_TIMEOUT_MS = 300000"
definition WATCH_SEGMENTS :: usize where "WATCH_SEGMENTS = 8"
definition SWARM_MAINNET :: u64 where "SWARM_MAINNET = 1"
definition SWARM_TESTNET :: u64 where "SWARM_TESTNET = 10"

datatype Mode =
  PeerMode
| WatchMode ctext ctext
| WatchLiveMode ctext ctext
| GetMode ctext
| FeedMode ctext ctext

record Run =
  run_mode :: Mode
  run_segments :: usize
  run_duration :: "nat option"
  run_idle :: u64
  run_out_dir :: "ctext option"
  run_peers :: "u64 option"
  run_dial_rate :: "u64 option"
  run_verify :: "bool option"
  run_peer_up :: u64
  run_hold :: bool
  run_metrics_json :: bool
  run_network_id :: u64

definition arg :: "ctext list \<Rightarrow> nat \<Rightarrow> ctext option" where
  "arg args i = (if i < length args then Some (args ! i) else None)"

definition has_arg :: "ctext list \<Rightarrow> string \<Rightarrow> bool" where
  "has_arg args name = list_ex (\<lambda>a. a = codes name) args"

text \<open>\<open>None\<close> is the exit with the usage line.\<close>

definition parse_mode :: "ctext list \<Rightarrow> Mode option" where
  "parse_mode args =
     (if arg args 0 = Some (codes ''watch'') then
        (case (arg args 1, arg args 2) of
           (Some owner, Some topic) \<Rightarrow>
             Some (if has_arg args ''--live'' then WatchLiveMode owner topic else WatchMode owner topic)
         | _ \<Rightarrow> None)
      else if arg args 0 = Some (codes ''get'') then map_option GetMode (arg args 1)
      else if arg args 0 = Some (codes ''feed'') then
        (case (arg args 1, arg args 2) of (Some owner, Some topic) \<Rightarrow> Some (FeedMode owner topic) | _ \<Rightarrow> None)
      else Some PeerMode)"

definition flag :: "ctext list \<Rightarrow> string \<Rightarrow> ctext option" where
  "flag args name = Option.bind (position (\<lambda>a. a = codes name) args) (\<lambda>i. arg args (i + 1))"

definition flag_u64 :: "ctext list \<Rightarrow> string \<Rightarrow> u64 option" where
  "flag_u64 args name = Option.bind (flag args name) parse_u64"

text \<open>
  \<open>Duration::from_secs_f64\<close>, which panics for what is not finite or too large.
\<close>

fun from_secs_f64 :: "f64 \<Rightarrow> nat option" where
  "from_secs_f64 (F64Fin False a) =
     (let ns = nat (round_half_even (a * 1000000000)) in if ns < 2 ^ 64 * 1000000000 then Some ns else None)"
| "from_secs_f64 _ = None"

definition duration_seconds :: "ctext list \<Rightarrow> f64 option" where
  "duration_seconds args =
     (case Option.bind (flag args ''--duration'') parse_f64 of
        None \<Rightarrow> None
      | Some seconds \<Rightarrow> if f64_lt f64_zero seconds then Some seconds else None)"

datatype Start = Usage | StartPanic | Started Run

definition parse_args :: "ctext list \<Rightarrow> Start" where
  "parse_args args =
     (case parse_mode args of
        None \<Rightarrow> Usage
      | Some mode \<Rightarrow>
          (let duration = map_option from_secs_f64 (duration_seconds args) in
           if duration = Some None then StartPanic
           else Started
             \<lparr>run_mode = mode,
              run_segments = (case flag_u64 args ''--segments'' of
                 Some n \<Rightarrow> unat n | None \<Rightarrow> if duration \<noteq> None then usize_bound - 1 else WATCH_SEGMENTS),
              run_duration = Option.bind duration id,
              run_idle = (case flag_u64 args ''--idle'' of Some n \<Rightarrow> n | None \<Rightarrow> 0),
              run_out_dir = flag args ''--out'',
              run_peers = flag_u64 args ''--peers'',
              run_dial_rate = flag_u64 args ''--dial-rate'',
              run_verify = (if has_arg args ''--verify'' then Some True
                            else if has_arg args ''--unsafe'' then Some False else None),
              run_peer_up = (case flag_u64 args ''--peer-up'' of Some n \<Rightarrow> n | None \<Rightarrow> WATCH_MINIMUM_PEERS),
              run_hold = has_arg args ''--hold'',
              run_metrics_json = (flag args ''--metrics'' = Some (codes ''json'')),
              run_network_id = (if has_arg args ''testnet'' then SWARM_TESTNET else SWARM_MAINNET)\<rparr>))"

definition should_stop :: "Run \<Rightarrow> bool \<Rightarrow> nat \<Rightarrow> bool" where
  "should_stop run requested elapsed \<longleftrightarrow> requested \<or> (case run_duration run of Some limit \<Rightarrow> limit \<le> elapsed | None \<Rightarrow> False)"

section \<open>Waiting for peers\<close>

definition peer_up_target :: "Run \<Rightarrow> u64" where
  "peer_up_target run = max (run_peer_up run) 1"

definition peer_up_deadline :: "Run \<Rightarrow> u64" where
  "peer_up_deadline run = (if WATCH_MINIMUM_PEERS < peer_up_target run then PEER_UP_TIMEOUT_MS else WATCH_PEER_TIMEOUT_MS)"

text \<open>
  One turn per entry: whether a stop was requested, the milliseconds waited and, when the turn goes
  on to wait, the peers it then counts.
\<close>

fun peer_up_loop :: "u64 \<Rightarrow> u64 \<Rightarrow> u64 \<Rightarrow> (bool \<times> u64 \<times> u64) list \<Rightarrow> u64 option" where
  "peer_up_loop target deadline peers [] = (if target \<le> peers then Some peers else None)"
| "peer_up_loop target deadline peers ((requested, waited, counted) # turns) =
     (if target \<le> peers then Some peers
      else if requested then Some peers
      else (case checked_sub deadline waited of
              None \<Rightarrow> Some peers
            | Some remaining \<Rightarrow> if remaining = 0 then Some peers else peer_up_loop target deadline counted turns))"

text \<open>The result once the barrier is open, when \<open>later\<close> peers are connected.\<close>

definition peer_up :: "Run \<Rightarrow> u64 \<Rightarrow> (bool \<times> u64 \<times> u64) list \<Rightarrow> u64 \<Rightarrow> (unit + u64) option" where
  "peer_up run peers turns later =
     map_option (\<lambda>p. if p = 0 then Inl () else Inr (max later p))
       (peer_up_loop (peer_up_target run) (peer_up_deadline run) peers turns)"

section \<open>Playing a playlist\<close>

text \<open>\<open>None\<close> is the panic of an index out of range.\<close>

definition looks_like_mpeg_ts :: "bytes \<Rightarrow> bool option" where
  "looks_like_mpeg_ts bs =
     (if length bs < 188 then Some False
      else if bs ! 0 \<noteq> 0x47 then Some False
      else if length bs \<le> 188 then None
      else Some (bs ! 188 = 0x47))"

datatype PlayEnd = PlayOver | PlayFailed ViewerError | WriteFailed | PlayPanic

record Played =
  pd_buffered :: f64
  pd_total :: usize
  pd_stalls :: u32
  pd_stalled_total :: f64
  pd_media :: f64
  pd_played :: usize
  pd_fetches :: "f64 list"
  pd_written :: "(StreamSegment \<times> bytes) list"

definition play_begin :: Played where
  "play_begin = \<lparr>pd_buffered = f64_zero, pd_total = 0, pd_stalls = 0, pd_stalled_total = f64_zero, pd_media = f64_zero,
     pd_played = 0, pd_fetches = [], pd_written = []\<rparr>"

definition play_account :: "f64 \<Rightarrow> StreamSegment \<Rightarrow> bytes \<Rightarrow> Played \<Rightarrow> Played option" where
  "play_account elapsed segment bs p =
     (let stalled = (0 < pd_played p \<and> f64_lt (pd_buffered p) elapsed);
          stall_s = (if stalled then f64_sub elapsed (pd_buffered p) else f64_zero)
      in case (if stalled then checked_add (pd_stalls p) 1 else Some (pd_stalls p)) of
           None \<Rightarrow> None
         | Some stalls \<Rightarrow> Some (p\<lparr>pd_stalls := stalls,
             pd_stalled_total := (if stalled then f64_add (pd_stalled_total p) stall_s else pd_stalled_total p),
             pd_buffered := f64_add (f64_max (f64_sub (pd_buffered p) elapsed) f64_zero) (ss_duration segment),
             pd_total := pd_total p + length bs, pd_media := f64_add (pd_media p) (ss_duration segment),
             pd_played := pd_played p + 1, pd_fetches := pd_fetches p @ [f64_mul elapsed (f64_of_nat 1000)],
             pd_written := pd_written p @ [(segment, bs)]\<rparr>))"

inductive play_segments ::
  "'sig feed_net \<Rightarrow> (bytes \<Rightarrow> DecodedJoinChunk option \<Rightarrow> bool) \<Rightarrow> StreamSegment list \<Rightarrow> Played \<Rightarrow> PlayEnd \<times> Played \<Rightarrow> bool"
  for net roots where
  finished: "play_segments net roots [] p (PlayOver, p)"
| stopped: "play_segments net roots (segment # segments) p (PlayOver, p)"
| not_fetched: "fetch_segment_reporting net roots segment (Inl e) \<Longrightarrow>
    play_segments net roots (segment # segments) p (PlayFailed e, p)"
| too_many_stalls: "fetch_segment_reporting net roots segment (Inr (bs, attempts)) \<Longrightarrow> play_account elapsed segment bs p = None \<Longrightarrow>
    play_segments net roots (segment # segments) p (PlayPanic, p)"
| not_written: "fetch_segment_reporting net roots segment (Inr (bs, attempts)) \<Longrightarrow> play_account elapsed segment bs p = Some p' \<Longrightarrow>
    play_segments net roots (segment # segments) p (WriteFailed, p')"
| too_short: "fetch_segment_reporting net roots segment (Inr (bs, attempts)) \<Longrightarrow> play_account elapsed segment bs p = Some p' \<Longrightarrow>
    looks_like_mpeg_ts bs = None \<Longrightarrow> play_segments net roots (segment # segments) p (PlayPanic, p')"
| accounted: "fetch_segment_reporting net roots segment (Inr (bs, attempts)) \<Longrightarrow> play_account elapsed segment bs p = Some p' \<Longrightarrow>
    (logged \<Longrightarrow> looks_like_mpeg_ts bs \<noteq> None) \<Longrightarrow> play_segments net roots segments p' r \<Longrightarrow>
    play_segments net roots (segment # segments) p r"

definition play ::
  "'sig feed_net \<Rightarrow> (bytes \<Rightarrow> DecodedJoinChunk option \<Rightarrow> bool) \<Rightarrow> Run \<Rightarrow> StreamPlaylist \<Rightarrow> PlayEnd \<times> Played \<Rightarrow> bool" where
  "play net roots run playlist r = play_segments net roots (take (run_segments run) (spl_segments playlist)) play_begin r"

section \<open>Playing a live stream\<close>

datatype LivePc = LoopTop | AwaitSegment | FetchBody StreamSegment | LiveOver PlayEnd

record LivePlayer =
  lp_sequence :: u64
  lp_media :: f64
  lp_stalled_total :: f64
  lp_stalls :: u32
  lp_played :: usize
  lp_total :: usize
  lp_gaps :: u64
  lp_body_failures :: u64
  lp_fetches :: "f64 list"
  lp_written :: "(StreamSegment \<times> bytes) list"
  lp_pc :: LivePc

definition live_begin :: "LiveStream \<Rightarrow> LivePlayer" where
  "live_begin live = \<lparr>lp_sequence = lv_start_sequence live, lp_media = f64_zero, lp_stalled_total = f64_zero, lp_stalls = 0,
     lp_played = 0, lp_total = 0, lp_gaps = 0, lp_body_failures = 0, lp_fetches = [], lp_written = [], lp_pc = LoopTop\<rparr>"

definition live_top :: "Run \<Rightarrow> bool \<Rightarrow> nat \<Rightarrow> LivePlayer \<Rightarrow> LivePlayer" where
  "live_top run requested elapsed p =
     (if lp_played p < run_segments run \<and> \<not> should_stop run requested elapsed then p\<lparr>lp_pc := AwaitSegment\<rparr>
      else p\<lparr>lp_pc := LiveOver PlayOver\<rparr>)"

definition next_sequence :: "LivePlayer \<Rightarrow> LivePlayer" where
  "next_sequence p =
     (case checked_add (lp_sequence p) 1 of
        None \<Rightarrow> p\<lparr>lp_pc := LiveOver PlayPanic\<rparr>
      | Some sequence \<Rightarrow> p\<lparr>lp_sequence := sequence, lp_pc := LoopTop\<rparr>)"

definition step_over :: "LivePlayer \<Rightarrow> LivePlayer" where
  "step_over p =
     (case checked_add (lp_gaps p) 1 of
        None \<Rightarrow> p\<lparr>lp_pc := LiveOver PlayPanic\<rparr>
      | Some gaps \<Rightarrow> next_sequence (p\<lparr>lp_gaps := gaps\<rparr>))"

text \<open>The section after the wait for a segment; \<open>None\<close> as long as there is none.\<close>

definition live_woken :: "LiveState \<Rightarrow> LivePlayer \<Rightarrow> LivePlayer option" where
  "live_woken state p =
     (case segment_look (lp_sequence p) state of
        NotYet \<Rightarrow> None
      | Ready hls \<Rightarrow>
          (let segment = stream_segment (lp_sequence p) hls in
           Some (if ss_gap segment then step_over p else p\<lparr>lp_pc := FetchBody segment\<rparr>))
      | Gone \<Rightarrow>
          Some (if lp_sequence p < hls_sequence (ls_playlist state)
                then p\<lparr>lp_sequence := hls_sequence (ls_playlist state), lp_pc := LoopTop\<rparr>
                else p\<lparr>lp_pc := LiveOver PlayOver\<rparr>))"

definition live_body_failed :: "StreamSegment \<Rightarrow> LiveFeed \<Rightarrow> LivePlayer \<Rightarrow> LiveFeed \<times> LivePlayer" where
  "live_body_failed segment feed p =
     (case checked_add (lp_body_failures p) 1 of
        None \<Rightarrow> (feed, p\<lparr>lp_pc := LiveOver PlayPanic\<rparr>)
      | Some failures \<Rightarrow>
          (let (second_strike, feed') = stream_body_failure segment feed; p' = p\<lparr>lp_body_failures := failures\<rparr>
           in (feed', if second_strike then step_over p' else p'\<lparr>lp_pc := LoopTop\<rparr>)))"

text \<open>
  The section after a body has arrived: \<open>now\<close> is the time since playback began and
  \<open>fetch_ms\<close> the time the fetch took.
\<close>

definition live_account :: "f64 \<Rightarrow> f64 \<Rightarrow> StreamSegment \<Rightarrow> bytes \<Rightarrow> LivePlayer \<Rightarrow> LivePlayer option" where
  "live_account now fetch_ms segment bs p =
     (let due = f64_add (lp_media p) (lp_stalled_total p);
          stalled = (f64_lt due now \<and> 0 < lp_played p);
          stall_s = (if stalled then f64_sub now due else f64_zero)
      in case (if stalled then checked_add (lp_stalls p) 1 else Some (lp_stalls p)) of
           None \<Rightarrow> None
         | Some stalls \<Rightarrow> Some (p\<lparr>lp_stalls := stalls,
             lp_stalled_total := (if stalled then f64_add (lp_stalled_total p) stall_s else lp_stalled_total p),
             lp_media := f64_add (lp_media p) (ss_duration segment), lp_total := lp_total p + length bs,
             lp_played := lp_played p + 1, lp_fetches := lp_fetches p @ [fetch_ms],
             lp_written := lp_written p @ [(segment, bs)]\<rparr>))"

definition live_body ::
  "f64 \<Rightarrow> f64 \<Rightarrow> bool \<Rightarrow> bool \<Rightarrow> StreamSegment \<Rightarrow> bytes \<Rightarrow> LivePlayer \<Rightarrow> LivePlayer" where
  "live_body now fetch_ms written logged segment bs p =
     (case live_account now fetch_ms segment bs p of
        None \<Rightarrow> p\<lparr>lp_pc := LiveOver PlayPanic\<rparr>
      | Some p' \<Rightarrow>
          if \<not> written then p'\<lparr>lp_pc := LiveOver WriteFailed\<rparr>
          else if logged \<and> looks_like_mpeg_ts bs = None then p'\<lparr>lp_pc := LiveOver PlayPanic\<rparr>
          else next_sequence p')"

inductive live_step ::
  "'sig feed_net \<Rightarrow> (bytes \<Rightarrow> DecodedJoinChunk option \<Rightarrow> bool) \<Rightarrow> string \<Rightarrow> string \<Rightarrow> Run \<Rightarrow>
   (FollowPc \<times> LiveFeed) \<times> LivePlayer \<Rightarrow> (FollowPc \<times> LiveFeed) \<times> LivePlayer \<Rightarrow> bool"
  for net roots owner topic run where
  follower: "follow_step net owner topic c c' \<Longrightarrow> live_step net roots owner topic run (c, p) (c', p)"
| top: "lp_pc p = LoopTop \<Longrightarrow> live_step net roots owner topic run (c, p) (c, live_top run requested elapsed p)"
| woken: "lp_pc p = AwaitSegment \<Longrightarrow> live_woken (lf_state feed) p = Some p' \<Longrightarrow>
    live_step net roots owner topic run ((pc, feed), p) ((pc, feed), p')"
| interrupted: "lp_pc p = AwaitSegment \<Longrightarrow> live_step net roots owner topic run (c, p) (c, p\<lparr>lp_pc := LiveOver PlayOver\<rparr>)"
| body: "lp_pc p = FetchBody segment \<Longrightarrow> fetch_segment_reporting net roots segment (Inr (bs, attempts)) \<Longrightarrow>
    live_step net roots owner topic run (c, p) (c, live_body now fetch_ms written logged segment bs p)"
| body_failed: "lp_pc p = FetchBody segment \<Longrightarrow> fetch_segment_reporting net roots segment (Inl e) \<Longrightarrow>
    live_body_failed segment feed p = (feed', p') \<Longrightarrow>
    live_step net roots owner topic run ((pc, feed), p) ((pc, feed'), p')"

end
