(* ===== verification/FollowInvariant.thy ===== *)
theory FollowInvariant
  imports StreamFollow
begin

text \<open>
  What the player and the viewer rely on while a stream is followed: one view of the gaps, no lost
  notification, a state that only moves forward, and playlists whose every reference was published
  by the owner of the feed.
\<close>

section \<open>One view of the gaps\<close>

definition gapped :: "(u64 \<times> ctext) set \<Rightarrow> nat \<Rightarrow> HlsSegment \<Rightarrow> HlsSegment" where
  "gapped gaps s segment =
     (if \<exists>sequence. unat sequence = s \<and> (sequence, seg_reference segment) \<in> gaps then segment\<lparr>seg_gap := True\<rparr> else segment)"

lemma gapped_single:
  "gapped {(sequence, reference)} s segment =
     (if s = unat sequence \<and> seg_reference segment = reference then segment\<lparr>seg_gap := True\<rparr> else segment)"
  by (auto simp: gapped_def)

lemma timeline_update:
  assumes "i < length (hls_segments p)"
  shows "timeline (p\<lparr>hls_segments := (hls_segments p)[i := v]\<rparr>) s =
    (if s = unat (hls_sequence p) + i then Some v else timeline p s)"
  using assms by (auto simp: timeline_def nth_list_update)

lemma timeline_mark_gap:
  "timeline (snd (mark_gap sequence reference p)) s = map_option (gapped {(sequence, reference)} s) (timeline p s)"
proof (cases "timeline p (unat sequence)")
  case None
  then have "snd (mark_gap sequence reference p) = p"
    by (auto simp: mark_gap_def timeline_def segment_get_def checked_sub_def word_le_nat_alt unat_sub split: if_splits)
  moreover have "timeline p s = Some segment \<Longrightarrow> s \<noteq> unat sequence" for segment using None by auto
  ultimately show ?thesis by (cases "timeline p s") (auto simp: gapped_single)
next
  case (Some segment)
  let ?i = "unat sequence - unat (hls_sequence p)"
  have i: "?i < length (hls_segments p)" "unat (hls_sequence p) + ?i = unat sequence" "segment = hls_segments p ! ?i"
    using Some by (auto simp: timeline_def split: if_splits)
  then have "hls_sequence p \<le> sequence" by (simp add: word_le_nat_alt)
  then have "snd (mark_gap sequence reference p) =
      (if seg_reference segment = reference then p\<lparr>hls_segments := (hls_segments p)[?i := segment\<lparr>seg_gap := True\<rparr>]\<rparr> else p)"
    using i by (simp add: mark_gap_def checked_sub_def segment_get_def unat_sub)
  then show ?thesis
    using Some timeline_update [OF i(1), of "segment\<lparr>seg_gap := True\<rparr>" s] i(2)
    by (cases "s = unat sequence"; cases "timeline p s") (auto simp: gapped_single)
qed

lemma gapped_comp: "gapped B s (gapped A s segment) = gapped (A \<union> B) s segment"
  by (auto simp: gapped_def)

lemma timeline_mark_gaps:
  "timeline (mark_gaps order p) s = map_option (gapped (set order) s) (timeline p s)"
proof (induction order arbitrary: p)
  case Nil
  then show ?case by (simp add: gapped_def option.map_ident)
next
  case (Cons g order)
  obtain sequence reference where "g = (sequence, reference)" by (cases g)
  then show ?case by (simp add: Cons timeline_mark_gap option.map_comp comp_def gapped_comp)
qed

lemma gapped_unat:
  "gapped gaps (unat sequence) segment =
     (if (sequence, seg_reference segment) \<in> gaps then segment\<lparr>seg_gap := True\<rparr> else segment)"
  by (auto simp: gapped_def simp flip: word_unat_eq_iff)

definition look_segment :: "SegmentLook \<Rightarrow> HlsSegment option" where
  "look_segment look = (case look of Ready segment \<Rightarrow> Some segment | _ \<Rightarrow> None)"

lemma segment_look_timeline:
  "look_segment (segment_look sequence state) =
     map_option (gapped (ls_gaps state) (unat sequence)) (timeline (ls_playlist state) (unat sequence))"
  by (auto simp: segment_look_def look_segment_def timeline_def segment_get_def gapped_unat Let_def word_less_nat_alt
      unat_sub word_le_nat_alt)

section \<open>Notifications\<close>

lemma step_notifies:
  assumes "follow_step net owner topic c c'"
  shows "lf_changed (snd c) \<le> lf_changed (snd c') \<and>
    (lf_changed (snd c') = lf_changed (snd c) \<longrightarrow>
       (\<exists>f. lf_state (snd c') = (lf_state (snd c))\<lparr>ls_tail_failure := f\<rparr>))"
proof -
  have same: "\<exists>f. s = s\<lparr>ls_tail_failure := f\<rparr>" for s :: LiveState
    by (rule exI [of _ "ls_tail_failure s"]) simp
  show ?thesis
    using assms
    by cases (auto simp: same after_probe_def after_tail_def after_whole_def apply_payload_def apply_playlist_def apply_with_def
        recover_frontier_def finish_stream_def reanchor_def record_body_failure_def Let_def
        split: FeedPayloadProbe.splits option.splits prod.splits if_splits)
qed

lemma looks_ignore_failures:
  "segment_look q (s\<lparr>ls_tail_failure := f\<rparr>) = segment_look q s"
  "runway_look (s\<lparr>ls_tail_failure := f\<rparr>) = runway_look s"
  by (simp_all add: segment_look_def runway_look_def Let_def cong: option.case_cong)

section \<open>What a payload carries\<close>

definition carries :: "bytes \<Rightarrow> ctext \<Rightarrow> bool" where
  "carries bs reference \<longleftrightarrow>
     (\<exists>body line r. from_utf8 bs = Some body \<and> line \<in> set (lines body) \<and> swarm_reference (trim line) = Some r \<and>
        reference = map ascii_lower_code r)"

lemma parse_loop_lines:
  assumes "parse_segment_loop ls s = Some s'" "seg \<in> set (sp_segments s')"
  shows "seg \<in> set (sp_segments s) \<or>
    (\<exists>l \<in> set ls. \<exists>r. swarm_reference (trim l) = Some r \<and> seg_reference seg = map ascii_lower_code r)"
  using assms
proof (induction ls arbitrary: s)
  case (Cons l ls)
  then obtain s1 where s1: "parse_segment_line l s = Some s1" "parse_segment_loop ls s1 = Some s'"
    by (auto simp: bind_eq_Some_conv)
  from Cons.IH [OF s1(2) Cons.prems(2)] have later: "seg \<in> set (sp_segments s1) \<or> ?case" by auto
  from s1(1) have "seg \<in> set (sp_segments s1) \<Longrightarrow> ?case"
    by (cases rule: parse_segment_line_cases) auto
  then show ?case using later by blast
qed simp

lemma parse_lines_carried:
  assumes "parse_segment_lines body d = Some segments" "seg \<in> set segments"
  shows "\<exists>l \<in> set (lines body). \<exists>r. swarm_reference (trim l) = Some r \<and> seg_reference seg = map ascii_lower_code r"
  using assms parse_loop_lines by (fastforce simp: parse_segment_lines_def split: option.splits if_splits)

lemma lines_after_break: "10 \<in> set t \<Longrightarrow> set (lines (tl (dropWhile (\<lambda>c. c \<noteq> 10) t))) \<subseteq> set (lines t)"
  by (subst (2) lines.simps) (auto simp: Let_def)

lemma parse_carries:
  assumes "parse_playlist bs = Some p" "seg \<in> set (hls_segments p)"
  shows "carries bs (seg_reference seg)"
proof -
  obtain body where body: "from_utf8 bs = Some body" "parse_text body = Some p"
    using assms(1) by (auto simp: parse_playlist_def bind_eq_Some_conv split: if_splits)
  then obtain d where "parse_segment_lines body d = Some (hls_segments p)"
    by (auto simp: parse_text_def Let_def bind_eq_Some_conv split: if_splits)
  from parse_lines_carried [OF this assms(2)] show ?thesis using body(1) by (auto simp: carries_def)
qed

lemma merge_tail_carries:
  assumes "merge_tail bs p = Some (k, p')" "seg \<in> set (hls_segments p')"
  shows "seg \<in> set (hls_segments p) \<or> carries bs (seg_reference seg)"
proof -
  obtain body part cs e where m: "from_utf8 bs = Some body" "parse_segment_lines part 0 = Some cs"
    "set (lines part) \<subseteq> set (lines body)" "merge_segments cs e p = Some (k, p')"
    using assms(1) lines_after_break
    by (auto simp: merge_tail_def bind_eq_Some_conv split: option.splits if_splits)
  have "hls_segments p \<noteq> []" using m(4) by (auto simp: merge_segments_def)
  with m(4) obtain overlap offset ds where ds: "shift_discontinuities offset (drop overlap cs) = Some ds"
    "hls_segments p' = hls_segments p @ tl ds"
    by (auto simp: merge_segments_def Let_def bind_eq_Some_conv split: if_splits)
  have "\<exists>c \<in> set cs. seg_reference seg = seg_reference c" if in_ds: "seg \<in> set ds"
  proof -
    obtain i where i: "i < length ds" "seg = ds ! i" using in_ds by (auto simp: in_set_conv_nth)
    have shape: "length ds = length (drop overlap cs)" "seg_reference (ds ! i) = seg_reference (drop overlap cs ! i)"
      using shift_discontinuities_shape [OF ds(1)] i(1) by (auto dest: list_all2_nthD2)
    then have "drop overlap cs ! i \<in> set cs" using i(1) by (metis in_set_dropD nth_mem)
    then show ?thesis using shape(2) i(2) by metis
  qed
  moreover have "seg \<in> set (hls_segments p) \<or> seg \<in> set ds"
    using assms(2) ds(2) by (cases ds) auto
  ultimately show ?thesis
    using parse_lines_carried [OF m(2)] m(1,3) unfolding carries_def by (metis subsetD)
qed

lemma merge_playlist_segments:
  "merge_playlist c p = Some (k, p') \<Longrightarrow> set (hls_segments p') \<subseteq> set (hls_segments p) \<union> set (hls_segments c)"
  by (auto simp: merge_playlist_def bind_eq_Some_conv Let_def split: if_splits dest: in_set_dropD)

section \<open>Where the playlist comes from\<close>

definition net_sound :: "bool \<Rightarrow> 'sig feed_net \<Rightarrow> bool" where
  "net_sound verify net \<longleftrightarrow> (\<exists>limit. net_allowed verify limit net) \<and> (\<forall>x. length (fn_keccak net x) = 32)"

text \<open>An update that was retrieved at the address of an index, and the payload it points to.\<close>

definition update_known :: "'sig feed_net \<Rightarrow> string \<Rightarrow> string \<Rightarrow> u64 \<Rightarrow> FeedPayloadRoot \<Rightarrow> bool" where
  "update_known net owner topic index payload \<longleftrightarrow>
     (\<exists>soc. fn_answers net (get_feed_address (fn_keccak net) (fn_hex net) owner topic index) (Answered (Some soc)) \<and>
        (signed_update net owner topic index soc \<or> forged_update net owner topic index soc) \<and>
        decode_feed_payload_root (drop 97 soc) = Some payload)"

definition published :: "bool \<Rightarrow> 'sig feed_net \<Rightarrow> string \<Rightarrow> string \<Rightarrow> u64 \<Rightarrow> bytes \<Rightarrow> bool" where
  "published verify net owner topic index bs \<longleftrightarrow>
     (\<exists>payload start. update_known net owner topic index payload \<and> payload_suffix verify net payload start bs)"

lemma found_known:
  assumes "net_sound verify net" "probe_feed_update_status net owner topic index (Found update)"
    "decode_feed_payload_root update = Some payload"
  shows "update_known net owner topic index payload"
proof -
  obtain limit where "net_allowed verify limit net" and hash: "\<And>x. length (fn_keccak net x) = 32"
    using assms(1) by (auto simp: net_sound_def)
  from found_is_signed [OF this assms(2)] assms(3) show ?thesis unfolding update_known_def by auto
qed

lemma whole_published:
  assumes "net_sound verify net" "update_known net owner topic index payload" "retrieve_feed_payload net payload maximum (Some bs)"
  shows "published verify net owner topic index bs"
  using assms whole_payload unfolding published_def net_sound_def by blast

lemma tail_published:
  assumes "net_sound verify net" "update_known net owner topic index payload" "retrieve_feed_payload_tail net payload maximum (Some bs)"
  shows "published verify net owner topic index bs"
  using assms payload_tail unfolding published_def net_sound_def by blast

lemma feed_probe_cases:
  assumes "feed_probe net owner topic index r"
  obtains (nothing) "r = PayloadMissing \<or> r = PayloadTransient"
    | (deferred) update payload where "probe_feed_update_status net owner topic index (Found update)"
        "decode_feed_payload_root update = Some payload" "r = PayloadDeferred index payload"
    | (inline) update payload bs where "probe_feed_update_status net owner topic index (Found update)"
        "decode_feed_payload_root update = Some payload" "retrieve_feed_payload net payload FEED_INLINE_PAYLOAD_BYTES (Some bs)"
        "r = PayloadFound \<lparr>rfp_index = index, rfp_bytes = bs\<rparr>"
proof -
  obtain status where status: "probe_feed_update_status net owner topic index status" and
    r: "case status of
           Missing \<Rightarrow> r = PayloadMissing
         | Transient \<Rightarrow> r = PayloadTransient
         | Found update \<Rightarrow>
             (case decode_feed_payload_root update of
                None \<Rightarrow> r = PayloadTransient
              | Some payload \<Rightarrow>
                  if FEED_INLINE_PAYLOAD_BYTES < unat (jc_span (fp_root payload)) then r = PayloadDeferred index payload
                  else \<exists>bs. retrieve_feed_payload net payload FEED_INLINE_PAYLOAD_BYTES bs \<and>
                         r = (case bs of Some b \<Rightarrow> PayloadFound \<lparr>rfp_index = index, rfp_bytes = b\<rparr>
                                       | None \<Rightarrow> PayloadTransient))"
    using assms unfolding feed_probe_def by blast
  show thesis
  proof (cases status)
    case (Found update)
    show thesis
    proof (cases "decode_feed_payload_root update")
      case None
      show thesis by (rule nothing) (use r Found None in simp)
    next
      case (Some payload)
      show thesis
      proof (cases "FEED_INLINE_PAYLOAD_BYTES < unat (jc_span (fp_root payload))")
        case True
        then show thesis using r status Found Some deferred by simp
      next
        case False
        then obtain bs where bs: "retrieve_feed_payload net payload FEED_INLINE_PAYLOAD_BYTES bs"
          "r = (case bs of Some b \<Rightarrow> PayloadFound \<lparr>rfp_index = index, rfp_bytes = b\<rparr> | None \<Rightarrow> PayloadTransient)"
          using r Found Some by auto
        show thesis
        proof (cases bs)
          case None
          show thesis by (rule nothing) (use bs(2) None in simp)
        next
          case b: (Some b)
          show thesis by (rule inline [of update payload b]) (use status Found Some bs b in simp_all)
        qed
      qed
    qed
  next
    case Missing
    show thesis by (rule nothing) (use r Missing in simp)
  next
    case Transient
    show thesis by (rule nothing) (use r Transient in simp)
  qed
qed

lemma probe_found_published:
  assumes "net_sound verify net" "feed_probe net owner topic index (PayloadFound payload)"
  shows "rfp_index payload = index" "published verify net owner topic index (rfp_bytes payload)"
  using assms(2) whole_published [OF assms(1) found_known [OF assms(1)]]
  by (auto elim!: feed_probe_cases)

lemma probe_deferred_known:
  assumes "net_sound verify net" "feed_probe net owner topic index (PayloadDeferred i root_chunk)"
  shows "i = index" "update_known net owner topic index root_chunk"
  using assms(2) found_known [OF assms(1)] by (auto elim!: feed_probe_cases)

lemma frontier_published:
  assumes "net_sound verify net" "frontier_candidate net owner topic (Some (index, candidate))"
  shows "\<exists>bs. published verify net owner topic index bs \<and> parse_playlist bs = Some candidate"
proof -
  obtain latest where latest: "seek_latest_feed_update_indexed net owner topic latest" and
    r: "case latest of
           None \<Rightarrow> Some (index, candidate) = None
         | Some (i, update) \<Rightarrow>
             (case decode_feed_payload_root update of
                None \<Rightarrow> Some (index, candidate) = None
              | Some payload \<Rightarrow>
                  \<exists>bs. retrieve_feed_payload net payload MAX_STREAM_FEED_PAYLOAD_BYTES bs \<and>
                    Some (index, candidate) = Option.bind bs (\<lambda>b. map_option (Pair i) (parse_playlist b)))"
    using assms(2) unfolding frontier_candidate_def by blast
  obtain i update where l: "latest = Some (i, update)" using r by (cases latest) auto
  obtain root_chunk where root_chunk: "decode_feed_payload_root update = Some root_chunk"
    using r l by (cases "decode_feed_payload_root update") auto
  obtain bs where bs: "retrieve_feed_payload net root_chunk MAX_STREAM_FEED_PAYLOAD_BYTES (Some bs)"
    "parse_playlist bs = Some candidate" "i = index"
    using r l root_chunk by (auto simp: bind_eq_Some_conv eq_commute [of "Some _"])
  have "published verify net owner topic i bs"
    by (rule whole_published [OF assms(1) found_known [OF assms(1) latest_found [OF latest [unfolded l]] root_chunk] bs(1)])
  then show ?thesis using bs by blast
qed

section \<open>The invariant of the follower\<close>

definition reference_published :: "bool \<Rightarrow> 'sig feed_net \<Rightarrow> string \<Rightarrow> string \<Rightarrow> u64 \<Rightarrow> ctext \<Rightarrow> bool" where
  "reference_published verify net owner topic newest reference \<longleftrightarrow>
     (\<exists>index bs. index \<le> newest \<and> published verify net owner topic index bs \<and> carries bs reference)"

definition state_inv :: "bool \<Rightarrow> 'sig feed_net \<Rightarrow> string \<Rightarrow> string \<Rightarrow> LiveState \<Rightarrow> bool" where
  "state_inv verify net owner topic state \<longleftrightarrow> playlist_wf (ls_playlist state) \<and>
     (\<forall>seg \<in> set (hls_segments (ls_playlist state)).
        reference_published verify net owner topic (ls_index state) (seg_reference seg))"

fun pc_inv :: "'sig feed_net \<Rightarrow> string \<Rightarrow> string \<Rightarrow> LiveState \<Rightarrow> FollowPc \<Rightarrow> bool" where
  "pc_inv net owner topic state (TailOf index payload p) = update_known net owner topic index payload"
| "pc_inv net owner topic state (WholeOf index payload p) = update_known net owner topic index payload"
| "pc_inv net owner topic state (Seeking head_index) = (head_index = ls_index state)"
| "pc_inv net owner topic state pc = True"

definition follow_inv :: "bool \<Rightarrow> 'sig feed_net \<Rightarrow> string \<Rightarrow> string \<Rightarrow> FollowPc \<times> LiveFeed \<Rightarrow> bool" where
  "follow_inv verify net owner topic c \<longleftrightarrow>
     state_inv verify net owner topic (lf_state (snd c)) \<and> pc_inv net owner topic (lf_state (snd c)) (fst c)"

lemma reference_published_mono:
  "reference_published verify net owner topic i reference \<Longrightarrow> i \<le> j \<Longrightarrow> reference_published verify net owner topic j reference"
  unfolding reference_published_def by (meson order_trans)

text \<open>The ways in which the shared state changes.\<close>

inductive state_moves :: "(u64 \<Rightarrow> bytes \<Rightarrow> bool) \<Rightarrow> LiveState \<Rightarrow> LiveState \<Rightarrow> bool" for known where
  stays: "ls_playlist s' = ls_playlist s \<Longrightarrow> ls_index s' = ls_index s \<Longrightarrow> ls_skipped s' = ls_skipped s \<Longrightarrow>
    state_moves known s s'"
| merges: "known index bs \<Longrightarrow> parse_playlist bs = Some candidate \<Longrightarrow> merge_playlist candidate (ls_playlist s) = Some (k, p) \<Longrightarrow>
    state_moves known s (s\<lparr>ls_playlist := p, ls_index := max (ls_index s) index\<rparr>)"
| extends: "known index bs \<Longrightarrow> merge_tail bs (ls_playlist s) = Some (k, p) \<Longrightarrow>
    state_moves known s (s\<lparr>ls_playlist := p, ls_index := max (ls_index s) index\<rparr>)"
| finishes: "state_moves known s (s\<lparr>ls_playlist := (ls_playlist s)\<lparr>hls_finalized := True\<rparr>\<rparr>)"
| reanchors: "known index bs \<Longrightarrow> parse_playlist bs = Some candidate \<Longrightarrow> ls_index s < index \<Longrightarrow>
    merge_playlist candidate (ls_playlist s) = None \<Longrightarrow>
    state_moves known s (lf_state (reanchor index candidate \<lparr>lf_state = s, lf_changed = n\<rparr>))"

lemma apply_payload_moves:
  assumes "known index bs"
  shows "state_moves known (lf_state feed) (lf_state (snd (apply_payload index bs feed)))"
proof (cases "parse_playlist bs")
  case None
  then show ?thesis by (simp add: apply_payload_def state_moves.stays)
next
  case (Some candidate)
  show ?thesis
  proof (cases "merge_playlist candidate (ls_playlist (lf_state feed))")
    case None
    then show ?thesis by (simp add: apply_payload_def apply_playlist_def apply_with_def Some state_moves.stays)
  next
    case m: (Some kp)
    obtain k p where "kp = (k, p)" by (cases kp)
    with m state_moves.merges [of known, OF assms Some, of "lf_state feed" k p]
    show ?thesis by (simp add: apply_payload_def apply_playlist_def apply_with_def Some Let_def)
  qed
qed

lemma reanchor_state: "lf_state (reanchor index candidate feed) = lf_state (reanchor index candidate \<lparr>lf_state = lf_state feed, lf_changed = n\<rparr>)"
  by (simp add: reanchor_def Let_def)

lemma recover_moves:
  assumes "\<And>index candidate. newest = Some (index, candidate) \<Longrightarrow> \<exists>bs. known index bs \<and> parse_playlist bs = Some candidate"
    "head_index = ls_index (lf_state feed)"
  shows "state_moves known (lf_state feed) (lf_state (snd (recover_frontier head_index newest feed)))"
proof (cases newest)
  case None
  then show ?thesis by (simp add: recover_frontier_def state_moves.stays)
next
  case (Some ic)
  obtain index candidate where ic: "ic = (index, candidate)" by (cases ic)
  obtain bs where bs: "known index bs" "parse_playlist bs = Some candidate" using assms(1) Some ic by blast
  consider "index < head_index" | "index = head_index" | "head_index < index" by fastforce
  then show ?thesis
  proof cases
    case 1
    then show ?thesis by (simp add: recover_frontier_def Some ic state_moves.stays)
  next
    case 2
    then show ?thesis
      using state_moves.finishes [of known "lf_state feed"] state_moves.stays [of "lf_state feed" "lf_state feed" known]
      by (simp add: recover_frontier_def Some ic finish_stream_def)
  next
    case 3
    then have later: "\<not> index < head_index" "index \<noteq> head_index" by auto
    note moved = apply_payload_moves [of known, OF bs(1), of feed, unfolded apply_payload_def bs(2) option.case]
    then show ?thesis
    proof (cases "merge_playlist candidate (ls_playlist (lf_state feed))")
      case None
      have "ls_index (lf_state feed) < index" using 3 assms(2) by simp
      from state_moves.reanchors [of known, OF bs this None, of 0]
      have "state_moves known (lf_state feed) (lf_state (reanchor index candidate feed))"
        by (subst reanchor_state [of _ _ _ 0])
      then show ?thesis using later None
        by (simp add: recover_frontier_def Some ic apply_playlist_def apply_with_def)
    next
      case (Some kp)
      then show ?thesis using later moved
        by (cases kp) (simp add: recover_frontier_def \<open>newest = Some ic\<close> ic apply_playlist_def apply_with_def Let_def)
    qed
  qed
qed

lemma pc_inv_loop [simp]:
  "pc_inv net owner topic state (next_probe p)" "pc_inv net owner topic state (end_pass p)"
  "pc_inv net owner topic state (after_apply applied p)" "pc_inv net owner topic state (after_missing p)"
  "pc_inv net owner topic state (begin_turn feed)"
  by (simp_all add: next_probe_def end_pass_def after_apply_def after_missing_def begin_turn_def split: option.split)

lemma pc_inv_index: "ls_index s' = ls_index s \<Longrightarrow> pc_inv net owner topic s' pc = pc_inv net owner topic s pc"
  by (cases pc) auto

lemma after_tail_cases:
  obtains "after_tail index payload p tail feed = (WholeOf index payload p, feed)"
  | bs k q feed' where "tail = Some bs" "merge_tail bs (ls_playlist (lf_state feed)) = Some (k, q)"
      "after_tail index payload p tail feed = (after_apply (Some k) p, feed')"
      "lf_state feed' = (lf_state feed)\<lparr>ls_playlist := q, ls_index := max (ls_index (lf_state feed)) index\<rparr>"
proof (cases tail)
  case None
  then show thesis by (intro that(1)) (simp add: after_tail_def)
next
  case (Some bs)
  show thesis
  proof (cases "merge_tail bs (ls_playlist (lf_state feed))")
    case None
    then show thesis using Some by (intro that(1)) (simp add: after_tail_def apply_with_def)
  next
    case m: (Some kq)
    obtain k q where kq: "kq = (k, q)" by (cases kq)
    show thesis
      by (rule that(2) [of bs k q "snd (apply_with index (merge_tail bs) feed)"])
         (use Some m kq in \<open>simp_all add: after_tail_def apply_with_def Let_def\<close>)
  qed
qed

lemma record_failure_state:
  "ls_playlist (lf_state (snd (record_body_failure sequence reference feed))) = ls_playlist (lf_state feed)"
  "ls_index (lf_state (snd (record_body_failure sequence reference feed))) = ls_index (lf_state feed)"
  "ls_skipped (lf_state (snd (record_body_failure sequence reference feed))) = ls_skipped (lf_state feed)"
  by (simp_all add: record_body_failure_def Let_def split: prod.split)

lemma step_moves:
  assumes net: "net_sound verify net" and inv: "follow_inv verify net owner topic c" and step: "follow_step net owner topic c c'"
  shows "state_moves (published verify net owner topic) (lf_state (snd c)) (lf_state (snd c')) \<and>
    pc_inv net owner topic (lf_state (snd c')) (fst c')"
  using step
proof cases
  case (probed p index r feed)
  show ?thesis
  proof (cases r)
    case (PayloadFound payload)
    then have f: "rfp_index payload = index" "published verify net owner topic index (rfp_bytes payload)"
      using probe_found_published [OF net] probed by blast+
    obtain applied feed' where a: "apply_payload index (rfp_bytes payload) feed = (applied, feed')" by fastforce
    from apply_payload_moves [of "published verify net owner topic", OF f(2), of feed] a
    show ?thesis using probed PayloadFound f(1) by (simp add: after_probe_def)
  next
    case (PayloadDeferred i payload)
    then show ?thesis
      using probed probe_deferred_known [OF net, of owner topic index i payload] by (auto simp: after_probe_def state_moves.stays)
  qed (use probed in \<open>simp_all add: after_probe_def state_moves.stays\<close>)
next
  case (tail_read payload tail index p feed)
  have known: "update_known net owner topic index payload" using inv tail_read by (simp add: follow_inv_def)
  show ?thesis
  proof (cases rule: after_tail_cases [of index payload p tail feed])
    case 1
    then show ?thesis using tail_read known by (simp add: state_moves.stays)
  next
    case (2 bs k q feed')
    have "published verify net owner topic index bs"
      by (rule tail_published [OF net known]) (use tail_read 2 in simp)
    from state_moves.extends [of "published verify net owner topic", OF this 2(2)]
    show ?thesis using tail_read 2 by simp
  qed
next
  case (whole_read payload whole index p feed)
  have known: "update_known net owner topic index payload" using inv whole_read by (simp add: follow_inv_def)
  show ?thesis
  proof (cases whole)
    case None
    then show ?thesis using whole_read by (simp add: after_whole_def state_moves.stays)
  next
    case (Some bs)
    have "published verify net owner topic index bs"
      by (rule whole_published [OF net known]) (use whole_read Some in simp)
    from apply_payload_moves [of "published verify net owner topic", OF this, of feed]
    show ?thesis using whole_read Some
      by (cases "apply_payload index bs feed") (simp add: after_whole_def)
  qed
next
  case (sought newest head_index feed)
  have "state_moves (published verify net owner topic) (lf_state feed) (lf_state (snd (recover_frontier head_index newest feed)))"
    by (rule recover_moves) (use sought inv frontier_published [OF net] in \<open>simp_all add: follow_inv_def\<close>)
  then show ?thesis using sought by simp
next
  case (failed_body pc feed sequence reference)
  then show ?thesis
    using inv by (simp add: follow_inv_def state_moves.stays record_failure_state pc_inv_index [OF record_failure_state(2)])
qed (simp_all add: state_moves.stays)

lemma moves_forward: "state_moves known s s' \<Longrightarrow> ls_index s \<le> ls_index s' \<and> ls_skipped s \<le> ls_skipped s'"
  by (induction rule: state_moves.induct)
     (auto simp: reanchor_def Let_def word_le_nat_alt word_less_nat_alt max_def unat_saturating_add)

lemma segments_published:
  assumes "state_inv verify net owner topic s" "published verify net owner topic index bs"
    "seg \<in> set (hls_segments (ls_playlist s)) \<or> carries bs (seg_reference seg)"
  shows "reference_published verify net owner topic (max (ls_index s) index) (seg_reference seg)"
  using assms(3)
proof
  assume "seg \<in> set (hls_segments (ls_playlist s))"
  then show ?thesis using assms(1) by (auto simp: state_inv_def intro: reference_published_mono [OF _ max.cobounded1])
next
  assume "carries bs (seg_reference seg)"
  then show ?thesis using assms(2) max.cobounded2 unfolding reference_published_def by blast
qed

lemma moves_state_inv:
  assumes "state_moves (published verify net owner topic) s s'" "state_inv verify net owner topic s"
  shows "state_inv verify net owner topic s'"
  using assms(1)
proof cases
  case stays
  then show ?thesis using assms(2) by (simp add: state_inv_def)
next
  case (merges index bs candidate k p)
  have "playlist_wf p"
    using assms(2) merge_playlist_wf [OF _ parse_playlist_wf [OF merges(3)] merges(4)] by (simp add: state_inv_def)
  moreover have "seg \<in> set (hls_segments (ls_playlist s)) \<or> carries bs (seg_reference seg)" if "seg \<in> set (hls_segments p)" for seg
    using that merge_playlist_segments [OF merges(4)] parse_carries [OF merges(3)] by auto
  ultimately show ?thesis
    using segments_published [OF assms(2) merges(2)] merges(1) by (simp add: state_inv_def)
next
  case (extends index bs k p)
  have "playlist_wf p" using assms(2) merge_tail_wf [OF _ extends(3)] by (simp add: state_inv_def)
  then show ?thesis
    using segments_published [OF assms(2) extends(2)] extends(1) merge_tail_carries [OF extends(3)] by (simp add: state_inv_def)
next
  case finishes
  then show ?thesis using assms(2) by (simp add: state_inv_def playlist_wf_def)
next
  case (reanchors index bs candidate n)
  have "reference_published verify net owner topic (max (ls_index s) index) (seg_reference seg)"
    if "seg \<in> set (hls_segments candidate)" for seg
    by (rule segments_published [OF assms(2) reanchors(2)]) (use that parse_carries [OF reanchors(3)] in blast)
  moreover have "max (ls_index s) index = index" using reanchors(4) by (simp add: max_absorb2 less_imp_le)
  ultimately show ?thesis
    using parse_playlist_wf [OF reanchors(3)] reanchors(1) by (simp add: state_inv_def reanchor_def Let_def)
qed

lemma follow_inv_step:
  "net_sound verify net \<Longrightarrow> follow_inv verify net owner topic c \<Longrightarrow> follow_step net owner topic c c' \<Longrightarrow>
     follow_inv verify net owner topic c'"
  using step_moves moves_state_inv unfolding follow_inv_def by metis

lemma follow_inv_run:
  assumes net: "net_sound verify net" and run: "(follow_step net owner topic)\<^sup>*\<^sup>* c c'" and inv: "follow_inv verify net owner topic c"
  shows "follow_inv verify net owner topic c'"
  using run inv by (induction rule: rtranclp_induct) (auto intro: follow_inv_step [OF net])

text \<open>The task starts at the edge that was discovered.\<close>

lemma edge_published:
  "discover_edge net owner topic (Some (index, playlist)) \<Longrightarrow> frontier_candidate net owner topic (Some (index, playlist))"
  by (induction "Some (index, playlist)" rule: discover_edge.induct) auto

lemma follow_inv_start:
  assumes "net_sound verify net" "discover_edge net owner topic (Some (index, playlist))"
  shows "follow_inv verify net owner topic (Turn, live_start index playlist)"
proof -
  obtain bs where bs: "published verify net owner topic index bs" "parse_playlist bs = Some playlist"
    using frontier_published [OF assms(1) edge_published [OF assms(2)]] by blast
  then show ?thesis
    using parse_playlist_wf [OF bs(2)] parse_carries [OF bs(2)]
    by (auto simp: follow_inv_def state_inv_def live_start_def reference_published_def)
qed

definition follows :: "'sig feed_net \<Rightarrow> string \<Rightarrow> string \<Rightarrow> FollowPc \<times> LiveFeed \<Rightarrow> bool" where
  "follows net owner topic c \<longleftrightarrow>
     (\<exists>index playlist. discover_edge net owner topic (Some (index, playlist)) \<and>
        (follow_step net owner topic)\<^sup>*\<^sup>* (Turn, live_start index playlist) c)"

lemma follows_inv:
  assumes "net_sound verify net" "follows net owner topic c"
  shows "follow_inv verify net owner topic c"
  using assms(2) follow_inv_run [OF assms(1)] follow_inv_start [OF assms(1)] unfolding follows_def by blast

section \<open>Timelines only grow\<close>

lemma timeline_append: "hls_sequence p' = hls_sequence p \<Longrightarrow> hls_segments p' = hls_segments p @ extra \<Longrightarrow> timeline p \<subseteq>\<^sub>m timeline p'"
  by (auto simp: map_le_def timeline_def nth_append dom_def)

lemma merge_tail_timeline:
  assumes "merge_tail bs p = Some (k, p')"
  shows "timeline p \<subseteq>\<^sub>m timeline p'"
proof -
  obtain cs e where m: "merge_segments cs e p = Some (k, p')"
    using assms by (auto simp: merge_tail_def bind_eq_Some_conv)
  then have "hls_segments p \<noteq> []" by (auto simp: merge_segments_def)
  with m obtain extra where "hls_segments p' = hls_segments p @ extra" "hls_sequence p' = hls_sequence p"
    by (auto simp: merge_segments_def Let_def bind_eq_Some_conv split: if_splits)
  then show ?thesis by (intro timeline_append)
qed

lemma moves_timeline:
  assumes "state_moves known s s'"
  shows "timeline (ls_playlist s) \<subseteq>\<^sub>m timeline (ls_playlist s') \<or>
    (ls_index s < ls_index s' \<and> merge_playlist (ls_playlist s') (ls_playlist s) = None \<and>
       ls_skipped s' = saturating_add (ls_skipped s) (saturating_sub (hls_sequence (ls_playlist s'))
         (saturating_add (hls_sequence (ls_playlist s)) (word_of_nat (length (hls_segments (ls_playlist s)))))))"
  using assms
proof cases
  case (merges index bs candidate k p)
  show ?thesis using conjunct1 [OF conjunct2 [OF merge_playlist_union [OF merges(4)]]] merges(1) by simp
next
  case (extends index bs k p)
  then show ?thesis using merge_tail_timeline by simp
next
  case finishes
  then show ?thesis by (intro disjI1 timeline_append [where extra = "[]"]) simp_all
next
  case (reanchors index bs candidate n)
  then show ?thesis by (simp add: reanchor_def Let_def)
qed simp

lemma run_notifies:
  assumes "(follow_step net owner topic)\<^sup>*\<^sup>* c c'"
  shows "lf_changed (snd c) \<le> lf_changed (snd c') \<and>
    (lf_changed (snd c') = lf_changed (snd c) \<longrightarrow>
       (\<exists>f. lf_state (snd c') = (lf_state (snd c))\<lparr>ls_tail_failure := f\<rparr>))"
  using assms
proof (induction rule: rtranclp_induct)
  case base
  show ?case by (auto intro!: exI [of _ "ls_tail_failure (lf_state (snd c))"])
next
  case (step y z)
  then show ?case using step_notifies [OF step(2)] by fastforce
qed

text \<open>The index never falls, whatever the network answers: a search runs against the index it started from.\<close>

definition seek_ok :: "FollowPc \<times> LiveFeed \<Rightarrow> bool" where
  "seek_ok c \<longleftrightarrow> (\<forall>head_index. fst c = Seeking head_index \<longrightarrow> head_index = ls_index (lf_state (snd c)))"

lemma seek_ok_loop [simp]:
  "seek_ok (next_probe p, feed)" "seek_ok (end_pass p, feed)" "seek_ok (after_apply applied p, feed)"
  "seek_ok (after_missing p, feed)" "seek_ok (begin_turn feed', feed)"
  "seek_ok (TailOf index payload p, feed)" "seek_ok (WholeOf index payload p, feed)"
  by (simp_all add: seek_ok_def next_probe_def end_pass_def after_apply_def after_missing_def begin_turn_def split: option.split)

lemma apply_with_index: "ls_index (lf_state feed) \<le> ls_index (lf_state (snd (apply_with index merge feed)))"
  by (auto simp: apply_with_def Let_def split: option.split)

lemma apply_with_pair: "apply_with index merge feed = (applied, feed') \<Longrightarrow> ls_index (lf_state feed) \<le> ls_index (lf_state feed')"
  using apply_with_index [of feed index merge] by simp

lemma apply_payload_index: "ls_index (lf_state feed) \<le> ls_index (lf_state (snd (apply_payload index bs feed)))"
  by (auto simp: apply_payload_def apply_playlist_def apply_with_index split: option.split)

lemma step_index:
  assumes "follow_step net owner topic c c'" "seek_ok c"
  shows "seek_ok c' \<and> ls_index (lf_state (snd c)) \<le> ls_index (lf_state (snd c'))"
  using assms(1)
proof cases
  case (probed p index r feed)
  then show ?thesis
    using apply_payload_index
    by (auto simp: after_probe_def split: FeedPayloadProbe.split prod.split)
       (metis snd_conv)+
next
  case (tail_read payload tail index p feed)
  then show ?thesis
    by (cases rule: after_tail_cases [of index payload p tail feed]) auto
next
  case (whole_read payload whole index p feed)
  then show ?thesis
    using apply_payload_index [of feed index]
    by (auto simp: after_whole_def split: option.split prod.split) (metis snd_conv)+
next
  case (rested feed due)
  then show ?thesis by (simp add: seek_ok_def)
next
  case (sought newest head_index feed)
  then have "head_index = ls_index (lf_state feed)" using assms(2) by (simp add: seek_ok_def)
  then show ?thesis
    using sought
    by (auto simp: seek_ok_def recover_frontier_def apply_playlist_def finish_stream_def reanchor_def Let_def
        split: option.split prod.split dest: apply_with_pair)
next
  case (failed_body pc feed sequence reference)
  then show ?thesis using assms(2) by (simp add: seek_ok_def record_failure_state)
qed simp

end
