(* ===== verification/FollowSafety.thy ===== *)
theory FollowSafety
  imports FollowInvariant
begin

text \<open>
  The properties of a followed stream, with an example: a feed whose only update is a manifest
  short enough to be embedded in its single-owner chunk.
\<close>

section \<open>An example\<close>

definition demo_curve :: "unit ecdsa" where
  "demo_curve = \<lparr>parse_signature = (\<lambda>_. Some ()), normalize_s = (\<lambda>_. None),
     recover_from_prehash = (\<lambda>_ _ _. Some []), eip191_hash_message = (\<lambda>_. []), public_key_address = (\<lambda>_. replicate 20 0)\<rparr>"

definition demo_update :: bytes where
  "demo_update = [83, 0, 0, 0, 0, 0, 0, 0] @ demo_manifest"

definition demo_soc :: bytes where
  "demo_soc = replicate 97 0 @ demo_update"

definition demo_net :: "unit feed_net" where
  "demo_net = \<lparr>fn_keccak = example_keccak, fn_curve = demo_curve, fn_hex = (\<lambda>t. Some (replicate (if length t < 64 then 20 else 32) 0)),
     fn_answers = (\<lambda>address a. address = example_address \<and> (a = Answered None \<or> a = Answered (Some demo_soc))), fn_groups = (\<lambda>_ _. False), fn_memory = (\<lambda>_. True)\<rparr>"

definition demo_root :: FeedPayloadRoot where
  "demo_root = \<lparr>fp_root = \<lparr>jc_level = Level_None, jc_span = 83, jc_payload = demo_manifest\<rparr>, fp_encrypted = False\<rparr>"

lemma demo_lengths: "length demo_manifest = 83" "length demo_update = 91" "length demo_soc = 188"
  by (simp_all add: demo_manifest_def demo_string_def demo_update_def demo_soc_def)

lemma demo_soc_valid: "valid_soc example_keccak demo_curve demo_soc example_address"
proof -
  have "bmt_root example_keccak (drop 8 demo_update) = Some (bmt_node example_keccak (drop 8 demo_update) 6 0)"
    by (rule bmt_root_spec) (simp_all add: example_keccak_def demo_lengths sizes)
  then have "content_address_array example_keccak demo_update = Some (replicate 32 0)"
    by (simp add: content_address_array_def demo_lengths sizes) (simp add: example_keccak_def)
  moreover have "recover_address demo_curve (replicate 65 0) m = Some (replicate 20 0)" for m
    by (simp add: recover_address_def demo_curve_def signature_parity_def del: replicate.simps)
  ultimately show ?thesis
    by (simp add: valid_soc_def demo_lengths sizes) (simp add: demo_soc_def example_keccak_def example_address_def)
qed

lemma demo_net_sound: "net_sound verify demo_net"
proof -
  have v: "verify_chunk_with example_keccak demo_curve example_address demo_soc Soc verify = (True, True)"
    by (simp add: verify_chunk_with_def demo_soc_valid Let_def)
  obtain s where s: "(chunk_step example_keccak demo_curve verify)\<^sup>*\<^sup>* (example_waiting example_address Soc) s"
    "length (cl_retrievals s) = 1" "rt_pc (cl_retrievals s ! 0) = Finished (Some (demo_soc, True))"
    "rt_caddr (cl_retrievals s ! 0) = example_address" "rt_expect (cl_retrievals s ! 0) = Soc"
    using example_finish [OF example_address_length v] by blast
  have "(chunk_step example_keccak demo_curve verify)\<^sup>*\<^sup>* example_layer s"
    by (rule rtranclp_trans [OF example_run [OF example_address_length] s(1)])
  then have "\<exists>s0 s i. layer_initial s0 \<and> (chunk_step example_keccak demo_curve verify)\<^sup>*\<^sup>* s0 s \<and>
      i < length (cl_retrievals s) \<and> rt_caddr (cl_retrievals s ! i) = example_address \<and> rt_expect (cl_retrievals s ! i) = Soc \<and>
      rt_pc (cl_retrievals s ! i) = Finished (Some (demo_soc, True))"
    using s(2-5) example_initial by (intro exI [of _ example_layer] exI [of _ s] exI [of _ 0]) simp
  then have "net_allowed verify 1 demo_net"
    unfolding net_allowed_def demo_net_def by simp
  then show ?thesis by (auto simp: net_sound_def demo_net_def example_keccak_def)
qed

text \<open>Reading a leaf from its first byte to its last: there is one outcome.\<close>

lemma leaf_read:
  assumes "unat (jc_span c) = length (jc_payload c)" "jc_payload c \<noteq> []" "length (jc_payload c) \<le> CHUNK_SIZE"
    "fn_memory net = (\<lambda>_. True)"
  shows "retrieve_data_range_from_root net c 0 (jc_span c - 1) encrypted r \<longleftrightarrow> r = Some (jc_payload c)"
  using leaf_returns [OF assms(1-3)] by (simp add: retrieve_data_range_from_root_def assms(4))

lemma demo_keccak: "fn_keccak demo_net = example_keccak"
  by (simp add: demo_net_def)

lemma demo_address: "get_feed_address example_keccak (fn_hex demo_net) [] topic index = example_address"
  by (simp add: get_feed_address_def demo_net_def sequence_feed_address_def example_keccak_def example_address_def
      strip_hex_prefix_def del: replicate.simps)

lemma demo_found: "get_feed_probe_chunk example_keccak (Answered (Some demo_soc)) = Found demo_update"
  by (simp add: get_feed_probe_chunk_def answer_payload_def decode_retrieved_chunk_def demo_lengths demo_soc_def)
    (simp add: demo_update_def)

lemma demo_probe:
  "probe_feed_update_status demo_net [] topic index (Found demo_update)"
  "probe_feed_update_status demo_net [] topic index Missing"
proof -
  have address: "get_feed_address (fn_keccak demo_net) (fn_hex demo_net) [] topic index = example_address"
    using demo_address by (simp add: demo_net_def)
  have "get_feed_probe_chunk example_keccak (Answered (Some demo_soc)) = Found demo_update" by (rule demo_found)
  then show "probe_feed_update_status demo_net [] topic index (Found demo_update)"
    unfolding probe_feed_update_status_def Let_def address
    by (auto simp: example_address_length demo_net_def intro!: exI [of _ "Answered (Some demo_soc)"])
  have "get_feed_probe_chunk example_keccak (Answered None) = Missing"
    by (simp add: get_feed_probe_chunk_def answer_payload_def)
  then show "probe_feed_update_status demo_net [] topic index Missing"
    unfolding probe_feed_update_status_def Let_def address
    by (auto simp: demo_net_def intro!: exI [of _ "Answered None"])
qed

lemma demo_root_decodes: "decode_feed_payload_root demo_update = Some demo_root"
proof -
  have "decode_span demo_update = Some (Level_None, 83)"
    by (simp add: decode_span_def demo_update_def sizes from_le_bytes_def)
  then show ?thesis
    by (simp add: decode_feed_payload_root_def feed_root_as_def embedded_join_root_def chunk_payload_len_def sizes
        usize_checked_add_def usize_bound_def demo_lengths manifest_payload_size_allowed_def MAX_MANIFEST_PAYLOAD_BYTES_def
        demo_root_def) (simp add: demo_update_def)
qed

lemma demo_payload:
  assumes "83 \<le> maximum" "fn_memory net = (\<lambda>_. True)"
  shows "retrieve_feed_payload net demo_root maximum r \<longleftrightarrow> r = Some demo_manifest"
  using leaf_read [of "fp_root demo_root" net False, OF _ _ _ assms(2)] assms(1)
  by (auto simp: retrieve_feed_payload_def demo_root_def demo_lengths sizes of_length_def simp flip: length_0_conv)

lemma demo_edge:
  "\<exists>p. parse_playlist demo_manifest = Some p \<and> frontier_candidate demo_net [] topic (Some (0, p))"
proof -
  obtain p where p: "parse_playlist demo_manifest = Some p" using demo_parses by blast
  let ?env = "\<lparr>answer = \<lambda>(t :: nat) i. if unat (i :: u64) < 1 then Found demo_update else Missing, completion_order = \<lambda>w cs. cs\<rparr>"
  have env: "contiguous ?env 1 (\<lambda>_. demo_update)" by (simp add: contiguous_def valid_env_def)
  then obtain r obs where r: "seek_sequence_feed_frontier_inner ?env False = Some (r, obs)" "at_end 1 (\<lambda>_. demo_update) r"
    using seek_contiguous [OF env, of False] by auto
  then have "fst r = Some (0, demo_update)" by (auto simp: at_end_def unat_eq_0)
  moreover have "valid_env ?env" by (simp add: valid_env_def)
  ultimately have "seek_latest_feed_update_indexed demo_net [] topic (Some (0, demo_update))"
    unfolding seek_latest_feed_update_indexed_def seek_latest_feed_update_indexed_observing_positive_def seek_feed_frontier_def
    using r(1) demo_probe by (intro exI [of _ r] exI [of _ ?env] exI [of _ obs] conjI allI) simp_all
  moreover have "retrieve_feed_payload demo_net demo_root MAX_STREAM_FEED_PAYLOAD_BYTES (Some demo_manifest)"
    by (subst demo_payload) (simp_all add: MAX_STREAM_FEED_PAYLOAD_BYTES_def demo_net_def)
  ultimately have "frontier_candidate demo_net [] topic (Some (0, p))"
    unfolding frontier_candidate_def
    by (intro exI [of _ "Some (0, demo_update)"] conjI) (auto simp: demo_root_decodes p intro!: exI [of _ "Some demo_manifest"])
  then show ?thesis using p by blast
qed

lemma demo_follows:
  obtains p where "parse_playlist demo_manifest = Some p" "follows demo_net [] topic (Turn, live_start 0 p)"
  using demo_edge discover_edge.discovered unfolding follows_def by blast

section \<open>Properties\<close>



text \<open>
  C12.  A followed stream only moves forward: with every step the applied index and the count of
  skipped segments do not fall, the playlist stays well formed, and everything it says about a
  sequence number stays said, unless the step re-anchors at a later update that does not join, when
  exactly the segments between the old end and the new start are counted as skipped.
\<close>

theorem follow_moves_forward:
  assumes "net_sound verify net" "follows net owner topic (pc, feed)" "follow_step net owner topic (pc, feed) (pc', feed')"
  shows "let s = lf_state feed; s' = lf_state feed'; p = ls_playlist s; p' = ls_playlist s' in
    ls_index s \<le> ls_index s' \<and> ls_skipped s \<le> ls_skipped s' \<and> playlist_wf p' \<and>
    (timeline p \<subseteq>\<^sub>m timeline p' \<or>
     (ls_index s < ls_index s' \<and> merge_playlist p' p = None \<and>
       ls_skipped s' = saturating_add (ls_skipped s)
         (saturating_sub (hls_sequence p') (saturating_add (hls_sequence p) (word_of_nat (length (hls_segments p)))))))"
proof -
  note inv = follows_inv [OF assms(1,2)]
  have "state_moves (published verify net owner topic) (lf_state feed) (lf_state feed')"
    using step_moves [OF assms(1) inv assms(3)] by simp
  moreover have "playlist_wf (ls_playlist (lf_state feed'))"
    using follow_inv_step [OF assms(1) inv assms(3)] by (simp add: follow_inv_def state_inv_def)
  ultimately show ?thesis
    using moves_forward moves_timeline unfolding Let_def by blast
qed

theorem follow_moves_forward_witness:
  "\<exists>p. parse_playlist demo_manifest = Some p \<and> playlist_wf p"
proof -
  obtain p where p: "parse_playlist demo_manifest = Some p" "follows demo_net [] [] (Turn, live_start 0 p)"
    using demo_follows by blast
  from follow_moves_forward [OF demo_net_sound p(2) follow_step.turn] p(1) show ?thesis
    by (auto simp: Let_def live_start_def)
qed

text \<open>
  The two views of a viewer's own gaps agree, in whatever order the set of gaps is iterated:
  the segment handed to the player for a sequence number is the one the snapshot has there.
\<close>

theorem snapshot_agrees:
  assumes "set order = ls_gaps state"
  shows "(case segment_look sequence state of Ready segment \<Rightarrow> Some segment | _ \<Rightarrow> None) =
    timeline (snapshot order state) (unat sequence)"
  using segment_look_timeline [of sequence state]
  by (simp add: look_segment_def snapshot_def timeline_mark_gaps assms)

theorem snapshot_agrees_witness:
  "timeline (snapshot [(3, replicate 64 51)]
     ((lf_state (live_start 0 (demo_playlist 3 [3, 4])))\<lparr>ls_gaps := {(3, replicate 64 51)}\<rparr>)) 3
   = Some (demo_segment 3\<lparr>seg_gap := True\<rparr>)"
proof -
  let ?s = "(lf_state (live_start 0 (demo_playlist 3 [3, 4])))\<lparr>ls_gaps := {(3, replicate 64 51)}\<rparr>"
  have "segment_look 3 ?s = Ready (demo_segment 3\<lparr>seg_gap := True\<rparr>)"
    by (simp add: segment_look_def live_start_def demo_playlist_def segment_get_def Let_def)
      (simp add: demo_segment_def)
  then show ?thesis using snapshot_agrees [of "[(3, replicate 64 51)]" ?s 3] by simp
qed

text \<open>
  C33.  No wake-up is lost: as long as a run notifies nobody, a player waiting for a segment and a
  viewer waiting for a runway would see what they saw before.
\<close>

theorem no_lost_wakeup:
  assumes "(follow_step net owner topic)\<^sup>*\<^sup>* (pc, feed) (pc', feed')" "lf_changed feed' = lf_changed feed"
  shows "segment_look sequence (lf_state feed') = segment_look sequence (lf_state feed) \<and>
    runway_look (lf_state feed') = runway_look (lf_state feed)"
proof -
  obtain f where "lf_state feed' = (lf_state feed)\<lparr>ls_tail_failure := f\<rparr>"
    using run_notifies [OF assms(1)] assms(2) by auto
  then show ?thesis by (simp add: looks_ignore_failures)
qed

theorem no_lost_wakeup_witness:
  "segment_look 3 (lf_state (snd (record_body_failure 3 [] (live_start 0 (demo_playlist 3 [3, 4]))))) =
   Ready (demo_segment 3)"
proof -
  let ?feed = "live_start 0 (demo_playlist 3 [3, 4])"
  have run: "(follow_step demo_net [] [])\<^sup>*\<^sup>* (Turn, ?feed) (Turn, snd (record_body_failure 3 [] ?feed))"
    by (rule r_into_rtranclp, rule follow_step.failed_body)
  have "lf_changed (snd (record_body_failure 3 [] ?feed)) = lf_changed ?feed"
    by (simp add: record_body_failure_def tail_failure_record_def live_start_def Let_def word_le_nat_alt)
  from no_lost_wakeup [OF run this, of 3] show ?thesis
    by (simp add: segment_look_def live_start_def demo_playlist_def segment_get_def Let_def)
qed

text \<open>
  The live edge the player jumps to is the newest segment it can play: its sequence number
  gives a segment without a gap, and every later segment is a gap.
\<close>

theorem live_sequence_newest:
  assumes "live_sequence state = Some sequence" "length (hls_segments (ls_playlist state)) \<le> 2 ^ 64"
  shows "\<exists>segment. segment_look sequence state = Ready segment \<and> \<not> seg_gap segment \<and>
    (\<forall>later segment'. sequence < later \<and> segment_look later state = Ready segment' \<longrightarrow> seg_gap segment')"
proof -
  let ?p = "ls_playlist state"
  let ?xs = "hls_segments ?p" and ?q = "hls_sequence ?p"
  obtain i x where f: "find (playable_at state) (rev (enumerate 0 ?xs)) = Some (i, x)"
    "checked_add ?q (word_of_nat i) = Some sequence"
    using assms(1) by (auto simp: live_sequence_def bind_eq_Some_conv)
  then obtain k where k: "k < length ?xs" "rev (enumerate 0 ?xs) ! k = (i, x)" "playable_at state (i, x)"
    "\<forall>j < k. \<not> playable_at state (rev (enumerate 0 ?xs) ! j)"
    by (auto simp: find_Some_iff)
  have i: "i = length ?xs - Suc k" "x = ?xs ! i" "i < length ?xs"
    using k(1,2) by (auto simp: rev_nth nth_enumerate_eq)
  have after: "\<not> playable_at state (j, ?xs ! j)" if "i < j" "j < length ?xs" for j
    using k(4) [rule_format, of "length ?xs - Suc j"] that i(1) k(1) by (simp add: rev_nth nth_enumerate_eq)
  have q: "unat sequence = unat ?q + i"
    using f(2) i(3) assms(2) by (auto simp: rust_int unat_of_nat)
  have "segment_look sequence state = Ready x" "\<not> seg_gap x"
    using q i(2,3) k(3) f(2)
    by (auto simp: segment_look_def segment_get_def Let_def word_less_nat_alt unat_sub word_le_nat_alt playable_at_def)
  moreover have "seg_gap segment'" if "sequence < later" "segment_look later state = Ready segment'" for later segment'
  proof -
    let ?j = "unat later - unat ?q"
    have le: "\<not> later < ?q" "unat (later - ?q) = ?j" using that(1) q by (auto simp: word_less_nat_alt unat_sub word_le_nat_alt)
    then have j: "?j < length ?xs" "segment' = (if (later, seg_reference (?xs ! ?j)) \<in> ls_gaps state
        then (?xs ! ?j)\<lparr>seg_gap := True\<rparr> else ?xs ! ?j)"
      using that(2) by (auto simp: segment_look_def segment_get_def Let_def split: if_splits)
    have "i < ?j" using that(1) q by (simp add: word_less_nat_alt)
    from after [OF this j(1)] have "\<not> playable_at state (?j, ?xs ! ?j)" .
    moreover have "checked_add ?q (word_of_nat ?j) = Some later"
    proof -
      have "word_of_nat ?j = later - ?q" by (simp flip: le(2))
      moreover have "unat ?q + ?j < 2 ^ 64" using le(1) u64_bound [of later] by (simp add: word_less_nat_alt)
      ultimately show ?thesis by (simp add: checked_add_def le(2))
    qed
    ultimately show ?thesis using j(2) by (auto simp: playable_at_def split: if_splits)
  qed
  ultimately show ?thesis by blast
qed

theorem live_sequence_newest_witness:
  "\<exists>segment. segment_look 3 ((lf_state (live_start 0 (demo_playlist 3 [3, 4])))\<lparr>ls_gaps := {(4, replicate 64 52)}\<rparr>)
     = Ready segment \<and> \<not> seg_gap segment"
proof -
  let ?s = "(lf_state (live_start 0 (demo_playlist 3 [3, 4])))\<lparr>ls_gaps := {(4, replicate 64 52)}\<rparr>"
  have "live_sequence ?s = Some 3"
    by (simp add: live_sequence_def live_start_def demo_playlist_def playable_at_def demo_segment_def checked_add_def)
  from live_sequence_newest [OF this] show ?thesis by (auto simp: live_start_def demo_playlist_def)
qed



end
