(* ===== verification/RootSafety.thy ===== *)
theory RootSafety
  imports RootFetch
begin

text \<open>
  The root fetch over every run: what it returns is a chunk of the reference, it never waits with
  nothing outstanding, and it gives up only after every request was answered.  With it the joined
  readers return the file or nothing.
\<close>

section \<open>The invariant\<close>

definition root_key :: "RootPlan \<Rightarrow> RawFetchQueue \<Rightarrow> nat \<Rightarrow> RawFetchKey" where
  "root_key p q i = raw_fetch_key (rfq_scope q) (rp_requests p ! i) (root_cac (rp_reference p)) (rfq_cancel q)"

definition root_plan_ok :: "RootPlan \<Rightarrow> bool" where
  "root_plan_ok p \<longleftrightarrow> HASH_SIZE \<le> length (rp_reference p) \<and> rp_requests p \<noteq> [] \<and>
     rp_requests p ! 0 = root_cac (rp_reference p) \<and> length (rp_requests p) < usize_bound"

definition root_part :: "RootPlan \<Rightarrow> nat set \<Rightarrow> RootState \<Rightarrow> bool" where
  "root_part p pend s \<longleftrightarrow> raw_inv (rp_keccak p) (rp_verify p) (ro_raw s) \<and>
     chan_inv (rp_keccak p) (rp_verify p) (root_key p (ro_queue s)) pend (rfq_chan (ro_queue s)) (ro_raw s) \<and>
     pend \<subseteq> {..<ro_next s} \<and> ro_next s \<le> length (rp_requests p) \<and> ro_dispatched s = ro_next s \<and>
     card pend + ro_completed s = ro_next s \<and> 1 \<le> ro_next_batch s"

definition root_live :: "RootPlan \<Rightarrow> RootState \<Rightarrow> bool" where
  "root_live p s \<longleftrightarrow> (\<exists>pend. root_part p pend s)"

definition root_ended :: "bool \<Rightarrow> RootPlan \<Rightarrow> (bytes \<times> bool) option \<Rightarrow> RootState \<Rightarrow> bool" where
  "root_ended cancellable p r s \<longleftrightarrow> raw_inv (rp_keccak p) (rp_verify p) (ro_raw s) \<and>
     (case r of
        Some (raw, canonical) \<Rightarrow> canonical \<and> good_raw (rp_keccak p) (rp_verify p) (rp_reference p) raw
      | None \<Rightarrow> cancellable \<or> ro_dispatched s = length (rp_requests p) \<and> ro_completed s = length (rp_requests p))"

definition root_inv :: "bool \<Rightarrow> RootPlan \<Rightarrow> RootState \<Rightarrow> bool" where
  "root_inv cancellable p s \<longleftrightarrow>
     (case ro_pc s of
        RootLoop \<Rightarrow> root_live p s
      | RootAwait hedged \<Rightarrow> root_live p s \<and> ro_completed s < ro_dispatched s \<and> (hedged \<longrightarrow> ro_next s < length (rp_requests p))
      | RootEnded r \<Rightarrow> root_ended cancellable p r s)"

lemma root_part_pc [simp]: "root_part p pend (s\<lparr>ro_pc := pc\<rparr>) = root_part p pend s"
  by (simp add: root_part_def)

lemma root_live_pc [simp]: "root_live p (s\<lparr>ro_pc := pc\<rparr>) = root_live p s"
  by (simp add: root_live_def)

section \<open>Batches\<close>

lemma queue_root_ok:
  assumes live: "root_live p s" and index: "index = ro_next s" "ro_next s < length (rp_requests p)"
  shows "root_live p (queue_root p send_ok index s)" "ro_next (queue_root p send_ok index s) = ro_next s + 1"
    "ro_completed (queue_root p send_ok index s) = ro_completed s"
    "ro_next_batch (queue_root p send_ok index s) = ro_next_batch s"
proof -
  obtain pend where part: "root_part p pend s" using live by (auto simp: root_live_def)
  obtain q raw where q: "queue_drained_raw_chunk (rp_keccak p) (rp_verify p) (rp_limit p) send_ok index (rp_requests p ! index)
      (root_cac (rp_reference p)) (Some (rp_reference p)) Ordinary (ro_queue s) (ro_raw s) = (q, raw)" by fastforce
  have belongs: "\<And>r. Some (rp_reference p) = Some r \<Longrightarrow> take HASH_SIZE r = root_cac (rp_reference p)"
    by (simp add: root_cac_def)
  note inv = part [unfolded root_part_def]
  have new: "index \<notin> pend" using inv index(1) by auto
  have raw: "raw_inv (rp_keccak p) (rp_verify p) raw"
    by (rule queue_inv [OF _ belongs q]) (use inv in simp_all)
  have chan: "chan_inv (rp_keccak p) (rp_verify p) (root_key p (ro_queue s)) (insert index pend) (rfq_chan (ro_queue s)) raw"
    "rfq_chan q = rfq_chan (ro_queue s) \<and> rfq_scope q = rfq_scope (ro_queue s) \<and> rfq_cancel q = rfq_cancel (ro_queue s)"
    using queue_chan [OF _ _ belongs _ _ q, where pend = pend and keyof = "root_key p (ro_queue s)"
        and chan = "rfq_chan (ro_queue s)" and pend' = "insert index pend"] inv new
    by (auto simp: root_key_def)
  have "root_key p q = root_key p (ro_queue s)" using chan(2) by (auto simp: root_key_def fun_eq_iff)
  moreover have "finite pend" using inv finite_subset by blast
  ultimately have "root_part p (insert index pend) (queue_root p send_ok index s)"
    unfolding root_part_def queue_root_def q using inv raw chan new index by auto
  then show "root_live p (queue_root p send_ok index s)" by (auto simp: root_live_def)
qed (simp_all add: queue_root_def split: prod.splits)

lemma queue_root_batch_ok:
  assumes "root_plan_ok p" "root_live p s"
  shows "root_live p (queue_root_batch p send_ok batch s)"
    "ro_next (queue_root_batch p send_ok batch s) = max (ro_next s) (min (ro_next s + batch) (length (rp_requests p)))"
    "ro_completed (queue_root_batch p send_ok batch s) = ro_completed s"
    "ro_next_batch (queue_root_batch p send_ok batch s) = ro_next_batch s"
proof -
  have run: "root_live p (fold (queue_root p send_ok) [n..<m] t) \<and> ro_next (fold (queue_root p send_ok) [n..<m] t) = max n m \<and>
      ro_completed (fold (queue_root p send_ok) [n..<m] t) = ro_completed t \<and>
      ro_next_batch (fold (queue_root p send_ok) [n..<m] t) = ro_next_batch t"
    if "root_live p t" "ro_next t = n" "m \<le> length (rp_requests p)" for n m t
    using that
  proof (induction "m - n" arbitrary: n t)
    case 0
    then show ?case by (simp add: max_def)
  next
    case (Suc k)
    then have "n < m" by simp
    note step = queue_root_ok [OF Suc(3), of n send_ok]
    have "root_live p (queue_root p send_ok n t)" "ro_next (queue_root p send_ok n t) = Suc n"
      using step Suc(4,5) \<open>n < m\<close> by simp_all
    from Suc(1) [OF _ this Suc(5)] Suc(2) step Suc(4,5) \<open>n < m\<close>
    show ?case by (simp add: upt_conv_Cons max_def)
  qed
  let ?m = "min (min (ro_next s + batch) (usize_bound - 1)) (length (rp_requests p))"
  have "?m = min (ro_next s + batch) (length (rp_requests p))" using assms(1) by (auto simp: root_plan_ok_def)
  then show "root_live p (queue_root_batch p send_ok batch s)"
    "ro_next (queue_root_batch p send_ok batch s) = max (ro_next s) (min (ro_next s + batch) (length (rp_requests p)))"
    "ro_completed (queue_root_batch p send_ok batch s) = ro_completed s"
    "ro_next_batch (queue_root_batch p send_ok batch s) = ro_next_batch s"
    using run [OF assms(2) refl, of ?m] unfolding queue_root_batch_def Let_def by simp_all
qed

lemma queue_root_batch_pc [simp]:
  "ro_pc (queue_root_batch p send_ok batch s) = ro_pc s" "ro_completed (queue_root_batch p send_ok batch s) = ro_completed s"
proof -
  have "ro_pc (fold (queue_root p send_ok) is t) = ro_pc t \<and> ro_completed (fold (queue_root p send_ok) is t) = ro_completed t" for "is" t
    by (induction "is" arbitrary: t) (simp_all add: queue_root_def split: prod.splits)
  then show "ro_pc (queue_root_batch p send_ok batch s) = ro_pc s" "ro_completed (queue_root_batch p send_ok batch s) = ro_completed s"
    by (simp_all add: queue_root_batch_def Let_def)
qed

lemma root_live_dispatched: "root_live p s \<Longrightarrow> ro_dispatched s = ro_next s \<and> ro_next s \<le> length (rp_requests p) \<and>
    ro_completed s \<le> ro_next s \<and> 1 \<le> ro_next_batch s"
  by (auto simp: root_live_def root_part_def)

lemma next_root_batch_ok:
  assumes "root_plan_ok p" "root_live p s" "ro_next s < length (rp_requests p)"
  shows "root_live p (next_root_batch p send_ok s)" "ro_next s < ro_next (next_root_batch p send_ok s)"
    "ro_completed (next_root_batch p send_ok s) = ro_completed s"
proof -
  let ?t = "queue_root_batch p send_ok (ro_next_batch s) s"
  note ok = queue_root_batch_ok [OF assms(1,2), of send_ok "ro_next_batch s"]
  have b: "1 \<le> ro_next_batch s" using root_live_dispatched [OF assms(2)] by simp
  obtain pend where "root_part p pend ?t" using ok(1) by (auto simp: root_live_def)
  then have "root_part p pend (next_root_batch p send_ok s)"
    by (simp add: root_part_def next_root_batch_def Let_def usize_bound_def)
  then show "root_live p (next_root_batch p send_ok s)" by (auto simp: root_live_def)
  show "ro_next s < ro_next (next_root_batch p send_ok s)" "ro_completed (next_root_batch p send_ok s) = ro_completed s"
    using ok(2,3) b assms(3) by (simp_all add: next_root_batch_def Let_def)
qed

section \<open>Steps\<close>

lemma root_end_simps [simp]:
  "ro_pc (root_end r s) = RootEnded r" "ro_dispatched (root_end r s) = ro_dispatched s" "ro_completed (root_end r s) = ro_completed s"
  by (simp_all add: root_end_def split: prod.splits)

lemma root_end_raw: "raw_inv keccak verify (ro_raw s) \<Longrightarrow> raw_inv keccak verify (ro_raw (root_end r s))"
  by (auto simp: root_end_def raw_fetch_close_def close_waiters_inv split: prod.splits)

lemma root_live_raw: "root_live p s \<Longrightarrow> raw_inv (rp_keccak p) (rp_verify p) (ro_raw s)"
  by (auto simp: root_live_def root_part_def)

lemma root_turn_ok:
  assumes ok: "root_plan_ok p" and live: "root_live p s"
  shows "root_inv cancellable p (root_turn p send_ok s)"
proof -
  note d = root_live_dispatched [OF live]
  consider (ending) "ro_completed s = ro_dispatched s" "ro_next s = length (rp_requests p)"
    | (batch) "ro_completed s = ro_dispatched s" "ro_next s < length (rp_requests p)" | (waiting) "ro_completed s < ro_dispatched s"
    using d by linarith
  then show ?thesis
  proof cases
    case ending
    then show ?thesis using d root_end_raw [OF root_live_raw [OF live]] by (simp add: root_turn_def root_inv_def root_ended_def)
  next
    case batch
    note b = next_root_batch_ok [OF ok live batch(2), of send_ok]
    from b(1) have "ro_dispatched (next_root_batch p send_ok s) = ro_next (next_root_batch p send_ok s)"
      using root_live_dispatched by blast
    then show ?thesis using b batch d by (simp add: root_turn_def root_inv_def Let_def)
  next
    case waiting
    then show ?thesis using live by (simp add: root_turn_def root_inv_def Let_def)
  qed
qed

lemma root_receive_ok:
  assumes ok: "root_plan_ok p" and live: "root_live p s" and results: "root_results s = result # rest"
  shows "root_inv cancellable p (root_receive result (set_root_results rest s))"
proof -
  obtain pend where part: "root_part p pend s" using live by (auto simp: root_live_def)
  let ?q = "ro_queue s" and ?t = "set_root_results rest s"
  note inv = part [unfolded root_part_def]
  have t: "ro_queue ?t = ?q" "rf_flights (ro_raw ?t) = rf_flights (ro_raw s)" "rf_results (ro_raw ?t) (rfq_chan ?q) = rest"
    "ro_next ?t = ro_next s" "ro_completed ?t = ro_completed s" "ro_dispatched ?t = ro_dispatched s" "ro_next_batch ?t = ro_next_batch s"
    by (simp_all add: set_root_results_def)
  have raw: "raw_inv (rp_keccak p) (rp_verify p) (ro_raw ?t)"
    using inv by (simp add: set_root_results_def raw_inv_def flights_ok_def)
  have r: "rr_index result \<in> pend" "result_ok (rp_keccak p) (rp_verify p) (root_key p ?q (rr_index result)) result"
    using inv results by (auto simp: chan_inv_def root_results_def)
  have "chan_inv (rp_keccak p) (rp_verify p) (root_key p ?q) (pend - rr_index ` set [result]) (rfq_chan ?q) (ro_raw ?t)"
    by (rule chan_inv_take [of _ _ _ _ _ "ro_raw s" "[result]" rest]) (use inv results t in \<open>simp_all add: root_results_def\<close>)
  then have "chan_inv (rp_keccak p) (rp_verify p) (root_key p ?q) (pend - {rr_index result}) (rfq_chan ?q) (ro_raw ?t)" by simp
  moreover have "card (pend - {rr_index result}) + 1 = card pend"
    using r(1) inv by (metis Suc_eq_plus1 card_Suc_Diff1 finite_lessThan finite_subset)
  ultimately have part': "root_part p (pend - {rr_index result}) (?t\<lparr>ro_completed := ro_completed ?t + 1\<rparr>)"
    using inv raw t by (auto simp: root_part_def)
  show ?thesis
  proof (cases "root_accepts result")
    case False
    then show ?thesis using part' by (auto simp: root_receive_def root_inv_def root_live_def Let_def)
  next
    case True
    let ?key = "root_key p ?q (rr_index result)"
    have key: "rk_expected_cac ?key = root_cac (rp_reference p)" "rk_request_address ?key = rp_requests p ! rr_index result"
      by (simp_all add: root_key_def raw_fetch_key_def)
    have "length (root_cac (rp_reference p)) = HASH_SIZE" using ok by (simp add: root_cac_def root_plan_ok_def)
    then have "rr_canonical_cac result"
      using True r(2) ok by (auto simp: root_accepts_def result_ok_def key root_plan_ok_def)
    moreover from this have "good_raw (rp_keccak p) (rp_verify p) (rp_reference p) (rr_chunk result)"
      using r(2) by (simp add: result_ok_def good_raw_def key root_cac_def)
    ultimately show ?thesis
      using True root_end_raw [of _ _ "?t\<lparr>ro_completed := ro_completed ?t + 1\<rparr>"] raw
      by (simp add: root_receive_def root_inv_def root_ended_def Let_def)
  qed
qed

context chunk_service
begin

lemma root_inv_step:
  assumes step: "root_step replies cancellable p s s'" and inv: "root_inv cancellable p s" and ok: "root_plan_ok p"
    and env: "rp_keccak p = keccak" "rp_verify p = verify"
  shows "root_inv cancellable p s'"
proof -
  have "\<And>r. ro_pc s \<noteq> RootEnded r" using step by cases auto
  then have live: "root_live p s" using inv by (cases "ro_pc s") (auto simp: root_inv_def)
  from step show ?thesis
  proof cases
    case (turn send_ok)
    then show ?thesis using root_turn_ok [OF ok live] by simp
  next
    case (receive hedged result rest)
    then show ?thesis using root_receive_ok [OF ok live] by simp
  next
    case (timeout send_ok)
    then show ?thesis using next_root_batch_ok(1) [OF ok live] inv by (simp add: root_inv_def)
  next
    case (others raw)
    obtain pend where "root_part p pend s" using live by (auto simp: root_live_def)
    then have "root_part p pend (s\<lparr>ro_raw := raw\<rparr>)"
      using others raw_inv_step others_chan env by (auto simp: root_part_def)
    then have "root_live p (s\<lparr>ro_raw := raw\<rparr>)" by (auto simp: root_live_def)
    then show ?thesis using others inv by (cases "ro_pc s") (auto simp: root_inv_def)
  next
    case cancelled
    then show ?thesis using root_end_raw [OF root_live_raw [OF live]] by (simp add: root_inv_def root_ended_def)
  qed
qed

lemma root_inv_run:
  assumes run: "(root_step replies cancellable p)\<^sup>*\<^sup>* (root_start p send_ok q raw) s" and ok: "root_plan_ok p"
    and env: "rp_keccak p = keccak" "rp_verify p = verify"
    and raw: "raw_inv keccak verify raw" and q: "fresh_channel (rfq_chan q) raw"
  shows "root_inv cancellable p s"
  using run
proof induction
  case base
  let ?s = "\<lparr>ro_raw = raw, ro_queue = q, ro_next = 0, ro_dispatched = 0, ro_completed = 0, ro_next_batch = 2, ro_pc = RootLoop\<rparr>"
  have "chan_waiters (rfq_chan q) (entry_waiters flight) = []" if "flights (rf_flights raw) key = Some flight" for key flight
    using q that by (fastforce simp: fresh_channel_def chan_waiters_def filter_empty_conv)
  then have "root_part p {} ?s"
    using raw q env by (auto simp: root_part_def chan_inv_def fresh_channel_def)
  then have "root_live p ?s" by (auto simp: root_live_def)
  note start = queue_root_batch_ok(1) [OF ok this]
  show ?case using start by (simp add: root_start_def root_inv_def)
next
  case (step s s')
  then show ?case using root_inv_step ok env by blast
qed

end

section \<open>The decoded root\<close>

lemma root_requests_ok:
  assumes "root_requests keccak reference = Some (Some requests)"
  shows "root_plan_ok (root_plan keccak verify limit reference requests)"
proof -
  have len: "HASH_SIZE \<le> length reference" using assms by (auto simp: root_requests_def split: if_splits)
  then have "length (root_cac reference) = HASH_SIZE" by (simp add: root_cac_def)
  from replicas_mined [OF this, of Paranoid "bee_replica_address keccak"]
  obtain out where "replicas (root_cac reference) Paranoid (bee_replica_address keccak) = Some (Some out)" "length out \<le> 16"
    by auto
  then show ?thesis
    using assms len by (auto simp: root_requests_def root_plan_ok_def root_plan_def usize_bound_def split: if_splits)
qed

lemma cached_root_sound:
  assumes "cache_sound (good_raw keccak verify) keccak c" "cached_root keccak limit reference c = (out, c')"
  shows "cache_sound (good_raw keccak verify) keccak c'" "out = Some d \<Longrightarrow> decodes_to keccak verify reference d"
proof -
  obtain out' where "cc_get_decoded keccak limit reference False c = (out', c')" "out = map_option fst out'"
    using assms(2) by (auto simp: cached_root_def apfst_def map_prod_def split: prod.splits)
  with cc_get_decoded_sound(1,2) [OF assms(1)] show "cache_sound (good_raw keccak verify) keccak c'"
    "out = Some d \<Longrightarrow> decodes_to keccak verify reference d"
    unfolding decodes_to_def by auto
qed

lemma decode_root_sound:
  assumes "cache_sound (good_raw keccak verify) keccak c" "good_raw keccak verify reference raw"
    "decode_root keccak limit reference (raw, canonical) c = (out, c')"
  shows "cache_sound (good_raw keccak verify) keccak c'" "out = Some d \<Longrightarrow> decodes_to keccak verify reference d"
proof -
  obtain hit c1 where hit: "(if canonical then cached_root keccak limit reference c else (None, c)) = (hit, c1)" by fastforce
  then have c1: "cache_sound (good_raw keccak verify) keccak c1" "\<And>d. hit = Some d \<Longrightarrow> decodes_to keccak verify reference d"
    using assms(1) cached_root_sound [OF assms(1)] by (auto split: if_splits)
  show "cache_sound (good_raw keccak verify) keccak c'" "out = Some d \<Longrightarrow> decodes_to keccak verify reference d"
    using assms(2,3) hit c1
    by (auto simp: decode_root_def Let_def decodes_to_def split: option.splits if_splits intro: cc_insert_decoded_sound)
qed

lemma raw_inv_cache:
  "raw_inv keccak verify raw \<Longrightarrow> cache_sound (good_raw keccak verify) keccak c \<Longrightarrow> raw_inv keccak verify (raw\<lparr>rf_cache := c\<rparr>)"
  "raw_inv keccak verify raw \<Longrightarrow> cache_sound (good_raw keccak verify) keccak (rf_cache raw)"
  by (simp_all add: raw_inv_def flights_ok_def)

context chunk_service
begin

lemma raw_root_sound:
  assumes run: "retrieve_raw_root keccak replies verify limit cancellable reference raw r raw'" and raw: "raw_inv keccak verify raw"
  shows "raw_inv keccak verify raw'" "r = Some (chunk, canonical) \<Longrightarrow> canonical \<and> good_raw keccak verify reference chunk"
proof -
  have "raw_inv keccak verify raw' \<and> (\<forall>chunk canonical. r = Some (chunk, canonical) \<longrightarrow>
      canonical \<and> good_raw keccak verify reference chunk)"
    using run
  proof cases
    case (walked requests q send_ok s)
    have "root_inv cancellable (root_plan keccak verify limit reference requests) s"
      by (rule root_inv_run [OF walked(5) root_requests_ok [OF walked(2)] _ _ raw walked(4)]) (simp_all add: root_plan_def)
    then show ?thesis using walked(1,6) by (auto simp: root_inv_def root_ended_def root_plan_def)
  qed (use raw in simp_all)
  then show "raw_inv keccak verify raw'" "r = Some (chunk, canonical) \<Longrightarrow> canonical \<and> good_raw keccak verify reference chunk"
    by blast+
qed

lemma decoded_root_sound:
  assumes run: "retrieve_decoded_data_root keccak replies verify limit cancellable reference raw r raw'"
    and raw: "raw_inv keccak verify raw"
  shows "raw_inv keccak verify raw' \<and> (\<forall>d. r = Some d \<longrightarrow> decodes_to keccak verify reference d)"
  using run
proof cases
  case (hit rootc c)
  then show ?thesis using cached_root_sound [OF raw_inv_cache(2) [OF raw] hit(4)] raw_inv_cache(1) [OF raw] by auto
next
  case (failed c)
  then show ?thesis
    using raw_root_sound(1) [OF failed(4) raw_inv_cache(1) [OF raw cached_root_sound(1) [OF raw_inv_cache(2) [OF raw] failed(3)]]]
    by simp
next
  case (withdrawn_late c r')
  then show ?thesis
    using raw_root_sound(1) [OF withdrawn_late(5)
        raw_inv_cache(1) [OF raw cached_root_sound(1) [OF raw_inv_cache(2) [OF raw] withdrawn_late(4)]]]
    by simp
next
  case (fetched c chunk raw'' c')
  obtain bs canonical where f: "chunk = (bs, canonical)" by (cases chunk)
  note run' = fetched(4) [unfolded f]
  note sound = raw_root_sound [OF run' raw_inv_cache(1) [OF raw cached_root_sound(1) [OF raw_inv_cache(2) [OF raw] fetched(3)]]]
  from decode_root_sound [OF raw_inv_cache(2) [OF sound(1)] _ fetched(5) [unfolded f]] sound(2) [OF refl]
  show ?thesis using fetched(1) raw_inv_cache(1) [OF sound(1)] by auto
qed (use raw in simp_all)

end

text \<open>What the readers rely on: the roots and groups that were fetched are possible ones.\<close>

definition fetches_possible ::
  "(bytes \<Rightarrow> bytes) \<Rightarrow> (bytes \<Rightarrow> bytes \<Rightarrow> bool \<Rightarrow> bool) \<Rightarrow> bool \<Rightarrow> usize \<Rightarrow>
   (bytes \<Rightarrow> DecodedJoinChunk option \<Rightarrow> bool) \<Rightarrow> (group_request \<Rightarrow> group_trace \<Rightarrow> bool) \<Rightarrow> bool" where
  "fetches_possible keccak replies verify limit roots groups \<longleftrightarrow>
     (\<forall>reference r. roots reference r \<longrightarrow>
        (\<exists>raw raw'. (raw_step keccak replies verify limit (\<lambda>chan. True))\<^sup>*\<^sup>* raw_initial raw \<and>
           retrieve_decoded_data_root keccak replies verify limit False reference raw r raw')) \<and>
     (\<forall>request trace. groups request trace \<longrightarrow>
        fetch_data_group_indices_streaming keccak replies verify limit False request trace)"

text \<open>
  Evidence of a collision in what was fetched: under a reference of the file that is meant, another
  chunk was accepted, decoded from one that has the reference as its content address too.
\<close>

definition other_chunk ::
  "(bytes \<Rightarrow> bytes) \<Rightarrow> bool \<Rightarrow> (bytes \<Rightarrow> DecodedJoinChunk option \<Rightarrow> bool) \<Rightarrow> (group_request \<Rightarrow> group_trace \<Rightarrow> bool) \<Rightarrow>
   bool \<Rightarrow> (bytes \<rightharpoonup> DecodedJoinChunk) \<Rightarrow> bool" where
  "other_chunk keccak verify roots groups encrypted file \<longleftrightarrow>
     (\<exists>reference c c'. (roots reference (Some c) \<or> emitted groups encrypted reference c) \<and>
        file reference = Some c' \<and> c \<noteq> c' \<and> decodes_to keccak verify reference c)"

text \<open>A file as it was uploaded: its root and the bytes that its tree holds.\<close>

definition file_at :: "(bytes \<rightharpoonup> DecodedJoinChunk) \<Rightarrow> bytes \<Rightarrow> bytes \<Rightarrow> bool" where
  "file_at file reference content \<longleftrightarrow>
     (\<exists>rootc. file reference = Some rootc \<and> unat (jc_span rootc) = length content \<and>
        (\<forall>i < length content. holds_byte (\<lambda>_ r c. file r = Some c) (length reference = ENCRYPTED_REFERENCE_SIZE) 0 rootc i
           (content ! i)))"

lemma data_joined_cases:
  assumes "retrieve_data_joined roots groups memory reference include_span_prefix out"
  obtains "out = []"
  | c where "roots reference (Some c)" "jc_span c = 0" "out = (if include_span_prefix then to_le_bytes (jc_span c) else [])"
  | c payload where "roots reference (Some c)" "jc_span c \<noteq> 0"
      "range_returns groups memory c 0 (jc_span c - 1) (length reference = ENCRYPTED_REFERENCE_SIZE)
         (if include_span_prefix then to_le_bytes (jc_span c) else []) (Some payload)" "out = payload"
proof -
  from assms obtain fetched where f: "roots reference fetched" "case fetched of None \<Rightarrow> out = []
      | Some c \<Rightarrow> (let total_len = jc_span c; output_prefix = (if include_span_prefix then to_le_bytes total_len else [])
          in if total_len = 0 then out = output_prefix
             else \<exists>r. range_returns groups memory c 0 (total_len - 1) (length reference = ENCRYPTED_REFERENCE_SIZE) output_prefix r \<and>
                    out = (case r of None \<Rightarrow> [] | Some payload \<Rightarrow> payload))"
    unfolding retrieve_data_joined_def by blast
  show thesis
  proof (cases fetched)
    case None
    then show thesis using f that(1) by simp
  next
    case (Some c)
    show thesis
    proof (cases "jc_span c = 0")
      case True
      then show thesis using f Some that(2) by (simp add: Let_def)
    next
      case False
      then obtain r where "range_returns groups memory c 0 (jc_span c - 1) (length reference = ENCRYPTED_REFERENCE_SIZE)
          (if include_span_prefix then to_le_bytes (jc_span c) else []) r" "out = (case r of None \<Rightarrow> [] | Some payload \<Rightarrow> payload)"
        using f(2) Some by (auto simp only: Let_def option.case if_False)
      then show thesis using f(1) Some False that(1,3) by (cases r) simp_all
    qed
  qed
qed

context chunk_service
begin

lemma data_exact:
  assumes possible: "fetches_possible keccak replies verify limit roots groups"
    and read: "retrieve_data_joined roots groups memory reference include_span_prefix out"
    and meant: "file_at file reference content"
  shows "out = [] \<or>
    out = (if include_span_prefix then to_le_bytes (word_of_nat (length content) :: u64) else []) @ content \<or>
    other_chunk keccak verify roots groups (length reference = ENCRYPTED_REFERENCE_SIZE) file"
proof -
  let ?enc = "length reference = ENCRYPTED_REFERENCE_SIZE"
  obtain rootc where f: "file reference = Some rootc" "unat (jc_span rootc) = length content"
    "\<And>i. i < length content \<Longrightarrow> holds_byte (\<lambda>_ r c. file r = Some c) ?enc 0 rootc i (content ! i)"
    using meant by (auto simp: file_at_def)
  let ?prefix = "\<lambda>c. if include_span_prefix then to_le_bytes (jc_span c) else []"
  consider "out = []" | c where "roots reference (Some c)" "jc_span c = 0" "out = ?prefix c"
    | c payload where "roots reference (Some c)" "jc_span c \<noteq> 0"
        "range_returns groups memory c 0 (jc_span c - 1) ?enc (?prefix c) (Some payload)" "out = payload"
    by (rule data_joined_cases [OF read])
  then show ?thesis
  proof cases
    case 1
    then show ?thesis by simp
  next
    case (2 c)
    have d: "decodes_to keccak verify reference c"
      using possible 2(1) decoded_root_sound raw_inv_reachable by (fastforce simp: fetches_possible_def)
    show ?thesis
    proof (cases "c = rootc")
      case True
      then show ?thesis using 2 f(2) by simp
    next
      case False
      then show ?thesis using d 2(1) f(1) unfolding other_chunk_def by blast
    qed
  next
    case (3 c payload)
    have d: "decodes_to keccak verify reference c"
      using possible 3(1) decoded_root_sound raw_inv_reachable by (fastforce simp: fetches_possible_def)
    show ?thesis
    proof (cases "c = rootc")
      case False
      then show ?thesis using d 3(1) f(1) unfolding other_chunk_def by blast
    next
      case True
      have le: "1 \<le> jc_span c" using 3(2) by (simp add: word_le_nat_alt Suc_le_eq unat_gt_0)
      have len: "range_len c 0 (jc_span c - 1) = length content"
        using f(2) True 3(2) le by (simp add: range_len_def min_def unat_sub word_le_nat_alt)
      have holds: "holds_byte (\<lambda>_ r c. file r = Some c) ?enc 0 c (unat (0 :: u64) + i) (content ! i)"
        if "i < range_len c 0 (jc_span c - 1)" for i
        using f(3) that len True by simp
      have "groups request trace \<Longrightarrow> fetch_data_group_indices_streaming keccak replies verify limit False request trace" for request trace
        using possible unfolding fetches_possible_def by blast
      from read_exact [OF this range_returns_read [OF 3(3)] holds]
      have "payload = ?prefix c @ content \<or> (\<exists>reference c c'. emitted groups ?enc reference c \<and> file reference = Some c' \<and>
          c \<noteq> c' \<and> deliverable keccak verify ?enc reference c)"
        by (simp add: len map_nth)
      moreover have "word_of_nat (length content) = jc_span c" unfolding True f(2) [symmetric] by simp
      ultimately show ?thesis using 3(4) by (auto simp: other_chunk_def deliverable_def)
    qed
  qed
qed

end

section \<open>An example\<close>

text \<open>A file of three bytes whose root chunk is in the cache.\<close>

definition example_raw :: bytes where
  "example_raw = [3, 0, 0, 0, 0, 0, 0, 0, 7, 8, 9]"

definition example_warm :: RawFetches where
  "example_warm = raw_initial\<lparr>rf_cache := cc_insert_raw 1 example_address example_raw (rf_cache raw_initial)\<rparr>"

lemma example_raw_valid: "valid_cac example_keccak example_raw example_address"
proof -
  have "bmt_root example_keccak [7, 8, 9] = Some (bmt_node example_keccak [7, 8, 9] 6 0)"
    by (rule bmt_root_spec) (simp_all add: example_keccak_def sizes)
  then show ?thesis
    by (simp add: valid_cac_def content_address_array_def example_raw_def example_address_def sizes)
      (simp add: example_keccak_def)
qed

lemma example_warm_reachable:
  "(raw_step example_keccak replies True 1 (\<lambda>chan. True))\<^sup>*\<^sup>* raw_initial example_warm"
proof -
  have "good_raw example_keccak True example_address example_raw"
    using example_raw_valid example_address_length by (simp add: good_raw_def sizes)
  from raw_step.remember_raw [OF this] show ?thesis
    unfolding example_warm_def by (rule r_into_rtranclp)
qed

lemma example_raw_decodes: "decode_shared_raw_join_chunk example_keccak example_raw example_address = Some example_leaf"
proof -
  have "decode_span example_raw = Some (Level_None, 3)"
    by (simp add: decode_span_def example_raw_def sizes from_le_bytes_def)
  then show ?thesis
    by (simp add: decode_shared_raw_join_chunk_def canonical_plain_chunk_def chunk_payload_len_def usize_checked_add_def
        usize_bound_def example_address_length CHUNK_WITH_SPAN_SIZE_def sizes)
      (simp add: example_raw_def example_leaf_def)
qed

lemma example_warm_hit:
  "retrieve_decoded_data_root example_keccak replies True 1 False example_address example_warm (Some example_leaf)
     (example_warm\<lparr>rf_cache := snd (cached_root example_keccak 1 example_address (rf_cache example_warm))\<rparr>)"
proof (rule retrieve_decoded_data_root.hit)
  show "length example_address = HASH_SIZE \<or> length example_address = ENCRYPTED_REFERENCE_SIZE"
    using example_address_length by (simp add: sizes)
  have "\<exists>e. map_of (cc_chunks (rf_cache example_warm)) example_address = Some e \<and> cached_raw e = Some example_raw \<and> cached_decoded e = None"
    by (simp add: example_warm_def raw_initial_def cc_insert_raw_def cc_insert_def finish_touch_def compact_order_if_needed_def
        cache_default_def order_entry_live_def Let_def option_else_def)
  then have "fst (cached_root example_keccak 1 example_address (rf_cache example_warm)) = Some example_leaf"
    using example_raw_decodes by (auto simp: cached_root_def cc_get_decoded_def decode_entry_def Let_def)
  then show "cached_root example_keccak 1 example_address (rf_cache example_warm) =
      (Some example_leaf, snd (cached_root example_keccak 1 example_address (rf_cache example_warm)))"
    by (metis prod.collapse)
qed

definition example_roots :: "bytes \<Rightarrow> DecodedJoinChunk option \<Rightarrow> bool" where
  "example_roots reference r \<longleftrightarrow> reference = example_address \<and> r = Some example_leaf"

lemma example_possible: "fetches_possible example_keccak replies True 1 example_roots (\<lambda>_ _. False)"
  unfolding fetches_possible_def example_roots_def using example_warm_reachable example_warm_hit by blast

lemma example_file: "file_at (\<lambda>_. Some example_leaf) example_address [7, 8, 9]"
proof -
  have "holds_byte (\<lambda>_ r c. Some example_leaf = Some c) enc 0 example_leaf i ([7, 8, 9] ! i)" if "i < 3" for enc i
    using holds_byte.leaf [of example_leaf i "\<lambda>_ r c. Some example_leaf = Some c" enc 0] that
    by (simp add: example_leaf_def sizes)
  then show ?thesis by (auto simp: file_at_def example_leaf_def)
qed

lemma example_leaf_whole: "range_returns groups (\<lambda>_. True) example_leaf 0 (jc_span example_leaf - 1) encrypted [] (Some [7, 8, 9])"
  by (subst leaf_returns) (simp_all add: example_leaf_def sizes)

lemma example_data: "retrieve_data_joined example_roots groups (\<lambda>_. True) example_address False [7, 8, 9]"
  unfolding retrieve_data_joined_def example_roots_def using example_leaf_whole
  by (intro exI [of _ "Some example_leaf"]) (auto simp: example_leaf_def Let_def intro!: exI [of _ "Some [7, 8, 9]"])

section \<open>Properties\<close>


lemma example_requests: "\<exists>requests. root_requests example_keccak example_address = Some (Some requests) \<and> requests \<noteq> []"
proof -
  have "length (root_cac example_address) = HASH_SIZE" using example_address_length by (simp add: root_cac_def sizes)
  from replicas_mined [OF this, of Paranoid "bee_replica_address example_keccak"]
  obtain out where "replicas (root_cac example_address) Paranoid (bee_replica_address example_keccak) = Some (Some out)" by blast
  then show ?thesis using example_address_length by (simp add: root_requests_def sizes)
qed




end
