(* ===== verification/PlayerSafety.thy ===== *)
theory PlayerSafety
  imports Player FollowSafety RootSafety
begin

text \<open>
  The players end to end: what is played was published by the owner of the feed and is the content
  of its reference, in order and at most once; what a body that cannot be fetched leads to; how far
  a playlist with gaps is played; and the names a user types.
\<close>

section \<open>References\<close>

lemma hex_char:
  assumes "is_ascii_hexdigit c"
  shows "c < 128" "\<not> is_whitespace c" "c \<noteq> 120" "c \<noteq> 88"
  using assms by (auto simp: is_ascii_hexdigit_def is_whitespace_def)

lemma trim_dark: "list_all (\<lambda>c. \<not> is_whitespace c) t \<Longrightarrow> trim t = t"
  by (metis (no_types, lifting) dropWhile_eq_self_iff hd_in_set list_all_iff rev_rev_ident set_rev trim_def trim_start_def)

lemma strip_hex_dark:
  assumes "list_all is_ascii_hexdigit t"
  shows "strip_hex_prefix (map char_of t) = map char_of t"
proof -
  have "char_of c \<noteq> CHR ''x'' \<and> char_of c \<noteq> CHR ''X''" if "is_ascii_hexdigit c" for c :: nat
  proof -
    have "of_char (char_of c :: char) = c" using hex_char(1) [OF that] by simp
    moreover have "of_char (CHR ''x'') = (120 :: nat)" "of_char (CHR ''X'') = (88 :: nat)" by simp_all
    ultimately show ?thesis using hex_char(3,4) [OF that] by metis
  qed
  then show ?thesis
    using assms by (auto simp: strip_hex_prefix_def split: list.splits)
qed

lemma reference_text:
  assumes "is_hex_reference r"
  shows "decode_hex_text hex_decode (trim r) = hex_decode (map char_of r)"
proof -
  have hex: "list_all is_ascii_hexdigit r" using assms by (simp add: is_hex_reference_def)
  then have "trim r = r" by (intro trim_dark) (auto simp: list_all_iff dest: hex_char)
  moreover have "ascii_text r = Some (map char_of r)" using hex by (auto simp: ascii_text_def list_all_iff dest: hex_char)
  ultimately show ?thesis by (simp add: decode_hex_text_def strip_hex_dark [OF hex])
qed

section \<open>Fetching a body\<close>

lemma segment_attempts_ok:
  assumes "segment_attempts net roots segment attempt (Inr (bs, attempts))"
  shows "retrieve_payload net roots (ss_reference segment) (Inr bs) \<and> attempt < attempts \<and> attempts \<le> SEGMENT_BODY_ATTEMPTS"
  using assms by (induction attempt "Inr (bs, attempts) :: ViewerError + bytes \<times> usize" rule: segment_attempts.induct) auto

lemma fetched_body:
  assumes "fetch_segment_reporting net roots segment (Inr (bs, attempts))"
  obtains reference where "\<not> ss_gap segment" "1 \<le> attempts" "attempts \<le> SEGMENT_BODY_ATTEMPTS" "bs \<noteq> []"
    "decode_hex_text (fn_hex net) (trim (ss_reference segment)) = Some reference"
    "retrieve_data_payload roots (fn_groups net) (fn_memory net) reference bs"
proof -
  have "\<not> ss_gap segment" "segment_attempts net roots segment 0 (Inr (bs, attempts))"
    using assms by (auto simp: fetch_segment_reporting_def split: if_splits)
  then show thesis
    using segment_attempts_ok [of net roots segment 0 bs attempts] that
    by (auto simp: retrieve_payload_def split: option.splits if_splits)
qed

text \<open>The bytes are those of the reference, or the fetches of the run show a collision.\<close>

definition content_of ::
  "'sig feed_net \<Rightarrow> (bytes \<Rightarrow> DecodedJoinChunk option \<Rightarrow> bool) \<Rightarrow> ctext \<Rightarrow> bytes \<Rightarrow> bool" where
  "content_of net roots text_reference bs \<longleftrightarrow>
     (\<exists>reference. decode_hex_text (fn_hex net) (trim text_reference) = Some reference \<and>
        (\<forall>file content. file_at file reference content \<longrightarrow>
           bs = content \<or> other_chunk (fn_keccak net) True roots (fn_groups net) (length reference = ENCRYPTED_REFERENCE_SIZE) file))"

lemma fetched_content:
  assumes possible: "fetches_possible (fn_keccak net) (chunk_replies (fn_keccak net) (fn_curve net) True) True limit roots (fn_groups net)"
    and run: "fetch_segment_reporting net roots segment (Inr (bs, attempts))"
  shows "content_of net roots (ss_reference segment) bs"
proof -
  obtain reference where r: "bs \<noteq> []" "decode_hex_text (fn_hex net) (trim (ss_reference segment)) = Some reference"
    "retrieve_data_payload roots (fn_groups net) (fn_memory net) reference bs"
    using fetched_body [OF run] by metis
  then show ?thesis
    using retrieval.data_exact [OF possible] unfolding content_of_def retrieve_data_payload_def by fastforce
qed

section \<open>The live player\<close>

lemma live_follow:
  assumes "live_step net roots owner topic run (c, p) (c', p')"
  shows "c' = c \<or> follow_step net owner topic c c'"
  using assms
proof cases
  case (body_failed segment e feed feed' pc)
  have "follow_step net owner topic (pc, feed) (pc, snd (stream_body_failure segment feed))"
    unfolding stream_body_failure_def by (rule follow_step.failed_body)
  then show ?thesis
    using body_failed by (auto simp: live_body_failed_def Let_def split: option.splits prod.splits)
qed auto

text \<open>Where the player stands relative to what it has played, from the sequence number it began at.\<close>

definition stopped_badly :: "LivePlayer \<Rightarrow> bool" where
  "stopped_badly p \<longleftrightarrow> lp_pc p = LiveOver WriteFailed \<or> lp_pc p = LiveOver PlayPanic"

definition written_ok :: "u64 \<Rightarrow> LivePlayer \<Rightarrow> bool" where
  "written_ok start p \<longleftrightarrow> sorted_wrt (<) (map (ss_sequence \<circ> fst) (lp_written p)) \<and> lp_played p = length (lp_written p) \<and>
     (\<forall>x \<in> set (lp_written p). start \<le> ss_sequence (fst x) \<and> ss_sequence (fst x) \<le> lp_sequence p)"

definition past_written :: "u64 \<Rightarrow> LivePlayer \<Rightarrow> bool" where
  "past_written start p \<longleftrightarrow> (\<forall>x \<in> set (lp_written p). ss_sequence (fst x) < lp_sequence p) \<and>
     unat start + lp_played p + unat (lp_gaps p) \<le> unat (lp_sequence p)"

definition order_inv :: "u64 \<Rightarrow> LivePlayer \<Rightarrow> bool" where
  "order_inv start p \<longleftrightarrow> written_ok start p \<and> (\<not> stopped_badly p \<longrightarrow> past_written start p) \<and>
     (\<forall>segment. lp_pc p = FetchBody segment \<longrightarrow> ss_sequence segment = lp_sequence p)"

lemmas order_defs = order_inv_def written_ok_def past_written_def stopped_badly_def

lemma written_pc [simp]:
  "written_ok start (p\<lparr>lp_pc := pc\<rparr>) = written_ok start p" "past_written start (p\<lparr>lp_pc := pc\<rparr>) = past_written start p"
  by (simp_all add: written_ok_def past_written_def)

lemma order_pc:
  "order_inv start p \<Longrightarrow> \<not> stopped_badly p \<Longrightarrow> (\<And>segment. pc = FetchBody segment \<Longrightarrow> ss_sequence segment = lp_sequence p) \<Longrightarrow>
     order_inv start (p\<lparr>lp_pc := pc\<rparr>)"
  by (auto simp: order_defs)

lemma next_sequence_order:
  assumes "written_ok start p" "unat start + lp_played p + unat (lp_gaps p) \<le> unat (lp_sequence p) + 1"
  shows "order_inv start (next_sequence p)"
proof (cases "checked_add (lp_sequence p) 1")
  case None
  then show ?thesis using assms by (simp add: next_sequence_def order_defs)
next
  case (Some q)
  then have q: "unat q = unat (lp_sequence p) + 1" by (auto simp: rust_int)
  have "x \<le> lp_sequence p \<Longrightarrow> x < q" for x using q by (simp add: word_le_nat_alt word_less_nat_alt)
  then show ?thesis using assms q Some by (auto simp: next_sequence_def order_defs less_imp_le)
qed

lemma step_over_order:
  assumes "written_ok start p" "past_written start p"
  shows "order_inv start (step_over p)"
proof (cases "checked_add (lp_gaps p) 1")
  case None
  then show ?thesis using assms by (simp add: step_over_def order_defs)
next
  case (Some g)
  then have "unat g = unat (lp_gaps p) + 1" by (auto simp: rust_int)
  then have "order_inv start (next_sequence (p\<lparr>lp_gaps := g\<rparr>))"
    using assms by (intro next_sequence_order) (auto simp: order_defs)
  then show ?thesis by (simp add: step_over_def Some)
qed

lemma live_account_order:
  assumes "live_account now fetch_ms segment bs p = Some p'" "written_ok start p" "past_written start p"
    "ss_sequence segment = lp_sequence p"
  shows "written_ok start p'" "unat start + lp_played p' + unat (lp_gaps p') \<le> unat (lp_sequence p') + 1"
proof -
  have "start \<le> lp_sequence p" using assms(3) by (simp add: past_written_def word_le_nat_alt)
  moreover have "lp_written p' = lp_written p @ [(segment, bs)]" "lp_played p' = lp_played p + 1" "lp_sequence p' = lp_sequence p"
    "lp_gaps p' = lp_gaps p"
    using assms(1) by (auto simp: live_account_def Let_def split: option.splits if_splits)
  ultimately show "written_ok start p'" "unat start + lp_played p' + unat (lp_gaps p') \<le> unat (lp_sequence p') + 1"
    using assms(2-4) by (auto simp: order_defs sorted_wrt_append)
qed

lemma order_inv_step:
  assumes "live_step net roots owner topic run (c, p) (c', p')" "order_inv start p"
  shows "order_inv start p'"
  using assms(1)
proof cases
  case (top requested elapsed)
  then show ?thesis using order_pc [OF assms(2)] by (auto simp: live_top_def stopped_badly_def)
next
  case (woken feed pc)
  have ok: "written_ok start p" "past_written start p" "\<not> stopped_badly p"
    using assms(2) woken(3) by (simp_all add: order_inv_def stopped_badly_def)
  show ?thesis
  proof (cases "segment_look (lp_sequence p) (lf_state feed)")
    case Gone
    let ?q = "hls_sequence (ls_playlist (lf_state feed))"
    have "order_inv start (p\<lparr>lp_sequence := ?q, lp_pc := LoopTop\<rparr>)" if "lp_sequence p < ?q"
      using ok that by (force simp: order_defs word_less_nat_alt word_le_nat_alt)
    then show ?thesis using woken(4) Gone order_pc [OF assms(2) ok(3)] by (auto simp: live_woken_def split: if_splits)
  next
    case (Ready hls)
    have "order_inv start (p\<lparr>lp_pc := FetchBody (stream_segment (lp_sequence p) hls)\<rparr>)"
      by (rule order_pc [OF assms(2) ok(3)]) (auto simp: stream_segment_def)
    then show ?thesis
      using woken(4) Ready step_over_order [OF ok(1,2)] by (auto simp: live_woken_def Let_def split: if_splits)
  qed (use woken(4) in \<open>simp add: live_woken_def\<close>)
next
  case interrupted
  have "order_inv start (p\<lparr>lp_pc := LiveOver PlayOver\<rparr>)"
    by (rule order_pc [OF assms(2)]) (use interrupted in \<open>simp_all add: stopped_badly_def\<close>)
  then show ?thesis using interrupted by simp
next
  case (body segment bs attempts now fetch_ms written logged)
  have ok: "written_ok start p" "past_written start p" "ss_sequence segment = lp_sequence p"
    using assms(2) body(3) by (simp_all add: order_inv_def stopped_badly_def)
  show ?thesis
  proof (cases "live_account now fetch_ms segment bs p")
    case None
    then show ?thesis using body(2) ok(1) by (simp add: live_body_def order_defs)
  next
    case (Some q)
    note q = live_account_order [OF Some ok]
    then have bad: "order_inv start (q\<lparr>lp_pc := LiveOver e\<rparr>)" if "e = WriteFailed \<or> e = PlayPanic" for e
      using that by (auto simp: order_defs)
    show ?thesis using body(2) Some bad next_sequence_order [OF q] by (simp add: live_body_def)
  qed
next
  case (body_failed segment e feed feed' pc)
  have ok: "written_ok start p" "past_written start p" "\<not> stopped_badly p"
    using assms(2) body_failed(3) by (simp_all add: order_inv_def stopped_badly_def)
  show ?thesis
  proof (cases "checked_add (lp_body_failures p) 1")
    case None
    then show ?thesis using body_failed(5) ok by (auto simp: live_body_failed_def order_inv_def stopped_badly_def)
  next
    case (Some n)
    have "written_ok start (p\<lparr>lp_body_failures := n\<rparr>)" "past_written start (p\<lparr>lp_body_failures := n\<rparr>)"
      using ok by (simp_all add: order_defs)
    moreover from this have "order_inv start (p\<lparr>lp_body_failures := n, lp_pc := LoopTop\<rparr>)" by (simp add: order_defs)
    ultimately show ?thesis using body_failed(5) Some step_over_order by (auto simp: live_body_failed_def Let_def split: prod.splits)
  qed
qed (use assms(2) in simp)

lemma order_inv_run:
  "(live_step net roots owner topic run)\<^sup>*\<^sup>* (c, live_begin live) (c', p) \<Longrightarrow> order_inv (lv_start_sequence live) p"
proof (induction "(c', p)" arbitrary: c' p rule: rtranclp_induct)
  case base
  then show ?case by (simp add: live_begin_def order_defs)
next
  case (step d)
  obtain c1 p1 where "d = (c1, p1)" by (cases d)
  then show ?case using step order_inv_step by blast
qed

text \<open>What the player has is published and is its reference's content.\<close>

definition segment_ok :: "'sig feed_net \<Rightarrow> string \<Rightarrow> string \<Rightarrow> u64 \<Rightarrow> StreamSegment \<Rightarrow> bool" where
  "segment_ok net owner topic newest segment \<longleftrightarrow>
     \<not> ss_gap segment \<and> reference_published True net owner topic newest (ss_reference segment)"

definition player_inv ::
  "'sig feed_net \<Rightarrow> (bytes \<Rightarrow> DecodedJoinChunk option \<Rightarrow> bool) \<Rightarrow> string \<Rightarrow> string \<Rightarrow> (FollowPc \<times> LiveFeed) \<times> LivePlayer \<Rightarrow> bool" where
  "player_inv net roots owner topic = (\<lambda>(c, p).
     follow_inv True net owner topic c \<and>
     (\<forall>segment. lp_pc p = FetchBody segment \<longrightarrow> segment_ok net owner topic (ls_index (lf_state (snd c))) segment) \<and>
     (\<forall>x \<in> set (lp_written p). segment_ok net owner topic (ls_index (lf_state (snd c))) (fst x) \<and>
        content_of net roots (ss_reference (fst x)) (snd x)))"

lemma segment_ok_mono: "segment_ok net owner topic i segment \<Longrightarrow> i \<le> j \<Longrightarrow> segment_ok net owner topic j segment"
  by (auto simp: segment_ok_def intro: reference_published_mono)

lemma next_sequence_pc [simp]:
  "lp_pc (next_sequence p) \<noteq> FetchBody segment" "lp_pc (step_over p) \<noteq> FetchBody segment"
  "lp_written (next_sequence p) = lp_written p" "lp_written (step_over p) = lp_written p"
  by (simp_all add: next_sequence_def step_over_def split: option.split)

lemma look_segment_ok:
  assumes "state_inv True net owner topic state" "segment_look q state = Ready hls" "\<not> seg_gap hls"
  shows "segment_ok net owner topic (ls_index state) (stream_segment q hls)"
proof -
  let ?seg = "hls_segments (ls_playlist state) ! unat (q - hls_sequence (ls_playlist state))"
  have "?seg \<in> set (hls_segments (ls_playlist state)) \<and> seg_reference hls = seg_reference ?seg"
    using assms(2) by (auto simp: segment_look_def segment_get_def Let_def split: if_splits)
  then show ?thesis using assms(1,3) by (auto simp: state_inv_def segment_ok_def stream_segment_def)
qed

lemma live_body_written:
  "set (lp_written (live_body now fetch_ms written logged segment bs p)) \<subseteq> insert (segment, bs) (set (lp_written p))"
  "lp_pc (live_body now fetch_ms written logged segment bs p) \<noteq> FetchBody s"
  by (auto simp: live_body_def live_account_def Let_def split: option.splits if_splits)

lemma player_inv_step:
  assumes net: "net_sound True net"
    and possible: "fetches_possible (fn_keccak net) (chunk_replies (fn_keccak net) (fn_curve net) True) True limit roots (fn_groups net)"
    and step: "live_step net roots owner topic run (c, p) (c', p')" and inv: "player_inv net roots owner topic (c, p)"
  shows "player_inv net roots owner topic (c', p')"
proof -
  note parts = inv [unfolded player_inv_def prod.case]
  have later: "ls_index (lf_state (snd c)) \<le> ls_index (lf_state (snd c'))" and follow: "follow_inv True net owner topic c'"
    using live_follow [OF step] parts follow_inv_step [OF net] step_moves [OF net] moves_forward by (metis order_refl, metis)
  have kept: "segment_ok net owner topic (ls_index (lf_state (snd c'))) (fst x) \<and> content_of net roots (ss_reference (fst x)) (snd x)"
    if "x \<in> set (lp_written p)" for x
    using parts that segment_ok_mono [OF _ later] by blast
  have fetching: "segment_ok net owner topic (ls_index (lf_state (snd c'))) segment" if "lp_pc p = FetchBody segment" for segment
    using parts that segment_ok_mono [OF _ later] by blast
  from step show ?thesis
  proof cases
    case follower
    then show ?thesis using follow kept fetching by (simp add: player_inv_def)
  next
    case (top requested elapsed)
    then show ?thesis using follow kept by (auto simp: player_inv_def live_top_def)
  next
    case (woken feed pc)
    have state: "state_inv True net owner topic (lf_state feed)" using follow woken(2) by (simp add: follow_inv_def)
    have "lp_written p' = lp_written p \<and> (\<forall>segment. lp_pc p' = FetchBody segment \<longrightarrow>
        segment_ok net owner topic (ls_index (lf_state feed)) segment)"
      using woken(4) look_segment_ok [OF state]
      by (auto simp: live_woken_def stream_segment_def Let_def split: SegmentLook.splits if_splits)
    then show ?thesis using follow kept woken(2) by (simp add: player_inv_def)
  next
    case interrupted
    then show ?thesis using follow kept by (simp add: player_inv_def)
  next
    case (body segment bs attempts now fetch_ms written logged)
    then show ?thesis
      using follow kept fetching [OF body(3)] fetched_content [OF possible body(4)]
        live_body_written(1) [of now fetch_ms written logged segment bs p] live_body_written(2)
      by (fastforce simp: player_inv_def)
  next
    case (body_failed segment e feed feed' pc)
    have "lp_written p' = lp_written p \<and> (\<forall>s. lp_pc p' \<noteq> FetchBody s)"
      using body_failed(5) by (auto simp: live_body_failed_def Let_def split: option.splits prod.splits if_splits)
    then show ?thesis using follow kept by (simp add: player_inv_def)
  qed
qed

lemma player_inv_run:
  assumes "net_sound True net"
    "fetches_possible (fn_keccak net) (chunk_replies (fn_keccak net) (fn_curve net) True) True limit roots (fn_groups net)"
    "follows net owner topic c" "(live_step net roots owner topic run)\<^sup>*\<^sup>* (c, live_begin live) d"
  shows "player_inv net roots owner topic d"
  using assms(4)
proof (induction rule: rtranclp_induct)
  case base
  show ?case using follows_inv [OF assms(1,3)] by (simp add: player_inv_def live_begin_def)
next
  case (step d d')
  then show ?case using player_inv_step [OF assms(1,2)] by (cases d; cases d') blast
qed

section \<open>Playing a playlist\<close>

lemma play_account_fields:
  assumes "play_account elapsed segment bs p = Some p'"
  shows "pd_written p' = pd_written p @ [(segment, bs)]" "pd_played p' = pd_played p + 1" "pd_total p' = pd_total p + length bs"
  using assms by (auto simp: play_account_def Let_def split: option.splits if_splits)

definition written_total :: "Played \<Rightarrow> bool" where
  "written_total p \<longleftrightarrow> pd_played p = length (pd_written p) \<and> pd_total p = sum_list (map (length \<circ> snd) (pd_written p)) \<and>
     (\<forall>x \<in> set (pd_written p). \<not> ss_gap (fst x) \<and> snd x \<noteq> [])"

lemma account_total:
  assumes "play_account elapsed segment bs p = Some p'" "fetch_segment_reporting net roots segment (Inr (bs, attempts))" "written_total p"
  shows "written_total p'"
  using assms(3) play_account_fields [OF assms(1)] fetched_body [OF assms(2)] by (auto simp: written_total_def)

lemma play_segments_prefix:
  assumes "play_segments net roots segments p r" "written_total p"
  shows "written_total (snd r) \<and>
    (\<exists>n \<le> length segments. map fst (pd_written (snd r)) = map fst (pd_written p) @ take n segments \<and>
       (\<forall>e. fst r = PlayFailed e \<longrightarrow> n < length segments \<and> fetch_segment_reporting net roots (segments ! n) (Inl e)))"
  using assms
proof (induction rule: play_segments.induct)
  case (accounted segment bs attempts elapsed p p' logged segments r)
  note f = play_account_fields [OF accounted(2)]
  obtain n where n: "n \<le> length segments" "map fst (pd_written (snd r)) = map fst (pd_written p') @ take n segments"
    "\<forall>e. fst r = PlayFailed e \<longrightarrow> n < length segments \<and> fetch_segment_reporting net roots (segments ! n) (Inl e)"
    and total: "written_total (snd r)"
    using accounted(5) [OF account_total [OF accounted(2,1,6)]] by blast
  have "Suc n \<le> length (segment # segments) \<and> map fst (pd_written (snd r)) = map fst (pd_written p) @ take (Suc n) (segment # segments) \<and>
      (\<forall>e. fst r = PlayFailed e \<longrightarrow> Suc n < length (segment # segments) \<and>
         fetch_segment_reporting net roots ((segment # segments) ! Suc n) (Inl e))"
    using n f by simp
  then show ?case using total by blast
next
  case (not_written segment bs attempts elapsed p p' segments)
  then show ?case
    using play_account_fields [OF not_written(2)] account_total [OF not_written(2,1,3)] by (auto intro!: exI [of _ 1])
next
  case (too_short segment bs attempts elapsed p p' segments)
  then show ?case
    using play_account_fields [OF too_short(2)] account_total [OF too_short(2,1,4)] by (auto intro!: exI [of _ 1])
qed (auto intro!: exI [of _ 0])

section \<open>The views of a stream\<close>

lemma mark_gaps_shape:
  "hls_sequence (mark_gaps order p) = hls_sequence p \<and> length (hls_segments (mark_gaps order p)) = length (hls_segments p)"
proof (induction order arbitrary: p)
  case (Cons g order)
  obtain sequence reference where "g = (sequence, reference)" by (cases g)
  moreover have "hls_sequence (snd (mark_gap sequence reference p)) = hls_sequence p"
    "length (hls_segments (snd (mark_gap sequence reference p))) = length (hls_segments p)"
    by (auto simp: mark_gap_def split: option.split)
  ultimately show ?case by (simp add: Cons)
qed simp

lemma find_map_index:
  assumes "\<And>i. i < length xs \<Longrightarrow> key (f (i, xs ! i)) = base + i"
  shows "find (\<lambda>y. key y = (base + j :: nat)) (map f (enumerate 0 xs)) = (if j < length xs then Some (f (j, xs ! j)) else None)"
proof (cases "j < length xs")
  case True
  then show ?thesis using assms
    by (auto simp: find_Some_iff nth_enumerate_eq intro!: exI [of _ j])
next
  case False
  then show ?thesis using assms by (auto simp: find_None_iff in_set_enumerate_eq)
qed

lemma stream_playlist_find:
  assumes "unat (hls_sequence p) + length (hls_segments p) \<le> 2 ^ 64"
  shows "find (\<lambda>s. ss_sequence s = sequence) (spl_segments (stream_playlist index p)) =
    map_option (stream_segment sequence) (timeline p (unat sequence))"
proof -
  let ?f = "\<lambda>(offset, segment). stream_segment (saturating_add (hls_sequence p) (word_of_nat offset)) segment"
  have key: "unat (ss_sequence (?f (i, hls_segments p ! i))) = unat (hls_sequence p) + i" if "i < length (hls_segments p)" for i
  proof -
    have "unat (word_of_nat i :: u64) = i" using that assms by (simp add: unat_of_nat)
    then show ?thesis using that assms by (simp add: stream_segment_def unat_saturating_add)
  qed
  have same: "(\<lambda>s. ss_sequence s = sequence) = (\<lambda>s. unat (ss_sequence s) = unat sequence)" by (simp add: word_unat_eq_iff)
  show ?thesis
  proof (cases "unat (hls_sequence p) \<le> unat sequence")
    case True
    then obtain j where j: "unat sequence = unat (hls_sequence p) + j" using le_Suc_ex by blast
    have "?f (j, hls_segments p ! j) = stream_segment sequence (hls_segments p ! j)" if "j < length (hls_segments p)"
    proof -
      have "ss_sequence (?f (j, hls_segments p ! j)) = sequence" using key [OF that] j by (simp add: word_unat_eq_iff)
      then show ?thesis by (simp add: stream_segment_def)
    qed
    then show ?thesis
      using find_map_index [of "hls_segments p" "\<lambda>s. unat (ss_sequence s)" ?f "unat (hls_sequence p)" j, OF key]
      by (simp add: same j stream_playlist_def timeline_def)
  next
    case False
    then have "find (\<lambda>s. unat (ss_sequence s) = unat sequence) (map ?f (enumerate 0 (hls_segments p))) = None"
      using key by (auto simp: find_None_iff in_set_enumerate_eq)
    then show ?thesis using False by (simp add: same stream_playlist_def timeline_def)
  qed
qed

section \<open>Names\<close>

text \<open>What the hex crate documents about its two functions.\<close>

definition hex_codec :: "(string \<Rightarrow> bytes option) \<Rightarrow> (bytes \<Rightarrow> string) \<Rightarrow> bool" where
  "hex_codec hex_decode hex_encode \<longleftrightarrow>
     (\<forall>bs. hex_decode (hex_encode bs) = Some bs) \<and>
     (\<forall>bs. list_all (\<lambda>c. is_ascii_hexdigit (of_char c)) (hex_encode bs)) \<and>
     (\<forall>t n. length t = 2 * n \<longrightarrow> list_all (\<lambda>c. is_ascii_hexdigit (of_char c)) t \<longrightarrow> (\<exists>bs. hex_decode t = Some bs \<and> length bs = n))"

lemma hex_string:
  assumes "list_all (\<lambda>c. is_ascii_hexdigit (of_char c)) t"
  shows "trim (codes t) = codes t" "ascii_text (codes t) = Some t" "strip_hex_prefix t = t"
proof -
  have codes: "list_all is_ascii_hexdigit (codes t)" using assms by (simp add: codes_def list_all_iff)
  then show "trim (codes t) = codes t" by (intro trim_dark) (auto simp: list_all_iff dest: hex_char)
  have chars: "map char_of (codes t) = t" by (simp add: codes_def comp_def)
  show "ascii_text (codes t) = Some t" using codes chars by (auto simp: ascii_text_def list_all_iff dest: hex_char)
  show "strip_hex_prefix t = t" using strip_hex_dark [OF codes] chars by simp
qed

lemma topic_bytes:
  assumes "hex_codec hex_decode hex_encode" "\<And>x. length (keccak x) = 32"
  obtains bs where "normalize_feed_topic keccak hex_decode hex_encode topic = hex_encode bs" "length bs = 32"
proof (cases "\<exists>bs. decode_hex_text hex_decode (trim topic) = Some bs \<and> length bs = 32")
  case True
  then show thesis by (auto simp: normalize_feed_topic_def Let_def intro: that)
next
  case False
  then have "normalize_feed_topic keccak hex_decode hex_encode topic = hex_encode (keccak (to_utf8 (trim topic)))"
    by (auto simp: normalize_feed_topic_def Let_def split: option.split)
  then show thesis by (rule that) (rule assms(2))
qed

lemma lower_twice [simp]: "lower_char (lower_char c) = lower_char c"
proof -
  have "of_char c < (256 :: nat)" by simp
  then show ?thesis by (simp add: lower_char_def ascii_lower_code_def)
qed

lemma offset_loop_bound: "offset_loop xs offset i elapsed = Some k \<Longrightarrow> k < i + length xs"
  by (induction xs arbitrary: i elapsed) (fastforce split: if_splits)+

section \<open>Examples\<close>

definition demo_run :: Run where
  "demo_run = \<lparr>run_mode = PeerMode, run_segments = 8, run_duration = None, run_idle = 0, run_out_dir = None, run_peers = None,
     run_dial_rate = None, run_verify = Some True, run_peer_up = 25, run_hold = False, run_metrics_json = False, run_network_id = 1\<rparr>"

definition demo_live :: LiveStream where
  "demo_live = \<lparr>lv_start_sequence = 0, lv_joined_at = 0, lv_runway_seconds = F64Fin False 8\<rparr>"

lemma demo_payload_of:
  assumes "is_hex_reference r"
  shows "retrieve_payload demo_net example_roots r (Inr [7, 8, 9])"
proof -
  have "64 \<le> length r" using assms by (auto simp: is_hex_reference_def)
  then have "decode_hex_text (fn_hex demo_net) (trim r) = Some example_address"
    unfolding reference_text [OF assms] by (simp add: demo_net_def example_address_def)
  then show ?thesis
    using example_data by (auto simp: retrieve_payload_def retrieve_data_payload_def demo_net_def intro!: exI [of _ "[7, 8, 9]"])
qed

lemma demo_body:
  assumes "is_hex_reference (ss_reference segment)" "\<not> ss_gap segment"
  shows "fetch_segment_reporting demo_net example_roots segment (Inr ([7, 8, 9], 1))"
  using segment_attempts.success [of 0 demo_net example_roots segment "[7, 8, 9]"] demo_payload_of [OF assms(1)] assms(2)
  by (simp add: fetch_segment_reporting_def SEGMENT_BODY_ATTEMPTS_def)

text \<open>A player that has joined a feed of one segment at its start plays it.\<close>

lemma demo_plays:
  obtains p segment q where "parse_playlist demo_manifest = Some p" "follows demo_net [] [] (Turn, live_start 0 p)"
    "hls_segments p = [segment]"
    "(live_step demo_net example_roots [] [] demo_run)\<^sup>*\<^sup>* ((Turn, live_start 0 p), live_begin demo_live) ((Turn, live_start 0 p), q)"
    "lp_written q = [(stream_segment 0 segment, [7, 8, 9])]" "lp_pc q = LoopTop"
proof -
  obtain p where p: "parse_playlist demo_manifest = Some p" "follows demo_net [] [] (Turn, live_start 0 p)"
    using demo_follows by blast
  have one: "hls_sequence p = 0" "length (hls_segments p) = 1" "\<not> seg_gap (hd (hls_segments p))"
    using demo_parses p(1) by auto
  then obtain segment where segment: "hls_segments p = [segment]" by (cases "hls_segments p") auto
  have hex: "is_hex_reference (seg_reference segment)"
    using parse_playlist_wf [OF p(1)] segment by (simp add: playlist_wf_def segment_wf_def)
  let ?c = "(Turn, live_start 0 p)"
  let ?s = "stream_segment 0 segment"
  let ?p0 = "live_begin demo_live" let ?p1 = "live_top demo_run False 0 ?p0" let ?p2 = "?p1\<lparr>lp_pc := FetchBody ?s\<rparr>"
  let ?p3 = "live_body f64_zero f64_zero True False ?s [7, 8, 9] ?p2"
  let ?step = "live_step demo_net example_roots [] [] demo_run"
  have p1: "?p1 = ?p0\<lparr>lp_pc := AwaitSegment\<rparr>"
    by (simp add: live_top_def live_begin_def demo_run_def should_stop_def)
  have s1: "?step (?c, ?p0) (?c, ?p1)" by (rule live_step.top) (simp add: live_begin_def)
  have "live_woken (lf_state (live_start 0 p)) ?p1 = Some ?p2"
    unfolding p1 using one segment
    by (simp add: live_woken_def segment_look_def live_start_def segment_get_def live_begin_def demo_live_def stream_segment_def)
  then have s2: "?step (?c, ?p1) (?c, ?p2)" by (intro live_step.woken) (simp_all add: p1)
  have "fetch_segment_reporting demo_net example_roots ?s (Inr ([7, 8, 9], 1))"
    by (rule demo_body) (use hex one(3) segment in \<open>simp_all add: stream_segment_def\<close>)
  then have s3: "?step (?c, ?p2) (?c, ?p3)" by (intro live_step.body) simp_all
  have "lp_written ?p3 = [(?s, [7, 8, 9])]" "lp_pc ?p3 = LoopTop"
    unfolding p1 by (simp_all add: live_body_def live_account_def live_begin_def demo_live_def next_sequence_def checked_add_def Let_def)
  moreover have "?step\<^sup>*\<^sup>* (?c, ?p0) (?c, ?p3)" using s1 s2 s3 by (meson converse_rtranclp_into_rtranclp rtranclp.rtrancl_refl)
  ultimately show thesis using that p segment by blast
qed

text \<open>A playlist long enough to start from.\<close>

definition long_segment :: HlsSegment where
  "long_segment = (demo_segment 3)\<lparr>seg_duration := F64Fin False 8\<rparr>"

definition long_playlist :: HlsPlaylist where
  "long_playlist = (demo_playlist 3 [])\<lparr>hls_segments := [long_segment, long_segment]\<rparr>"

lemma long_rounds: "round_mag False 8 = F64Fin False 8" "round_mag False 16 = F64Fin False 16"
  by (simp_all add: round_mag_def ulp_of_def lead_exp_def ilog2.simps pow2i_def round_half_even_def Let_def)

lemma long_plan: "\<exists>plan. startup_plan long_playlist Live = Some plan"
proof -
  have seconds: "HLS_LIVE_STARTUP_BUFFER_SECONDS = F64Fin False 8"
    by (simp add: HLS_LIVE_STARTUP_BUFFER_SECONDS_def f64_of_nat_def long_rounds)
  have sums: "f64_add (F64Fin True 0) (F64Fin False 8) = F64Fin False 8" "f64_add (F64Fin False 8) (F64Fin False 8) = F64Fin False 16"
    by (simp_all add: round_value_def long_rounds)
  have "startup_plan long_playlist Live \<noteq> None"
    by (simp add: startup_plan_def long_playlist_def demo_playlist_def rposition_def anchored_startup_plan_def
        beginning_startup_plan_def long_segment_def demo_segment_def seconds sums extend_forward.simps segment_get_def checked_sub_def
        sum_durations_def playlist_duration_def f64_le_def Let_def del: f64_add.simps)
  then show ?thesis by blast
qed

text \<open>A concrete pair of hex functions.\<close>

definition hex_digit :: "nat \<Rightarrow> char" where
  "hex_digit n = char_of (if n < 10 then 48 + n else 87 + n)"

definition hex_value :: "char \<Rightarrow> nat" where
  "hex_value c = (let k = of_char c :: nat in if k < 58 then k - 48 else if k < 71 then k - 55 else k - 87)"

definition example_hex_encode :: "bytes \<Rightarrow> string" where
  "example_hex_encode bs = concat (map (\<lambda>b. [hex_digit (unat b div 16), hex_digit (unat b mod 16)]) bs)"

fun example_hex_decode :: "string \<Rightarrow> bytes option" where
  "example_hex_decode [] = Some []"
| "example_hex_decode [c] = None"
| "example_hex_decode (c # d # t) =
     (if is_ascii_hexdigit (of_char c) \<and> is_ascii_hexdigit (of_char d)
      then map_option (\<lambda>bs. word_of_nat (16 * hex_value c + hex_value d) # bs) (example_hex_decode t) else None)"

lemma hex_digit:
  assumes "n < 16"
  shows "is_ascii_hexdigit (of_char (hex_digit n))" "hex_value (hex_digit n) = n"
  using assms by (cases "n < 10"; simp add: hex_digit_def hex_value_def is_ascii_hexdigit_def Let_def)+

lemma example_hex_codec: "hex_codec example_hex_decode example_hex_encode"
proof -
  have digits: "unat b div 16 < 16" "unat b mod 16 < 16" "16 * (unat b div 16) + unat b mod 16 = unat b" for b :: u8
    using u8_bound [of b] by (simp_all add: div_less_iff_less_mult del: u8_bound)
  have "example_hex_decode (example_hex_encode bs) = Some bs" for bs
    by (induction bs) (simp_all add: example_hex_encode_def hex_digit digits)
  moreover have "list_all (\<lambda>c. is_ascii_hexdigit (of_char c)) (example_hex_encode bs)" for bs
    by (induction bs) (simp_all add: example_hex_encode_def hex_digit digits)
  moreover have "\<exists>bs. example_hex_decode t = Some bs \<and> length bs = n"
    if "length t = 2 * n" "list_all (\<lambda>c. is_ascii_hexdigit (of_char c)) t" for t n
    using that
  proof (induction n arbitrary: t)
    case (Suc n)
    obtain c d u where t: "t = c # d # u" "length u = 2 * n" using Suc.prems(1) by (auto simp: length_Suc_conv)
    then obtain bs where "example_hex_decode u = Some bs" "length bs = n" using Suc by fastforce
    then show ?case using t Suc.prems(2) by simp
  qed simp
  ultimately show ?thesis by (simp add: hex_codec_def)
qed

section \<open>Properties\<close>



text \<open>
  C10.  The live player plays in order and nothing twice: the sequence numbers of the bodies written
  increase strictly from where the stream was joined, and until it stops with an error or a panic the segments played
  and the gaps counted fit into the sequence numbers passed.
\<close>

theorem played_in_order:
  assumes "(live_step net roots owner topic run)\<^sup>*\<^sup>* (c, live_begin live) (c', p)"
  shows "sorted_wrt (<) (map (ss_sequence \<circ> fst) (lp_written p)) \<and> lp_played p = length (lp_written p) \<and>
    (\<forall>x \<in> set (lp_written p). lv_start_sequence live \<le> ss_sequence (fst x)) \<and>
    (\<not> stopped_badly p \<longrightarrow> unat (lv_start_sequence live) + lp_played p + unat (lp_gaps p) \<le> unat (lp_sequence p))"
  using order_inv_run [OF assms] by (auto simp: order_defs)

theorem played_in_order_witness:
  "\<exists>(p :: HlsPlaylist) segment (q :: LivePlayer). hls_segments p = [segment] \<and> lp_written q = [(stream_segment 0 segment, [7, 8, 9])] \<and>
    1 + unat (lp_gaps q) \<le> unat (lp_sequence q)"
proof (rule demo_plays)
  fix p segment q
  assume one: "hls_segments p = [segment]" and w: "lp_written q = [(stream_segment 0 segment, [7, 8, 9])]" and pc: "lp_pc q = LoopTop"
    and run: "(live_step demo_net example_roots [] [] demo_run)\<^sup>*\<^sup>* ((Turn, live_start 0 p), live_begin demo_live) ((Turn, live_start 0 p), q)"
  from played_in_order [OF run] show ?thesis
    using one w pc by (intro exI [of _ p] exI [of _ segment] exI [of _ q]) (simp add: stopped_badly_def demo_live_def)
qed



text \<open>
  C19.  A playlist that is not live is played segment by segment from its first one: what is written
  are the first segments, each with a body that is not empty and none of them a gap, and a failure is
  that of the next segment.  A gap therefore ends the playback of a finished recording, whereas the
  live player steps over it.
\<close>

theorem play_writes_prefix:
  assumes "play net roots run playlist (e, p)"
  shows "map fst (pd_written p) = take (pd_played p) (spl_segments playlist) \<and> pd_played p \<le> run_segments run \<and>
    pd_total p = sum_list (map (length \<circ> snd) (pd_written p)) \<and>
    (\<forall>x \<in> set (pd_written p). \<not> ss_gap (fst x) \<and> snd x \<noteq> []) \<and>
    (\<forall>error. e = PlayFailed error \<longrightarrow> pd_played p < length (spl_segments playlist) \<and>
       fetch_segment_reporting net roots (spl_segments playlist ! pd_played p) (Inl error))"
proof -
  let ?segs = "take (run_segments run) (spl_segments playlist)"
  have start: "written_total play_begin" "map fst (pd_written play_begin) = []"
    by (simp_all add: written_total_def play_begin_def)
  obtain n where n: "n \<le> length ?segs" "map fst (pd_written p) = take n ?segs" "written_total p"
    "\<forall>error. e = PlayFailed error \<longrightarrow> n < length ?segs \<and> fetch_segment_reporting net roots (?segs ! n) (Inl error)"
    using play_segments_prefix [OF assms [unfolded play_def] start(1)] unfolding fst_conv snd_conv start(2) append_Nil by blast
  have "length (pd_written p) = n" using arg_cong [OF n(2), of length] n(1) by simp
  then have "pd_played p = n" using n(3) by (simp add: written_total_def)
  then show ?thesis using n by (auto simp: written_total_def)
qed

theorem play_writes_prefix_witness:
  "\<exists>(q :: Played) gap. ss_gap gap \<and> map fst (pd_written q) = take 1 [stream_segment 3 (demo_segment 3), gap] \<and> pd_total q = 3 \<and>
    play demo_net example_roots demo_run (stream_playlist 0 ((demo_playlist 3 [3, 4])\<lparr>hls_segments := [demo_segment 3, demo_segment 4\<lparr>seg_gap := True\<rparr>]\<rparr>))
      (PlayFailed (SegmentIsGap 4), q)"
proof -
  let ?a = "stream_segment 3 (demo_segment 3)" let ?b = "stream_segment 4 (demo_segment 4\<lparr>seg_gap := True\<rparr>)"
  let ?playlist = "stream_playlist 0 ((demo_playlist 3 [3, 4])\<lparr>hls_segments := [demo_segment 3, demo_segment 4\<lparr>seg_gap := True\<rparr>]\<rparr>)"
  have segments: "spl_segments ?playlist = [?a, ?b]"
    by (simp add: stream_playlist_def demo_playlist_def saturating_add_def)
  obtain q where q: "play_account f64_zero ?a [7, 8, 9] play_begin = Some q" by (simp add: play_account_def play_begin_def)
  have "is_hex_reference (ss_reference ?a) \<and> \<not> ss_gap ?a"
    by (simp add: stream_segment_def demo_segment_def is_hex_reference_def is_ascii_hexdigit_def list_all_iff)
  then have a: "fetch_segment_reporting demo_net example_roots ?a (Inr ([7, 8, 9], 1))" by (intro demo_body) simp_all
  have b: "fetch_segment_reporting demo_net example_roots ?b (Inl (SegmentIsGap 4))"
    by (simp add: fetch_segment_reporting_def stream_segment_def)
  have "play_segments demo_net example_roots [?a, ?b] play_begin (PlayFailed (SegmentIsGap 4), q)"
    by (rule play_segments.accounted [OF a q _ play_segments.not_fetched [OF b], of False]) simp
  then have run: "play demo_net example_roots demo_run ?playlist (PlayFailed (SegmentIsGap 4), q)"
    by (simp add: play_def segments demo_run_def)
  have "pd_played q = 1" "pd_total q = 3" using play_account_fields [OF q] by (simp_all add: play_begin_def)
  then show ?thesis
    using play_writes_prefix [OF run] run unfolding segments by (intro exI [of _ q] exI [of _ ?b]) (simp add: stream_segment_def)
qed

text \<open>
  C35.  The two ways to ask a live stream for a segment agree: the playlist that a viewer reads,
  with its own gaps marked in whatever order they are iterated, lists for each sequence number the
  segment that is handed out for it, and no other.
\<close>

theorem stream_views_agree:
  assumes "set order = ls_gaps state" "unat (hls_sequence (ls_playlist state)) + length (hls_segments (ls_playlist state)) \<le> 2 ^ 64"
  shows "find (\<lambda>s. ss_sequence s = sequence) (spl_segments (live_playlist order state)) =
    (case segment_look sequence state of Ready segment \<Rightarrow> Some (stream_segment sequence segment) | _ \<Rightarrow> None)"
proof -
  have "find (\<lambda>s. ss_sequence s = sequence) (spl_segments (live_playlist order state)) =
      map_option (stream_segment sequence) (timeline (snapshot order state) (unat sequence))"
    unfolding live_playlist_def
    by (rule stream_playlist_find) (use assms(2) mark_gaps_shape in \<open>simp add: snapshot_def\<close>)
  also have "timeline (snapshot order state) (unat sequence) = look_segment (segment_look sequence state)"
    by (simp add: segment_look_timeline snapshot_def timeline_mark_gaps assms(1))
  finally show ?thesis by (simp add: look_segment_def split: SegmentLook.split)
qed

theorem stream_views_agree_witness:
  "find (\<lambda>s. ss_sequence s = 3) (spl_segments (live_playlist [(3, replicate 64 51)]
     ((lf_state (live_start 0 (demo_playlist 3 [3, 4])))\<lparr>ls_gaps := {(3, replicate 64 51)}\<rparr>)))
   = Some (stream_segment 3 (demo_segment 3\<lparr>seg_gap := True\<rparr>))"
proof -
  let ?s = "(lf_state (live_start 0 (demo_playlist 3 [3, 4])))\<lparr>ls_gaps := {(3, replicate 64 51)}\<rparr>"
  have "segment_look 3 ?s = Ready (demo_segment 3\<lparr>seg_gap := True\<rparr>)"
    by (simp add: segment_look_def live_start_def demo_playlist_def segment_get_def Let_def)
      (simp add: demo_segment_def)
  then show ?thesis
    using stream_views_agree [of "[(3, replicate 64 51)]" ?s 3] by (simp add: live_start_def demo_playlist_def)
qed

text \<open>
  C36.  The segment a viewer starts with is there: when joining finds a runway, its start sequence
  gives a segment of the playlist at once.
\<close>

theorem join_start_available:
  assumes "runway_look state = Some (Inr j)"
    "unat (hls_sequence (ls_playlist state)) + length (hls_segments (ls_playlist state)) \<le> 2 ^ 64"
  shows "\<exists>segment. segment_look (join_start_sequence j) state = Ready segment"
proof -
  let ?p = "ls_playlist state"
  obtain plan where plan: "startup_plan ?p Live = Some plan"
    "join_start_sequence j = saturating_add (hls_sequence ?p) (sequence_at_offset ?p (plan_play_position plan))"
    using assms(1) by (auto simp: runway_look_def Let_def split: option.splits if_splits)
  have "hls_segments ?p \<noteq> []"
    using plan(1) by (auto simp: startup_plan_def rposition_def bind_eq_Some_conv)
  have "unat (sequence_at_offset ?p (plan_play_position plan)) < length (hls_segments ?p)"
  proof (cases "offset_loop (hls_segments ?p) (plan_play_position plan) 0 f64_zero")
    case None
    then show ?thesis using \<open>hls_segments ?p \<noteq> []\<close> assms(2) by (simp add: sequence_at_offset_def unat_of_nat)
  next
    case (Some k)
    then show ?thesis using offset_loop_bound [OF Some] assms(2) by (simp add: sequence_at_offset_def unat_of_nat)
  qed
  then have "unat (join_start_sequence j) = unat (hls_sequence ?p) + unat (sequence_at_offset ?p (plan_play_position plan))"
    "unat (sequence_at_offset ?p (plan_play_position plan)) < length (hls_segments ?p)"
    using plan(2) assms(2) by (simp_all add: unat_saturating_add)
  then show ?thesis
    by (simp add: segment_look_def segment_get_def Let_def word_less_nat_alt unat_sub word_le_nat_alt)
qed

theorem join_start_available_witness:
  "\<exists>j segment. runway_look (lf_state (live_start 0 long_playlist)) = Some (Inr j) \<and>
     segment_look (join_start_sequence j) (lf_state (live_start 0 long_playlist)) = Ready segment"
proof -
  obtain j where j: "runway_look (lf_state (live_start 0 long_playlist)) = Some (Inr j)"
    using long_plan by (auto simp: runway_look_def live_start_def)
  from join_start_available [OF this] show ?thesis using j by (auto simp: live_start_def long_playlist_def demo_playlist_def)
qed

text \<open>
  C37.  The names a user types lead to an address: an accepted owner and any topic, in hexadecimal
  or not, give a feed address of 32 bytes for every index, and normalising a second time changes
  nothing.
\<close>

theorem normalized_names_address:
  assumes "hex_codec hex_decode hex_encode" "\<And>x. length (keccak x) = 32" "normalize_feed_owner owner = Inr normalized"
  shows "length (get_feed_address keccak hex_decode normalized (normalize_feed_topic keccak hex_decode hex_encode topic) index) = 32 \<and>
    normalize_feed_owner (codes normalized) = Inr normalized \<and>
    normalize_feed_topic keccak hex_decode hex_encode (codes (normalize_feed_topic keccak hex_decode hex_encode topic)) =
      normalize_feed_topic keccak hex_decode hex_encode topic"
proof -
  obtain bs where t: "normalize_feed_topic keccak hex_decode hex_encode topic = hex_encode bs" "length bs = 32"
    by (rule topic_bytes [OF assms(1,2)])
  have hex: "list_all (\<lambda>c. is_ascii_hexdigit (of_char c)) (hex_encode bs)" "hex_decode (hex_encode bs) = Some bs"
    using assms(1) by (simp_all add: hex_codec_def)
  obtain s where o: "ascii_text (trim owner) = Some s" "normalized = map lower_char (strip_hex_prefix s)" "length normalized = 40"
    "list_all (\<lambda>c. is_ascii_hexdigit (of_char c)) normalized"
    using assms(3) by (auto simp: normalize_feed_owner_def Let_def split: option.splits if_splits)
  have "length normalized = 2 * 20" using o(3) by simp
  then obtain ob where ob: "hex_decode normalized = Some ob" "length ob = 20"
    using assms(1) o(4) unfolding hex_codec_def by blast
  have "length (get_feed_address keccak hex_decode normalized (hex_encode bs) index) = 32"
    using ob hex t(2) by (auto simp: get_feed_address_def hex_string(3) [OF o(4)] hex_string(3) [OF hex(1)] sequence_feed_address_def assms(2))
  moreover have "map lower_char normalized = normalized" by (simp add: o(2) comp_def)
  then have "normalize_feed_owner (codes normalized) = Inr normalized"
    using o(3,4) by (simp add: normalize_feed_owner_def hex_string [OF o(4)] Let_def)
  moreover have "normalize_feed_topic keccak hex_decode hex_encode (codes (hex_encode bs)) = hex_encode bs"
    using hex(2) t(2) by (simp add: normalize_feed_topic_def decode_hex_text_def hex_string [OF hex(1)] Let_def)
  ultimately show ?thesis unfolding t(1) by blast
qed

theorem normalized_names_address_witness:
  "length (get_feed_address example_keccak example_hex_decode (replicate 40 CHR ''a'')
     (normalize_feed_topic example_keccak example_hex_decode example_hex_encode (codes ''live'')) 7) = 32"
proof -
  have "strip_hex_prefix (replicate 40 CHR ''A'') = replicate 40 CHR ''A''" by (simp add: strip_hex_prefix_def eval_nat_numeral)
  moreover have "trim (replicate 40 65) = replicate 40 65" by (rule trim_dark) (simp add: list_all_iff is_whitespace_def)
  moreover have "lower_char CHR ''A'' = CHR ''a''" by code_simp
  moreover have "char_of (65 :: nat) = CHR ''A''" by code_simp
  ultimately have "normalize_feed_owner (replicate 40 65) = Inr (replicate 40 CHR ''a'')"
    by (simp add: normalize_feed_owner_def ascii_text_def list_all_iff is_ascii_hexdigit_def Let_def)
  from normalized_names_address [OF example_hex_codec _ this, of example_keccak "codes ''live''" 7] show ?thesis
    by (simp add: example_keccak_def)
qed

end
