(* ===== verification/Spec2Isabelle.thy ===== *)
theory Spec2Isabelle
  imports ReedSolomon RetrievalConventions Feed Handlers HlsMerge ChunkCache RangeRead PlayerSafety
begin

text \<open>
  A verification library for a Swarm light client that watches live streams (a Rust crate, sources
  under \<open>src/src/\<close>).  The client keeps a population of peers, pays them for chunks, retrieves
  chunks with redundancy, joins them into byte ranges, follows sequence feeds and plays the HLS
  playlists they publish.

  \<^bold>\<open>How the parts interact.\<close>  The node (\<open>lib.rs\<close>, \<open>network_conventions.rs\<close>)
  dials addresses that gossip or bootnodes offer, shakes hands (\<open>handlers.rs\<close>), opens an
  account with every peer (\<open>accounting.rs\<close>) and publishes its overlay.  A range read
  (\<open>retrieval.rs\<close>) walks a tree of chunks; each intermediate chunk becomes a group fetch,
  which asks the chunk layer for shards, settles their price with the accounts and repairs missing
  ones (\<open>erasure_coding.rs\<close>).  The feed search (\<open>feed.rs\<close>) finds the newest update of a
  stream, whose playlists (\<open>stream_hls.rs\<close>) are merged as the stream advances.  The follower
  (\<open>stream_follow.rs\<close>) runs beside the player (\<open>main.rs\<close>), which asks the viewer
  (\<open>viewer.rs\<close>) for one segment body after the other.

  \<^bold>\<open>Theories.\<close>
  \<^item> \<open>Prelude\<close>: machine integers with the checked, saturating and wrapping operators, byte
    codecs, slices.  \<open>F64\<close>: doubles as rationals with rounding to nearest even.
    \<open>Memo\<close>: lookups that only store computed values (locale).  \<open>Reservation\<close>: the
    interface of counted reservations (locale), interpreted on the accounts and on the connection
    slots.
  \<^item> \<open>Accounting\<close> (\<open>accounting.rs\<close>): one account per peer.  The reserve is exact and
    bounded by the announced threshold on every history of operations.
  \<^item> \<open>GF256\<close>, \<open>CodingMatrix\<close>, \<open>ReedSolomon\<close> (\<open>erasure_coding.rs\<close>): the field
    as coded, elimination, the systematic coding matrix, the matrix cache and reconstruction, with
    recovery from any sufficient set of shards and the outcome on every branch.
  \<^item> \<open>ErasureLayout\<close> (\<open>erasure_coding.rs\<close>): redundancy tables, spans, reference layouts and
    dispersed replicas.
  \<^item> \<open>Conventions\<close> (\<open>conventions.rs\<close>): proximity, the binary Merkle tree, chunk validity,
    handshake sign data.
  \<^item> \<open>RetrievalConventions\<close> (\<open>retrieval_conventions.rs\<close>): generations, admission with its
    atomic claim loop as a step relation over threads, hedging, single flights.
  \<^item> \<open>Feed\<close> (\<open>feed.rs\<close>): the frontier search over every answer and completion order.
  \<^item> \<open>Addresses\<close> (\<open>addresses.rs\<close>), \<open>Network\<close> (\<open>network_conventions.rs\<close>),
    \<open>Node\<close>, \<open>NodeSafety\<close> (\<open>lib.rs\<close>): addresses, connection state, and the event
    handlers of the node with the invariants of the whole state machine.
  \<^item> \<open>Handlers\<close> (\<open>handlers.rs\<close>): the protocol exchanges over an explicit stream.
  \<^item> \<open>Hls\<close>, \<open>HlsMerge\<close> (\<open>stream_hls.rs\<close>): playlists from bytes, startup plans, merging
    as the union of timelines.
  \<^item> \<open>Chunks\<close>, \<open>ChunkCache\<close> (\<open>retrieval.rs\<close>, \<open>bzz_stream.rs\<close>,
    \<open>manifest.rs\<close>): decoding and decryption of chunks and the cache of decoded chunks as a
    least-recently-used map.
  \<^item> \<open>RetrieveChunk\<close>, \<open>RetrieveSafety\<close> (\<open>retrieval.rs\<close>): the retrieval of one
    chunk from the peers, many of them running over the same accounts: selection and reservation of
    a peer, attempts, hedging, settlement.  The reserve held with a peer is the sum of the prices of
    the running attempts, the attempts are bounded, and with verification on every chunk handed out
    is one of the requested address.  What a caller relies on is the locale \<open>chunk_service\<close>,
    interpreted on this model.
  \<^item> \<open>RawFetch\<close>, \<open>CacheSound\<close>, \<open>RawFetchSafety\<close>, \<open>Channels\<close>
    (\<open>retrieval.rs\<close>): shared fetches of raw chunks, the results they deliver to their
    waiters and what they leave in the cache.
  \<^item> \<open>Group\<close>, \<open>GroupSafety\<close> (\<open>retrieval.rs\<close>): the fetch of a group of shards with
    its rolling parity, top-ups, time-outs and recovery, as a step relation.
  \<^item> \<open>Join\<close>, \<open>JoinSafety\<close>, \<open>JoinRead\<close>, \<open>RangeRead\<close>
    (\<open>retrieval.rs\<close>): the range reader over groups (locale \<open>group_fetcher\<close>, to which
    the chunk layer is a sublocale).  The bytes a range read returns are the bytes of the file the
    root addresses, unless two chunks of the run exhibit a hash collision.
  \<^item> \<open>FeedFetch\<close> (\<open>retrieval.rs\<close>, \<open>bzz_stream.rs\<close>): feed updates and their payloads over
    the chunk layer and the range reader.
  \<^item> \<open>StreamFollow\<close>, \<open>FollowInvariant\<close>, \<open>FollowSafety\<close>
    (\<open>stream_follow.rs\<close>): the task that keeps a live playlist current and the player's view of
    it, as a step relation.  Every reference it holds was published under the owner's signature, the
    stream only moves forward, no wake-up is lost and an update that can be read is applied.
  \<^item> \<open>RootFetch\<close>, \<open>RootSafety\<close> (\<open>retrieval.rs\<close>): the fetch of a root chunk with its
    dispersed replicas, batch by batch, and the readers of whole files on top of it.  A root fetch
    gives up only when every request has been answered, and what a whole-file read returns is the
    file, unless the chunks fetched exhibit a collision.
  \<^item> \<open>Viewer\<close> (\<open>viewer.rs\<close>, \<open>conventions.rs\<close>), \<open>Player\<close>,
    \<open>PlayerSafety\<close> (\<open>main.rs\<close>): names and references as a user types them, the reads of the
    viewer, the command line, the wait for peers and the two players.  The bodies a live player writes
    are the contents of references that the owner of the feed published, in order and none twice;
    a body that cannot be fetched is asked for again once and then stepped over.

  \<^bold>\<open>Modelling choices.\<close>  Keccak, the curve, protobuf encoding and the multiaddress codec are
  parameters.  The tasks of the node run on one thread, so a handler is divided into sections at its
  await points and each section is one atomic step; shared atomics of the admission are stepped one
  by one.  Loops without a bound of their own are \<open>partial_function (option)\<close>, where
  \<open>None\<close> would mean that the loop does not return, and theorems show that they return.  An
  index out of range, a failed assertion or an arithmetic overflow is a value of its own
  (\<open>Panic\<close> or an inner \<open>None\<close>).  A \<open>usize\<close> has 64 bits.

  \<^bold>\<open>Bounds and fuel.\<close>  A segment body is asked for at most six times, a retrieval makes
  at most twenty attempts, a root batch doubles from two; these are the constants of the code and the
  theorems are about them, not about fuel.

  \<^bold>\<open>Not modelled.\<close>  Of \<open>main.rs\<close>: metrics, summaries and log lines, the memory
  allocator, signal handlers, the \<open>--hold\<close> barrier on standard input and the \<open>get\<close>, \<open>feed\<close>
  and peer-only modes, which print what the modelled reads return.  Of \<open>viewer.rs\<close>: starting the
  node, connection counts, cache reports and log draining, which forward to modelled state.  Timers
  and dial pacing (\<open>dial_pacing.rs\<close>), key files (\<open>signer.rs\<close>, \<open>persistence.rs\<close>), stubs,
  the bootnode tables, rendering of playlists and the construction of the libp2p swarm are input and
  output of the platform or data.
\<close>

end
